(* ===== verification/Prelude.thy ===== *)
theory Prelude
  imports Main "HOL-Library.Word" "HOL-Library.List_Lexorder" "HOL-Library.Product_Lexorder"
begin

text \<open>
  The shared vocabulary of the development: bytes and byte strings, Rust's saturating
  arithmetic, \<open>Result\<close> values, big-endian integers, UTF-8 validity, and the ordered
  containers (\<open>BTreeMap\<close>, \<open>BTreeSet\<close>) that the runtime keeps its state in.  Two
  interfaces are stated as locales because several components implement them: a strict
  codec (\<open>strict_codec\<close>) and a machine whose every step keeps an invariant
  (\<open>stepwise\<close>).
\<close>

unbundle bit_operations_syntax

section \<open>Types and collections of facts\<close>

type_synonym byte = "8 word"
type_synonym bytes = "byte list"
type_synonym u64 = "64 word"

named_theorems bt_simps \<open>rewrite rules for the ordered containers\<close>
named_theorems codec_simps \<open>rewrite rules for byte encodings and cursors\<close>

section \<open>Rust results\<close>

text \<open>A Rust \<open>Result<T, E>\<close> is the sum type with the error on the left.\<close>

abbreviation Err :: "'e \<Rightarrow> 'e + 'a" where
  "Err \<equiv> Inl"

abbreviation Ok :: "'a \<Rightarrow> 'e + 'a" where
  "Ok \<equiv> Inr"

text \<open>The \<open>?\<close> operator: leave with the error, or go on with the value.\<close>

definition and_then :: "'e + 'a \<Rightarrow> ('a \<Rightarrow> 'e + 'b) \<Rightarrow> 'e + 'b" where
  "and_then r f = (case r of Inl e \<Rightarrow> Inl e | Inr x \<Rightarrow> f x)"

definition map_err :: "('e \<Rightarrow> 'f) \<Rightarrow> 'e + 'a \<Rightarrow> 'f + 'a" where
  "map_err g r = (case r of Inl e \<Rightarrow> Inl (g e) | Inr x \<Rightarrow> Inr x)"

definition is_ok :: "'e + 'a \<Rightarrow> bool" where
  "is_ok r = (case r of Inl _ \<Rightarrow> False | Inr _ \<Rightarrow> True)"

lemma and_then_simps [simp]:
  "and_then (Inl e) f = Inl e"
  "and_then (Inr x) f = f x"
  by (simp_all add: and_then_def)

lemma and_then_eq_Inr:
  "and_then r f = Inr y \<longleftrightarrow> (\<exists>x. r = Inr x \<and> f x = Inr y)"
  by (cases r) simp_all

lemma and_then_eq_Inl:
  "and_then r f = Inl e \<longleftrightarrow> r = Inl e \<or> (\<exists>x. r = Inr x \<and> f x = Inl e)"
  by (cases r) simp_all

lemma map_err_simps [simp]:
  "map_err g (Inl e) = Inl (g e)"
  "map_err g (Inr x) = Inr x"
  by (simp_all add: map_err_def)

lemma map_err_eq_Inr [simp]: "map_err g r = Inr y \<longleftrightarrow> r = Inr y"
  by (cases r) simp_all

lemma map_err_eq_Inl: "map_err g r = Inl e \<longleftrightarrow> (\<exists>d. r = Inl d \<and> e = g d)"
  by (cases r) auto

lemma is_ok_simps [simp]: "is_ok (Inr x)" "\<not> is_ok (Inl e)"
  by (simp_all add: is_ok_def)

section \<open>Saturating arithmetic\<close>

text \<open>
  Clock readings and counters are natural numbers below the width's maximum; Rust's
  \<open>saturating_add\<close> and \<open>saturating_mul\<close> clip at that maximum and
  \<open>saturating_sub\<close> is the truncated subtraction of \<open>nat\<close>.
\<close>

definition U64_MAX :: nat where
  "U64_MAX = 2 ^ 64 - 1"

definition U32_MAX :: nat where
  "U32_MAX = 2 ^ 32 - 1"

definition sat_add64 :: "nat \<Rightarrow> nat \<Rightarrow> nat" where
  "sat_add64 a b = min (a + b) U64_MAX"

definition sat_mul64 :: "nat \<Rightarrow> nat \<Rightarrow> nat" where
  "sat_mul64 a b = min (a * b) U64_MAX"

definition sat_add32 :: "nat \<Rightarrow> nat \<Rightarrow> nat" where
  "sat_add32 a b = min (a + b) U32_MAX"

lemma sat_add64_le: "sat_add64 a b \<le> a + b" "sat_add64 a b \<le> U64_MAX"
  by (simp_all add: sat_add64_def)

lemma sat_add64_eq: "a + b \<le> U64_MAX \<Longrightarrow> sat_add64 a b = a + b"
  by (simp add: sat_add64_def)

lemma sat_mul64_le: "sat_mul64 a b \<le> a * b"
  by (simp add: sat_mul64_def)

lemma sat_add32_le: "sat_add32 a b \<le> a + b"
  by (simp add: sat_add32_def)

section \<open>Big-endian integers\<close>

lemma unat_byte_less: "unat (b :: byte) < 256"
  by (rule order.strict_trans2 [OF unsigned_less]) simp

lemma unat_u64_less: "unat (w :: u64) < 2 ^ 64"
  by (rule order.strict_trans2 [OF unsigned_less]) simp

primrec be_bytes :: "nat \<Rightarrow> nat \<Rightarrow> bytes" where
  "be_bytes 0 n = []"
| "be_bytes (Suc w) n = word_of_nat (n div 256 ^ w) # be_bytes w n"

primrec be_val :: "bytes \<Rightarrow> nat" where
  "be_val [] = 0"
| "be_val (b # bs) = unat b * 256 ^ length bs + be_val bs"

lemma length_be_bytes [simp]: "length (be_bytes w n) = w"
  by (induction w) simp_all

lemma be_val_less: "be_val bs < 256 ^ length bs"
proof (induction bs)
  case Nil
  then show ?case by simp
next
  case (Cons b bs)
  have "unat b < 256"
    by (rule unat_byte_less)
  then have "unat b * 256 ^ length bs \<le> 255 * 256 ^ length bs"
    by (intro mult_right_mono) simp_all
  with Cons have "unat b * 256 ^ length bs + be_val bs < 255 * 256 ^ length bs + 256 ^ length bs"
    by linarith
  then show ?case by simp
qed

lemma be_bytes_mod: "be_bytes w (n mod 256 ^ w) = be_bytes w n"
proof -
  have aux: "be_bytes v (n mod 256 ^ w) = be_bytes v n" if "v \<le> w" for v
    using that
  proof (induction v)
    case 0
    then show ?case by simp
  next
    case (Suc v)
    have "256 ^ w = 256 ^ v * (256 ^ (w - v) :: nat)"
      using Suc.prems by (simp add: power_add [symmetric])
    then have "(n mod 256 ^ w) div 256 ^ v = (n div 256 ^ v) mod 256 ^ (w - v)"
      by (simp add: mod_mult2_eq)
    moreover have "256 ^ (w - v) = 256 * (256 ^ (w - v - 1) :: nat)"
      using Suc.prems by (simp add: power_eq_if)
    then have "((n div 256 ^ v) mod 256 ^ (w - v)) mod 256 = (n div 256 ^ v) mod 256"
      by (simp add: mod_mod_cancel)
    ultimately have "word_of_nat ((n mod 256 ^ w) div 256 ^ v) = (word_of_nat (n div 256 ^ v) :: byte)"
      by (simp add: word_of_nat_eq_iff take_bit_nat_def)
    with Suc show ?case by simp
  qed
  then show ?thesis by simp
qed

lemma be_val_be_bytes: "be_val (be_bytes w n) = n mod 256 ^ w"
proof (induction w)
  case 0
  then show ?case by simp
next
  case (Suc w)
  have "unat (word_of_nat (n div 256 ^ w) :: byte) = n div 256 ^ w mod 256"
    by (simp add: unat_of_nat)
  then show ?case
    using Suc mod_mult2_eq [of n "256 ^ w" 256] by (simp add: mult.commute)
qed

lemma be_bytes_be_val: "be_bytes (length bs) (be_val bs) = bs"
proof (induction bs)
  case Nil
  then show ?case by simp
next
  case (Cons b bs)
  have "(unat b * 256 ^ length bs + be_val bs) div 256 ^ length bs = unat b"
    using be_val_less [of bs] by simp
  moreover have "be_bytes (length bs) (unat b * 256 ^ length bs + be_val bs) = bs"
    using be_bytes_mod [of "length bs" "unat b * 256 ^ length bs + be_val bs"]
      be_val_less [of bs] Cons
    by simp
  ultimately show ?case by simp
qed

definition u64_be :: "u64 \<Rightarrow> bytes" where
  "u64_be w = be_bytes 8 (unat w)"

definition u64_from_be :: "bytes \<Rightarrow> u64" where
  "u64_from_be bs = word_of_nat (be_val bs)"

lemma length_u64_be [simp]: "length (u64_be w) = 8"
  by (simp add: u64_be_def)

lemma u64_from_be_u64_be [simp]: "u64_from_be (u64_be w) = w"
  using unat_u64_less [of w]
  by (simp add: u64_from_be_def u64_be_def be_val_be_bytes)

lemma u64_be_u64_from_be: "length bs = 8 \<Longrightarrow> u64_be (u64_from_be bs) = bs"
  using be_val_less [of bs] be_bytes_be_val [of bs]
  by (simp add: u64_be_def u64_from_be_def unat_of_nat)

section \<open>UTF-8\<close>

text \<open>
  \<open>core::str::from_utf8\<close> accepts exactly the well-formed byte sequences of the
  Unicode standard (table 3-7): no overlong forms, no surrogates, nothing above U+10FFFF.
\<close>

definition utf8_cont :: "byte \<Rightarrow> bool" where
  "utf8_cont b \<longleftrightarrow> 0x80 \<le> b \<and> b \<le> 0xBF"

fun utf8_ok :: "bytes \<Rightarrow> bool" where
  "utf8_ok [] = True"
| "utf8_ok (a # r) =
    (if a \<le> 0x7F then utf8_ok r
     else if 0xC2 \<le> a \<and> a \<le> 0xDF then
       (case r of b # r1 \<Rightarrow> utf8_cont b \<and> utf8_ok r1 | _ \<Rightarrow> False)
     else if 0xE0 \<le> a \<and> a \<le> 0xEF then
       (case r of b # c # r2 \<Rightarrow>
          (if a = 0xE0 then 0xA0 \<le> b \<and> b \<le> 0xBF
           else if a = 0xED then 0x80 \<le> b \<and> b \<le> 0x9F
           else utf8_cont b)
          \<and> utf8_cont c \<and> utf8_ok r2
        | _ \<Rightarrow> False)
     else if 0xF0 \<le> a \<and> a \<le> 0xF4 then
       (case r of b # c # d # r3 \<Rightarrow>
          (if a = 0xF0 then 0x90 \<le> b \<and> b \<le> 0xBF
           else if a = 0xF4 then 0x80 \<le> b \<and> b \<le> 0x8F
           else utf8_cont b)
          \<and> utf8_cont c \<and> utf8_cont d \<and> utf8_ok r3
        | _ \<Rightarrow> False)
     else False)"

lemma utf8_ok_ascii: "list_all (\<lambda>b. b \<le> 0x7F) bs \<Longrightarrow> utf8_ok bs"
  by (induction bs) simp_all

section \<open>Ordered maps and sets\<close>

text \<open>
  A \<open>BTreeMap\<close> is the list of its entries in strictly increasing key order, which is
  the order its iterators yield; a \<open>BTreeSet\<close> is the strictly increasing list of its
  elements.  \<open>bm_ok\<close> and \<open>bs_ok\<close> are the representation invariants.
\<close>

type_synonym ('k, 'v) bmap = "('k \<times> 'v) list"
type_synonym 'k bset = "'k list"

definition bm_ok :: "('k :: linorder, 'v) bmap \<Rightarrow> bool" where
  "bm_ok m \<longleftrightarrow> sorted_wrt (<) (map fst m)"

abbreviation bm_get :: "('k, 'v) bmap \<Rightarrow> 'k \<Rightarrow> 'v option" where
  "bm_get \<equiv> map_of"

fun bm_insert :: "'k :: linorder \<Rightarrow> 'v \<Rightarrow> ('k, 'v) bmap \<Rightarrow> ('k, 'v) bmap" where
  "bm_insert k v [] = [(k, v)]"
| "bm_insert k v (e # m) =
    (if fst e < k then e # bm_insert k v m
     else if fst e = k then (k, v) # m
     else (k, v) # e # m)"

definition bm_remove :: "'k \<Rightarrow> ('k, 'v) bmap \<Rightarrow> ('k, 'v) bmap" where
  "bm_remove k m = filter (\<lambda>e. fst e \<noteq> k) m"

definition bm_has :: "('k, 'v) bmap \<Rightarrow> 'k \<Rightarrow> bool" where
  "bm_has m k \<longleftrightarrow> bm_get m k \<noteq> None"

definition bm_retain :: "('k \<Rightarrow> 'v \<Rightarrow> bool) \<Rightarrow> ('k, 'v) bmap \<Rightarrow> ('k, 'v) bmap" where
  "bm_retain P m = filter (\<lambda>(k, v). P k v) m"

text \<open>\<open>values_mut\<close>: apply a change to every value in place.\<close>

definition bm_map_values :: "('v \<Rightarrow> 'w) \<Rightarrow> ('k, 'v) bmap \<Rightarrow> ('k, 'w) bmap" where
  "bm_map_values f m = map (\<lambda>(k, v). (k, f v)) m"

definition bs_ok :: "'k :: linorder bset \<Rightarrow> bool" where
  "bs_ok s \<longleftrightarrow> sorted_wrt (<) s"

definition bs_insert :: "'k :: linorder \<Rightarrow> 'k bset \<Rightarrow> 'k bset" where
  "bs_insert k s = insort_insert k s"

definition bs_remove :: "'k \<Rightarrow> 'k bset \<Rightarrow> 'k bset" where
  "bs_remove k s = filter (\<lambda>x. x \<noteq> k) s"

definition bs_from_list :: "'k :: linorder list \<Rightarrow> 'k bset" where
  "bs_from_list xs = fold bs_insert xs []"

lemma bm_ok_Nil [simp]: "bm_ok []"
  by (simp add: bm_ok_def)

lemma bm_ok_Cons: "bm_ok ((k, v) # m) \<longleftrightarrow> (\<forall>k' \<in> fst ` set m. k < k') \<and> bm_ok m"
  by (auto simp: bm_ok_def)

lemma set_bm_insert_keys: "fst ` set (bm_insert k v m) = insert k (fst ` set m)"
  by (induction m) (auto simp: image_iff)

lemma bm_ok_insert [simp]: "bm_ok m \<Longrightarrow> bm_ok (bm_insert k v m)"
proof (induction m)
  case Nil
  then show ?case by (simp add: bm_ok_def)
next
  case (Cons e m)
  obtain k' v' where e: "e = (k', v')" by (cases e)
  from Cons show ?case
    by (auto simp: e bm_ok_Cons set_bm_insert_keys)
qed

lemma bm_ok_filter: "bm_ok m \<Longrightarrow> bm_ok (filter P m)"
  by (induction m) (auto simp: bm_ok_def)

lemma bm_ok_remove [simp]: "bm_ok m \<Longrightarrow> bm_ok (bm_remove k m)"
  by (simp add: bm_remove_def bm_ok_filter)

lemma bm_ok_retain [simp]: "bm_ok m \<Longrightarrow> bm_ok (bm_retain P m)"
  by (simp add: bm_retain_def bm_ok_filter)

lemma keys_bm_map_values [simp]: "map fst (bm_map_values f m) = map fst m"
  by (simp add: bm_map_values_def case_prod_beta comp_def)

lemma bm_ok_map_values [simp]: "bm_ok (bm_map_values f m) = bm_ok m"
  by (simp add: bm_ok_def)

lemma bm_ok_distinct: "bm_ok m \<Longrightarrow> distinct (map fst m)"
  by (simp add: bm_ok_def strict_sorted_iff)

lemma bm_get_insert [simp]:
  "bm_get (bm_insert k v m) k' = (if k' = k then Some v else bm_get m k')"
  by (induction m) auto

lemma bm_get_remove [simp]:
  "bm_get (bm_remove k m) k' = (if k' = k then None else bm_get m k')"
  by (induction m) (auto simp: bm_remove_def)

lemma bm_get_map_values [simp]:
  "bm_get (bm_map_values f m) k = map_option f (bm_get m k)"
  by (simp add: bm_map_values_def map_of_map)

lemma bm_get_retain:
  "bm_ok m \<Longrightarrow> bm_get (bm_retain P m) k =
     (case bm_get m k of Some v \<Rightarrow> if P k v then Some v else None | None \<Rightarrow> None)"
proof (induction m)
  case Nil
  then show ?case by (simp add: bm_retain_def)
next
  case (Cons e m)
  obtain k' v' where e: "e = (k', v')" by (cases e)
  have "bm_get m k' = None"
    using Cons.prems by (auto simp: e bm_ok_Cons map_of_eq_None_iff)
  with Cons show ?case
    by (auto simp: e bm_retain_def bm_ok_Cons split: option.splits)
qed

lemma bm_get_in_set: "bm_ok m \<Longrightarrow> (k, v) \<in> set m \<longleftrightarrow> bm_get m k = Some v"
  by (simp add: bm_ok_distinct)

lemma bm_has_keys: "bm_has m k \<longleftrightarrow> k \<in> fst ` set m"
  by (auto simp: bm_has_def map_of_eq_None_iff)

lemma bm_get_key: "bm_get m k = Some v \<Longrightarrow> k \<in> fst ` set m"
  by (force dest: map_of_SomeD)

lemma bm_has_insert [simp]: "bm_has (bm_insert k v m) k' \<longleftrightarrow> k' = k \<or> bm_has m k'"
  by (auto simp: bm_has_def)

lemma bm_has_remove [simp]: "bm_has (bm_remove k m) k' \<longleftrightarrow> k' \<noteq> k \<and> bm_has m k'"
  by (auto simp: bm_has_def)

lemma length_bm_insert:
  "bm_ok m \<Longrightarrow> length (bm_insert k v m) = (if bm_has m k then length m else Suc (length m))"
proof (induction m)
  case Nil
  then show ?case by (simp add: bm_has_def)
next
  case (Cons e m)
  then show ?case
    by (cases e) (fastforce simp: bm_has_keys bm_ok_Cons)
qed

lemma bm_remove_absent: "\<not> bm_has m k \<Longrightarrow> bm_remove k m = m"
  by (auto simp: bm_remove_def bm_has_keys filter_id_conv)

lemma length_bm_remove:
  "bm_ok m \<Longrightarrow> length (bm_remove k m) = (if bm_has m k then length m - 1 else length m)"
proof (induction m)
  case Nil
  then show ?case by (simp add: bm_remove_def)
next
  case (Cons e m)
  obtain k' v' where e: "e = (k', v')" by (cases e)
  show ?case
  proof (cases "k = k'")
    case True
    with Cons.prems have "\<not> bm_has m k"
      by (auto simp: e bm_ok_Cons bm_has_keys)
    then have "filter (\<lambda>x. fst x \<noteq> k) m = m"
      using bm_remove_absent [of m k] by (simp add: bm_remove_def)
    with True show ?thesis by (simp add: e bm_remove_def bm_has_def)
  next
    case False
    with Cons have IH: "length (bm_remove k m) = (if bm_has m k then length m - 1 else length m)"
      by (simp add: e bm_ok_Cons)
    have "bm_has m k \<Longrightarrow> 0 < length m"
      by (auto simp: bm_has_def)
    with False IH show ?thesis
      by (auto simp: e bm_remove_def bm_has_def)
  qed
qed

lemma length_bm_remove_le: "length (bm_remove k m) \<le> length m"
  by (simp add: bm_remove_def)

lemma length_bm_remove_less: "k \<in> fst ` set m \<Longrightarrow> length (bm_remove k m) < length m"
  by (auto simp: bm_remove_def intro: length_filter_less)

lemma length_bm_retain_le: "length (bm_retain P m) \<le> length m"
  by (simp add: bm_retain_def)

lemma length_bm_map_values [simp]: "length (bm_map_values f m) = length m"
  by (simp add: bm_map_values_def)

lemma set_bm_remove: "set (bm_remove k m) = {e \<in> set m. fst e \<noteq> k}"
  by (auto simp: bm_remove_def)

lemma set_bm_insert:
  "bm_ok m \<Longrightarrow> set (bm_insert k v m) = insert (k, v) {e \<in> set m. fst e \<noteq> k}"
proof (induction m)
  case Nil
  then show ?case by simp
next
  case (Cons e m)
  obtain k' v' where e: "e = (k', v')" by (cases e)
  have less: "\<And>x. x \<in> set m \<Longrightarrow> k' < fst x"
    using Cons.prems by (auto simp: e bm_ok_Cons)
  consider "k' < k" | "k' = k" | "k < k'" by fastforce
  then show ?case
    using Cons less by cases (auto simp: e bm_ok_Cons dest: less)
qed

text \<open>Totals over the entries of a map.\<close>

definition bm_sum :: "('k \<Rightarrow> 'v \<Rightarrow> nat) \<Rightarrow> ('k, 'v) bmap \<Rightarrow> nat" where
  "bm_sum f m = sum_list (map (\<lambda>(k, v). f k v) m)"

lemma bm_sum_simps [simp]:
  "bm_sum f [] = 0" "bm_sum f ((k, v) # m) = f k v + bm_sum f m"
  by (simp_all add: bm_sum_def)

lemma bm_remove_Cons:
  "bm_ok ((k', v') # m) \<Longrightarrow> bm_remove k ((k', v') # m) = (if k' = k then m else (k', v') # bm_remove k m)"
  by (auto simp: bm_remove_def bm_ok_Cons filter_id_conv)

lemma bm_sum_remove:
  "bm_ok m \<Longrightarrow> bm_get m k = Some v \<Longrightarrow> bm_sum f m = f k v + bm_sum f (bm_remove k m)"
proof (induction m)
  case (Cons e m)
  obtain k' v' where e: "e = (k', v')" by (cases e)
  from Cons show ?case
    by (auto simp: e bm_remove_Cons bm_ok_Cons split: if_splits)
qed simp

lemma bm_sum_insert:
  assumes "bm_ok m"
  shows "bm_sum f (bm_insert k v m) = f k v + bm_sum f (bm_remove k m)"
proof -
  have "bm_remove k (bm_insert k v m) = bm_remove k m"
    using assms
  proof (induction m)
    case Nil
    then show ?case by (simp add: bm_remove_def)
  next
    case (Cons e m)
    then show ?case by (auto simp: bm_remove_def bm_ok_def)
  qed
  then show ?thesis
    using bm_sum_remove [of "bm_insert k v m" k v f] assms by simp
qed

lemma bm_sum_le: "bm_get m k = Some v \<Longrightarrow> f k v \<le> bm_sum f m"
  by (induction m) (auto split: if_splits)

lemma bm_sum_cong: "(\<And>k v. (k, v) \<in> set m \<Longrightarrow> f k v = g k v) \<Longrightarrow> bm_sum f m = bm_sum g m"
  by (induction m) auto

lemma bm_remove_insert [simp]:
  "bm_get m k = None \<Longrightarrow> bm_remove k (bm_insert k v m) = m"
  by (induction k v m rule: bm_insert.induct) (auto simp: bm_remove_def filter_id_conv map_of_eq_None_iff split: if_splits)

lemma bm_insert_insert [simp]: "bm_ok m \<Longrightarrow> bm_insert k v (bm_insert k w m) = bm_insert k v m"
  by (induction k w m rule: bm_insert.induct) (auto simp: bm_ok_Cons)

lemma bm_insert_same: "bm_ok m \<Longrightarrow> bm_get m k = Some v \<Longrightarrow> bm_insert k v m = m"
  by (induction k v m rule: bm_insert.induct) (fastforce simp: bm_ok_Cons dest: bm_get_key split: if_splits)+

lemma bs_ok_Nil [simp]: "bs_ok []"
  by (simp add: bs_ok_def)

lemma bs_ok_insert [simp]: "bs_ok s \<Longrightarrow> bs_ok (bs_insert k s)"
  by (simp add: bs_ok_def bs_insert_def strict_sorted_iff sorted_insort_insert distinct_insort_insert)

lemma bs_ok_remove [simp]: "bs_ok s \<Longrightarrow> bs_ok (bs_remove k s)"
  by (simp add: bs_ok_def bs_remove_def sorted_wrt_filter)

lemma set_bs_insert [simp]: "set (bs_insert k s) = insert k (set s)"
  by (simp add: bs_insert_def set_insort_insert)

lemma set_bs_remove [simp]: "set (bs_remove k s) = set s - {k}"
  by (auto simp: bs_remove_def)

lemma bs_ok_distinct: "bs_ok s \<Longrightarrow> distinct s"
  by (simp add: bs_ok_def strict_sorted_iff)

lemma length_bs_insert:
  "length (bs_insert k s) = (if k \<in> set s then length s else Suc (length s))"
  by (simp add: bs_insert_def insort_insert_key_def)

lemma length_bs_remove_le: "length (bs_remove k s) \<le> length s"
  by (simp add: bs_remove_def)

lemma bs_from_list_aux:
  "bs_ok s \<Longrightarrow> bs_ok (fold bs_insert xs s) \<and> set (fold bs_insert xs s) = set xs \<union> set s"
  by (induction xs arbitrary: s) auto

lemma bs_from_list_ok [simp]: "bs_ok (bs_from_list xs)"
  and set_bs_from_list [simp]: "set (bs_from_list xs) = set xs"
  using bs_from_list_aux [of "[]" xs] by (simp_all add: bs_from_list_def)

text \<open>
  The iterator methods \<open>min_by_key\<close>, which yields the first of the smallest, and
  \<open>max_by_key\<close>, which yields the last of the largest.
\<close>

definition min_by_key :: "('a \<Rightarrow> 'b :: linorder) \<Rightarrow> 'a list \<Rightarrow> 'a option" where
  "min_by_key f xs =
    (case xs of [] \<Rightarrow> None | x # xs \<Rightarrow> Some (fold (\<lambda>y b. if f y < f b then y else b) xs x))"

definition max_by_key :: "('a \<Rightarrow> 'b :: linorder) \<Rightarrow> 'a list \<Rightarrow> 'a option" where
  "max_by_key f xs =
    (case xs of [] \<Rightarrow> None | x # xs \<Rightarrow> Some (fold (\<lambda>y b. if f b \<le> f y then y else b) xs x))"

lemma fold_min_by:
  "fold (\<lambda>y b. if f y < f b then y else b) xs x \<in> insert x (set xs)
   \<and> (\<forall>y \<in> insert x (set xs). f (fold (\<lambda>y b. if f y < f b then y else b) xs x) \<le> (f y :: 'b :: linorder))"
proof (induction xs arbitrary: x)
  case Nil
  then show ?case by simp
next
  case (Cons z xs)
  have "f (if f z < f x then z else x) \<le> f x \<and> f (if f z < f x then z else x) \<le> f z" by auto
  with Cons [of "if f z < f x then z else x"] show ?case
    by (simp only: fold_Cons o_apply list.set) (auto split: if_splits intro: order_trans)
qed

lemma fold_max_by:
  "fold (\<lambda>y b. if f b \<le> f y then y else b) xs x \<in> insert x (set xs)
   \<and> (\<forall>y \<in> insert x (set xs). (f y :: 'b :: linorder) \<le> f (fold (\<lambda>y b. if f b \<le> f y then y else b) xs x))"
proof (induction xs arbitrary: x)
  case Nil
  then show ?case by simp
next
  case (Cons z xs)
  have "f x \<le> f (if f x \<le> f z then z else x) \<and> f z \<le> f (if f x \<le> f z then z else x)" by auto
  with Cons [of "if f x \<le> f z then z else x"] show ?case
    by (simp only: fold_Cons o_apply list.set) (auto split: if_splits intro: order_trans)
qed

lemma min_by_key_None [simp]: "min_by_key f xs = None \<longleftrightarrow> xs = []"
  by (cases xs) (simp_all add: min_by_key_def)

lemma max_by_key_None [simp]: "max_by_key f xs = None \<longleftrightarrow> xs = []"
  by (cases xs) (simp_all add: max_by_key_def)

lemma by_key_Nil [simp]: "min_by_key f [] = None" "max_by_key f [] = None"
  by (simp_all add: min_by_key_def max_by_key_def)

lemma min_by_key_Some: "min_by_key f xs = Some x \<Longrightarrow> x \<in> set xs \<and> (\<forall>y \<in> set xs. f x \<le> f y)"
  using fold_min_by [of f "tl xs" "hd xs"] by (cases xs) (auto simp: min_by_key_def)

lemma max_by_key_Some: "max_by_key f xs = Some x \<Longrightarrow> x \<in> set xs \<and> (\<forall>y \<in> set xs. f y \<le> f x)"
  using fold_max_by [of f "tl xs" "hd xs"] by (cases xs) (auto simp: max_by_key_def)

section \<open>Interfaces\<close>

text \<open>
  A strict codec: every well-formed value has one spelling, decoding reads back exactly
  that spelling, and nothing else decodes.  The wire frames, the hexadecimal message
  identifiers and the base64url payload encoding all promise it.
\<close>

locale strict_codec =
  fixes enc :: "'m \<Rightarrow> 'w"
    and dec :: "'w \<Rightarrow> 'e + 'm"
    and wf :: "'m \<Rightarrow> bool"
  assumes dec_enc: "wf m \<Longrightarrow> dec (enc m) = Inr m"
    and enc_dec: "dec w = Inr m \<Longrightarrow> enc m = w"
    and dec_wf: "dec w = Inr m \<Longrightarrow> wf m"
begin

lemma enc_inj: "wf a \<Longrightarrow> wf b \<Longrightarrow> enc a = enc b \<Longrightarrow> a = b"
  by (metis dec_enc sum.inject(2))

lemma one_spelling: "dec v = Inr m \<Longrightarrow> dec w = Inr m \<Longrightarrow> v = w"
  by (metis enc_dec)

lemma accepted_iff: "dec w = Inr m \<longleftrightarrow> wf m \<and> enc m = w"
  by (metis dec_enc enc_dec dec_wf)

lemma refused_iff: "(\<exists>e. dec w = Inl e) \<longleftrightarrow> w \<notin> enc ` {m. wf m}"
proof -
  have "(\<exists>m. dec w = Inr m) \<longleftrightarrow> w \<in> enc ` {m. wf m}"
    unfolding accepted_iff by blast
  moreover have "(\<exists>e. dec w = Inl e) \<longleftrightarrow> \<not> (\<exists>m. dec w = Inr m)"
    by (cases "dec w") auto
  ultimately show ?thesis by simp
qed

end

text \<open>
  A component driven by a sequence of calls: a property that every call keeps holds after
  any sequence of calls.
\<close>

locale stepwise =
  fixes step :: "'s \<Rightarrow> 'c \<Rightarrow> 's"
    and inv :: "'s \<Rightarrow> bool"
  assumes inv_step: "inv s \<Longrightarrow> inv (step s c)"
begin

lemma inv_run: "inv s \<Longrightarrow> inv (foldl step s cs)"
  by (induction cs arbitrary: s) (simp_all add: inv_step)

end

end
