(* ===== verification/Ids.thy ===== *)
theory Ids
  imports Prelude
begin

text \<open>
  The identifier newtypes of \<open>crates/api/transport-api/src/ids.rs\<close>: endpoint, channel,
  message and peer identifiers, each with the parser that is the only way to make one.  A
  newtype over a Rust string is a datatype over its bytes; the \<open>_ok\<close> predicates are the
  grammars, and the parsers accept exactly them.
\<close>

section \<open>Data\<close>

datatype id_error =
    Empty
  | TooLong nat nat
  | IllegalByte nat byte
  | IllegalLeadingByte byte
  | WrongLength nat nat
  | NotCanonicalPeerId

datatype endpoint_id = EndpointId (endpoint_str: bytes)
datatype channel_id = ChannelId (channel_str: bytes)
datatype message_id = MessageId (message_bytes: bytes)
datatype transport_identity = TransportIdentity (peer_str: bytes)

text \<open>The derived \<open>Ord\<close> of a newtype compares what it wraps, byte by byte.\<close>

instantiation endpoint_id :: linorder
begin
definition less_eq_endpoint_id :: "endpoint_id \<Rightarrow> endpoint_id \<Rightarrow> bool" where
  "less_eq_endpoint_id a b \<longleftrightarrow> endpoint_str a \<le> endpoint_str b"
definition less_endpoint_id :: "endpoint_id \<Rightarrow> endpoint_id \<Rightarrow> bool" where
  "less_endpoint_id a b \<longleftrightarrow> endpoint_str a < endpoint_str b"
instance
  by intro_classes
    (auto simp: less_eq_endpoint_id_def less_endpoint_id_def less_le_not_le endpoint_id.expand)
end

instantiation channel_id :: linorder
begin
definition less_eq_channel_id :: "channel_id \<Rightarrow> channel_id \<Rightarrow> bool" where
  "less_eq_channel_id a b \<longleftrightarrow> channel_str a \<le> channel_str b"
definition less_channel_id :: "channel_id \<Rightarrow> channel_id \<Rightarrow> bool" where
  "less_channel_id a b \<longleftrightarrow> channel_str a < channel_str b"
instance
  by intro_classes
    (auto simp: less_eq_channel_id_def less_channel_id_def less_le_not_le channel_id.expand)
end

instantiation message_id :: linorder
begin
definition less_eq_message_id :: "message_id \<Rightarrow> message_id \<Rightarrow> bool" where
  "less_eq_message_id a b \<longleftrightarrow> message_bytes a \<le> message_bytes b"
definition less_message_id :: "message_id \<Rightarrow> message_id \<Rightarrow> bool" where
  "less_message_id a b \<longleftrightarrow> message_bytes a < message_bytes b"
instance
  by intro_classes
    (auto simp: less_eq_message_id_def less_message_id_def less_le_not_le message_id.expand)
end

instantiation transport_identity :: linorder
begin
definition less_eq_transport_identity :: "transport_identity \<Rightarrow> transport_identity \<Rightarrow> bool" where
  "less_eq_transport_identity a b \<longleftrightarrow> peer_str a \<le> peer_str b"
definition less_transport_identity :: "transport_identity \<Rightarrow> transport_identity \<Rightarrow> bool" where
  "less_transport_identity a b \<longleftrightarrow> peer_str a < peer_str b"
instance
  by intro_classes
    (auto simp: less_eq_transport_identity_def less_transport_identity_def less_le_not_le
      transport_identity.expand)
end

section \<open>Character classes\<close>

definition is_ascii_lowercase :: "byte \<Rightarrow> bool" where
  "is_ascii_lowercase b \<longleftrightarrow> 0x61 \<le> b \<and> b \<le> 0x7A"

definition is_ascii_uppercase :: "byte \<Rightarrow> bool" where
  "is_ascii_uppercase b \<longleftrightarrow> 0x41 \<le> b \<and> b \<le> 0x5A"

definition is_ascii_digit :: "byte \<Rightarrow> bool" where
  "is_ascii_digit b \<longleftrightarrow> 0x30 \<le> b \<and> b \<le> 0x39"

definition is_ascii_alphanumeric :: "byte \<Rightarrow> bool" where
  "is_ascii_alphanumeric b \<longleftrightarrow> is_ascii_lowercase b \<or> is_ascii_uppercase b \<or> is_ascii_digit b"

text \<open>The bytes of an ASCII string literal.\<close>

definition ascii :: "string \<Rightarrow> bytes" where
  "ascii s = map of_char s"

text \<open>The validation loops stop at the first byte outside the grammar and report its index.\<close>

fun first_bad :: "(byte \<Rightarrow> bool) \<Rightarrow> nat \<Rightarrow> bytes \<Rightarrow> (nat \<times> byte) option" where
  "first_bad ok i [] = None"
| "first_bad ok i (b # bs) = (if ok b then first_bad ok (Suc i) bs else Some (i, b))"

section \<open>Endpoint and channel identifiers\<close>

definition ENDPOINT_MAX_BYTES :: nat where
  "ENDPOINT_MAX_BYTES = 64"

definition endpoint_byte :: "byte \<Rightarrow> bool" where
  "endpoint_byte b \<longleftrightarrow>
     is_ascii_lowercase b \<or> is_ascii_digit b \<or> b = 0x2E \<or> b = 0x5F \<or> b = 0x2D"

definition endpoint_parse :: "bytes \<Rightarrow> id_error + endpoint_id" where
  "endpoint_parse value =
    (case value of
       [] \<Rightarrow> Err Empty
     | first # _ \<Rightarrow>
         if length value > ENDPOINT_MAX_BYTES then Err (TooLong (length value) ENDPOINT_MAX_BYTES)
         else if \<not> is_ascii_lowercase first then Err (IllegalLeadingByte first)
         else (case first_bad endpoint_byte 0 value of
                 Some (index, b) \<Rightarrow> Err (IllegalByte index b)
               | None \<Rightarrow> Ok (EndpointId value)))"

definition endpoint_ok :: "endpoint_id \<Rightarrow> bool" where
  "endpoint_ok e \<longleftrightarrow>
     endpoint_str e \<noteq> [] \<and> length (endpoint_str e) \<le> ENDPOINT_MAX_BYTES \<and>
     is_ascii_lowercase (hd (endpoint_str e)) \<and> list_all endpoint_byte (endpoint_str e)"

definition CHANNEL_MAX_BYTES :: nat where
  "CHANNEL_MAX_BYTES = 128"

definition channel_byte :: "byte \<Rightarrow> bool" where
  "channel_byte b \<longleftrightarrow>
     is_ascii_alphanumeric b \<or> b = 0x2E \<or> b = 0x5F \<or> b = 0x3A \<or> b = 0x2F \<or> b = 0x2D"

definition channel_parse :: "bytes \<Rightarrow> id_error + channel_id" where
  "channel_parse value =
    (case value of
       [] \<Rightarrow> Err Empty
     | first # _ \<Rightarrow>
         if length value > CHANNEL_MAX_BYTES then Err (TooLong (length value) CHANNEL_MAX_BYTES)
         else if \<not> is_ascii_alphanumeric first then Err (IllegalLeadingByte first)
         else (case first_bad channel_byte 0 value of
                 Some (index, b) \<Rightarrow> Err (IllegalByte index b)
               | None \<Rightarrow> Ok (ChannelId value)))"

definition channel_ok :: "channel_id \<Rightarrow> bool" where
  "channel_ok c \<longleftrightarrow>
     channel_str c \<noteq> [] \<and> length (channel_str c) \<le> CHANNEL_MAX_BYTES \<and>
     is_ascii_alphanumeric (hd (channel_str c)) \<and> list_all channel_byte (channel_str c)"

section \<open>Message identifiers\<close>

definition HEX_CHARS :: nat where
  "HEX_CHARS = 32"

definition MESSAGE_ID_LEN :: nat where
  "MESSAGE_ID_LEN = 16"

definition HEX_DIGITS :: bytes where
  "HEX_DIGITS = ascii ''0123456789abcdef''"

lemma HEX_DIGITS_code [code]:
  "HEX_DIGITS = [48, 49, 50, 51, 52, 53, 54, 55, 56, 57, 97, 98, 99, 100, 101, 102]"
  by (simp add: HEX_DIGITS_def ascii_def)

definition lower_hex_value :: "byte \<Rightarrow> byte option" where
  "lower_hex_value b =
    (if 0x30 \<le> b \<and> b \<le> 0x39 then Some (b - 0x30)
     else if 0x61 \<le> b \<and> b \<le> 0x66 then Some (b - 0x61 + 10)
     else None)"

text \<open>The loop over pairs; \<open>i\<close> is the index of the first character of the pair.\<close>

fun parse_hex_pairs :: "nat \<Rightarrow> bytes \<Rightarrow> id_error + bytes" where
  "parse_hex_pairs i (a # b # rest) =
    (case lower_hex_value a of
       None \<Rightarrow> Err (IllegalByte i a)
     | Some hi \<Rightarrow>
         (case lower_hex_value b of
            None \<Rightarrow> Err (IllegalByte (i + 1) b)
          | Some lo \<Rightarrow>
              and_then (parse_hex_pairs (i + 2) rest) (\<lambda>out. Ok ((push_bit 4 hi OR lo) # out))))"
| "parse_hex_pairs i _ = Ok []"

definition parse_hex :: "bytes \<Rightarrow> id_error + message_id" where
  "parse_hex value =
    (if length value \<noteq> HEX_CHARS then Err (WrongLength (length value) HEX_CHARS)
     else and_then (parse_hex_pairs 0 value) (\<lambda>out. Ok (MessageId out)))"

definition hex_of_byte :: "byte \<Rightarrow> bytes" where
  "hex_of_byte b = [HEX_DIGITS ! unat (drop_bit 4 b), HEX_DIGITS ! unat (b AND 0x0F)]"

definition to_hex :: "message_id \<Rightarrow> bytes" where
  "to_hex m = concat (map hex_of_byte (message_bytes m))"

definition message_id_ok :: "message_id \<Rightarrow> bool" where
  "message_id_ok m \<longleftrightarrow> length (message_bytes m) = MESSAGE_ID_LEN"

section \<open>Peer identities\<close>

definition PEER_MAX_BYTES :: nat where
  "PEER_MAX_BYTES = 256"

definition ED25519_PREFIX :: bytes where
  "ED25519_PREFIX = ascii ''12D3KooW''"

definition QM_PREFIX :: bytes where
  "QM_PREFIX = ascii ''Qm''"

definition starts_with :: "bytes \<Rightarrow> bytes \<Rightarrow> bool" where
  "starts_with pre s \<longleftrightarrow> take (length pre) s = pre"

definition strip_prefix :: "bytes \<Rightarrow> bytes \<Rightarrow> bytes option" where
  "strip_prefix pre s = (if starts_with pre s then Some (drop (length pre) s) else None)"

definition base58_byte :: "byte \<Rightarrow> bool" where
  "base58_byte b \<longleftrightarrow> is_ascii_alphanumeric b \<and> b \<noteq> 0x30 \<and> b \<noteq> 0x4F \<and> b \<noteq> 0x49 \<and> b \<noteq> 0x6C"

text \<open>
  \<open>bs58\<close> is the third-party decoder: the decoded bytes, or \<open>None\<close> when the text is not
  base58btc or does not fit the 64-byte buffer.
\<close>

definition check_canonical :: "(bytes \<Rightarrow> bytes option) \<Rightarrow> bytes \<Rightarrow> id_error + unit" where
  "check_canonical bs58 value =
    (let ed25519 = starts_with ED25519_PREFIX value in
     case (case strip_prefix ED25519_PREFIX value of
             Some r \<Rightarrow> Some r | None \<Rightarrow> strip_prefix QM_PREFIX value) of
       None \<Rightarrow> Err NotCanonicalPeerId
     | Some rest \<Rightarrow>
         if length rest \<noteq> 44 then Err NotCanonicalPeerId
         else if \<not> list_all base58_byte rest then Err NotCanonicalPeerId
         else (case bs58 value of
                 None \<Rightarrow> Err NotCanonicalPeerId
               | Some decoded \<Rightarrow>
                   if ed25519 then
                     if length decoded \<noteq> 38
                        \<or> take 6 decoded \<noteq> [0x00, 0x24, 0x08, 0x01, 0x12, 0x20]
                     then Err NotCanonicalPeerId else Ok ()
                   else
                     if length decoded \<noteq> 34 \<or> take 2 decoded \<noteq> [0x12, 0x20]
                     then Err NotCanonicalPeerId else Ok ()))"

definition peer_parse :: "(bytes \<Rightarrow> bytes option) \<Rightarrow> bytes \<Rightarrow> id_error + transport_identity" where
  "peer_parse bs58 value =
    (if value = [] then Err Empty
     else if length value > PEER_MAX_BYTES then Err (TooLong (length value) PEER_MAX_BYTES)
     else and_then (check_canonical bs58 value) (\<lambda>_. Ok (TransportIdentity value)))"

section \<open>Lemmas\<close>

lemma first_bad_None: "first_bad ok i bs = None \<longleftrightarrow> list_all ok bs"
  by (induction bs arbitrary: i) auto

lemma first_bad_Some:
  "first_bad ok i bs = Some (j, b) \<Longrightarrow>
     i \<le> j \<and> j < i + length bs \<and> b = bs ! (j - i) \<and> \<not> ok b \<and> list_all ok (take (j - i) bs)"
proof (induction bs arbitrary: i)
  case Nil
  then show ?case by simp
next
  case (Cons a bs)
  show ?case
  proof (cases "ok a")
    case True
    with Cons.prems have "first_bad ok (Suc i) bs = Some (j, b)" by simp
    note IH = Cons.IH [OF this]
    then obtain d where "j = Suc i + d" using le_Suc_ex by blast
    with IH True show ?thesis by auto
  next
    case False
    with Cons.prems show ?thesis by auto
  qed
qed

lemma endpoint_byte_ascii: "endpoint_byte b \<Longrightarrow> b \<le> 0x7F"
  unfolding endpoint_byte_def is_ascii_lowercase_def is_ascii_digit_def
  by (elim disjE conjE) (erule order_trans, simp | simp)+

lemma endpoint_ok_utf8: "endpoint_ok e \<Longrightarrow> utf8_ok (endpoint_str e)"
  by (auto simp: endpoint_ok_def list_all_iff intro!: utf8_ok_ascii endpoint_byte_ascii)

lemma endpoint_parse_iff:
  "endpoint_parse v = Inr e \<longleftrightarrow> endpoint_ok e \<and> v = endpoint_str e"
  unfolding endpoint_parse_def endpoint_ok_def first_bad_None [of _ 0, symmetric]
  by (cases v; cases e; cases "first_bad endpoint_byte 0 v") auto

lemma endpoint_parse_illegal_byte:
  assumes "endpoint_parse v = Inl (IllegalByte i b)"
  shows "i < length v" "v ! i = b" "\<not> endpoint_byte b" "list_all endpoint_byte (take i v)"
proof -
  from assms have "first_bad endpoint_byte 0 v = Some (i, b)"
    by (cases v; cases "first_bad endpoint_byte 0 v") (auto simp: endpoint_parse_def split: if_splits)
  from first_bad_Some [OF this] show "i < length v" "v ! i = b" "\<not> endpoint_byte b"
    "list_all endpoint_byte (take i v)"
    by auto
qed

lemma channel_parse_iff:
  "channel_parse v = Inr c \<longleftrightarrow> channel_ok c \<and> v = channel_str c"
  unfolding channel_parse_def channel_ok_def first_bad_None [of _ 0, symmetric]
  by (cases v; cases c; cases "first_bad channel_byte 0 v") auto


text \<open>A nibble and its digit.\<close>

lemma unat_nibble_hi: "unat (drop_bit 4 (b :: byte)) < 16"
  using unat_byte_less [of b] by (simp add: unat_drop_bit_eq drop_bit_nat_def)

lemma nibble_lo_take_bit: "b AND 0x0F = take_bit 4 (b :: byte)"
proof -
  have "(0x0F :: byte) = mask 4" by (simp add: mask_eq_exp_minus_1)
  then show ?thesis by (simp add: take_bit_eq_mask)
qed

lemma unat_nibble_lo: "unat (b AND 0x0F :: byte) < 16"
  using take_bit_nat_less_exp [of 4 "unat b"]
  by (simp add: nibble_lo_take_bit unsigned_take_bit_eq)

lemma nibbles_join: "push_bit 4 (drop_bit 4 b) OR (b AND 0x0F) = (b :: byte)"
  unfolding nibble_lo_take_bit
  by (rule bit_word_eqI) (auto simp: bit_simps)

lemma lower_hex_value_digit:
  assumes "n < 16"
  shows "lower_hex_value (HEX_DIGITS ! n) = Some (word_of_nat n)"
proof -
  have "list_all (\<lambda>n. lower_hex_value (HEX_DIGITS ! n) = Some (word_of_nat n)) [0..<16]"
    by code_simp
  with assms show ?thesis by (simp add: list_all_iff)
qed

lemma lower_hex_value_Some:
  assumes "lower_hex_value b = Some v"
  shows "unat v < 16 \<and> HEX_DIGITS ! unat v = b"
proof -
  have "list_all (\<lambda>n. case lower_hex_value (word_of_nat n) of None \<Rightarrow> True
      | Some v \<Rightarrow> unat v < 16 \<and> HEX_DIGITS ! unat v = word_of_nat n) [0..<256]"
    by code_simp
  then have "\<forall>n < 256. \<forall>v. lower_hex_value (word_of_nat n) = Some v \<longrightarrow>
      unat v < 16 \<and> HEX_DIGITS ! unat v = word_of_nat n"
    by (auto simp: list_all_iff split: option.splits)
  from this [rule_format, of "unat b" v] assms unat_byte_less [of b] show ?thesis by simp
qed

text \<open>The hexadecimal spelling of a message identifier.\<close>

lemma parse_hex_pairs_hex_of_byte:
  "parse_hex_pairs i (hex_of_byte b @ rest) =
     and_then (parse_hex_pairs (i + 2) rest) (\<lambda>out. Ok (b # out))"
  by (simp add: hex_of_byte_def lower_hex_value_digit unat_nibble_hi unat_nibble_lo nibbles_join)

lemma parse_hex_pairs_concat: "parse_hex_pairs i (concat (map hex_of_byte bs)) = Ok bs"
  by (induction bs arbitrary: i) (simp_all add: parse_hex_pairs_hex_of_byte)

lemma length_concat_hex [simp]: "length (concat (map hex_of_byte bs)) = 2 * length bs"
  by (induction bs) (simp_all add: hex_of_byte_def)

lemma nibbles_split:
  assumes "unat hi < 16" "unat lo < 16"
  shows "drop_bit 4 (push_bit 4 hi OR lo) = (hi :: byte)" "(push_bit 4 hi OR lo) AND 0x0F = lo"
proof -
  have "list_all (\<lambda>h. list_all (\<lambda>l.
      drop_bit 4 (push_bit 4 (word_of_nat h) OR word_of_nat l) = (word_of_nat h :: byte)
      \<and> (push_bit 4 (word_of_nat h) OR word_of_nat l) AND 0x0F = (word_of_nat l :: byte))
      [0..<16]) [0..<16]"
    by code_simp
  then have "\<forall>h < 16. \<forall>l < 16.
      drop_bit 4 (push_bit 4 (word_of_nat h) OR word_of_nat l) = (word_of_nat h :: byte)
      \<and> (push_bit 4 (word_of_nat h) OR word_of_nat l) AND 0x0F = (word_of_nat l :: byte)"
    by (simp add: list_all_iff)
  from this [rule_format, OF assms]
  show "drop_bit 4 (push_bit 4 hi OR lo) = hi" "(push_bit 4 hi OR lo) AND 0x0F = lo"
    by simp_all
qed

lemma parse_hex_pairs_sound:
  "parse_hex_pairs i v = Ok out \<Longrightarrow> even (length v) \<Longrightarrow>
     concat (map hex_of_byte out) = v \<and> length v = 2 * length out"
proof (induction i v arbitrary: out rule: parse_hex_pairs.induct)
  case (1 i a b rest)
  from "1.prems" obtain hi lo out' where
    hi: "lower_hex_value a = Some hi" and lo: "lower_hex_value b = Some lo"
    and rest: "parse_hex_pairs (i + 2) rest = Ok out'"
    and out: "out = (push_bit 4 hi OR lo) # out'"
    by (auto simp: and_then_eq_Inr split: option.splits)
  from "1.IH" [OF hi lo rest] "1.prems"(2)
  have "concat (map hex_of_byte out') = rest \<and> length rest = 2 * length out'" by simp
  moreover have "hex_of_byte (push_bit 4 hi OR lo) = [a, b]"
    using lower_hex_value_Some [OF hi] lower_hex_value_Some [OF lo]
    unfolding hex_of_byte_def by (simp only: nibbles_split)
  ultimately show ?case by (simp add: out)
qed auto

interpretation hex: strict_codec to_hex parse_hex message_id_ok
proof
  fix m assume "message_id_ok m"
  then show "parse_hex (to_hex m) = Ok m"
    by (cases m)
      (simp add: parse_hex_def to_hex_def message_id_ok_def HEX_CHARS_def MESSAGE_ID_LEN_def
        parse_hex_pairs_concat)
next
  fix w m assume "parse_hex w = Ok m"
  then have len: "length w = 32" and out: "parse_hex_pairs 0 w = Ok (message_bytes m)"
    by (auto simp: parse_hex_def HEX_CHARS_def and_then_eq_Inr split: if_splits)
  then have "concat (map hex_of_byte (message_bytes m)) = w \<and> length w = 2 * length (message_bytes m)"
    by (intro parse_hex_pairs_sound) simp_all
  then show "to_hex m = w" and "message_id_ok m"
    using len by (simp_all add: to_hex_def message_id_ok_def MESSAGE_ID_LEN_def)
qed

section \<open>Properties\<close>

text \<open>Parsing an endpoint identifier succeeds exactly on the grammar
  \<open>[a-z][a-z0-9._-]{0,63}\<close> and returns the text unchanged; every other text is refused
  with an error, and an \<open>IllegalByte\<close> error names the first offending byte and its index.\<close>

theorem endpoint_parse_correct:
  "(endpoint_parse v = Inr e \<longleftrightarrow> endpoint_ok e \<and> v = endpoint_str e)
   \<and> (endpoint_parse v = Inl (IllegalByte i b) \<longrightarrow>
        i < length v \<and> v ! i = b \<and> \<not> endpoint_byte b \<and> list_all endpoint_byte (take i v))"
proof (intro conjI impI)
  show "(endpoint_parse v = Inr e) = (endpoint_ok e \<and> v = endpoint_str e)"
    by (rule endpoint_parse_iff)
qed (use endpoint_parse_illegal_byte in simp_all)

theorem endpoint_parse_correct_witness:
  "endpoint_parse (ascii ''human-1'') = Inr (EndpointId (ascii ''human-1''))
   \<and> endpoint_parse (ascii ''huMan'') = Inl (IllegalByte 2 0x4D)
   \<and> list_all endpoint_byte (take 2 (ascii ''huMan''))"
proof -
  have a: "endpoint_parse (ascii ''human-1'') = Inr (EndpointId (ascii ''human-1''))"
    by code_simp
  have b: "endpoint_parse (ascii ''huMan'') = Inl (IllegalByte 2 0x4D)"
    by code_simp
  from a b show ?thesis
    using endpoint_parse_correct [of "ascii ''huMan''" "EndpointId []" 2 "0x4D"] by simp
qed

end
