(* ===== verification/Base64url.thy ===== *)
theory Base64url
  imports Ids
begin

text \<open>
  Unpadded base64url, \<open>crates/api/transport-api/src/base64url.rs\<close>: the spelling
  application bytes take at every JSON boundary.  The encoder and the decoder work on
  32-bit words exactly as the source does, and the decoder is shown to be strict: it
  accepts one spelling of each byte string and nothing else.
\<close>

section \<open>Definitions\<close>

datatype base64_error =
    IllegalCharacter nat byte
  | InvalidLength nat
  | NonZeroTrailingBits

definition ALPHABET :: bytes where
  "ALPHABET = ascii ''ABCDEFGHIJKLMNOPQRSTUVWXYZabcdefghijklmnopqrstuvwxyz0123456789-_''"

definition decode_char :: "byte \<Rightarrow> byte option" where
  "decode_char b =
    (if 0x41 \<le> b \<and> b \<le> 0x5A then Some (b - 0x41)
     else if 0x61 \<le> b \<and> b \<le> 0x7A then Some (b - 0x61 + 26)
     else if 0x30 \<le> b \<and> b \<le> 0x39 then Some (b - 0x30 + 52)
     else if b = 0x2D then Some 62
     else if b = 0x5F then Some 63
     else None)"

text \<open>\<open>slice::chunks\<close>: pieces of \<open>n\<close> elements, the last one possibly shorter.\<close>

function chunks :: "nat \<Rightarrow> 'a list \<Rightarrow> 'a list list" where
  "chunks n xs = (if xs = [] \<or> n = 0 then [] else take n xs # chunks n (drop n xs))"
  by pat_completeness auto
termination
  by (relation "measure (\<lambda>(n, xs). length xs)") auto

declare chunks.simps [simp del]

definition b64_idx :: "32 word \<Rightarrow> nat \<Rightarrow> byte" where
  "b64_idx n shift = ALPHABET ! unat (drop_bit shift n AND 0x3F)"

definition encode_chunk :: "bytes \<Rightarrow> bytes" where
  "encode_chunk chunk =
    (let b0 = ucast (chunk ! 0) :: 32 word;
         b1 = (if 1 < length chunk then ucast (chunk ! 1) else 0);
         b2 = (if 2 < length chunk then ucast (chunk ! 2) else 0);
         n = push_bit 16 b0 OR push_bit 8 b1 OR b2
     in [b64_idx n 18, b64_idx n 12]
        @ (if 1 < length chunk then [b64_idx n 6] else [])
        @ (if 2 < length chunk then [b64_idx n 0] else []))"

definition b64_encode :: "bytes \<Rightarrow> bytes" where
  "b64_encode bs = concat (map encode_chunk (chunks 3 bs))"

text \<open>The inner loop: \<open>i\<close> indexes the character in its chunk, \<open>base\<close> the chunk in the text.\<close>

fun decode_chars :: "nat \<Rightarrow> nat \<Rightarrow> 32 word \<Rightarrow> bytes \<Rightarrow> base64_error + 32 word" where
  "decode_chars base i n [] = Ok n"
| "decode_chars base i n (b # bs) =
    (case decode_char b of
       None \<Rightarrow> Err (IllegalCharacter (base + i) b)
     | Some v \<Rightarrow> decode_chars base (Suc i) (n OR push_bit (18 - 6 * i) (ucast v)) bs)"

definition u8_at :: "32 word \<Rightarrow> nat \<Rightarrow> byte" where
  "u8_at n shift = ucast (drop_bit shift n AND 0xFF)"

definition decode_chunk :: "nat \<Rightarrow> bytes \<Rightarrow> base64_error + bytes" where
  "decode_chunk base chunk =
     and_then (decode_chars base 0 0 chunk) (\<lambda>n.
       if length chunk = 4 then Ok [u8_at n 16, u8_at n 8, u8_at n 0]
       else if length chunk = 3 then
         (if n AND 0xFF \<noteq> 0 then Err NonZeroTrailingBits else Ok [u8_at n 16, u8_at n 8])
       else
         (if n AND 0xFFFF \<noteq> 0 then Err NonZeroTrailingBits else Ok [u8_at n 16]))"

fun decode_loop :: "nat \<Rightarrow> bytes list \<Rightarrow> base64_error + bytes" where
  "decode_loop base [] = Ok []"
| "decode_loop base (c # cs) =
     and_then (decode_chunk base c) (\<lambda>out.
       and_then (decode_loop (base + 4) cs) (\<lambda>rest. Ok (out @ rest)))"

definition b64_decode :: "bytes \<Rightarrow> base64_error + bytes" where
  "b64_decode text =
    (if length text mod 4 = 1 then Err (InvalidLength (length text))
     else decode_loop 0 (chunks 4 text))"

section \<open>Characters\<close>

lemma length_ALPHABET [simp]: "length ALPHABET = 64"
  by (simp add: ALPHABET_def ascii_def)

lemma ALPHABET_code [code]:
  "ALPHABET =
    [65, 66, 67, 68, 69, 70, 71, 72, 73, 74, 75, 76, 77, 78, 79, 80,
     81, 82, 83, 84, 85, 86, 87, 88, 89, 90, 97, 98, 99, 100, 101, 102,
     103, 104, 105, 106, 107, 108, 109, 110, 111, 112, 113, 114, 115, 116, 117, 118,
     119, 120, 121, 122, 48, 49, 50, 51, 52, 53, 54, 55, 56, 57, 45, 95]"
  by (simp add: ALPHABET_def ascii_def of_char_def)

lemma decode_char_ALPHABET:
  assumes "i < 64"
  shows "decode_char (ALPHABET ! i) = Some (word_of_nat i)"
proof -
  have "list_all (\<lambda>i. decode_char (ALPHABET ! i) = Some (word_of_nat i)) [0..<64]"
    by code_simp
  with assms show ?thesis by (simp add: list_all_iff)
qed

lemma decode_char_Some:
  assumes "decode_char b = Some v"
  shows "unat v < 64" "ALPHABET ! unat v = b"
proof -
  have "list_all (\<lambda>n. case decode_char (word_of_nat n) of None \<Rightarrow> True
      | Some v \<Rightarrow> unat v < 64 \<and> ALPHABET ! unat v = word_of_nat n) [0..<256]"
    by code_simp
  then have "\<forall>n < 256. \<forall>v. decode_char (word_of_nat n) = Some v \<longrightarrow>
      unat v < 64 \<and> ALPHABET ! unat v = word_of_nat n"
    by (auto simp: list_all_iff split: option.splits)
  from this [rule_format, of "unat b" v] assms unat_byte_less [of b]
  show "unat v < 64" "ALPHABET ! unat v = b" by simp_all
qed

section \<open>Words of 24 bits\<close>

lemma and_0x3F: "x AND 0x3F = take_bit 6 (x :: 32 word)"
proof -
  have "(0x3F :: 32 word) = mask 6" by (simp add: mask_eq_exp_minus_1)
  then show ?thesis by (simp add: take_bit_eq_mask)
qed

lemma and_0xFF: "x AND 0xFF = take_bit 8 (x :: 32 word)"
proof -
  have "(0xFF :: 32 word) = mask 8" by (simp add: mask_eq_exp_minus_1)
  then show ?thesis by (simp add: take_bit_eq_mask)
qed

lemma and_0xFFFF: "x AND 0xFFFF = take_bit 16 (x :: 32 word)"
proof -
  have "(0xFFFF :: 32 word) = mask 16" by (simp add: mask_eq_exp_minus_1)
  then show ?thesis by (simp add: take_bit_eq_mask)
qed

text \<open>The six bits of a 24-bit group that one character carries.\<close>

definition sextet :: "32 word \<Rightarrow> nat \<Rightarrow> 32 word" where
  "sextet n shift = take_bit 6 (drop_bit shift n)"

lemma unat_sextet_less: "unat (sextet n shift) < 64"
  using take_bit_nat_less_exp [of 6 "unat (drop_bit shift n)"]
  by (simp add: sextet_def unsigned_take_bit_eq)

lemma decode_char_b64_idx: "decode_char (b64_idx n shift) = Some (ucast (sextet n shift))"
  using decode_char_ALPHABET [OF unat_sextet_less [of n shift]]
  by (simp add: b64_idx_def and_0x3F sextet_def unsigned_ucast_eq)

lemma bit_sextet: "bit (sextet n shift) k \<longleftrightarrow> k < 6 \<and> bit n (shift + k)"
  by (auto simp: sextet_def bit_simps)

lemma bit_u8_at: "bit (u8_at n shift) k \<longleftrightarrow> k < 8 \<and> bit n (shift + k)"
  by (auto simp: u8_at_def and_0xFF bit_simps)

lemma bit32_less: "bit (n :: 32 word) k \<Longrightarrow> k < 32"
  using bit_imp_le_length [of n k] by simp

lemma bit8_less: "bit (b :: byte) k \<Longrightarrow> k < 8"
  using bit_imp_le_length [of b k] by simp

text \<open>Three bytes and the word that holds them.\<close>

definition group24 :: "byte \<Rightarrow> byte \<Rightarrow> byte \<Rightarrow> 32 word" where
  "group24 a b c = push_bit 16 (ucast a) OR push_bit 8 (ucast b) OR ucast c"

lemma bit_group24:
  "bit (group24 a b c) k \<longleftrightarrow>
     (16 \<le> k \<and> bit a (k - 16)) \<or> (8 \<le> k \<and> k < 16 \<and> bit b (k - 8)) \<or> (k < 8 \<and> bit c k)"
  by (auto simp: group24_def bit_simps dest: bit8_less)

lemma u8_at_group24 [simp]:
  "u8_at (group24 a b c) 16 = a" "u8_at (group24 a b c) 8 = b" "u8_at (group24 a b c) 0 = c"
  by (rule bit_word_eqI; auto simp: bit_u8_at bit_group24 dest: bit8_less)+

lemma group24_u8_at:
  assumes "\<And>k. bit n k \<Longrightarrow> k < 24"
  shows "group24 (u8_at n 16) (u8_at n 8) (u8_at n 0) = n"
proof (rule bit_word_eqI)
  fix k
  have "bit n k = (k < 24 \<and> bit n k)" using assms by blast
  moreover consider "k < 8" | "8 \<le> k" "k < 16" | "16 \<le> k" by linarith
  then have "bit (group24 (u8_at n 16) (u8_at n 8) (u8_at n 0)) k = (k < 24 \<and> bit n k)"
    by cases (auto simp: bit_u8_at bit_group24)
  ultimately show "bit (group24 (u8_at n 16) (u8_at n 8) (u8_at n 0)) k = bit n k" by simp
qed

text \<open>Four characters and the word they spell.\<close>

definition join4 :: "32 word \<Rightarrow> 32 word \<Rightarrow> 32 word \<Rightarrow> 32 word \<Rightarrow> 32 word" where
  "join4 p q r s = push_bit 18 p OR push_bit 12 q OR push_bit 6 r OR s"

lemma join4_sextets:
  assumes "\<And>k. bit n k \<Longrightarrow> k < 24"
  shows "join4 (sextet n 18) (sextet n 12) (sextet n 6) (sextet n 0) = n"
proof (rule bit_word_eqI)
  fix k assume len: "k < LENGTH(32)"
  have "bit n k = (k < 24 \<and> bit n k)" using assms by blast
  moreover consider "k < 6" | "6 \<le> k" "k < 12" | "12 \<le> k" "k < 18" | "18 \<le> k" by linarith
  then have "bit (join4 (sextet n 18) (sextet n 12) (sextet n 6) (sextet n 0)) k = (k < 24 \<and> bit n k)"
    using len by cases (auto simp: join4_def bit_simps bit_sextet)
  ultimately show "bit (join4 (sextet n 18) (sextet n 12) (sextet n 6) (sextet n 0)) k = bit n k"
    by simp
qed

lemma sextet_join4:
  assumes "\<And>k. bit p k \<Longrightarrow> k < 6" "\<And>k. bit q k \<Longrightarrow> k < 6"
    "\<And>k. bit r k \<Longrightarrow> k < 6" "\<And>k. bit s k \<Longrightarrow> k < 6"
  shows "sextet (join4 p q r s) 18 = p" "sextet (join4 p q r s) 12 = q"
    "sextet (join4 p q r s) 6 = r" "sextet (join4 p q r s) 0 = s"
  by (rule bit_word_eqI; auto simp: join4_def bit_simps bit_sextet dest: assms)+

lemma ucast_ucast_sextet [simp]: "ucast (ucast (sextet n shift) :: byte) = sextet n shift"
  by (rule bit_word_eqI) (auto simp: bit_simps bit_sextet)

lemma group24_less: "bit (group24 a b c) k \<Longrightarrow> k < 24"
  by (auto simp: bit_group24 dest: bit8_less)

lemma encode_chunk_eqs:
  "encode_chunk [a] = [b64_idx (group24 a 0 0) 18, b64_idx (group24 a 0 0) 12]"
  "encode_chunk [a, b] = [b64_idx (group24 a b 0) 18, b64_idx (group24 a b 0) 12, b64_idx (group24 a b 0) 6]"
  "encode_chunk [a, b, c] = [b64_idx (group24 a b c) 18, b64_idx (group24 a b c) 12,
     b64_idx (group24 a b c) 6, b64_idx (group24 a b c) 0]"
  by (simp_all add: encode_chunk_def group24_def Let_def)

lemma sextet_zero:
  "sextet (group24 a b 0) 0 = 0" "sextet (group24 a 0 0) 6 = 0" "sextet (group24 a 0 0) 0 = 0"
  by (rule bit_word_eqI; auto simp: bit_sextet bit_group24)+

lemma group24_low_zero:
  "group24 a b 0 AND 0xFF = 0" "group24 a 0 0 AND 0xFFFF = 0"
  unfolding and_0xFF and_0xFFFF
  by (rule bit_word_eqI; auto simp: bit_simps bit_group24)+

lemma decode_chars_sextets:
  "decode_chars base 0 0 [b64_idx n 18, b64_idx n 12, b64_idx n 6, b64_idx n 0] =
     Ok (join4 (sextet n 18) (sextet n 12) (sextet n 6) (sextet n 0))"
  "decode_chars base 0 0 [b64_idx n 18, b64_idx n 12, b64_idx n 6] =
     Ok (join4 (sextet n 18) (sextet n 12) (sextet n 6) 0)"
  "decode_chars base 0 0 [b64_idx n 18, b64_idx n 12] =
     Ok (join4 (sextet n 18) (sextet n 12) 0 0)"
  by (simp_all add: decode_char_b64_idx join4_def or.assoc)

lemma decode_encode_chunk:
  assumes "chunk \<noteq> []" "length chunk \<le> 3"
  shows "decode_chunk base (encode_chunk chunk) = Ok chunk"
proof -
  consider a where "chunk = [a]" | a b where "chunk = [a, b]" | a b c where "chunk = [a, b, c]"
    using assms by (auto simp: le_Suc_eq numeral_3_eq_3 length_Suc_conv)
  then show ?thesis
  proof cases
    case (1 a)
    have "join4 (sextet (group24 a 0 0) 18) (sextet (group24 a 0 0) 12) 0 0 = group24 a 0 0"
      using join4_sextets [of "group24 a 0 0", OF group24_less] by (simp add: sextet_zero)
    then show ?thesis
      unfolding 1 encode_chunk_eqs decode_chunk_def decode_chars_sextets
      by (simp add: group24_low_zero)
  next
    case (2 a b)
    have "join4 (sextet (group24 a b 0) 18) (sextet (group24 a b 0) 12) (sextet (group24 a b 0) 6) 0
        = group24 a b 0"
      using join4_sextets [of "group24 a b 0", OF group24_less] by (simp add: sextet_zero)
    then show ?thesis
      unfolding 2 encode_chunk_eqs decode_chunk_def decode_chars_sextets
      by (simp add: group24_low_zero)
  next
    case (3 a b c)
    show ?thesis
      unfolding 3 encode_chunk_eqs decode_chunk_def decode_chars_sextets
      by (simp add: join4_sextets [OF group24_less])
  qed
qed


lemma decode_char_bit:
  assumes "decode_char b = Some v" and "bit v k"
  shows "k < 6"
proof -
  have "unat (take_bit 6 v) = unat v"
    using decode_char_Some(1) [OF assms(1)] by (simp add: unsigned_take_bit_eq take_bit_nat_eq_self)
  then have "take_bit 6 v = v" by (rule unsigned_word_eqI)
  with assms(2) show ?thesis by (metis bit_take_bit_iff)
qed

lemma decode_char_bits:
  "decode_char b = Some v \<Longrightarrow> bit (ucast v :: 32 word) k \<Longrightarrow> k < 6"
  by (auto simp: bit_simps dest: decode_char_bit)

lemma b64_idx_sextet:
  assumes "decode_char b = Some v" and "sextet n shift = ucast v"
  shows "b64_idx n shift = b"
proof -
  have "unat (ucast v :: 32 word) = unat v"
    using unat_byte_less [of v] by (simp add: unsigned_ucast_eq take_bit_nat_eq_self)
  then show ?thesis
    using decode_char_Some(2) [OF assms(1)] assms(2)
    by (simp add: b64_idx_def and_0x3F sextet_def [symmetric])
qed

lemma encode_decode_chunk:
  assumes "decode_chunk base chunk = Ok out" and "2 \<le> length chunk" "length chunk \<le> 4"
  shows "encode_chunk out = chunk \<and> length out = length chunk - 1"
proof -
  consider c0 c1 where "chunk = [c0, c1]" | c0 c1 c2 where "chunk = [c0, c1, c2]"
    | c0 c1 c2 c3 where "chunk = [c0, c1, c2, c3]"
    using assms(2,3) by (auto simp: le_Suc_eq eval_nat_numeral length_Suc_conv)
  then show ?thesis
  proof cases
    case (1 c0 c1)
    from assms(1) obtain p q where p: "decode_char c0 = Some p" and q: "decode_char c1 = Some q"
      and low: "join4 (ucast p) (ucast q) 0 0 AND 0xFFFF = 0"
      and out: "out = [u8_at (join4 (ucast p) (ucast q) 0 0) 16]"
      by (auto simp: 1 decode_chunk_def and_then_eq_Inr join4_def or.assoc split: option.splits if_splits)
    let ?n = "join4 (ucast p) (ucast q) 0 0"
    have n24: "\<And>k. bit ?n k \<Longrightarrow> k < 24"
      by (auto simp: join4_def bit_simps
          dest: decode_char_bit [OF p] decode_char_bit [OF q])
    have low': "\<And>k. k < 16 \<Longrightarrow> \<not> bit ?n k"
      using low unfolding and_0xFFFF by (metis bit_0_eq bit_take_bit_iff bot_apply bot_bool_def)
    have "u8_at ?n 8 = 0" "u8_at ?n 0 = 0"
      by (rule bit_word_eqI; simp add: bit_u8_at low')+
    then have "group24 (u8_at ?n 16) 0 0 = ?n"
      using group24_u8_at [of ?n, OF n24] by simp
    then show ?thesis
      using p q sextet_join4 [of "ucast p" "ucast q" 0 0, OF decode_char_bits [OF p] decode_char_bits [OF q]]
      by (simp add: 1 out encode_chunk_eqs b64_idx_sextet)
  next
    case (2 c0 c1 c2)
    from assms(1) obtain p q r where p: "decode_char c0 = Some p" and q: "decode_char c1 = Some q"
      and r: "decode_char c2 = Some r"
      and low: "join4 (ucast p) (ucast q) (ucast r) 0 AND 0xFF = 0"
      and out: "out = [u8_at (join4 (ucast p) (ucast q) (ucast r) 0) 16,
                       u8_at (join4 (ucast p) (ucast q) (ucast r) 0) 8]"
      by (auto simp: 2 decode_chunk_def and_then_eq_Inr join4_def or.assoc split: option.splits if_splits)
    let ?n = "join4 (ucast p) (ucast q) (ucast r) 0"
    have n24: "\<And>k. bit ?n k \<Longrightarrow> k < 24"
      by (auto simp: join4_def bit_simps
          dest: decode_char_bit [OF p] decode_char_bit [OF q] decode_char_bit [OF r])
    have low': "\<And>k. k < 8 \<Longrightarrow> \<not> bit ?n k"
      using low unfolding and_0xFF by (metis bit_0_eq bit_take_bit_iff bot_apply bot_bool_def)
    have "u8_at ?n 0 = 0"
      by (rule bit_word_eqI; simp add: bit_u8_at low')
    then have "group24 (u8_at ?n 16) (u8_at ?n 8) 0 = ?n"
      using group24_u8_at [of ?n, OF n24] by simp
    then show ?thesis
      using p q r sextet_join4 [of "ucast p" "ucast q" "ucast r" 0,
          OF decode_char_bits [OF p] decode_char_bits [OF q] decode_char_bits [OF r]]
      by (simp add: 2 out encode_chunk_eqs b64_idx_sextet)
  next
    case (3 c0 c1 c2 c3)
    from assms(1) obtain p q r s where p: "decode_char c0 = Some p" and q: "decode_char c1 = Some q"
      and r: "decode_char c2 = Some r" and s: "decode_char c3 = Some s"
      and out: "out = [u8_at (join4 (ucast p) (ucast q) (ucast r) (ucast s)) 16,
                       u8_at (join4 (ucast p) (ucast q) (ucast r) (ucast s)) 8,
                       u8_at (join4 (ucast p) (ucast q) (ucast r) (ucast s)) 0]"
      by (auto simp: 3 decode_chunk_def and_then_eq_Inr join4_def or.assoc split: option.splits)
    let ?n = "join4 (ucast p) (ucast q) (ucast r) (ucast s)"
    have n24: "\<And>k. bit ?n k \<Longrightarrow> k < 24"
      by (auto simp: join4_def bit_simps
          dest: decode_char_bit [OF p] decode_char_bit [OF q]
          decode_char_bit [OF r] decode_char_bit [OF s])
    show ?thesis
      using p q r s group24_u8_at [of ?n, OF n24]
        sextet_join4 [of "ucast p" "ucast q" "ucast r" "ucast s",
          OF decode_char_bits [OF p] decode_char_bits [OF q] decode_char_bits [OF r] decode_char_bits [OF s]]
      by (simp add: 3 out encode_chunk_eqs b64_idx_sextet)
  qed
qed

section \<open>Whole texts\<close>

lemma chunks_Nil [simp]: "chunks n [] = []"
  by (simp add: chunks.simps)

lemma chunks_whole: "xs \<noteq> [] \<Longrightarrow> length xs \<le> n \<Longrightarrow> chunks n xs = [xs]"
  by (subst chunks.simps) (auto simp: neq_Nil_conv)

lemma chunks_append: "0 < n \<Longrightarrow> length a = n \<Longrightarrow> chunks n (a @ b) = a # chunks n b"
  by (subst chunks.simps) auto

lemma length_encode_chunk:
  "chunk \<noteq> [] \<Longrightarrow> length chunk \<le> 3 \<Longrightarrow> length (encode_chunk chunk) = Suc (length chunk)"
  by (auto simp: le_Suc_eq numeral_3_eq_3 length_Suc_conv encode_chunk_eqs)

lemma b64_encode_step: "length a = 3 \<Longrightarrow> b64_encode (a @ b) = encode_chunk a @ b64_encode b"
  by (simp add: b64_encode_def chunks_append)

lemma b64_encode_last:
  "a \<noteq> [] \<Longrightarrow> length a \<le> 3 \<Longrightarrow> b64_encode a = encode_chunk a"
  by (simp add: b64_encode_def chunks_whole)

lemma length_b64_encode_mod: "length (b64_encode bs) mod 4 \<noteq> 1"
proof (induction bs rule: length_induct)
  case (1 bs)
  show ?case
  proof (cases "length bs \<le> 3")
    case True
    show ?thesis
    proof (cases "bs = []")
      case False
      with True have "length (b64_encode bs) = Suc (length bs)" "length bs \<in> {1, 2, 3}"
        by (auto simp: b64_encode_last length_encode_chunk le_Suc_eq numeral_3_eq_3)
      then show ?thesis by auto
    qed (simp add: b64_encode_def)
  next
    case False
    then have "b64_encode bs = encode_chunk (take 3 bs) @ b64_encode (drop 3 bs)"
      using b64_encode_step [of "take 3 bs" "drop 3 bs"] by simp
    moreover have "take 3 bs \<noteq> []" using False by auto
    ultimately show ?thesis
      using False 1 by (simp add: length_encode_chunk)
  qed
qed

lemma decode_loop_encode: "decode_loop base (chunks 4 (b64_encode bs)) = Ok bs"
proof (induction bs arbitrary: base rule: length_induct)
  case (1 bs)
  consider "bs = []" | "bs \<noteq> []" "length bs \<le> 2" | "3 \<le> length bs" by linarith
  then show ?case
  proof cases
    case 1
    then show ?thesis by (simp add: b64_encode_def)
  next
    case 2
    then have "chunks 4 (b64_encode bs) = [encode_chunk bs]"
      using length_encode_chunk [of bs] by (auto simp: b64_encode_last intro!: chunks_whole)
    with 2 show ?thesis by (simp add: decode_encode_chunk)
  next
    case 3
    let ?a = "take 3 bs" and ?b = "drop 3 bs"
    have "?a \<noteq> []" "length ?a \<le> 3" using 3 by auto
    then have "chunks 4 (b64_encode bs) = encode_chunk ?a # chunks 4 (b64_encode ?b)"
      using 3 b64_encode_step [of ?a ?b] length_encode_chunk [of ?a] by (simp add: chunks_append)
    moreover have "decode_loop (base + 4) (chunks 4 (b64_encode ?b)) = Ok ?b"
      using 1 3 by simp
    ultimately show ?thesis
      using \<open>?a \<noteq> []\<close> by (simp add: decode_encode_chunk)
  qed
qed

lemma encode_decode_loop:
  "length tx mod 4 \<noteq> 1 \<Longrightarrow> decode_loop base (chunks 4 tx) = Ok bs \<Longrightarrow> b64_encode bs = tx"
proof (induction tx arbitrary: base bs rule: length_induct)
  case (1 tx)
  consider "tx = []" | "tx \<noteq> []" "length tx \<le> 3" | "4 \<le> length tx" by linarith
  then show ?case
  proof cases
    case 1
    with "1.prems" show ?thesis by (simp add: b64_encode_def)
  next
    case 2
    have "length tx \<noteq> 1" using "1.prems"(1) by auto
    then have len: "2 \<le> length tx" "length tx \<le> 4"
      using 2 by (cases tx; simp add: Suc_le_eq)+
    from 2 "1.prems"(2) have "decode_chunk base tx = Ok bs"
      by (auto simp: chunks_whole and_then_eq_Inr)
    from encode_decode_chunk [OF this len] have "encode_chunk bs = tx" "length bs = length tx - 1"
      by simp_all
    then show ?thesis using len 2 by (subst b64_encode_last) auto
  next
    case 3
    let ?a = "take 4 tx" and ?b = "drop 4 tx"
    have "chunks 4 tx = ?a # chunks 4 ?b"
      using 3 chunks_append [of 4 ?a ?b] by simp
    with "1.prems"(2) obtain out rest where out: "decode_chunk base ?a = Ok out"
      and rest: "decode_loop (base + 4) (chunks 4 ?b) = Ok rest" and bs: "bs = out @ rest"
      by (auto simp: and_then_eq_Inr)
    have "encode_chunk out = ?a \<and> length out = 3"
      using encode_decode_chunk [OF out] 3 by simp
    moreover have "length ?b mod 4 \<noteq> 1"
      using "1.prems"(1) le_mod_geq [OF 3] by simp
    then have "b64_encode rest = ?b"
      using "1.IH" rest 3 by simp
    ultimately show ?thesis
      by (simp add: bs b64_encode_step)
  qed
qed

interpretation b64: strict_codec b64_encode b64_decode "\<lambda>_. True"
proof
  show "b64_decode (b64_encode m) = Ok m" for m
    using length_b64_encode_mod [of m] by (simp add: b64_decode_def decode_loop_encode)
  show "b64_encode m = w" if "b64_decode w = Ok m" for w m
    using that encode_decode_loop [of w 0 m] by (simp add: b64_decode_def split: if_splits)
qed simp

section \<open>Properties\<close>

text \<open>The base64url decoder is strict: it accepts a text exactly when the text is what the
  encoder writes for the decoded bytes, so each byte string has one accepted spelling
  (no padding, no other alphabet, no stray trailing bits) and every other text is refused
  with an error.\<close>

theorem b64_strict:
  "(b64_decode w = Ok m \<longleftrightarrow> b64_encode m = w)
   \<and> ((\<exists>e. b64_decode w = Err e) \<longleftrightarrow> w \<notin> range b64_encode)"
  using b64.accepted_iff [of w m] b64.refused_iff [of w] by simp

end
