(* ===== verification/Payload.thy ===== *)
theory Payload
  imports Base64url
begin

text \<open>
  Application payloads, \<open>crates/api/transport-api/src/payload.rs\<close>: the advisory media
  type, the payload with its frozen ceiling, and the JSON form with base64url bytes.  The
  ceiling holds on every path that makes a payload, and the JSON form is a strict codec.
\<close>

section \<open>Definitions\<close>

definition MAX_PAYLOAD_BYTES :: nat where
  "MAX_PAYLOAD_BYTES = 49152"

definition MAX_MEDIA_TYPE_BYTES :: nat where
  "MAX_MEDIA_TYPE_BYTES = 128"

datatype payload_error =
    TooLarge nat nat
  | EmptyMediaType
  | MediaTypeTooLong nat
  | MediaTypeNotAscii nat

datatype media_type = MediaType (media_str: bytes)

definition printable_byte :: "byte \<Rightarrow> bool" where
  "printable_byte b \<longleftrightarrow> 0x20 \<le> b \<and> b \<le> 0x7E"

definition media_parse :: "bytes \<Rightarrow> payload_error + media_type" where
  "media_parse value =
    (if value = [] then Err EmptyMediaType
     else if length value > MAX_MEDIA_TYPE_BYTES then Err (MediaTypeTooLong (length value))
     else (case first_bad printable_byte 0 value of
             Some (index, b) \<Rightarrow> Err (MediaTypeNotAscii index)
           | None \<Rightarrow> Ok (MediaType value)))"

record payload =
  payload_media :: "media_type option"
  payload_bytes :: bytes

definition payload_new :: "media_type option \<Rightarrow> bytes \<Rightarrow> nat \<Rightarrow> payload_error + payload" where
  "payload_new media bs limit =
    (let limit = min limit MAX_PAYLOAD_BYTES in
     if length bs > limit then Err (TooLarge (length bs) limit)
     else Ok \<lparr>payload_media = media, payload_bytes = bs\<rparr>)"

definition at_ceiling :: "media_type option \<Rightarrow> bytes \<Rightarrow> payload_error + payload" where
  "at_ceiling media bs = payload_new media bs MAX_PAYLOAD_BYTES"

text \<open>
  The JSON object, after the JSON parser has checked its shape: \<open>media_type\<close> is absent or a
  string, \<open>bytes\<close> is a string.
\<close>

record payload_json =
  json_media :: "bytes option"
  json_bytes :: bytes

datatype json_error = JsonPayload payload_error | JsonBase64 base64_error

definition payload_serialize :: "payload \<Rightarrow> payload_json" where
  "payload_serialize p =
    \<lparr>json_media = map_option media_str (payload_media p), json_bytes = b64_encode (payload_bytes p)\<rparr>"

definition absent_or_media_type :: "bytes option \<Rightarrow> payload_error + media_type option" where
  "absent_or_media_type v =
    (case v of None \<Rightarrow> Ok None | Some s \<Rightarrow> and_then (media_parse s) (\<lambda>m. Ok (Some m)))"

definition payload_deserialize :: "payload_json \<Rightarrow> json_error + payload" where
  "payload_deserialize raw =
    and_then (map_err JsonPayload (absent_or_media_type (json_media raw))) (\<lambda>media.
      let max_encoded = (MAX_PAYLOAD_BYTES + 2) div 3 * 4 in
      if length (json_bytes raw) > max_encoded
      then Err (JsonPayload (TooLarge (length (json_bytes raw) div 4 * 3) MAX_PAYLOAD_BYTES))
      else and_then (map_err JsonBase64 (b64_decode (json_bytes raw))) (\<lambda>bs.
        map_err JsonPayload (at_ceiling media bs)))"

section \<open>Well-formedness\<close>

definition media_ok :: "media_type \<Rightarrow> bool" where
  "media_ok m \<longleftrightarrow>
     media_str m \<noteq> [] \<and> length (media_str m) \<le> MAX_MEDIA_TYPE_BYTES \<and>
     list_all printable_byte (media_str m)"

definition payload_ok :: "nat \<Rightarrow> payload \<Rightarrow> bool" where
  "payload_ok limit p \<longleftrightarrow>
     pred_option media_ok (payload_media p) \<and>
     length (payload_bytes p) \<le> min limit MAX_PAYLOAD_BYTES"

section \<open>Lemmas\<close>

lemma media_parse_iff: "media_parse v = Inr m \<longleftrightarrow> media_ok m \<and> v = media_str m"
  unfolding media_parse_def media_ok_def first_bad_None [of _ 0, symmetric]
  by (cases m; cases "first_bad printable_byte 0 v") auto

lemma media_ok_utf8: "media_ok m \<Longrightarrow> utf8_ok (media_str m)"
  unfolding media_ok_def list_all_iff printable_byte_def
  by (rule utf8_ok_ascii) (auto simp: list_all_iff elim!: order_trans)

lemma payload_new_iff:
  "payload_new media bs limit = Inr p \<longleftrightarrow>
     length bs \<le> min limit MAX_PAYLOAD_BYTES \<and> p = \<lparr>payload_media = media, payload_bytes = bs\<rparr>"
  by (auto simp: payload_new_def Let_def)

lemma absent_or_media_type_iff:
  "absent_or_media_type v = Inr m \<longleftrightarrow> pred_option media_ok m \<and> v = map_option media_str m"
  by (cases v; cases m) (auto simp: absent_or_media_type_def and_then_eq_Inr media_parse_iff)

lemma length_b64_encode: "length (b64_encode bs) \<le> (length bs + 2) div 3 * 4"
proof (induction bs rule: length_induct)
  case (1 bs)
  consider (empty) "bs = []" | (short) "bs \<noteq> []" "length bs \<le> 3" | (long) "3 < length bs"
    by linarith
  then show ?case
  proof cases
    case empty
    then show ?thesis by (simp add: b64_encode_def)
  next
    case short
    then have "length (b64_encode bs) = Suc (length bs)"
      by (simp add: b64_encode_last length_encode_chunk)
    moreover have "0 < length bs" using short by simp
    then have "length bs = 1 \<or> length bs = 2 \<or> length bs = 3" using short by linarith
    ultimately show ?thesis by auto
  next
    case long
    let ?a = "take 3 bs" and ?b = "drop 3 bs"
    have "?a \<noteq> []" "length ?a = 3" using long by auto
    then have "length (b64_encode bs) = 4 + length (b64_encode ?b)"
      using b64_encode_step [of ?a ?b] by (simp add: length_encode_chunk)
    moreover have "length (b64_encode ?b) \<le> (length ?b + 2) div 3 * 4"
      using 1 [rule_format, of ?b] long by simp
    moreover have "(length bs + 2) div 3 = Suc ((length ?b + 2) div 3)"
      using long by simp
    ultimately show ?thesis by simp
  qed
qed

interpretation payload_json: strict_codec payload_serialize payload_deserialize
  "payload_ok MAX_PAYLOAD_BYTES"
proof
  fix p assume ok: "payload_ok MAX_PAYLOAD_BYTES p"
  then have "length (b64_encode (payload_bytes p)) \<le> (MAX_PAYLOAD_BYTES + 2) div 3 * 4"
    using length_b64_encode [of "payload_bytes p"]
    by (auto simp: payload_ok_def elim!: order_trans intro!: mult_le_mono1 div_le_mono)
  moreover have "absent_or_media_type (map_option media_str (payload_media p)) = Inr (payload_media p)"
    using ok by (simp add: absent_or_media_type_iff payload_ok_def)
  ultimately show "payload_deserialize (payload_serialize p) = Inr p"
    using ok by (simp add: payload_deserialize_def payload_serialize_def b64.dec_enc
        at_ceiling_def payload_new_iff payload_ok_def)
next
  fix w p assume "payload_deserialize w = Inr p"
  then show "payload_serialize p = w" and "payload_ok MAX_PAYLOAD_BYTES p"
    by (auto simp: payload_deserialize_def payload_serialize_def and_then_eq_Inr Let_def
        absent_or_media_type_iff at_ceiling_def payload_new_iff b64.accepted_iff payload_ok_def
        split: if_splits)
qed

section \<open>Properties\<close>

text \<open>A payload survives its JSON form: a payload within the ceiling reads back from what
  was written for it, and every JSON object that is accepted is the written form of a payload
  within the ceiling with a legal media type, so the bound holds at the untrusted boundary.\<close>

theorem payload_json_strict:
  "payload_deserialize w = Ok p \<longleftrightarrow> payload_ok MAX_PAYLOAD_BYTES p \<and> payload_serialize p = w"
  by (rule payload_json.accepted_iff)

end
