(* ===== verification/Wire.thy ===== *)
theory Wire
  imports Payload
begin

text \<open>
  The bounds-checked reader that the two wire frames share.  \<open>direct_v2.rs\<close> and
  \<open>broadcast_v1.rs\<close> each carry a private copy of the cursor, of \<open>ceiling\<close>, of the media
  type block and of the payload block; the copies differ only in the error values they
  build, so one definition takes those as a record (\<open>wire_errors\<close>).
\<close>

section \<open>Definitions\<close>

record 'e wire_errors =
  err_truncated :: "string \<Rightarrow> nat \<Rightarrow> nat \<Rightarrow> 'e"
  err_too_long :: "string \<Rightarrow> nat \<Rightarrow> nat \<Rightarrow> 'e"
  err_payload_too_large :: "nat \<Rightarrow> nat \<Rightarrow> 'e"
  err_media :: "payload_error \<Rightarrow> 'e"
  err_trailing :: "nat \<Rightarrow> 'e"

record cursor =
  cur_buffer :: bytes
  cur_at :: nat

definition cursor_new :: "bytes \<Rightarrow> cursor" where
  "cursor_new buffer = \<lparr>cur_buffer = buffer, cur_at = 0\<rparr>"

definition cur_remaining :: "cursor \<Rightarrow> nat" where
  "cur_remaining c = length (cur_buffer c) - cur_at c"

definition cur_take :: "'e wire_errors \<Rightarrow> string \<Rightarrow> nat \<Rightarrow> cursor \<Rightarrow> 'e + (bytes \<times> cursor)" where
  "cur_take E field len c =
    (let available = cur_remaining c in
     if len > available then Err (err_truncated E field len available)
     else Ok (take len (drop (cur_at c) (cur_buffer c)), c\<lparr>cur_at := cur_at c + len\<rparr>))"

definition cur_take_u8 :: "'e wire_errors \<Rightarrow> string \<Rightarrow> cursor \<Rightarrow> 'e + (byte \<times> cursor)" where
  "cur_take_u8 E field c = and_then (cur_take E field 1 c) (\<lambda>(s, c). Ok (s ! 0, c))"

definition ceiling :: "'e wire_errors \<Rightarrow> string \<Rightarrow> nat \<Rightarrow> nat \<Rightarrow> 'e + unit" where
  "ceiling E field got mx = (if got > mx then Err (err_too_long E field got mx) else Ok ())"

text \<open>The media type: a length byte, zero for absence, then the text.\<close>

definition read_media :: "'e wire_errors \<Rightarrow> cursor \<Rightarrow> 'e + (media_type option \<times> cursor)" where
  "read_media E c =
    and_then (cur_take_u8 E ''media_type_len'' c) (\<lambda>(b, c).
      let len = unat b in
      if len = 0 then Ok (None, c)
      else and_then (ceiling E ''media_type'' len MAX_MEDIA_TYPE_BYTES) (\<lambda>_.
        and_then (cur_take E ''media_type'' len c) (\<lambda>(raw, c).
          if \<not> utf8_ok raw then Err (err_media E (MediaTypeNotAscii 0))
          else and_then (map_err (err_media E) (media_parse raw)) (\<lambda>m. Ok (Some m, c)))))"

text \<open>The payload body, once its declared length is known.\<close>

definition read_payload ::
  "'e wire_errors \<Rightarrow> nat \<Rightarrow> media_type option \<Rightarrow> nat \<Rightarrow> cursor \<Rightarrow> 'e + (payload \<times> cursor)" where
  "read_payload E limit media len c =
    (let mx = min limit MAX_PAYLOAD_BYTES in
     if len > mx then Err (err_payload_too_large E len mx)
     else and_then (cur_take E ''payload'' len c) (\<lambda>(bs, c).
       and_then (map_err (err_media E) (payload_new media bs limit)) (\<lambda>p. Ok (p, c))))"

text \<open>\<open>u8::try_from(len).unwrap_or(u8::MAX)\<close> and its 32-bit sibling.\<close>

definition u8_len :: "nat \<Rightarrow> byte" where
  "u8_len n = (if n < 256 then word_of_nat n else 255)"

definition u32_len_be :: "nat \<Rightarrow> bytes" where
  "u32_len_be n = be_bytes 4 (if n < 2 ^ 32 then n else 2 ^ 32 - 1)"

definition put_u8_prefixed :: "bytes \<Rightarrow> bytes" where
  "put_u8_prefixed s = u8_len (length s) # s"

section \<open>Reading\<close>

text \<open>What is left to read; every reader is described by what it takes off the front.\<close>

definition cur_rest :: "cursor \<Rightarrow> bytes" where
  "cur_rest c = drop (cur_at c) (cur_buffer c)"

lemma cur_rest_new [simp]: "cur_rest (cursor_new w) = w"
  by (simp add: cur_rest_def cursor_new_def)

lemma cur_remaining_rest: "cur_remaining c = length (cur_rest c)"
  by (simp add: cur_remaining_def cur_rest_def)

lemma cur_take_Inr:
  "cur_take E field n c = Inr (s, c') \<longleftrightarrow>
     length s = n \<and> cur_rest c = s @ cur_rest c' \<and> c' = c\<lparr>cur_at := cur_at c + n\<rparr>"
proof -
  have "cur_rest (c\<lparr>cur_at := cur_at c + n\<rparr>) = drop n (cur_rest c)"
    by (simp add: cur_rest_def add.commute)
  then show ?thesis
    by (auto simp: cur_take_def Let_def cur_remaining_rest cur_rest_def [symmetric])
qed

lemma cur_take_app:
  assumes "cur_rest c = s @ r" "length s = n"
  obtains c' where "cur_take E field n c = Inr (s, c')" "cur_rest c' = r"
proof -
  have "cur_rest (c\<lparr>cur_at := cur_at c + n\<rparr>) = drop n (cur_rest c)"
    by (simp add: cur_rest_def add.commute)
  with assms show thesis
    by (intro that [of "c\<lparr>cur_at := cur_at c + n\<rparr>"]) (simp_all add: cur_take_Inr)
qed

lemma cur_take_u8_Inr:
  assumes "cur_take_u8 E field c = Inr (b, c')"
  shows "cur_rest c = b # cur_rest c'"
proof -
  from assms obtain s where "length s = 1" "cur_rest c = s @ cur_rest c'" "b = s ! 0"
    by (auto simp: cur_take_u8_def and_then_eq_Inr cur_take_Inr)
  then show ?thesis by (cases s) auto
qed

lemma cur_take_u8_app:
  assumes "cur_rest c = b # r"
  obtains c' where "cur_take_u8 E field c = Inr (b, c')" "cur_rest c' = r"
proof -
  from assms obtain c' where "cur_take E field 1 c = Inr ([b], c')" "cur_rest c' = r"
    using cur_take_app [of c "[b]" r 1 E field] by auto
  then show thesis by (intro that) (auto simp: cur_take_u8_def)
qed

lemma ceiling_Inr [simp]: "ceiling E field got mx = Inr u \<longleftrightarrow> got \<le> mx"
  by (simp add: ceiling_def)

section \<open>Length prefixes\<close>

lemma u8_len_unat [simp]: "u8_len (unat b) = b"
  using unat_byte_less [of b] by (simp add: u8_len_def)

lemma unat_u8_len: "n < 256 \<Longrightarrow> unat (u8_len n) = n"
  by (simp add: u8_len_def unat_of_nat)

lemma length_u32_len_be [simp]: "length (u32_len_be n) = 4"
  by (simp add: u32_len_be_def)

lemma be_val_u32_len_be: "n < 2 ^ 32 \<Longrightarrow> be_val (u32_len_be n) = n"
  by (simp add: u32_len_be_def be_val_be_bytes)

lemma u32_len_be_be_val: "length bs = 4 \<Longrightarrow> u32_len_be (be_val bs) = bs"
  using be_val_less [of bs] be_bytes_be_val [of bs] by (simp add: u32_len_be_def)

lemma u32_len_be_small: "n < 256 \<Longrightarrow> u32_len_be n = [0, 0, 0, word_of_nat n]"
proof -
  have four: "(4 :: nat) = Suc (Suc (Suc (Suc 0)))" by simp
  show "n < 256 \<Longrightarrow> u32_len_be n = [0, 0, 0, word_of_nat n]"
    unfolding u32_len_be_def four by simp
qed

section \<open>Media types and payload bodies\<close>

definition media_wire :: "media_type option \<Rightarrow> bytes" where
  "media_wire m = put_u8_prefixed (case m of None \<Rightarrow> [] | Some t \<Rightarrow> media_str t)"

lemma read_media_sound:
  assumes "read_media E c = Inr (m, c')"
  shows "pred_option media_ok m" "cur_rest c = media_wire m @ cur_rest c'"
proof -
  from assms obtain b c1 where b: "cur_rest c = b # cur_rest c1"
    and rest: "(unat b = 0 \<and> m = None \<and> c' = c1) \<or>
      (\<exists>t. m = Some t \<and> media_ok t \<and> length (media_str t) = unat b \<and>
        cur_rest c1 = media_str t @ cur_rest c')"
    by (auto simp: read_media_def and_then_eq_Inr cur_take_Inr media_parse_iff Let_def
        dest!: cur_take_u8_Inr split: if_splits)
  from rest show "pred_option media_ok m" by auto
  have "unat b = 0 \<Longrightarrow> u8_len 0 = b" using u8_len_unat [of b] by simp
  with b rest show "cur_rest c = media_wire m @ cur_rest c'"
    by (auto simp: media_wire_def put_u8_prefixed_def)
qed

lemma read_media_complete:
  assumes "pred_option media_ok m" "cur_rest c = media_wire m @ r"
  obtains c' where "read_media E c = Inr (m, c')" "cur_rest c' = r"
proof (cases m)
  case None
  with assms have "cur_rest c = 0 # r"
    by (simp add: media_wire_def put_u8_prefixed_def u8_len_def)
  then obtain c' where "cur_take_u8 E ''media_type_len'' c = Inr (0, c')" "cur_rest c' = r"
    by (rule cur_take_u8_app)
  with None show ?thesis by (intro that) (auto simp: read_media_def)
next
  case (Some t)
  let ?n = "length (media_str t)"
  have t: "media_ok t" using assms Some by simp
  then have n: "0 < ?n" "?n \<le> MAX_MEDIA_TYPE_BYTES" "?n < 256"
    by (auto simp: media_ok_def MAX_MEDIA_TYPE_BYTES_def)
  from assms Some obtain c1 where 1: "cur_take_u8 E ''media_type_len'' c = Inr (u8_len ?n, c1)"
    "cur_rest c1 = media_str t @ r"
    by (auto simp: media_wire_def put_u8_prefixed_def elim: cur_take_u8_app)
  obtain c2 where 2: "cur_take E ''media_type'' ?n c1 = Inr (media_str t, c2)" "cur_rest c2 = r"
    using cur_take_app [OF 1(2) refl] by blast
  have "media_parse (media_str t) = Inr t" using t by (simp add: media_parse_iff)
  with 1 2 n t Some show ?thesis
    by (intro that [of c2]) (simp_all add: read_media_def unat_u8_len media_ok_utf8 ceiling_def)
qed

lemma read_payload_Inr:
  "read_payload E limit media len c = Inr (p, c') \<longleftrightarrow>
     len \<le> min limit MAX_PAYLOAD_BYTES \<and> payload_media p = media \<and>
     cur_take E ''payload'' len c = Inr (payload_bytes p, c')"
  by (auto simp: read_payload_def Let_def and_then_eq_Inr payload_new_iff cur_take_Inr)

end
