(* ===== verification/Status.thy ===== *)
theory Status
  imports Prelude
begin

text \<open>
  The two error vocabularies of \<open>crates/api/transport-api/src/status.rs\<close>: the precise local
  one (\<open>TransportError\<close>) and the coarse one a remote peer may see
  (\<open>DirectRejectReason\<close>), with the total map between them.  Constructors carry a prefix
  (\<open>Te\<close>, \<open>Rj\<close>) because the source reuses the same words in several enums.
\<close>

datatype direct_reject_reason =
    RjNoRoute
  | RjUnauthorizedPeer
  | RjOverloaded
  | RjMalformed
  | RjTooLarge
  | RjShuttingDown
  | RjUnsupported

datatype transport_error =
    TeInvalidArgument
  | TePayloadTooLarge
  | TeChannelNotJoined
  | TeEndpointNotRegistered
  | TeEndpointUnknown
  | TeEndpointInUse
  | TeEndpointDisabled
  | TeEndpointClientKindDenied
  | TeCapabilityDenied
  | TeUnauthorizedPeer
  | TePeerUnknown
  | TePeerUnreachable
  | TeRemoteEndpointUnavailable
  | TeTimeout
  | TeCancelledBeforeDispatch
  | TeCancellationRaced
  | TeOverloaded
  | TeBackendUnavailable
  | TeProtocolUnsupported
  | TeProtocolViolation
  | TeVersionIncompatible
  | TeShuttingDown
  | TeInternal

fun to_wire :: "transport_error \<Rightarrow> direct_reject_reason" where
  "to_wire TeEndpointUnknown = RjNoRoute"
| "to_wire TeEndpointDisabled = RjNoRoute"
| "to_wire TeEndpointClientKindDenied = RjNoRoute"
| "to_wire TeEndpointNotRegistered = RjNoRoute"
| "to_wire TeEndpointInUse = RjNoRoute"
| "to_wire TeRemoteEndpointUnavailable = RjNoRoute"
| "to_wire TePeerUnknown = RjNoRoute"
| "to_wire TeCapabilityDenied = RjNoRoute"
| "to_wire TeUnauthorizedPeer = RjUnauthorizedPeer"
| "to_wire TePayloadTooLarge = RjTooLarge"
| "to_wire TeOverloaded = RjOverloaded"
| "to_wire TeShuttingDown = RjShuttingDown"
| "to_wire TeProtocolUnsupported = RjUnsupported"
| "to_wire TeVersionIncompatible = RjUnsupported"
| "to_wire TeInvalidArgument = RjMalformed"
| "to_wire TeProtocolViolation = RjMalformed"
| "to_wire TeChannelNotJoined = RjOverloaded"
| "to_wire TePeerUnreachable = RjOverloaded"
| "to_wire TeTimeout = RjOverloaded"
| "to_wire TeCancelledBeforeDispatch = RjOverloaded"
| "to_wire TeCancellationRaced = RjOverloaded"
| "to_wire TeBackendUnavailable = RjOverloaded"
| "to_wire TeInternal = RjOverloaded"

text \<open>The local conditions that a peer sees as one and the same answer.\<close>

lemma to_wire_no_route:
  "to_wire e = RjNoRoute \<longleftrightarrow>
     e \<in> {TeEndpointUnknown, TeEndpointDisabled, TeEndpointClientKindDenied, TeEndpointNotRegistered,
          TeEndpointInUse, TeRemoteEndpointUnavailable, TePeerUnknown, TeCapabilityDenied}"
  by (cases e) simp_all

end
