(* ===== verification/Direct_Frame.thy ===== *)
theory Direct_Frame
  imports Wire Status
begin

text \<open>
  The directed-message frame, \<open>crates/api/transport-api/src/direct_v2.rs\<close>:
  \<open>message_id:16 || sent_at_ms:u64be || u8-prefixed source || u8-prefixed destination ||
  u8-prefixed media type || payload_len:u32be || payload\<close>.  Encoding and decoding form a
  strict codec for every effective payload limit, and the coarse code a peer learns from a
  refused frame is \<open>too_large\<close> exactly when the header is sound and declares too much.
\<close>

section \<open>Definitions\<close>

datatype frame_error =
    Truncated string nat nat
  | PayloadTooLarge nat nat
  | DeclaredTooLong string nat nat
  | EmptySourceEndpoint
  | Endpoint string id_error
  | Media payload_error
  | TrailingBytes nat

fun frame_error_to_wire :: "frame_error \<Rightarrow> direct_reject_reason" where
  "frame_error_to_wire (PayloadTooLarge _ _) = RjTooLarge"
| "frame_error_to_wire _ = RjMalformed"

definition direct_errors :: "frame_error wire_errors" where
  "direct_errors =
    \<lparr>err_truncated = Truncated, err_too_long = DeclaredTooLong,
     err_payload_too_large = PayloadTooLarge, err_media = Media, err_trailing = TrailingBytes\<rparr>"

record direct_message =
  dm_message_id :: message_id
  dm_sent_at_ms :: u64
  dm_source_endpoint :: endpoint_id
  dm_destination_endpoint :: "endpoint_id option"
  dm_payload :: payload

record direct_header =
  dh_message_id :: message_id
  dh_sent_at_ms :: u64
  dh_source_endpoint :: endpoint_id
  dh_destination_endpoint :: "endpoint_id option"
  dh_media_type :: "media_type option"
  dh_declared_payload_len :: nat

definition direct_encode :: "direct_message \<Rightarrow> bytes" where
  "direct_encode m =
    (let source = endpoint_str (dm_source_endpoint m);
         destination = (case dm_destination_endpoint m of None \<Rightarrow> [] | Some e \<Rightarrow> endpoint_str e);
         media = (case payload_media (dm_payload m) of None \<Rightarrow> [] | Some t \<Rightarrow> media_str t);
         bs = payload_bytes (dm_payload m)
     in message_bytes (dm_message_id m)
        @ u64_be (dm_sent_at_ms m)
        @ put_u8_prefixed source
        @ put_u8_prefixed destination
        @ put_u8_prefixed media
        @ u32_len_be (length bs)
        @ bs)"

text \<open>\<open>endpoint\<close>: a label's bytes to an endpoint identifier.\<close>

definition parse_label :: "string \<Rightarrow> bytes \<Rightarrow> frame_error + endpoint_id" where
  "parse_label field raw =
    (if \<not> utf8_ok raw
     then Err (Endpoint field (IllegalByte 0 (case raw of [] \<Rightarrow> 0 | b # _ \<Rightarrow> b)))
     else map_err (Endpoint field) (endpoint_parse raw))"

definition read_source :: "cursor \<Rightarrow> frame_error + (endpoint_id \<times> cursor)" where
  "read_source c =
    and_then (cur_take_u8 direct_errors ''source_endpoint_len'' c) (\<lambda>(b, c).
      let len = unat b in
      if len = 0 then Err EmptySourceEndpoint
      else and_then (ceiling direct_errors ''source_endpoint'' len ENDPOINT_MAX_BYTES) (\<lambda>_.
        and_then (cur_take direct_errors ''source_endpoint'' len c) (\<lambda>(raw, c).
          and_then (parse_label ''source_endpoint'' raw) (\<lambda>e. Ok (e, c)))))"

definition read_destination :: "cursor \<Rightarrow> frame_error + (endpoint_id option \<times> cursor)" where
  "read_destination c =
    and_then (cur_take_u8 direct_errors ''destination_endpoint_len'' c) (\<lambda>(b, c).
      let len = unat b in
      if len = 0 then Ok (None, c)
      else and_then (ceiling direct_errors ''destination_endpoint'' len ENDPOINT_MAX_BYTES) (\<lambda>_.
        and_then (cur_take direct_errors ''destination_endpoint'' len c) (\<lambda>(raw, c).
          and_then (parse_label ''destination_endpoint'' raw) (\<lambda>e. Ok (Some e, c)))))"

definition parse_header :: "cursor \<Rightarrow> frame_error + (direct_header \<times> cursor)" where
  "parse_header c =
    and_then (cur_take direct_errors ''message_id'' 16 c) (\<lambda>(mid, c).
    and_then (cur_take direct_errors ''sent_at_ms'' 8 c) (\<lambda>(ts, c).
    and_then (read_source c) (\<lambda>(src, c).
    and_then (read_destination c) (\<lambda>(dst, c).
    and_then (read_media direct_errors c) (\<lambda>(media, c).
    and_then (cur_take direct_errors ''payload_len'' 4 c) (\<lambda>(declared, c).
      Ok (\<lparr>dh_message_id = MessageId mid, dh_sent_at_ms = u64_from_be ts,
           dh_source_endpoint = src, dh_destination_endpoint = dst, dh_media_type = media,
           dh_declared_payload_len = be_val declared\<rparr>, c)))))))"

definition declared_payload_len :: "bytes \<Rightarrow> frame_error + nat" where
  "declared_payload_len buffer =
    and_then (parse_header (cursor_new buffer)) (\<lambda>(h, _). Ok (dh_declared_payload_len h))"

definition direct_decode :: "bytes \<Rightarrow> nat \<Rightarrow> frame_error + direct_message" where
  "direct_decode buffer limit =
    and_then (parse_header (cursor_new buffer)) (\<lambda>(h, c).
    and_then (read_payload direct_errors limit (dh_media_type h) (dh_declared_payload_len h) c) (\<lambda>(p, c).
      let extra = cur_remaining c in
      if extra > 0 then Err (TrailingBytes extra)
      else Ok \<lparr>dm_message_id = dh_message_id h, dm_sent_at_ms = dh_sent_at_ms h,
               dm_source_endpoint = dh_source_endpoint h,
               dm_destination_endpoint = dh_destination_endpoint h, dm_payload = p\<rparr>))"

record accepted_v2 =
  acc_message_id :: message_id
  acc_resolved :: endpoint_id

record rejected_v2 =
  rej_message_id :: message_id
  rej_reason :: direct_reject_reason

section \<open>Well-formed messages\<close>

definition direct_ok :: "nat \<Rightarrow> direct_message \<Rightarrow> bool" where
  "direct_ok limit m \<longleftrightarrow>
     message_id_ok (dm_message_id m) \<and> endpoint_ok (dm_source_endpoint m) \<and>
     pred_option endpoint_ok (dm_destination_endpoint m) \<and> payload_ok limit (dm_payload m)"

definition label_wire :: "endpoint_id option \<Rightarrow> bytes" where
  "label_wire e = put_u8_prefixed (case e of None \<Rightarrow> [] | Some e \<Rightarrow> endpoint_str e)"

definition header_wire :: "direct_header \<Rightarrow> bytes" where
  "header_wire h =
     message_bytes (dh_message_id h) @ u64_be (dh_sent_at_ms h)
     @ label_wire (Some (dh_source_endpoint h)) @ label_wire (dh_destination_endpoint h)
     @ media_wire (dh_media_type h) @ u32_len_be (dh_declared_payload_len h)"

definition header_ok :: "direct_header \<Rightarrow> bool" where
  "header_ok h \<longleftrightarrow>
     message_id_ok (dh_message_id h) \<and> endpoint_ok (dh_source_endpoint h) \<and>
     pred_option endpoint_ok (dh_destination_endpoint h) \<and> pred_option media_ok (dh_media_type h) \<and>
     dh_declared_payload_len h < 2 ^ 32"

section \<open>Labels\<close>

lemma parse_label_iff: "parse_label field raw = Inr e \<longleftrightarrow> endpoint_ok e \<and> raw = endpoint_str e"
  by (auto simp: parse_label_def endpoint_parse_iff endpoint_ok_utf8)

lemma endpoint_len:
  assumes "endpoint_ok e"
  shows "0 < length (endpoint_str e)" "length (endpoint_str e) \<le> ENDPOINT_MAX_BYTES"
    "length (endpoint_str e) < 256"
  using assms by (auto simp: endpoint_ok_def ENDPOINT_MAX_BYTES_def)

lemma read_source_sound:
  assumes "read_source c = Inr (e, c')"
  shows "endpoint_ok e" "cur_rest c = label_wire (Some e) @ cur_rest c'"
proof -
  from assms obtain b c1 where "cur_rest c = b # cur_rest c1" "endpoint_ok e"
    "length (endpoint_str e) = unat b" "cur_rest c1 = endpoint_str e @ cur_rest c'"
    by (auto simp: read_source_def and_then_eq_Inr cur_take_Inr parse_label_iff Let_def
        dest!: cur_take_u8_Inr split: if_splits)
  then show "endpoint_ok e" "cur_rest c = label_wire (Some e) @ cur_rest c'"
    by (simp_all add: label_wire_def put_u8_prefixed_def)
qed

lemma read_destination_sound:
  assumes "read_destination c = Inr (d, c')"
  shows "pred_option endpoint_ok d" "cur_rest c = label_wire d @ cur_rest c'"
proof -
  from assms obtain b c1 where b: "cur_rest c = b # cur_rest c1"
    and rest: "(unat b = 0 \<and> d = None \<and> c' = c1) \<or>
      (\<exists>e. d = Some e \<and> endpoint_ok e \<and> length (endpoint_str e) = unat b \<and>
        cur_rest c1 = endpoint_str e @ cur_rest c')"
    by (auto simp: read_destination_def and_then_eq_Inr cur_take_Inr parse_label_iff Let_def
        dest!: cur_take_u8_Inr split: if_splits)
  from rest show "pred_option endpoint_ok d" by auto
  have "unat b = 0 \<Longrightarrow> u8_len 0 = b" using u8_len_unat [of b] by simp
  with b rest show "cur_rest c = label_wire d @ cur_rest c'"
    by (auto simp: label_wire_def put_u8_prefixed_def)
qed

lemma take_label_complete:
  assumes "endpoint_ok e" "cur_rest c = label_wire (Some e) @ r"
  obtains c1 c2 where
    "cur_take_u8 direct_errors f c = Inr (u8_len (length (endpoint_str e)), c1)"
    "cur_take direct_errors g (length (endpoint_str e)) c1 = Inr (endpoint_str e, c2)"
    "cur_rest c2 = r"
proof -
  from assms(2) obtain c1 where 1:
    "cur_take_u8 direct_errors f c = Inr (u8_len (length (endpoint_str e)), c1)"
    "cur_rest c1 = endpoint_str e @ r"
    by (auto simp: label_wire_def put_u8_prefixed_def elim: cur_take_u8_app)
  obtain c2 where
    "cur_take direct_errors g (length (endpoint_str e)) c1 = Inr (endpoint_str e, c2)" "cur_rest c2 = r"
    using cur_take_app [OF 1(2) refl] by blast
  with 1 show thesis by (intro that)
qed

lemma read_source_complete:
  assumes "endpoint_ok e" "cur_rest c = label_wire (Some e) @ r"
  obtains c' where "read_source c = Inr (e, c')" "cur_rest c' = r"
proof -
  obtain c1 c2 where
    "cur_take_u8 direct_errors ''source_endpoint_len'' c = Inr (u8_len (length (endpoint_str e)), c1)"
    "cur_take direct_errors ''source_endpoint'' (length (endpoint_str e)) c1 = Inr (endpoint_str e, c2)"
    "cur_rest c2 = r"
    by (rule take_label_complete [OF assms])
  moreover have "parse_label ''source_endpoint'' (endpoint_str e) = Inr e"
    using assms(1) by (simp add: parse_label_iff)
  ultimately show thesis
    using endpoint_len [OF assms(1)]
    by (intro that [of c2]) (simp_all add: read_source_def unat_u8_len ceiling_def)
qed

lemma read_destination_complete:
  assumes "pred_option endpoint_ok d" "cur_rest c = label_wire d @ r"
  obtains c' where "read_destination c = Inr (d, c')" "cur_rest c' = r"
proof (cases d)
  case None
  with assms have "cur_rest c = 0 # r"
    by (simp add: label_wire_def put_u8_prefixed_def u8_len_def)
  then obtain c' where "cur_take_u8 direct_errors ''destination_endpoint_len'' c = Inr (0, c')"
    "cur_rest c' = r"
    by (rule cur_take_u8_app)
  with None show ?thesis by (intro that) (auto simp: read_destination_def)
next
  case (Some e)
  with assms have e: "endpoint_ok e" "cur_rest c = label_wire (Some e) @ r" by simp_all
  obtain c1 c2 where
    "cur_take_u8 direct_errors ''destination_endpoint_len'' c = Inr (u8_len (length (endpoint_str e)), c1)"
    "cur_take direct_errors ''destination_endpoint'' (length (endpoint_str e)) c1 = Inr (endpoint_str e, c2)"
    "cur_rest c2 = r"
    by (rule take_label_complete [OF e])
  moreover have "parse_label ''destination_endpoint'' (endpoint_str e) = Inr e"
    using e(1) by (simp add: parse_label_iff)
  ultimately show ?thesis
    using endpoint_len [OF e(1)] Some
    by (intro that [of c2]) (simp_all add: read_destination_def unat_u8_len ceiling_def)
qed

section \<open>Headers and frames\<close>

lemma parse_header_sound:
  assumes "parse_header c = Inr (h, c')"
  shows "header_ok h" "cur_rest c = header_wire h @ cur_rest c'"
proof -
  from assms obtain mid ts d c1 c2 c3 c4 c5 where
    1: "length mid = 16" "cur_rest c = mid @ cur_rest c1"
    and 2: "length ts = 8" "cur_rest c1 = ts @ cur_rest c2"
    and 3: "read_source c2 = Inr (dh_source_endpoint h, c3)"
    and 4: "read_destination c3 = Inr (dh_destination_endpoint h, c4)"
    and 5: "read_media direct_errors c4 = Inr (dh_media_type h, c5)"
    and 6: "length d = 4" "cur_rest c5 = d @ cur_rest c'"
    and h: "dh_message_id h = MessageId mid" "dh_sent_at_ms h = u64_from_be ts"
      "dh_declared_payload_len h = be_val d"
    by (auto simp: parse_header_def and_then_eq_Inr cur_take_Inr)
  show "header_ok h"
    using 1 h be_val_less [of d] 6(1) read_source_sound [OF 3] read_destination_sound [OF 4]
      read_media_sound [OF 5]
    by (simp add: header_ok_def message_id_ok_def MESSAGE_ID_LEN_def)
  show "cur_rest c = header_wire h @ cur_rest c'"
    using 1 2 6 h read_source_sound [OF 3] read_destination_sound [OF 4] read_media_sound [OF 5]
    by (simp add: header_wire_def u64_be_u64_from_be u32_len_be_be_val)
qed

lemma parse_header_complete:
  assumes "header_ok h" "cur_rest c = header_wire h @ r"
  obtains c' where "parse_header c = Inr (h, c')" "cur_rest c' = r"
proof -
  obtain mid where mid: "dh_message_id h = MessageId mid" "length mid = 16"
    using assms(1) by (cases "dh_message_id h") (auto simp: header_ok_def message_id_ok_def MESSAGE_ID_LEN_def)
  let ?r2 = "label_wire (Some (dh_source_endpoint h)) @ label_wire (dh_destination_endpoint h)
     @ media_wire (dh_media_type h) @ u32_len_be (dh_declared_payload_len h) @ r"
  have c: "cur_rest c = mid @ u64_be (dh_sent_at_ms h) @ ?r2"
    using assms(2) by (simp add: header_wire_def mid)
  obtain c1 where 1: "cur_take direct_errors ''message_id'' 16 c = Inr (mid, c1)"
    "cur_rest c1 = u64_be (dh_sent_at_ms h) @ ?r2"
    by (rule cur_take_app [OF c mid(2)])
  obtain c2 where 2: "cur_take direct_errors ''sent_at_ms'' 8 c1 = Inr (u64_be (dh_sent_at_ms h), c2)"
    "cur_rest c2 = ?r2"
    by (rule cur_take_app [OF 1(2) length_u64_be])
  have ok: "endpoint_ok (dh_source_endpoint h)" "pred_option endpoint_ok (dh_destination_endpoint h)"
    "pred_option media_ok (dh_media_type h)"
    using assms(1) by (simp_all add: header_ok_def)
  obtain c3 where 3: "read_source c2 = Inr (dh_source_endpoint h, c3)"
    "cur_rest c3 = label_wire (dh_destination_endpoint h) @ media_wire (dh_media_type h)
       @ u32_len_be (dh_declared_payload_len h) @ r"
    by (rule read_source_complete [OF ok(1) 2(2)])
  obtain c4 where 4: "read_destination c3 = Inr (dh_destination_endpoint h, c4)"
    "cur_rest c4 = media_wire (dh_media_type h) @ u32_len_be (dh_declared_payload_len h) @ r"
    by (rule read_destination_complete [OF ok(2) 3(2)])
  obtain c5 where 5: "read_media direct_errors c4 = Inr (dh_media_type h, c5)"
    "cur_rest c5 = u32_len_be (dh_declared_payload_len h) @ r"
    by (rule read_media_complete [OF ok(3) 4(2)])
  obtain c6 where 6: "cur_take direct_errors ''payload_len'' 4 c5
      = Inr (u32_len_be (dh_declared_payload_len h), c6)" "cur_rest c6 = r"
    by (rule cur_take_app [OF 5(2) length_u32_len_be])
  show thesis
    using 1 2 3 4 5 6 mid assms(1)
    by (intro that [of c6]) (simp_all add: parse_header_def be_val_u32_len_be header_ok_def)
qed

text \<open>The header a message is sent with.\<close>

definition header_of :: "direct_message \<Rightarrow> direct_header" where
  "header_of m =
    \<lparr>dh_message_id = dm_message_id m, dh_sent_at_ms = dm_sent_at_ms m,
     dh_source_endpoint = dm_source_endpoint m,
     dh_destination_endpoint = dm_destination_endpoint m,
     dh_media_type = payload_media (dm_payload m),
     dh_declared_payload_len = length (payload_bytes (dm_payload m))\<rparr>"

lemma direct_encode_header: "direct_encode m = header_wire (header_of m) @ payload_bytes (dm_payload m)"
  by (simp add: direct_encode_def header_wire_def header_of_def label_wire_def media_wire_def Let_def)

lemma header_of_ok: "direct_ok limit m \<Longrightarrow> header_ok (header_of m)"
  by (auto simp: direct_ok_def header_ok_def header_of_def payload_ok_def MAX_PAYLOAD_BYTES_def)

interpretation direct: strict_codec direct_encode "\<lambda>w. direct_decode w limit" "direct_ok limit"
  for limit
proof
  fix m assume ok: "direct_ok limit m"
  let ?p = "dm_payload m"
  obtain c where c: "parse_header (cursor_new (direct_encode m)) = Inr (header_of m, c)"
    "cur_rest c = payload_bytes ?p @ []"
    using parse_header_complete [OF header_of_ok [OF ok], of "cursor_new (direct_encode m)"]
    by (auto simp: direct_encode_header)
  obtain c' where c': "cur_take direct_errors ''payload'' (length (payload_bytes ?p)) c
      = Inr (payload_bytes ?p, c')" "cur_rest c' = []"
    by (rule cur_take_app [OF c(2) refl])
  have "read_payload direct_errors limit (payload_media ?p) (length (payload_bytes ?p)) c = Inr (?p, c')"
    using c' ok by (simp add: read_payload_Inr direct_ok_def payload_ok_def)
  then show "direct_decode (direct_encode m) limit = Inr m"
    using c(1) c'(2) by (simp add: direct_decode_def header_of_def cur_remaining_rest)
next
  fix w m assume "direct_decode w limit = Inr m"
  then obtain h c c' where 1: "parse_header (cursor_new w) = Inr (h, c)"
    and 2: "read_payload direct_errors limit (dh_media_type h) (dh_declared_payload_len h) c
      = Inr (dm_payload m, c')"
    and 3: "cur_rest c' = []" "dm_message_id m = dh_message_id h" "dm_sent_at_ms m = dh_sent_at_ms h"
      "dm_source_endpoint m = dh_source_endpoint h"
      "dm_destination_endpoint m = dh_destination_endpoint h"
    by (auto simp: direct_decode_def and_then_eq_Inr Let_def cur_remaining_rest split: if_splits)
  from 2 have p: "payload_media (dm_payload m) = dh_media_type h"
    "length (payload_bytes (dm_payload m)) = dh_declared_payload_len h"
    "dh_declared_payload_len h \<le> min limit MAX_PAYLOAD_BYTES"
    "cur_rest c = payload_bytes (dm_payload m)"
    by (auto simp: read_payload_Inr cur_take_Inr 3)
  have "header_of m = h" using p 3 by (simp add: header_of_def)
  then show "direct_encode m = w"
    using parse_header_sound [OF 1] p by (simp add: direct_encode_header)
  show "direct_ok limit m"
    using parse_header_sound(1) [OF 1] p 3 by (simp add: header_ok_def direct_ok_def payload_ok_def)
qed

section \<open>Properties\<close>

lemma to_wire_too_large: "frame_error_to_wire e = RjTooLarge \<longleftrightarrow> (\<exists>got mx. e = PayloadTooLarge got mx)"
  by (cases e) simp_all

lemma err_media_direct:
  "err_media direct_errors e = Media e"
  "err_payload_too_large direct_errors a b = PayloadTooLarge a b"
  by (simp_all add: direct_errors_def)

lemma frame_errors_not_too_large:
  "cur_take direct_errors f n c \<noteq> Inl (PayloadTooLarge g x)"
  "cur_take_u8 direct_errors f c \<noteq> Inl (PayloadTooLarge g x)"
  "parse_label f raw \<noteq> Inl (PayloadTooLarge g x)"
  "ceiling direct_errors f n k \<noteq> Inl (PayloadTooLarge g x)"
  by (auto simp: cur_take_u8_def and_then_eq_Inl cur_take_def Let_def direct_errors_def parse_label_def
      map_err_eq_Inl ceiling_def split: if_splits)

lemma parse_header_not_too_large: "parse_header c \<noteq> Inl (PayloadTooLarge g x)"
proof -
  have "read_source c \<noteq> Inl (PayloadTooLarge g x)" "read_destination c \<noteq> Inl (PayloadTooLarge g x)"
    "read_media direct_errors c \<noteq> Inl (PayloadTooLarge g x)" for c
    by (auto simp: read_source_def read_destination_def read_media_def and_then_eq_Inl map_err_eq_Inl
        Let_def frame_errors_not_too_large err_media_direct split: if_splits)
  then show ?thesis
    by (auto simp: parse_header_def and_then_eq_Inl frame_errors_not_too_large)
qed

lemma read_payload_too_large:
  "read_payload direct_errors limit media len c = Inl (PayloadTooLarge g x) \<longleftrightarrow>
     min limit MAX_PAYLOAD_BYTES < len \<and> g = len \<and> x = min limit MAX_PAYLOAD_BYTES"
  by (auto simp: read_payload_def Let_def and_then_eq_Inl map_err_eq_Inl frame_errors_not_too_large
      err_media_direct)

lemma direct_decode_too_large:
  "direct_decode w limit = Inl (PayloadTooLarge g x) \<longleftrightarrow>
     (\<exists>h c. parse_header (cursor_new w) = Inr (h, c) \<and> g = dh_declared_payload_len h \<and>
       x = min limit MAX_PAYLOAD_BYTES \<and> x < g)"
  by (auto simp: direct_decode_def and_then_eq_Inl parse_header_not_too_large read_payload_too_large
      Let_def split: if_splits)

text \<open>The directed-message frame is a strict codec at every payload limit: a frame decodes to a
  message exactly when the message is well formed under the limit and the frame is its
  encoding.  So no two byte strings decode to one message, nothing is lost on the wire, and
  every accepted payload and label is within its ceiling.\<close>

theorem direct_frame_strict:
  "direct_decode w limit = Ok m \<longleftrightarrow> direct_ok limit m \<and> direct_encode m = w"
  by (rule direct.accepted_iff)

text \<open>A refused frame is reported to the peer as \<open>too_large\<close> exactly when its header parses under
  every ceiling and declares a payload above the effective limit; every other refusal is
  \<open>malformed\<close>.\<close>

theorem direct_too_large_iff:
  "(\<exists>e. direct_decode w limit = Err e \<and> frame_error_to_wire e = RjTooLarge) \<longleftrightarrow>
   (\<exists>n. declared_payload_len w = Ok n \<and> min limit MAX_PAYLOAD_BYTES < n)"
proof -
  have "(\<exists>e. direct_decode w limit = Err e \<and> frame_error_to_wire e = RjTooLarge) \<longleftrightarrow>
      (\<exists>g x. direct_decode w limit = Err (PayloadTooLarge g x))"
    by (auto simp: to_wire_too_large)
  then show ?thesis
    by (auto simp: direct_decode_too_large declared_payload_len_def and_then_eq_Inr)
qed

end
