(* ===== verification/Fingerprint.thy ===== *)
theory Fingerprint
  imports Wire
begin

text \<open>
  The three derived 32-byte identities of \<open>crates/transport/runtime\<close>: the content fingerprint
  (\<open>fingerprint.rs\<close>), the topic key (\<open>topic.rs\<close>) and the mesh message identity
  (\<open>mesh_id.rs\<close>).  SHA-256 is third-party code and stands as the parameter \<open>sha256\<close>; what is
  proved is that the bytes hashed determine the content, and that the three constructions
  never hash the same bytes.
\<close>

section \<open>Definitions\<close>

datatype content_fingerprint = ContentFingerprint (fingerprint_bytes: bytes)
datatype topic_key = TopicKey (topic_bytes: bytes)
datatype mesh_message_id = MeshMessageId (mesh_bytes: bytes)

datatype fingerprint_error = FpEmptyMediaType | FpMediaTypeTooLong nat | FpMediaTypeNotPrintable

definition FINGERPRINT_DOMAIN :: bytes where
  "FINGERPRINT_DOMAIN = ascii ''interweave/direct-content-fingerprint/v1'' @ [0]"

lemma FINGERPRINT_DOMAIN_code [code]:
  "FINGERPRINT_DOMAIN =
    [105, 110, 116, 101, 114, 119, 101, 97, 118, 101, 47, 100, 105, 114, 101, 99, 116, 45, 99,
     111, 110, 116, 101, 110, 116, 45, 102, 105, 110, 103, 101, 114, 112, 114, 105, 110, 116,
     47, 118, 49, 0]"
  by (simp add: FINGERPRINT_DOMAIN_def ascii_def)

definition TOPIC_DOMAIN :: bytes where
  "TOPIC_DOMAIN = ascii ''interweave/topic/v1'' @ [0]"

definition MESH_DOMAIN :: bytes where
  "MESH_DOMAIN = ascii ''interweave/gossipsub-message-id/v1'' @ [0]"

definition u16_len_be :: "nat \<Rightarrow> bytes" where
  "u16_len_be n = be_bytes 2 (if n < 2 ^ 16 then n else 2 ^ 16 - 1)"

text \<open>The bytes fed to the hasher, or the error that stops before hashing.\<close>

definition fingerprint_input :: "bytes option \<Rightarrow> bytes \<Rightarrow> fingerprint_error + bytes" where
  "fingerprint_input media payload =
    and_then
      (case media of
         None \<Rightarrow> Ok [0]
       | Some m \<Rightarrow>
           if m = [] then Err FpEmptyMediaType
           else if \<not> list_all printable_byte m then Err FpMediaTypeNotPrintable
           else if length m > 128 then Err (FpMediaTypeTooLong (length m))
           else Ok ([1] @ u16_len_be (length m) @ m))
      (\<lambda>head. Ok (FINGERPRINT_DOMAIN @ head @ u32_len_be (length payload) @ payload))"

definition direct_content_fingerprint_v1 ::
  "(bytes \<Rightarrow> bytes) \<Rightarrow> bytes option \<Rightarrow> bytes \<Rightarrow> fingerprint_error + content_fingerprint" where
  "direct_content_fingerprint_v1 sha256 media payload =
    and_then (fingerprint_input media payload) (\<lambda>inp. Ok (ContentFingerprint (sha256 inp)))"

definition topic_input :: "channel_id \<Rightarrow> bytes" where
  "topic_input channel = TOPIC_DOMAIN @ channel_str channel"

definition topic_key_v1 :: "(bytes \<Rightarrow> bytes) \<Rightarrow> channel_id \<Rightarrow> topic_key" where
  "topic_key_v1 sha256 channel = TopicKey (sha256 (topic_input channel))"

definition wire_string :: "topic_key \<Rightarrow> bytes" where
  "wire_string k =
    concat (map (\<lambda>b. [HEX_DIGITS ! unat (drop_bit 4 b), HEX_DIGITS ! unat (b AND 0x0F)]) (topic_bytes k))"

definition mesh_input :: "bytes \<Rightarrow> u64 \<Rightarrow> bytes" where
  "mesh_input source seq = MESH_DOMAIN @ u16_len_be (length source) @ source @ u64_be seq"

definition gossipsub_message_id_v1 :: "(bytes \<Rightarrow> bytes) \<Rightarrow> bytes \<Rightarrow> u64 \<Rightarrow> mesh_message_id" where
  "gossipsub_message_id_v1 sha256 source seq = MeshMessageId (sha256 (mesh_input source seq))"

text \<open>Derived order, for use as a map key.\<close>

instantiation content_fingerprint :: linorder
begin
definition less_eq_content_fingerprint :: "content_fingerprint \<Rightarrow> content_fingerprint \<Rightarrow> bool" where
  "less_eq_content_fingerprint a b \<longleftrightarrow> fingerprint_bytes a \<le> fingerprint_bytes b"
definition less_content_fingerprint :: "content_fingerprint \<Rightarrow> content_fingerprint \<Rightarrow> bool" where
  "less_content_fingerprint a b \<longleftrightarrow> fingerprint_bytes a < fingerprint_bytes b"
instance
  by intro_classes
    (auto simp: less_eq_content_fingerprint_def less_content_fingerprint_def less_le_not_le
      content_fingerprint.expand)
end

section \<open>Lemmas\<close>

lemma length_u16_len_be [simp]: "length (u16_len_be n) = 2"
  by (simp add: u16_len_be_def)

lemma u16_len_be_small: "n < 256 \<Longrightarrow> u16_len_be n = [0, word_of_nat n]"
proof -
  have "be_bytes 2 n = be_bytes (Suc (Suc 0)) n" by (simp only: numeral_2_eq_2)
  then show "n < 256 \<Longrightarrow> u16_len_be n = [0, word_of_nat n]"
    by (simp add: u16_len_be_def)
qed

lemma be_val_u16_len_be: "n < 2 ^ 16 \<Longrightarrow> be_val (u16_len_be n) = n"
  by (simp add: u16_len_be_def be_val_be_bytes)

lemma u16_len_be_inj: "u16_len_be a = u16_len_be b \<Longrightarrow> a < 2 ^ 16 \<Longrightarrow> b < 2 ^ 16 \<Longrightarrow> a = b"
  by (metis be_val_u16_len_be)

lemma u16_prefixed_inj:
  assumes "u16_len_be (length a) @ a @ x = u16_len_be (length b) @ b @ y"
    and "length a < 2 ^ 16" "length b < 2 ^ 16"
  shows "a = b \<and> x = y"
proof -
  from assms(1) have "u16_len_be (length a) = u16_len_be (length b)" and rest: "a @ x = b @ y"
    by (simp_all add: append_eq_append_conv)
  then have "length a = length b" using assms(2,3) u16_len_be_inj by blast
  with rest show ?thesis by simp
qed

lemma fingerprint_input_inj:
  assumes "fingerprint_input m p = Ok x" "fingerprint_input m' p' = Ok x"
  shows "m = m' \<and> p = p'"
proof -
  from assms obtain h h' where
    h: "(m = None \<and> h = [0]) \<or> (\<exists>s. m = Some s \<and> length s \<le> 128 \<and> h = 1 # u16_len_be (length s) @ s)"
    and h': "(m' = None \<and> h' = [0]) \<or> (\<exists>s. m' = Some s \<and> length s \<le> 128 \<and> h' = 1 # u16_len_be (length s) @ s)"
    and eq: "h @ u32_len_be (length p) @ p = h' @ u32_len_be (length p') @ p'"
    by (auto simp: fingerprint_input_def and_then_eq_Inr split: option.splits if_splits)
  have "m = m' \<and> h = h'"
  proof (cases m)
    case None
    with h h' eq show ?thesis by auto
  next
    case (Some s)
    with h have s: "length s \<le> 128" "h = 1 # u16_len_be (length s) @ s" by auto
    with h' eq obtain s' where s': "m' = Some s'" "length s' \<le> 128" "h' = 1 # u16_len_be (length s') @ s'"
      by auto
    from eq s s' have "u16_len_be (length s) @ s @ (u32_len_be (length p) @ p)
        = u16_len_be (length s') @ s' @ (u32_len_be (length p') @ p')"
      by simp
    from u16_prefixed_inj [OF this] s s' Some show ?thesis by simp
  qed
  with eq show ?thesis by simp
qed

lemma mesh_input_inj:
  assumes "mesh_input a s = mesh_input b t" "length a < 2 ^ 16" "length b < 2 ^ 16"
  shows "a = b \<and> s = t"
proof -
  from assms(1) have "u16_len_be (length a) @ a @ u64_be s = u16_len_be (length b) @ b @ u64_be t"
    by (simp add: mesh_input_def)
  from u16_prefixed_inj [OF this assms(2,3)] show ?thesis
    by (metis u64_from_be_u64_be)
qed

lemma topic_input_inj: "topic_input a = topic_input b \<Longrightarrow> a = b"
  by (simp add: topic_input_def channel_id.expand)

text \<open>No domain is a prefix of another: they differ right after \<open>interweave/\<close>.\<close>

lemma domains_apart:
  "FINGERPRINT_DOMAIN @ x \<noteq> TOPIC_DOMAIN @ y"
  "FINGERPRINT_DOMAIN @ x \<noteq> MESH_DOMAIN @ y"
  "TOPIC_DOMAIN @ x \<noteq> MESH_DOMAIN @ y"
  by (simp_all add: FINGERPRINT_DOMAIN_def TOPIC_DOMAIN_def MESH_DOMAIN_def ascii_def of_char_def)

lemma wire_string_hex: "wire_string k = concat (map hex_of_byte (topic_bytes k))"
  by (simp add: wire_string_def hex_of_byte_def [abs_def])

lemma wire_string_inj: "wire_string a = wire_string b \<Longrightarrow> a = b"
  unfolding wire_string_hex
  by (metis parse_hex_pairs_concat sum.inject(2) topic_key.expand)

lemma fingerprint_input_media:
  "(\<exists>x. fingerprint_input (map_option media_str m) p = Ok x)" if "pred_option media_ok m"
  using that
  by (cases m) (auto simp: fingerprint_input_def media_ok_def MAX_MEDIA_TYPE_BYTES_def)

section \<open>Properties\<close>

text \<open>Equal content fingerprints mean equal content unless SHA-256 itself collides: the bytes that
  are hashed determine the media type (absence included) and the payload.\<close>

theorem fingerprint_identifies_content:
  assumes "direct_content_fingerprint_v1 sha256 m p = Ok f"
    and "direct_content_fingerprint_v1 sha256 m' p' = Ok f"
  shows "(m = m' \<and> p = p') \<or> (\<exists>x y. x \<noteq> y \<and> sha256 x = sha256 y)"
proof -
  from assms obtain x y where "fingerprint_input m p = Ok x" "fingerprint_input m' p' = Ok y"
    "sha256 x = sha256 y"
    by (auto simp: direct_content_fingerprint_v1_def and_then_eq_Inr)
  then show ?thesis using fingerprint_input_inj [of m p x m' p'] by (cases "x = y") auto
qed

theorem fingerprint_identifies_content_witness:
  "direct_content_fingerprint_v1 rev (Some [0x61]) [1, 2]
     = Ok (ContentFingerprint ([2, 1, 2, 0, 0, 0, 0x61, 1, 0, 1] @ rev FINGERPRINT_DOMAIN))
   \<and> (\<forall>m p. direct_content_fingerprint_v1 rev m p = direct_content_fingerprint_v1 rev (Some [0x61]) [1, 2]
            \<longleftrightarrow> m = Some [0x61] \<and> p = [1, 2])"
proof -
  have a: "direct_content_fingerprint_v1 rev (Some [0x61]) [1, 2]
     = Ok (ContentFingerprint ([2, 1, 2, 0, 0, 0, 0x61, 1, 0, 1] @ rev FINGERPRINT_DOMAIN))"
    by (simp add: direct_content_fingerprint_v1_def fingerprint_input_def printable_byte_def
        u16_len_be_small u32_len_be_small)
  have "m = Some [0x61] \<and> p = [1, 2]"
    if "direct_content_fingerprint_v1 rev m p = direct_content_fingerprint_v1 rev (Some [0x61]) [1, 2]"
    for m p
    using fingerprint_identifies_content [OF that [unfolded a] a] by simp
  with a show ?thesis by blast
qed

text \<open>The three derived identities never hash the same bytes, so a topic key, a content
  fingerprint and a mesh identity can only coincide through a SHA-256 collision; and each
  hashed form determines its own input (the channel name; the source and sequence number).\<close>

theorem derived_identities_separate:
  "(fingerprint_input m p = Ok x \<longrightarrow> x \<noteq> topic_input c \<and> x \<noteq> mesh_input s n)
   \<and> topic_input c \<noteq> mesh_input s n
   \<and> (topic_input c = topic_input c' \<longleftrightarrow> c = c')
   \<and> (length s < 2 ^ 16 \<and> length s' < 2 ^ 16 \<longrightarrow> (mesh_input s n = mesh_input s' n' \<longleftrightarrow> s = s' \<and> n = n'))
   \<and> (wire_string k = wire_string k' \<longleftrightarrow> k = k')"
proof (intro conjI impI)
  assume "fingerprint_input m p = Ok x"
  then obtain r where x: "x = FINGERPRINT_DOMAIN @ r"
    by (auto simp: fingerprint_input_def and_then_eq_Inr)
  show "x \<noteq> topic_input c" "x \<noteq> mesh_input s n"
    by (simp_all add: x topic_input_def mesh_input_def domains_apart)
next
  assume "length s < 2 ^ 16 \<and> length s' < 2 ^ 16"
  then show "mesh_input s n = mesh_input s' n' \<longleftrightarrow> s = s' \<and> n = n'"
    using mesh_input_inj [of s n s' n'] by blast
next
  show "topic_input c \<noteq> mesh_input s n"
    by (simp add: topic_input_def mesh_input_def domains_apart)
  show "topic_input c = topic_input c' \<longleftrightarrow> c = c'"
    using topic_input_inj [of c c'] by blast
  show "wire_string k = wire_string k' \<longleftrightarrow> k = k'"
    using wire_string_inj [of k k'] by blast
qed

theorem derived_identities_separate_witness:
  "fingerprint_input None [] = Ok (FINGERPRINT_DOMAIN @ [0, 0, 0, 0, 0])
   \<and> FINGERPRINT_DOMAIN @ [0, 0, 0, 0, 0] \<noteq> topic_input (ChannelId [0x63])
   \<and> mesh_input [1] 2 \<noteq> mesh_input [1] 3"
proof -
  have "fingerprint_input None [] = Ok (FINGERPRINT_DOMAIN @ [0, 0, 0, 0, 0])"
    by (simp add: fingerprint_input_def u32_len_be_small)
  with derived_identities_separate [of None "[]" "FINGERPRINT_DOMAIN @ [0, 0, 0, 0, 0]"
      "ChannelId [0x63]" "[1]" 2 _ "[1]" 3]
  show ?thesis by simp
qed

end
