(* ===== verification/Dedup.thy ===== *)
theory Dedup
  imports Fingerprint "HOL-Library.Code_Target_Nat"
begin

text \<open>
  Duplicate suppression, \<open>crates/transport/runtime/src/dedup.rs\<close>: the bounded LRU/TTL cache of
  accepted messages and the bounded map of requests in flight.  The cache never exceeds its
  bound and answers from what was recorded first; the reservation map charges every request,
  waiters included, to its peer, and gives all of it back on release.
\<close>

section \<open>Keys\<close>

definition DEFAULT_MAX_ENTRIES :: nat where "DEFAULT_MAX_ENTRIES = 10000"
definition DEFAULT_TTL_MS :: nat where "DEFAULT_TTL_MS = 5 * 60 * 1000"
definition DEFAULT_MAX_RESERVATIONS :: nat where "DEFAULT_MAX_RESERVATIONS = 128"
definition DEFAULT_MAX_RESERVATIONS_PER_PEER :: nat where "DEFAULT_MAX_RESERVATIONS_PER_PEER = 8"
definition MAX_RESERVATIONS_CEILING :: nat where "MAX_RESERVATIONS_CEILING = 512"
definition MAX_RESERVATIONS_PER_PEER_CEILING :: nat where "MAX_RESERVATIONS_PER_PEER_CEILING = 32"

datatype destination_selector = Explicit endpoint_id | Default

datatype dedup_key =
    KBroadcast transport_identity channel_id message_id
  | KDirect transport_identity endpoint_id destination_selector message_id

fun source_peer :: "dedup_key \<Rightarrow> transport_identity" where
  "source_peer (KBroadcast p _ _) = p"
| "source_peer (KDirect p _ _ _) = p"

text \<open>
  The derived order: variants in declaration order, then the fields left to right.  It is the
  lexicographic order of this tuple.
\<close>

fun key_rank :: "dedup_key \<Rightarrow> nat \<times> bytes \<times> bytes \<times> nat \<times> bytes \<times> bytes" where
  "key_rank (KBroadcast p c m) = (0, peer_str p, channel_str c, 0, [], message_bytes m)"
| "key_rank (KDirect p e s m) =
    (1, peer_str p, endpoint_str e,
     (case s of Explicit d \<Rightarrow> 0 | Default \<Rightarrow> 1),
     (case s of Explicit d \<Rightarrow> endpoint_str d | Default \<Rightarrow> []), message_bytes m)"

lemma key_rank_inj: "key_rank a = key_rank b \<Longrightarrow> a = b"
  by (cases a; cases b)
    (auto simp: transport_identity.expand channel_id.expand endpoint_id.expand message_id.expand
      split: destination_selector.splits)

instantiation dedup_key :: linorder
begin
definition less_eq_dedup_key :: "dedup_key \<Rightarrow> dedup_key \<Rightarrow> bool" where
  "less_eq_dedup_key a b \<longleftrightarrow> key_rank a \<le> key_rank b"
definition less_dedup_key :: "dedup_key \<Rightarrow> dedup_key \<Rightarrow> bool" where
  "less_dedup_key a b \<longleftrightarrow> key_rank a < key_rank b"
instance
  by intro_classes
    (use key_rank_inj in \<open>auto simp only: less_eq_dedup_key_def less_dedup_key_def less_le_not_le
      intro: order_trans antisym linear order_refl\<close>)
end

section \<open>The cache\<close>

datatype recorded_route = RouteBroadcast | RouteDirect endpoint_id

record accepted_record =
  ar_route :: recorded_route
  ar_fingerprint :: content_fingerprint
  ar_stored_at_ms :: nat

datatype admission = Fresh | DuplicateAccepted recorded_route | AdmConflict

record dedup_cache =
  dc_entries :: "(dedup_key, accepted_record) bmap"
  dc_order :: "dedup_key list"
  dc_max_entries :: nat
  dc_ttl_ms :: nat

definition dedup_new :: "nat \<Rightarrow> nat \<Rightarrow> dedup_cache" where
  "dedup_new max_entries ttl_ms =
    \<lparr>dc_entries = [], dc_order = [], dc_max_entries = max max_entries 1, dc_ttl_ms = ttl_ms\<rparr>"

definition dedup_default :: dedup_cache where
  "dedup_default = dedup_new DEFAULT_MAX_ENTRIES DEFAULT_TTL_MS"

definition dedup_get :: "dedup_cache \<Rightarrow> dedup_key \<Rightarrow> accepted_record option" where
  "dedup_get c key = bm_get (dc_entries c) key"

definition dedup_drop :: "dedup_cache \<Rightarrow> dedup_key \<Rightarrow> dedup_cache" where
  "dedup_drop c k = c\<lparr>dc_entries := bm_remove k (dc_entries c), dc_order := remove1 k (dc_order c)\<rparr>"

definition dedup_expire :: "dedup_cache \<Rightarrow> nat \<Rightarrow> dedup_cache" where
  "dedup_expire c now_ms =
    (let ttl = dc_ttl_ms c;
         expired = map fst (filter (\<lambda>(_, r). now_ms - ar_stored_at_ms r \<ge> ttl) (dc_entries c))
     in foldl dedup_drop c expired)"

definition dedup_touch :: "dedup_cache \<Rightarrow> dedup_key \<Rightarrow> dedup_cache" where
  "dedup_touch c key =
    (if key \<in> set (dc_order c) then c\<lparr>dc_order := remove1 key (dc_order c) @ [key]\<rparr> else c)"

definition dedup_admit ::
  "dedup_cache \<Rightarrow> dedup_key \<Rightarrow> content_fingerprint \<Rightarrow> nat \<Rightarrow> admission \<times> dedup_cache" where
  "dedup_admit c key fp now_ms =
    (let c = dedup_expire c now_ms in
     case bm_get (dc_entries c) key of
       None \<Rightarrow> (Fresh, c)
     | Some r \<Rightarrow>
         if ar_fingerprint r \<noteq> fp then (AdmConflict, c)
         else (DuplicateAccepted (ar_route r), dedup_touch c key))"

text \<open>The eviction loop: pop the oldest while the map is at its bound.\<close>

fun dedup_evict ::
  "nat \<Rightarrow> (dedup_key, accepted_record) bmap \<Rightarrow> dedup_key list \<Rightarrow>
     (dedup_key, accepted_record) bmap \<times> dedup_key list" where
  "dedup_evict mx entries [] = (entries, [])"
| "dedup_evict mx entries (oldest # order) =
    (if length entries \<ge> mx then dedup_evict mx (bm_remove oldest entries) order
     else (entries, oldest # order))"

definition record_accepted ::
  "dedup_cache \<Rightarrow> dedup_key \<Rightarrow> recorded_route \<Rightarrow> content_fingerprint \<Rightarrow> nat \<Rightarrow> dedup_cache" where
  "record_accepted c key route fp now_ms =
    (let c = dedup_expire c now_ms in
     if bm_has (dc_entries c) key then c
     else
       let (entries, order) = dedup_evict (dc_max_entries c) (dc_entries c) (dc_order c) in
       c\<lparr>dc_entries := bm_insert key
           \<lparr>ar_route = route, ar_fingerprint = fp, ar_stored_at_ms = now_ms\<rparr> entries,
         dc_order := order @ [key]\<rparr>)"

section \<open>Reservations\<close>

datatype reservation_failure = ResOverloaded | ResConflict
datatype reservation = Owner | Waiter

record in_flight =
  inf_fingerprint :: content_fingerprint
  inf_waiters :: nat

record reservation_map =
  rm_in_flight :: "(dedup_key, in_flight) bmap"
  rm_per_peer :: "(transport_identity, nat) bmap"
  rm_max_global :: nat
  rm_max_per_peer :: nat

definition reservations_new :: "nat \<Rightarrow> nat \<Rightarrow> reservation_map" where
  "reservations_new max_global max_per_peer =
    \<lparr>rm_in_flight = [], rm_per_peer = [],
     rm_max_global = min max_global MAX_RESERVATIONS_CEILING,
     rm_max_per_peer = min max_per_peer MAX_RESERVATIONS_PER_PEER_CEILING\<rparr>"

definition reservations_default :: reservation_map where
  "reservations_default = reservations_new DEFAULT_MAX_RESERVATIONS DEFAULT_MAX_RESERVATIONS_PER_PEER"

definition outstanding :: "reservation_map \<Rightarrow> nat" where
  "outstanding r = bm_sum (\<lambda>_ e. sat_add64 (inf_waiters e) 1) (rm_in_flight r)"

definition held_by :: "reservation_map \<Rightarrow> transport_identity \<Rightarrow> nat" where
  "held_by r peer = (case bm_get (rm_per_peer r) peer of None \<Rightarrow> 0 | Some n \<Rightarrow> n)"

definition acquire ::
  "reservation_map \<Rightarrow> dedup_key \<Rightarrow> content_fingerprint \<Rightarrow>
     (reservation_failure + reservation) \<times> reservation_map" where
  "acquire r key fp =
    (let peer = source_peer key; held = held_by r peer; out = outstanding r in
     case bm_get (rm_in_flight r) key of
       Some entry \<Rightarrow>
         if inf_fingerprint entry \<noteq> fp then (Err ResConflict, r)
         else if held \<ge> rm_max_per_peer r \<or> out \<ge> rm_max_global r then (Err ResOverloaded, r)
         else (Ok Waiter,
           r\<lparr>rm_in_flight := bm_insert key
               (entry\<lparr>inf_waiters := sat_add64 (inf_waiters entry) 1\<rparr>) (rm_in_flight r),
             rm_per_peer := bm_insert peer (held + 1) (rm_per_peer r)\<rparr>)
     | None \<Rightarrow>
         if out \<ge> rm_max_global r then (Err ResOverloaded, r)
         else if held \<ge> rm_max_per_peer r then (Err ResOverloaded, r)
         else (Ok Owner,
           r\<lparr>rm_in_flight := bm_insert key \<lparr>inf_fingerprint = fp, inf_waiters = 0\<rparr> (rm_in_flight r),
             rm_per_peer := bm_insert peer (held + 1) (rm_per_peer r)\<rparr>))"

definition release :: "reservation_map \<Rightarrow> dedup_key \<Rightarrow> reservation_map" where
  "release r key =
    (case bm_get (rm_in_flight r) key of
       None \<Rightarrow> r
     | Some entry \<Rightarrow>
         let charged = sat_add64 (inf_waiters entry) 1;
             peer = source_peer key;
             r = r\<lparr>rm_in_flight := bm_remove key (rm_in_flight r)\<rparr>
         in (case bm_get (rm_per_peer r) peer of
               None \<Rightarrow> r
             | Some count \<Rightarrow>
                 if count - charged = 0 then r\<lparr>rm_per_peer := bm_remove peer (rm_per_peer r)\<rparr>
                 else r\<lparr>rm_per_peer := bm_insert peer (count - charged) (rm_per_peer r)\<rparr>))"

section \<open>The cache keeps its shape\<close>

definition dedup_ok :: "dedup_cache \<Rightarrow> bool" where
  "dedup_ok c \<longleftrightarrow>
     bm_ok (dc_entries c) \<and> distinct (dc_order c) \<and> set (dc_order c) = fst ` set (dc_entries c) \<and>
     length (dc_entries c) \<le> dc_max_entries c \<and> 0 < dc_max_entries c"

definition record_live :: "nat \<Rightarrow> nat \<Rightarrow> accepted_record \<Rightarrow> bool" where
  "record_live ttl now r \<longleftrightarrow> now - ar_stored_at_ms r < ttl"

lemma remove1_distinct: "distinct xs \<Longrightarrow> remove1 k xs = filter (\<lambda>x. x \<noteq> k) xs"
  by (induction xs) (auto, metis remove1_idem)

lemma foldl_drop:
  "distinct (dc_order c) \<Longrightarrow>
     foldl dedup_drop c ks =
       c\<lparr>dc_entries := filter (\<lambda>e. fst e \<notin> set ks) (dc_entries c),
         dc_order := filter (\<lambda>k. k \<notin> set ks) (dc_order c)\<rparr>"
proof (induction ks arbitrary: c)
  case Nil
  then show ?case by simp
next
  case (Cons k ks)
  have "distinct (dc_order (dedup_drop c k))"
    using Cons.prems by (simp add: dedup_drop_def distinct_remove1)
  then show ?case
    using Cons by (simp add: dedup_drop_def bm_remove_def remove1_distinct conj_commute)
qed

lemma dedup_expire_eq:
  assumes "bm_ok (dc_entries c)" "distinct (dc_order c)" "set (dc_order c) = fst ` set (dc_entries c)"
  shows "dedup_expire c now =
    c\<lparr>dc_entries := bm_retain (\<lambda>_ r. record_live (dc_ttl_ms c) now r) (dc_entries c),
      dc_order := filter (\<lambda>k. case bm_get (dc_entries c) k of None \<Rightarrow> False
        | Some r \<Rightarrow> record_live (dc_ttl_ms c) now r) (dc_order c)\<rparr>"
proof -
  let ?P = "\<lambda>r. record_live (dc_ttl_ms c) now r"
  let ?ks = "map fst (filter (\<lambda>(_, r). now - ar_stored_at_ms r \<ge> dc_ttl_ms c) (dc_entries c))"
  have dead: "k \<notin> set ?ks \<longleftrightarrow> ?P r" if "(k, r) \<in> set (dc_entries c)" for k r
    using that assms(1) by (force simp: record_live_def bm_get_in_set)
  have "filter (\<lambda>e. fst e \<notin> set ?ks) (dc_entries c) = bm_retain (\<lambda>_ r. ?P r) (dc_entries c)"
    unfolding bm_retain_def
  proof (intro filter_cong refl)
    fix e assume "e \<in> set (dc_entries c)"
    then show "(fst e \<notin> set ?ks) = (case e of (_, r) \<Rightarrow> ?P r)"
      using dead [of "fst e" "snd e"] by (simp add: case_prod_beta)
  qed
  moreover have "filter (\<lambda>k. k \<notin> set ?ks) (dc_order c) =
      filter (\<lambda>k. case bm_get (dc_entries c) k of None \<Rightarrow> False | Some r \<Rightarrow> ?P r) (dc_order c)"
  proof (intro filter_cong refl)
    fix k assume "k \<in> set (dc_order c)"
    then obtain r where "(k, r) \<in> set (dc_entries c)" using assms(3) by force
    then show "(k \<notin> set ?ks) = (case bm_get (dc_entries c) k of None \<Rightarrow> False | Some r \<Rightarrow> ?P r)"
      using dead [of k r] assms(1) by (simp add: bm_get_in_set)
  qed
  ultimately show ?thesis
    using foldl_drop [OF assms(2), of ?ks] by (simp add: dedup_expire_def)
qed

lemma bm_retain_keys:
  "bm_ok m \<Longrightarrow> fst ` set (bm_retain P m) = {k. \<exists>v. bm_get m k = Some v \<and> P k v}"
  by (force simp: bm_retain_def bm_get_in_set)

lemma dedup_expire_ok: "dedup_ok c \<Longrightarrow> dedup_ok (dedup_expire c now)"
proof -
  assume ok: "dedup_ok c"
  then have "set (dc_order c) = {k. bm_get (dc_entries c) k \<noteq> None}"
    by (auto simp: dedup_ok_def map_of_eq_None_iff)
  with ok have "set (dc_order (dedup_expire c now)) = fst ` set (dc_entries (dedup_expire c now))"
    by (auto simp: dedup_ok_def dedup_expire_eq bm_retain_keys split: option.splits)
  with ok show "dedup_ok (dedup_expire c now)"
    by (auto simp: dedup_ok_def dedup_expire_eq intro: order_trans [OF length_bm_retain_le])
qed

lemma dedup_expire_get:
  "dedup_ok c \<Longrightarrow> bm_get (dc_entries (dedup_expire c now)) k =
     (case bm_get (dc_entries c) k of
        Some r \<Rightarrow> if record_live (dc_ttl_ms c) now r then Some r else None | None \<Rightarrow> None)"
  by (simp add: dedup_ok_def dedup_expire_eq bm_get_retain)

lemma dedup_expire_bounds [simp]:
  "dedup_ok c \<Longrightarrow> dc_max_entries (dedup_expire c now) = dc_max_entries c"
  "dedup_ok c \<Longrightarrow> dc_ttl_ms (dedup_expire c now) = dc_ttl_ms c"
  by (simp_all add: dedup_ok_def dedup_expire_eq)

lemma dedup_touch_ok: "dedup_ok c \<Longrightarrow> dedup_ok (dedup_touch c k)"
  by (auto simp: dedup_ok_def dedup_touch_def distinct_remove1)

lemma dedup_touch_frame [simp]:
  "dc_entries (dedup_touch c k) = dc_entries c"
  "dc_max_entries (dedup_touch c k) = dc_max_entries c"
  "dc_ttl_ms (dedup_touch c k) = dc_ttl_ms c"
  by (simp_all add: dedup_touch_def)

lemma dedup_ok_lengths: "dedup_ok c \<Longrightarrow> length (dc_order c) = length (dc_entries c)"
  by (metis dedup_ok_def distinct_card bm_ok_distinct length_map set_map)

text \<open>Eviction: at the bound it drops exactly the oldest key, below it nothing.\<close>

lemma dedup_evict_below: "length entries < mx \<Longrightarrow> dedup_evict mx entries order = (entries, order)"
  by (cases order) simp_all

lemma dedup_evict_full:
  assumes "bm_ok entries" "set (oldest # order) = fst ` set entries" "length entries = mx" "0 < mx"
  shows "dedup_evict mx entries (oldest # order) = (bm_remove oldest entries, order)"
proof -
  have "bm_has entries oldest" using assms(2) by (auto simp: bm_has_keys)
  then have "length (bm_remove oldest entries) < mx"
    using assms by (simp add: length_bm_remove)
  then show ?thesis using assms by (simp add: dedup_evict_below)
qed

lemma dedup_evict_cases:
  assumes "dedup_ok c"
  obtains (below) "length (dc_entries c) < dc_max_entries c"
      "dedup_evict (dc_max_entries c) (dc_entries c) (dc_order c) = (dc_entries c, dc_order c)"
  | (full) oldest order where "length (dc_entries c) = dc_max_entries c" "dc_order c = oldest # order"
      "dedup_evict (dc_max_entries c) (dc_entries c) (dc_order c)
        = (bm_remove oldest (dc_entries c), order)"
proof (cases "length (dc_entries c) < dc_max_entries c")
  case True
  then show thesis using below by (simp add: dedup_evict_below)
next
  case False
  with assms have len: "length (dc_entries c) = dc_max_entries c" by (simp add: dedup_ok_def)
  with assms dedup_ok_lengths [OF assms] obtain oldest order where "dc_order c = oldest # order"
    by (cases "dc_order c") (auto simp: dedup_ok_def)
  with full len assms show thesis
    by (metis dedup_evict_full dedup_ok_def)
qed

lemma record_accepted_ok:
  assumes "dedup_ok c"
  shows "dedup_ok (record_accepted c key route fp now)"
proof -
  let ?c = "dedup_expire c now"
  have ok: "dedup_ok ?c" by (rule dedup_expire_ok [OF assms])
  show ?thesis
  proof (cases "bm_has (dc_entries ?c) key")
    case True
    with ok show ?thesis by (simp add: record_accepted_def Let_def)
  next
    case False
    then have key: "key \<notin> set (dc_order ?c)" using ok by (auto simp: dedup_ok_def bm_has_keys)
    from ok show ?thesis
    proof (cases rule: dedup_evict_cases)
      case below
      with ok False key show ?thesis
        by (auto simp: record_accepted_def Let_def dedup_ok_def length_bm_insert set_bm_insert_keys)
    next
      case (full oldest order)
      have "bm_has (dc_entries ?c) oldest" using ok full by (auto simp: dedup_ok_def bm_has_keys)
      then have "length (bm_remove oldest (dc_entries ?c)) < dc_max_entries ?c"
        using ok full by (simp add: length_bm_remove dedup_ok_def)
      moreover have "fst ` set (bm_remove oldest (dc_entries ?c)) = set order"
        using ok full by (auto simp: dedup_ok_def set_bm_remove image_iff)
      ultimately show ?thesis
        using ok full False key
        by (auto simp: record_accepted_def Let_def dedup_ok_def length_bm_insert set_bm_insert_keys)
    qed
  qed
qed

lemma dedup_admit_ok: "dedup_ok c \<Longrightarrow> dedup_ok (snd (dedup_admit c key fp now))"
  by (auto simp: dedup_admit_def Let_def dedup_expire_ok dedup_touch_ok split: option.splits)

text \<open>One call on the cache.\<close>

datatype dedup_op =
    OpAdmit dedup_key content_fingerprint nat
  | OpRecord dedup_key recorded_route content_fingerprint nat

fun dedup_step :: "dedup_cache \<Rightarrow> dedup_op \<Rightarrow> dedup_cache" where
  "dedup_step c (OpAdmit k fp now) = snd (dedup_admit c k fp now)"
| "dedup_step c (OpRecord k route fp now) = record_accepted c k route fp now"

fun op_time :: "dedup_op \<Rightarrow> nat" where
  "op_time (OpAdmit _ _ now) = now"
| "op_time (OpRecord _ _ _ now) = now"

interpretation dedup: stepwise dedup_step dedup_ok
proof
  show "dedup_ok (dedup_step c op)" if "dedup_ok c" for c op
    using that by (cases op) (simp_all add: dedup_admit_ok record_accepted_ok)
qed

lemma dedup_new_ok: "dedup_ok (dedup_new mx ttl)"
  by (simp add: dedup_ok_def dedup_new_def)

lemma dedup_step_bounds:
  assumes "dedup_ok c"
  shows "dc_max_entries (dedup_step c op) = dc_max_entries c \<and> dc_ttl_ms (dedup_step c op) = dc_ttl_ms c"
  using assms
  by (cases op) (auto simp: dedup_admit_def record_accepted_def Let_def split: option.splits prod.splits)

section \<open>What was recorded is answered\<close>

text \<open>At most \<open>n\<close> keys were used after \<open>k\<close>.\<close>

definition recent :: "nat \<Rightarrow> dedup_key \<Rightarrow> dedup_key list \<Rightarrow> bool" where
  "recent n k order \<longleftrightarrow> (\<exists>xs ys. order = xs @ k # ys \<and> length ys \<le> n)"

lemma recent_last: "recent n k (order @ [k])"
  by (auto simp: recent_def intro: exI [of _ order] exI [of _ "[]"])

lemma recent_mono: "recent n k order \<Longrightarrow> n \<le> m \<Longrightarrow> recent m k order"
  by (auto simp: recent_def intro: order_trans)

lemma recent_filter: "recent n k order \<Longrightarrow> P k \<Longrightarrow> recent n k (filter P order)"
  by (force simp: recent_def intro: order_trans [OF length_filter_le])

lemma recent_snoc: "recent n k order \<Longrightarrow> recent (Suc n) k (order @ [j])"
  by (force simp: recent_def)

lemma recent_touch:
  assumes "recent n k order" "j \<noteq> k"
  shows "recent (Suc n) k (remove1 j order @ [j])"
proof -
  from assms(1) obtain xs ys where o: "order = xs @ k # ys" "length ys \<le> n" by (auto simp: recent_def)
  show ?thesis
  proof (cases "j \<in> set xs")
    case True
    then have "remove1 j order @ [j] = remove1 j xs @ k # (ys @ [j])"
      by (simp add: o remove1_append)
    with o(2) show ?thesis unfolding recent_def by fastforce
  next
    case False
    then have "remove1 j order @ [j] = xs @ k # (remove1 j ys @ [j])"
      using assms(2) by (simp add: o remove1_append)
    moreover have "length (remove1 j ys @ [j]) \<le> Suc n"
      using o(2) by (auto simp: length_remove1)
    ultimately show ?thesis unfolding recent_def by blast
  qed
qed

lemma recent_tl: "recent n k (oldest # order) \<Longrightarrow> Suc n \<le> length order \<Longrightarrow> recent n k order"
  by (auto simp: recent_def Cons_eq_append_conv)

definition holds :: "nat \<Rightarrow> dedup_cache \<Rightarrow> dedup_key \<Rightarrow> accepted_record \<Rightarrow> bool" where
  "holds n c k r \<longleftrightarrow> dedup_ok c \<and> bm_get (dc_entries c) k = Some r \<and> recent n k (dc_order c)"

lemma holds_expire:
  assumes "holds n c k r" "now - ar_stored_at_ms r < dc_ttl_ms c"
  shows "holds n (dedup_expire c now) k r"
proof -
  have ok: "dedup_ok c" and get: "bm_get (dc_entries c) k = Some r" and rec: "recent n k (dc_order c)"
    using assms(1) by (simp_all add: holds_def)
  have "recent n k (dc_order (dedup_expire c now))"
    using ok get assms(2) by (auto simp: dedup_ok_def dedup_expire_eq record_live_def intro!: recent_filter [OF rec])
  with ok get assms(2) show ?thesis
    by (simp add: holds_def dedup_expire_ok dedup_expire_get record_live_def)
qed

lemma holds_admit:
  assumes "holds n c k r" "now - ar_stored_at_ms r < dc_ttl_ms c"
  shows "holds (Suc n) (snd (dedup_admit c j fp now)) k r"
proof -
  let ?c = "dedup_expire c now"
  have h: "holds n ?c k r" by (rule holds_expire [OF assms])
  then have "holds (Suc n) ?c k r" by (auto simp: holds_def intro: recent_mono)
  moreover have "recent (Suc n) k (dc_order (dedup_touch ?c j))"
    using h by (auto simp: holds_def dedup_touch_def intro: recent_mono recent_touch recent_last)
  then have "holds (Suc n) (dedup_touch ?c j) k r"
    using h by (simp add: holds_def dedup_touch_ok)
  ultimately show ?thesis
    by (auto simp: dedup_admit_def Let_def split: option.splits)
qed

lemma holds_record:
  assumes "holds n c k r" "now - ar_stored_at_ms r < dc_ttl_ms c" "Suc n < dc_max_entries c"
  shows "holds (Suc n) (record_accepted c j route fp now) k r"
proof -
  let ?c = "dedup_expire c now"
  have h: "holds n ?c k r" by (rule holds_expire [OF assms(1,2)])
  then have ok: "dedup_ok ?c" and get: "bm_get (dc_entries ?c) k = Some r"
    and rec: "recent n k (dc_order ?c)" by (simp_all add: holds_def)
  have mx: "dc_max_entries ?c = dc_max_entries c" using assms(1) by (simp add: holds_def)
  have ok': "dedup_ok (record_accepted c j route fp now)"
    using assms(1) by (simp add: holds_def record_accepted_ok)
  show ?thesis
  proof (cases "bm_has (dc_entries ?c) j")
    case True
    with h show ?thesis by (auto simp: record_accepted_def Let_def holds_def intro: recent_mono)
  next
    case False
    then have "j \<noteq> k" using get by (auto simp: bm_has_def)
    from ok show ?thesis
    proof (cases rule: dedup_evict_cases)
      case below
      with False \<open>j \<noteq> k\<close> get ok' recent_snoc [OF rec] show ?thesis
        by (simp add: holds_def record_accepted_def Let_def)
    next
      case (full oldest order)
      have "length order = dc_max_entries c - 1"
        using full dedup_ok_lengths [OF ok] by (simp add: mx)
      then have rec': "recent n k order"
        using recent_tl [of n k oldest order] rec full assms(3) by simp
      then have "k \<in> set order" by (auto simp: recent_def)
      then have "k \<noteq> oldest" using ok full by (auto simp: dedup_ok_def)
      with False \<open>j \<noteq> k\<close> get ok' recent_snoc [OF rec'] full show ?thesis
        by (simp add: holds_def record_accepted_def Let_def)
    qed
  qed
qed

lemma holds_step:
  assumes "holds n c k r" "op_time op - ar_stored_at_ms r < dc_ttl_ms c" "Suc n < dc_max_entries c"
  shows "holds (Suc n) (dedup_step c op) k r"
  using assms by (cases op) (simp_all add: holds_admit holds_record)

lemma holds_run:
  assumes "holds n c k r" "list_all (\<lambda>op. op_time op - ar_stored_at_ms r < dc_ttl_ms c) ops"
    "n + length ops < dc_max_entries c"
  shows "holds (n + length ops) (foldl dedup_step c ops) k r"
  using assms
proof (induction ops arbitrary: n c)
  case Nil
  then show ?case by simp
next
  case (Cons op ops)
  then have "holds (Suc n) (dedup_step c op) k r" by (simp add: holds_step)
  moreover have "dc_max_entries (dedup_step c op) = dc_max_entries c \<and> dc_ttl_ms (dedup_step c op) = dc_ttl_ms c"
    using Cons.prems(1) by (intro dedup_step_bounds) (simp add: holds_def)
  ultimately show ?case using Cons.IH [of "Suc n" "dedup_step c op"] Cons.prems by simp
qed

lemma dedup_admit_holds:
  assumes "holds n c k r" "now - ar_stored_at_ms r < dc_ttl_ms c"
  shows "fst (dedup_admit c k fp now) =
    (if fp = ar_fingerprint r then DuplicateAccepted (ar_route r) else AdmConflict)"
  using holds_expire [OF assms] by (auto simp: dedup_admit_def Let_def holds_def)

lemma record_accepted_holds:
  assumes "dedup_ok c" "fst (dedup_admit c k fp' t) = Fresh"
  shows "holds 0 (record_accepted c k route fp t) k
    \<lparr>ar_route = route, ar_fingerprint = fp, ar_stored_at_ms = t\<rparr>"
proof -
  have "\<not> bm_has (dc_entries (dedup_expire c t)) k"
    using assms(2) by (auto simp: dedup_admit_def Let_def bm_has_def split: option.splits if_splits)
  then show ?thesis
    using record_accepted_ok [OF assms(1), of k route fp t]
    by (auto simp: holds_def record_accepted_def Let_def recent_last split: prod.splits)
qed

lemma dedup_run_bounds:
  "dedup_ok c \<Longrightarrow>
     dc_max_entries (foldl dedup_step c ops) = dc_max_entries c \<and> dc_ttl_ms (foldl dedup_step c ops) = dc_ttl_ms c"
  by (induction ops arbitrary: c) (simp_all add: dedup_step_bounds dedup.inv_step)

text \<open>C4. Once a message is recorded, a repeat of it within the time to live is answered from the cache
  and never as fresh, as long as fewer further calls than the cache holds entries have come in
  between: the same content replays the stored route and different content is a conflict.
  This is the least-recently-used guarantee, from any state the cache can reach.\<close>

theorem dedup_replays_recorded:
  assumes "c0 = foldl dedup_step (dedup_new mx ttl) ops0"
    and "fst (dedup_admit c0 k fp0 t) = Fresh"
    and "c = foldl dedup_step (record_accepted c0 k route fp t) ops"
    and "list_all (\<lambda>op. op_time op - t < ttl) ops" and "length ops < mx" and "now - t < ttl"
  shows "fst (dedup_admit c k fp' now) = (if fp' = fp then DuplicateAccepted route else AdmConflict)"
proof -
  let ?r = "\<lparr>ar_route = route, ar_fingerprint = fp, ar_stored_at_ms = t\<rparr>"
  let ?c1 = "record_accepted c0 k route fp t"
  have ok: "dedup_ok c0" by (simp add: assms(1) dedup.inv_run dedup_new_ok)
  have b0: "dc_max_entries c0 = max mx 1 \<and> dc_ttl_ms c0 = ttl"
    using dedup_run_bounds [OF dedup_new_ok, of mx ttl ops0] by (simp add: assms(1) dedup_new_def)
  have "holds 0 ?c1 k ?r" by (rule record_accepted_holds [OF ok assms(2)])
  moreover have b1: "dc_max_entries ?c1 = max mx 1 \<and> dc_ttl_ms ?c1 = ttl"
    using dedup_step_bounds [OF ok, of "OpRecord k route fp t"] b0 by simp
  ultimately have "holds (length ops) c k ?r"
    using holds_run [of 0 ?c1 k ?r ops] assms(3-5) by simp
  moreover have "dc_ttl_ms c = ttl"
    using dedup_run_bounds [of ?c1 ops] b1 record_accepted_ok [OF ok] assms(3) by simp
  ultimately show ?thesis
    using dedup_admit_holds [of "length ops" c k ?r now fp'] assms(6) by simp
qed

text \<open>The cache never holds more than its bound, whatever is asked of it, and its eviction order
  lists exactly the keys it holds, each once.\<close>

theorem dedup_bounded:
  "length (dc_entries (foldl dedup_step (dedup_new mx ttl) ops)) \<le> max mx 1
   \<and> distinct (dc_order (foldl dedup_step (dedup_new mx ttl) ops))
   \<and> set (dc_order (foldl dedup_step (dedup_new mx ttl) ops))
       = fst ` set (dc_entries (foldl dedup_step (dedup_new mx ttl) ops))"
  using dedup.inv_run [OF dedup_new_ok, of mx ttl ops] dedup_run_bounds [OF dedup_new_ok, of mx ttl ops]
  by (simp add: dedup_ok_def dedup_new_def)

theorem dedup_replays_recorded_witness:
  "(let k = KDirect (TransportIdentity [1]) (EndpointId [2]) Default (MessageId [3]);
        k2 = KDirect (TransportIdentity [1]) (EndpointId [2]) Default (MessageId [4]);
        f = ContentFingerprint [5]; g = ContentFingerprint [6]; r = RouteDirect (EndpointId [7]);
        c = foldl dedup_step (record_accepted (dedup_new 2 100) k r f 10) [OpRecord k2 r g 20]
    in fst (dedup_admit c k f 50) = DuplicateAccepted r \<and> fst (dedup_admit c k g 50) = AdmConflict
       \<and> fst (dedup_admit c k f 110) = Fresh)"
proof -
  let ?k = "KDirect (TransportIdentity [1]) (EndpointId [2]) Default (MessageId [3])"
  let ?k2 = "KDirect (TransportIdentity [1]) (EndpointId [2]) Default (MessageId [4])"
  let ?f = "ContentFingerprint [5]" and ?g = "ContentFingerprint [6]" and ?r = "RouteDirect (EndpointId [7])"
  have fresh: "fst (dedup_admit (dedup_new 2 100) ?k ?f 10) = Fresh" by code_simp
  have old: "fst (dedup_admit (foldl dedup_step (record_accepted (dedup_new 2 100) ?k ?r ?f 10)
      [OpRecord ?k2 ?r ?g 20]) ?k ?f 110) = Fresh"
    by code_simp
  note replay = dedup_replays_recorded [of "dedup_new 2 100" 2 100 "[]" ?k ?f 10 _ ?r ?f
      "[OpRecord ?k2 ?r ?g 20]" 50, OF _ fresh refl]
  show ?thesis
    unfolding Let_def using replay [of ?f] replay [of ?g] old by simp
qed

section \<open>Reservations balance\<close>

definition charged_to :: "reservation_map \<Rightarrow> transport_identity \<Rightarrow> nat" where
  "charged_to r peer =
     bm_sum (\<lambda>k e. if source_peer k = peer then Suc (inf_waiters e) else 0) (rm_in_flight r)"

definition requests :: "reservation_map \<Rightarrow> nat" where
  "requests r = bm_sum (\<lambda>_ e. Suc (inf_waiters e)) (rm_in_flight r)"

definition reservations_ok :: "reservation_map \<Rightarrow> bool" where
  "reservations_ok r \<longleftrightarrow>
     bm_ok (rm_in_flight r) \<and> bm_ok (rm_per_peer r) \<and>
     (\<forall>peer. held_by r peer = charged_to r peer) \<and>
     (\<forall>peer n. bm_get (rm_per_peer r) peer = Some n \<longrightarrow> 0 < n) \<and>
     requests r \<le> rm_max_global r \<and> (\<forall>peer. held_by r peer \<le> rm_max_per_peer r) \<and>
     rm_max_global r \<le> MAX_RESERVATIONS_CEILING \<and>
     rm_max_per_peer r \<le> MAX_RESERVATIONS_PER_PEER_CEILING"

lemma waiters_bound:
  "reservations_ok r \<Longrightarrow> bm_get (rm_in_flight r) k = Some e \<Longrightarrow> Suc (inf_waiters e) \<le> MAX_RESERVATIONS_CEILING"
  using bm_sum_le [of "rm_in_flight r" k e "\<lambda>_ e. Suc (inf_waiters e)"]
  by (simp add: reservations_ok_def requests_def)

lemma sat_waiters:
  "reservations_ok r \<Longrightarrow> bm_get (rm_in_flight r) k = Some e \<Longrightarrow>
     sat_add64 (inf_waiters e) (Suc 0) = Suc (inf_waiters e)"
  using waiters_bound [of r k e] by (simp add: sat_add64_def MAX_RESERVATIONS_CEILING_def U64_MAX_def)

lemma outstanding_requests: "reservations_ok r \<Longrightarrow> outstanding r = requests r"
  unfolding outstanding_def requests_def
  by (rule bm_sum_cong) (auto simp: reservations_ok_def bm_get_in_set intro!: sat_waiters)

lemma charged_to_insert:
  assumes "bm_ok (rm_in_flight r)"
  shows "charged_to (r\<lparr>rm_in_flight := bm_insert k e (rm_in_flight r), rm_per_peer := pp\<rparr>) peer =
    (if source_peer k = peer then Suc (inf_waiters e) else 0)
    + bm_sum (\<lambda>k e. if source_peer k = peer then Suc (inf_waiters e) else 0) (bm_remove k (rm_in_flight r))"
  using assms by (simp add: charged_to_def bm_sum_insert)

lemma charged_to_remove:
  assumes "bm_ok (rm_in_flight r)" "bm_get (rm_in_flight r) k = Some e"
  shows "charged_to r peer =
    (if source_peer k = peer then Suc (inf_waiters e) else 0)
    + bm_sum (\<lambda>k e. if source_peer k = peer then Suc (inf_waiters e) else 0) (bm_remove k (rm_in_flight r))"
  using bm_sum_remove [OF assms] by (simp add: charged_to_def)

lemma held_by_insert:
  "held_by (r\<lparr>rm_in_flight := m, rm_per_peer := bm_insert p n (rm_per_peer r)\<rparr>) peer =
     (if peer = p then n else held_by r peer)"
  by (simp add: held_by_def)

text \<open>Taking one more request for a peer below both budgets keeps the books.\<close>

lemma reservations_charge:
  assumes ok: "reservations_ok r"
    and below: "held_by r (source_peer k) < rm_max_per_peer r" "requests r < rm_max_global r"
    and e': "case bm_get (rm_in_flight r) k of
        Some e \<Rightarrow> inf_waiters e' = Suc (inf_waiters e) | None \<Rightarrow> inf_waiters e' = 0"
    and r': "r' = r\<lparr>rm_in_flight := bm_insert k e' (rm_in_flight r),
        rm_per_peer := bm_insert (source_peer k) (Suc (held_by r (source_peer k))) (rm_per_peer r)\<rparr>"
  shows "reservations_ok r'"
proof -
  have m: "bm_ok (rm_in_flight r)" using ok by (simp add: reservations_ok_def)
  have absent: "bm_get (rm_in_flight r) k = None \<Longrightarrow> bm_remove k (rm_in_flight r) = rm_in_flight r"
    by (intro bm_remove_absent) (simp add: bm_has_def)
  have "charged_to r' peer = charged_to r peer + (if source_peer k = peer then 1 else 0)" for peer
    using e' absent charged_to_insert [OF m, where k = k and e = e' and peer = peer] charged_to_remove [OF m, of k _ peer]
    by (cases "bm_get (rm_in_flight r) k") (auto simp: r' charged_to_def)
  moreover have "requests r' = Suc (requests r)"
    using e' absent bm_sum_insert [OF m, of "\<lambda>_ e. Suc (inf_waiters e)" k e']
      bm_sum_remove [OF m, of k _ "\<lambda>_ e. Suc (inf_waiters e)"]
    by (cases "bm_get (rm_in_flight r) k") (auto simp: r' requests_def)
  ultimately show ?thesis
    using ok below by (auto simp: reservations_ok_def r' held_by_insert Suc_le_eq)
qed

lemma acquire_ok: "reservations_ok r \<Longrightarrow> reservations_ok (snd (acquire r k fp))"
proof -
  assume ok: "reservations_ok r"
  show "reservations_ok (snd (acquire r k fp))"
  proof (cases "bm_get (rm_in_flight r) k")
    case None
    then show ?thesis
      using ok reservations_charge [OF ok _ _ _ refl, of k "\<lparr>inf_fingerprint = fp, inf_waiters = 0\<rparr>"]
      by (simp add: acquire_def Let_def outstanding_requests)
  next
    case (Some e)
    then show ?thesis
      using ok sat_waiters [OF ok Some]
        reservations_charge [OF ok _ _ _ refl, of k "e\<lparr>inf_waiters := Suc (inf_waiters e)\<rparr>"]
      by (simp add: acquire_def Let_def outstanding_requests)
  qed
qed

lemma release_ok:
  assumes ok: "reservations_ok r"
  shows "reservations_ok (release r k)"
proof (cases "bm_get (rm_in_flight r) k")
  case None
  then show ?thesis using ok by (simp add: release_def)
next
  case (Some e)
  let ?p = "source_peer k" and ?n = "Suc (inf_waiters e)"
  let ?m = "bm_remove k (rm_in_flight r)"
  have m: "bm_ok (rm_in_flight r)" using ok by (simp add: reservations_ok_def)
  have charge: "charged_to r peer = (if ?p = peer then ?n else 0)
      + charged_to (r\<lparr>rm_in_flight := ?m, rm_per_peer := pp\<rparr>) peer" for peer pp
    using charged_to_remove [OF m Some, of peer] by (simp add: charged_to_def)
  have held: "held_by r peer = charged_to r peer" for peer using ok by (simp add: reservations_ok_def)
  have req: "requests (r\<lparr>rm_in_flight := ?m, rm_per_peer := pp\<rparr>) \<le> rm_max_global r" for pp
    using ok bm_sum_remove [OF m Some, of "\<lambda>_ e. Suc (inf_waiters e)"]
    by (simp add: reservations_ok_def requests_def)
  have le: "?n \<le> held_by r ?p" using charge [of ?p "[]"] held [of ?p] by simp
  then obtain h where h: "bm_get (rm_per_peer r) ?p = Some h" "held_by r ?p = h" "?n \<le> h"
    by (cases "bm_get (rm_per_peer r) ?p") (auto simp: held_by_def)
  define pp where "pp = (if h - ?n = 0 then bm_remove ?p (rm_per_peer r)
      else bm_insert ?p (h - ?n) (rm_per_peer r))"
  have r': "release r k = r\<lparr>rm_in_flight := ?m, rm_per_peer := pp\<rparr>"
    using h by (simp add: release_def Some Let_def sat_waiters [OF ok Some] pp_def)
  have "held_by (release r k) peer = (if peer = ?p then h - ?n else held_by r peer)" for peer
    by (auto simp: r' held_by_def pp_def)
  moreover have "charged_to (release r k) peer = (if peer = ?p then h - ?n else held_by r peer)" for peer
    using charge [of peer pp] held [of peer] h(2) by (auto simp: r')
  moreover have "\<And>peer n. bm_get pp peer = Some n \<Longrightarrow> 0 < n"
    using ok by (auto simp: pp_def reservations_ok_def split: if_splits)
  moreover have "bm_ok pp" using ok by (simp add: pp_def reservations_ok_def)
  moreover have "h - ?n \<le> rm_max_per_peer r" using ok h(2) by (auto simp: reservations_ok_def intro: order_trans [OF diff_le_self])
  ultimately show ?thesis
    using ok req [of pp] by (auto simp: reservations_ok_def r')
qed

datatype reservation_op = OpAcquire dedup_key content_fingerprint | OpRelease dedup_key

fun reservation_step :: "reservation_map \<Rightarrow> reservation_op \<Rightarrow> reservation_map" where
  "reservation_step r (OpAcquire k fp) = snd (acquire r k fp)"
| "reservation_step r (OpRelease k) = release r k"

interpretation reservations: stepwise reservation_step reservations_ok
proof
  show "reservations_ok (reservation_step r op)" if "reservations_ok r" for r op
    using that by (cases op) (simp_all add: acquire_ok release_ok)
qed

lemma reservations_new_ok: "reservations_ok (reservations_new g p)"
  by (simp add: reservations_ok_def reservations_new_def held_by_def charged_to_def requests_def)

lemma no_reservations: "reservations_ok r \<Longrightarrow> rm_in_flight r = [] \<Longrightarrow> rm_per_peer r = []"
proof (rule ccontr)
  assume ok: "reservations_ok r" and none: "rm_in_flight r = []" and "rm_per_peer r \<noteq> []"
  then obtain p n where "bm_get (rm_per_peer r) p = Some n"
    by (cases "rm_per_peer r") (auto, metis surj_pair)
  then show False
    using ok none by (auto simp: reservations_ok_def held_by_def charged_to_def split: option.splits)
      (metis less_irrefl)
qed

lemma in_flight_charged: "reservations_ok r \<Longrightarrow> rm_per_peer r = [] \<Longrightarrow> rm_in_flight r = []"
proof (rule ccontr)
  assume ok: "reservations_ok r" and none: "rm_per_peer r = []" and "rm_in_flight r \<noteq> []"
  then obtain k e where "bm_get (rm_in_flight r) k = Some e"
    by (cases "rm_in_flight r") (auto, metis surj_pair)
  from bm_sum_le [OF this, of "\<lambda>j e. if source_peer j = source_peer k then Suc (inf_waiters e) else 0"]
  have "0 < charged_to r (source_peer k)" by (simp add: charged_to_def)
  then show False using ok none by (simp add: reservations_ok_def held_by_def)
qed

lemma reservation_step_bounds:
  "rm_max_global (reservation_step r op) = rm_max_global r"
  "rm_max_per_peer (reservation_step r op) = rm_max_per_peer r"
  by (cases op; simp add: acquire_def release_def Let_def split: option.splits)+

lemma reservation_run_bounds:
  "rm_max_global (foldl reservation_step r ops) = rm_max_global r
   \<and> rm_max_per_peer (foldl reservation_step r ops) = rm_max_per_peer r"
  by (induction ops arbitrary: r) (simp_all add: reservation_step_bounds)

lemma in_flight_until_release:
  "bm_has (rm_in_flight r) k \<Longrightarrow> op \<noteq> OpRelease k \<Longrightarrow> bm_has (rm_in_flight (reservation_step r op)) k"
  by (cases op) (auto simp: acquire_def release_def Let_def split: option.splits)

lemma in_flight_run:
  "bm_has (rm_in_flight r) k \<Longrightarrow> OpRelease k \<notin> set ops \<Longrightarrow>
     bm_has (rm_in_flight (foldl reservation_step r ops)) k"
  by (induction ops arbitrary: r) (auto simp: in_flight_until_release)

lemma acquire_owner:
  "fst (acquire r k fp) = Ok Owner \<Longrightarrow> \<not> bm_has (rm_in_flight r) k \<and> bm_has (rm_in_flight (snd (acquire r k fp))) k"
  by (auto simp: acquire_def Let_def bm_has_def split: option.splits if_splits)

text \<open>An owner that releases at once leaves no trace.\<close>

lemma acquire_release:
  assumes "reservations_ok r" "fst (acquire r k fp) = Ok Owner"
  shows "release (snd (acquire r k fp)) k = r"
proof -
  have none: "bm_get (rm_in_flight r) k = None"
    using acquire_owner [OF assms(2)] by (simp add: bm_has_def)
  have ok: "bm_ok (rm_per_peer r)" and
    pos: "\<And>n. bm_get (rm_per_peer r) (source_peer k) = Some n \<Longrightarrow> 0 < n"
    using assms(1) by (auto simp: reservations_ok_def)
  have "sat_add64 0 1 = 1" by (simp add: sat_add64_def U64_MAX_def)
  then show ?thesis
    using assms(2) none ok pos
    by (auto simp: acquire_def release_def Let_def held_by_def bm_insert_same
        split: if_splits option.splits)
qed
text \<open>C30. Whatever requests arrive and in whatever order they are released, the requests outstanding
  (owners and waiters together) stay within the global budget, every peer's count is exactly
  what its requests in flight amount to and stays within the per-peer budget, and nothing is
  charged to anyone precisely when nothing is in flight: no budget leaks.\<close>

theorem reservations_balance:
  "outstanding (foldl reservation_step (reservations_new g p) ops) \<le> min g MAX_RESERVATIONS_CEILING
   \<and> held_by (foldl reservation_step (reservations_new g p) ops) peer
       = charged_to (foldl reservation_step (reservations_new g p) ops) peer
   \<and> held_by (foldl reservation_step (reservations_new g p) ops) peer
       \<le> min p MAX_RESERVATIONS_PER_PEER_CEILING
   \<and> (rm_per_peer (foldl reservation_step (reservations_new g p) ops) = []
      \<longleftrightarrow> rm_in_flight (foldl reservation_step (reservations_new g p) ops) = [])"
proof -
  let ?r = "foldl reservation_step (reservations_new g p) ops"
  have ok: "reservations_ok ?r" by (simp add: reservations.inv_run reservations_new_ok)
  have "rm_max_global ?r = min g MAX_RESERVATIONS_CEILING
      \<and> rm_max_per_peer ?r = min p MAX_RESERVATIONS_PER_PEER_CEILING"
    using reservation_run_bounds [of "reservations_new g p" ops] by (simp add: reservations_new_def)
  with ok outstanding_requests [OF ok] no_reservations [OF ok] in_flight_charged [OF ok]
  show ?thesis by (auto simp: reservations_ok_def)
qed

text \<open>A key has one owner at a time: after a request became the owner of a key, no other request
  becomes its owner until the key is released.\<close>

theorem reservation_single_owner:
  assumes "fst (acquire r k fp) = Ok Owner" and "OpRelease k \<notin> set ops"
  shows "fst (acquire (foldl reservation_step (snd (acquire r k fp)) ops) k fp') \<noteq> Ok Owner"
  using acquire_owner [OF assms(1)] in_flight_run [OF _ assms(2), of "snd (acquire r k fp)"]
    acquire_owner [of _ k fp']
  by blast

theorem reservation_single_owner_witness:
  "(let k = KBroadcast (TransportIdentity [1]) (ChannelId [2]) (MessageId [3]);
        f = ContentFingerprint [4]; r = snd (acquire (reservations_new 5 2) k f)
    in fst (acquire (reservations_new 5 2) k f) = Ok Owner
       \<and> fst (acquire (foldl reservation_step r [OpAcquire k f]) k f) \<noteq> Ok Owner
       \<and> fst (acquire (foldl reservation_step r [OpAcquire k f, OpRelease k]) k f) = Ok Owner)"
proof -
  let ?k = "KBroadcast (TransportIdentity [1]) (ChannelId [2]) (MessageId [3])"
  let ?f = "ContentFingerprint [4]"
  have "fst (acquire (reservations_new 5 2) ?k ?f) = Ok Owner" by code_simp
  moreover have "fst (acquire (foldl reservation_step (snd (acquire (reservations_new 5 2) ?k ?f))
      [OpAcquire ?k ?f, OpRelease ?k]) ?k ?f) = Ok Owner" by code_simp
  ultimately show ?thesis
    unfolding Let_def using reservation_single_owner [of "reservations_new 5 2" ?k ?f "[OpAcquire ?k ?f]" ?f]
    by simp
qed

end
