(* ===== verification/Ingress.thy ===== *)
theory Ingress
  imports Ids "HOL-Library.Code_Target_Nat"
begin

text \<open>
  Ingress limits, \<open>crates/transport/runtime/src/ingress.rs\<close>: the token buckets that bound
  trusted peers, the limiter that charges a peer before the shared bucket, and the registry
  of local channel joins with its two ceilings.  Times are milliseconds of a clock passed in
  by the caller.
\<close>

section \<open>Token buckets\<close>

definition DEFAULT_PER_PEER_PER_MINUTE :: nat where "DEFAULT_PER_PEER_PER_MINUTE = 120"
definition DEFAULT_PER_PEER_BURST :: nat where "DEFAULT_PER_PEER_BURST = 32"
definition DEFAULT_GLOBAL_PER_MINUTE :: nat where "DEFAULT_GLOBAL_PER_MINUTE = 1200"
definition DEFAULT_GLOBAL_BURST :: nat where "DEFAULT_GLOBAL_BURST = 256"
definition MS_PER_MINUTE :: nat where "MS_PER_MINUTE = 60000"

record bucket =
  bk_tokens :: nat
  bk_burst :: nat
  bk_per_minute :: nat
  bk_last_refill_ms :: nat

definition bucket_new :: "nat \<Rightarrow> nat \<Rightarrow> nat \<Rightarrow> bucket" where
  "bucket_new per_minute burst now_ms =
    \<lparr>bk_tokens = burst, bk_burst = burst, bk_per_minute = per_minute, bk_last_refill_ms = now_ms\<rparr>"

definition bucket_refill :: "bucket \<Rightarrow> nat \<Rightarrow> bucket" where
  "bucket_refill b now_ms =
    (if bk_per_minute b = 0 then b
     else
       let elapsed = now_ms - bk_last_refill_ms b in
       if elapsed = 0 then b
       else
         let gained = min (sat_mul64 elapsed (bk_per_minute b) div MS_PER_MINUTE) U32_MAX in
         if gained = 0 then b
         else
           let consumed_ms = sat_mul64 gained MS_PER_MINUTE div bk_per_minute b in
           b\<lparr>bk_tokens := min (sat_add32 (bk_tokens b) gained) (bk_burst b),
             bk_last_refill_ms := sat_add64 (bk_last_refill_ms b) consumed_ms\<rparr>)"

definition bucket_try_consume :: "bucket \<Rightarrow> nat \<Rightarrow> bool \<times> bucket" where
  "bucket_try_consume b now_ms =
    (let b = bucket_refill b now_ms in
     if bk_tokens b = 0 then (False, b) else (True, b\<lparr>bk_tokens := bk_tokens b - 1\<rparr>))"

section \<open>The limiter\<close>

datatype ingress_denial = PerPeerExhausted | GlobalExhausted

record ingress_limiter =
  il_per_peer :: "(transport_identity, bucket) bmap"
  il_global :: "bucket option"
  il_per_peer_per_minute :: nat
  il_per_peer_burst :: nat
  il_last_prune_ms :: nat

definition PRUNE_INTERVAL_MS :: nat where "PRUNE_INTERVAL_MS = 60000"

definition limiter_new :: "nat \<Rightarrow> nat \<Rightarrow> nat \<Rightarrow> nat \<Rightarrow> nat \<Rightarrow> ingress_limiter" where
  "limiter_new per_peer_per_minute per_peer_burst global_per_minute global_burst now_ms =
    \<lparr>il_per_peer = [], il_global = Some (bucket_new global_per_minute global_burst now_ms),
     il_per_peer_per_minute = per_peer_per_minute, il_per_peer_burst = per_peer_burst,
     il_last_prune_ms = now_ms\<rparr>"

definition limiter_with_defaults :: "nat \<Rightarrow> ingress_limiter" where
  "limiter_with_defaults now_ms =
    limiter_new DEFAULT_PER_PEER_PER_MINUTE DEFAULT_PER_PEER_BURST
      DEFAULT_GLOBAL_PER_MINUTE DEFAULT_GLOBAL_BURST now_ms"

definition limiter_per_peer_only :: "nat \<Rightarrow> nat \<Rightarrow> nat \<Rightarrow> ingress_limiter" where
  "limiter_per_peer_only per_minute burst now_ms =
    \<lparr>il_per_peer = [], il_global = None, il_per_peer_per_minute = per_minute,
     il_per_peer_burst = burst, il_last_prune_ms = now_ms\<rparr>"

definition limiter_prune_idle :: "ingress_limiter \<Rightarrow> nat \<Rightarrow> ingress_limiter" where
  "limiter_prune_idle l now_ms =
    l\<lparr>il_per_peer := bm_retain (\<lambda>_ b. bk_tokens b < bk_burst b)
       (bm_map_values (\<lambda>b. bucket_refill b now_ms) (il_per_peer l))\<rparr>"

definition limiter_sweep :: "ingress_limiter \<Rightarrow> nat \<Rightarrow> ingress_limiter" where
  "limiter_sweep l now_ms =
    (if now_ms - il_last_prune_ms l \<ge> PRUNE_INTERVAL_MS
     then (limiter_prune_idle l now_ms)\<lparr>il_last_prune_ms := now_ms\<rparr> else l)"

definition limiter_admit ::
  "ingress_limiter \<Rightarrow> transport_identity \<Rightarrow> nat \<Rightarrow> (ingress_denial + unit) \<times> ingress_limiter" where
  "limiter_admit l peer now_ms =
    (let l = limiter_sweep l now_ms;
         bucket = (case bm_get (il_per_peer l) peer of
                     Some b \<Rightarrow> b
                   | None \<Rightarrow> bucket_new (il_per_peer_per_minute l) (il_per_peer_burst l) now_ms);
         (ok, bucket) = bucket_try_consume bucket now_ms;
         l = l\<lparr>il_per_peer := bm_insert peer bucket (il_per_peer l)\<rparr>
     in if \<not> ok then (Err PerPeerExhausted, l)
        else (case il_global l of
                None \<Rightarrow> (Ok (), l)
              | Some g \<Rightarrow>
                  let (ok, g) = bucket_try_consume g now_ms;
                      l = l\<lparr>il_global := Some g\<rparr>
                  in if \<not> ok then (Err GlobalExhausted, l) else (Ok (), l)))"

section \<open>Subscriptions\<close>

type_synonym session = bytes

definition MAX_SUBSCRIPTIONS :: nat where "MAX_SUBSCRIPTIONS = 1024"
definition MAX_SESSIONS_PER_CHANNEL :: nat where "MAX_SESSIONS_PER_CHANNEL = 64"

datatype subscription_denial = TooManySubscriptions | TooManySessions | CeilingOutOfRange

record subscription_registry =
  sr_joins :: "(channel_id, session bset) bmap"
  sr_desired :: "channel_id bset"
  sr_ceiling :: nat

definition registry_default :: subscription_registry where
  "registry_default = \<lparr>sr_joins = [], sr_desired = [], sr_ceiling = MAX_SUBSCRIPTIONS\<rparr>"

definition set_desired ::
  "subscription_registry \<Rightarrow> channel_id bset \<Rightarrow> (subscription_denial + unit) \<times> subscription_registry" where
  "set_desired r desired =
    (let joined_elsewhere = length (filter (\<lambda>c. c \<notin> set desired) (map fst (sr_joins r))) in
     if sat_add64 joined_elsewhere (length desired) > sr_ceiling r
     then (Err TooManySubscriptions, r)
     else (Ok (), r\<lparr>sr_desired := desired\<rparr>))"

definition configure ::
  "subscription_registry \<Rightarrow> channel_id bset \<Rightarrow> nat \<Rightarrow>
     (subscription_denial + unit) \<times> subscription_registry" where
  "configure r desired ceiling =
    (if \<not> (1 \<le> ceiling \<and> ceiling \<le> MAX_SUBSCRIPTIONS) then (Err CeilingOutOfRange, r)
     else
       let previous = sr_ceiling r;
           (result, r) = set_desired (r\<lparr>sr_ceiling := ceiling\<rparr>) desired
       in (result, if is_ok result then r else r\<lparr>sr_ceiling := previous\<rparr>))"

definition subscriptions :: "subscription_registry \<Rightarrow> nat" where
  "subscriptions r =
    length (filter (\<lambda>c. c \<notin> set (sr_desired r)) (map fst (sr_joins r))) + length (sr_desired r)"

definition join ::
  "subscription_registry \<Rightarrow> channel_id \<Rightarrow> session \<Rightarrow> (subscription_denial + unit) \<times> subscription_registry" where
  "join r channel session =
    (let insert_it = r\<lparr>sr_joins := bm_insert channel
           (bs_insert session (case bm_get (sr_joins r) channel of Some s \<Rightarrow> s | None \<Rightarrow> []))
           (sr_joins r)\<rparr> in
     case bm_get (sr_joins r) channel of
       Some sessions \<Rightarrow>
         if session \<in> set sessions then (Ok (), r)
         else if length sessions \<ge> MAX_SESSIONS_PER_CHANNEL then (Err TooManySessions, r)
         else (Ok (), insert_it)
     | None \<Rightarrow>
         let held = subscriptions r in
         if channel \<notin> set (sr_desired r) \<and> held \<ge> sr_ceiling r then (Err TooManySubscriptions, r)
         else (Ok (), insert_it))"

definition leave :: "subscription_registry \<Rightarrow> channel_id \<Rightarrow> session \<Rightarrow> subscription_registry" where
  "leave r channel session =
    (case bm_get (sr_joins r) channel of
       None \<Rightarrow> r
     | Some s \<Rightarrow>
         let s = bs_remove session s in
         if s = [] then r\<lparr>sr_joins := bm_remove channel (sr_joins r)\<rparr>
         else r\<lparr>sr_joins := bm_insert channel s (sr_joins r)\<rparr>)"

definition holds_any :: "subscription_registry \<Rightarrow> session \<Rightarrow> bool" where
  "holds_any r session \<longleftrightarrow> list_ex (\<lambda>(_, s). session \<in> set s) (sr_joins r)"

definition join_references :: "subscription_registry \<Rightarrow> nat" where
  "join_references r = bm_sum (\<lambda>_ s. length s) (sr_joins r)"

definition may_publish :: "subscription_registry \<Rightarrow> channel_id \<Rightarrow> session \<Rightarrow> bool" where
  "may_publish r channel session \<longleftrightarrow>
    (case bm_get (sr_joins r) channel of None \<Rightarrow> False | Some s \<Rightarrow> session \<in> set s)"

definition subscribers :: "subscription_registry \<Rightarrow> channel_id \<Rightarrow> session list" where
  "subscribers r channel = (case bm_get (sr_joins r) channel of None \<Rightarrow> [] | Some s \<Rightarrow> s)"

definition backend_should_subscribe :: "subscription_registry \<Rightarrow> channel_id \<Rightarrow> bool" where
  "backend_should_subscribe r channel \<longleftrightarrow> bm_has (sr_joins r) channel \<or> channel \<in> set (sr_desired r)"

section \<open>What a bucket grants\<close>

text \<open>
  \<open>bucket_ok pm burst t0 now n b\<close>: a bucket that was full at \<open>t0\<close> and has granted \<open>n\<close> tokens
  by \<open>now\<close> is never ahead of its refill clock.
\<close>

definition bucket_ok :: "nat \<Rightarrow> nat \<Rightarrow> nat \<Rightarrow> nat \<Rightarrow> nat \<Rightarrow> bucket \<Rightarrow> bool" where
  "bucket_ok pm burst t0 now n b \<longleftrightarrow>
     bk_per_minute b = pm \<and> bk_burst b = burst \<and> bk_tokens b \<le> burst \<and>
     t0 \<le> bk_last_refill_ms b \<and> bk_last_refill_ms b \<le> now \<and>
     n + bk_tokens b \<le> burst + (bk_last_refill_ms b - t0) div (MS_PER_MINUTE div pm)"

definition rate_ok :: "nat \<Rightarrow> bool" where
  "rate_ok pm \<longleftrightarrow> 1 \<le> pm \<and> pm \<le> MS_PER_MINUTE"

lemma interval_pos: "rate_ok pm \<Longrightarrow> 0 < MS_PER_MINUTE div pm"
  by (simp add: rate_ok_def div_greater_zero_iff)

lemma div_gain: "0 < q \<Longrightarrow> g * q \<le> c \<Longrightarrow> a div q + g \<le> (a + c) div (q :: nat)"
proof -
  assume "0 < q" "g * q \<le> c"
  then have "(a + g * q) div q \<le> (a + c) div q" by (intro div_le_mono) simp
  with \<open>0 < q\<close> show ?thesis by simp
qed

lemma gained_times:
  fixes g e pm M :: nat
  assumes "0 < pm" "0 < M" "g \<le> e * pm div M"
  shows "g * (M div pm) \<le> g * M div pm" "g * M div pm \<le> e"
proof -
  have "g * (M div pm) * pm \<le> g * M"
    by (metis div_times_less_eq_dividend mult.assoc mult_le_mono2)
  then show "g * (M div pm) \<le> g * M div pm"
    using assms(1) by (simp add: less_eq_div_iff_mult_less_eq)
  have "g * M \<le> e * pm"
    using assms(2,3) by (simp add: less_eq_div_iff_mult_less_eq)
  then show "g * M div pm \<le> e"
    using assms(1) by (metis div_le_mono nonzero_mult_div_cancel_right not_gr_zero)
qed

lemma bucket_refill_ok:
  assumes b: "bucket_ok pm burst t0 T n b" and pm: "rate_ok pm" and now: "T \<le> now" "now \<le> U64_MAX"
  shows "bucket_ok pm burst t0 now n (bucket_refill b now)"
proof -
  define el where "el = now - bk_last_refill_ms b"
  define g where "g = min (sat_mul64 el pm div MS_PER_MINUTE) U32_MAX"
  let ?q = "MS_PER_MINUTE div pm" and ?c = "g * MS_PER_MINUTE div pm"
  have M: "0 < MS_PER_MINUTE" by (simp add: MS_PER_MINUTE_def)
  have "sat_mul64 el pm div MS_PER_MINUTE \<le> el * pm div MS_PER_MINUTE"
    by (intro div_le_mono sat_mul64_le)
  then have "g \<le> el * pm div MS_PER_MINUTE" by (simp add: g_def)
  from gained_times [OF _ M this] pm have c: "g * ?q \<le> ?c" "?c \<le> el" by (simp_all add: rate_ok_def)
  have last: "bk_last_refill_ms b + ?c \<le> now"
  proof -
    have "bk_last_refill_ms b \<le> now" using b now by (simp add: bucket_ok_def)
    with c(2) show ?thesis unfolding el_def by linarith
  qed
  have "g \<le> U32_MAX" by (simp add: g_def)
  then have exact: "sat_mul64 g MS_PER_MINUTE = g * MS_PER_MINUTE"
    by (simp add: sat_mul64_def U32_MAX_def U64_MAX_def MS_PER_MINUTE_def)
  have "(bk_last_refill_ms b - t0) div ?q + g \<le> (bk_last_refill_ms b - t0 + ?c) div ?q"
    using interval_pos [OF pm] c(1) by (intro div_gain)
  then have gain: "n + (bk_tokens b + g) \<le> burst + (bk_last_refill_ms b + ?c - t0) div ?q"
    using b by (simp add: bucket_ok_def)
  have stay: "bucket_ok pm burst t0 now n b" using b now by (simp add: bucket_ok_def)
  show ?thesis
  proof (cases "el = 0 \<or> g = 0")
    case True
    with stay show ?thesis
      using b pm by (auto simp: bucket_refill_def el_def g_def bucket_ok_def Let_def)
  next
    case False
    then have "bucket_refill b now = b\<lparr>bk_tokens := min (sat_add32 (bk_tokens b) g) burst,
        bk_last_refill_ms := bk_last_refill_ms b + ?c\<rparr>"
      using b pm last now exact
      by (simp add: bucket_refill_def el_def [symmetric] g_def [symmetric] bucket_ok_def rate_ok_def
          sat_add64_eq)
    moreover have "min (sat_add32 (bk_tokens b) g) burst \<le> bk_tokens b + g"
      using sat_add32_le [of "bk_tokens b" g] by linarith
    ultimately show ?thesis
      using b last gain by (auto simp: bucket_ok_def)
  qed
qed

lemma bucket_consume_ok:
  assumes "bucket_ok pm burst t0 T n b" "rate_ok pm" "T \<le> now" "now \<le> U64_MAX"
  shows "bucket_ok pm burst t0 now (n + of_bool (fst (bucket_try_consume b now)))
    (snd (bucket_try_consume b now))"
  using bucket_refill_ok [OF assms] by (auto simp: bucket_try_consume_def Let_def bucket_ok_def)

lemma bucket_ok_less: "bucket_ok pm burst t0 T n b \<Longrightarrow> m \<le> n \<Longrightarrow> T \<le> now \<Longrightarrow> bucket_ok pm burst t0 now m b"
  by (auto simp: bucket_ok_def)

lemma bucket_new_ok:
  "n \<le> (now - t0) div (MS_PER_MINUTE div pm) \<Longrightarrow> t0 \<le> now \<Longrightarrow>
     bucket_ok pm burst t0 now n (bucket_new pm burst now)"
  by (simp add: bucket_ok_def bucket_new_def)

lemma bucket_grants:
  assumes "bucket_ok pm burst t0 T n b"
  shows "n \<le> burst + (T - t0) div (MS_PER_MINUTE div pm)"
proof -
  have "(bk_last_refill_ms b - t0) div (MS_PER_MINUTE div pm) \<le> (T - t0) div (MS_PER_MINUTE div pm)"
    using assms by (intro div_le_mono diff_le_mono) (simp add: bucket_ok_def)
  with assms show ?thesis by (simp add: bucket_ok_def)
qed

lemma bucket_full:
  assumes "bucket_ok pm burst t0 T n b" "\<not> bk_tokens b < bk_burst b"
  shows "n \<le> (T - t0) div (MS_PER_MINUTE div pm)"
proof -
  have "(bk_last_refill_ms b - t0) div (MS_PER_MINUTE div pm) \<le> (T - t0) div (MS_PER_MINUTE div pm)"
    using assms by (intro div_le_mono diff_le_mono) (simp add: bucket_ok_def)
  with assms show ?thesis by (simp add: bucket_ok_def)
qed

section \<open>What the limiter grants\<close>

text \<open>Grants to the peers in \<open>P\<close> over a sequence of requests.\<close>

fun grants :: "(transport_identity \<Rightarrow> bool) \<Rightarrow> ingress_limiter \<Rightarrow> (transport_identity \<times> nat) list \<Rightarrow> nat" where
  "grants P l [] = 0"
| "grants P l ((peer, now) # xs) =
     of_bool (P peer \<and> is_ok (fst (limiter_admit l peer now))) + grants P (snd (limiter_admit l peer now)) xs"

definition peer_ok :: "nat \<Rightarrow> nat \<Rightarrow> nat \<Rightarrow> nat \<Rightarrow> nat \<Rightarrow> transport_identity \<Rightarrow> ingress_limiter \<Rightarrow> bool" where
  "peer_ok pm burst t0 T n p l \<longleftrightarrow>
     bm_ok (il_per_peer l) \<and> il_per_peer_per_minute l = pm \<and> il_per_peer_burst l = burst \<and> t0 \<le> T \<and>
     (case bm_get (il_per_peer l) p of
        Some b \<Rightarrow> bucket_ok pm burst t0 T n b
      | None \<Rightarrow> n \<le> (T - t0) div (MS_PER_MINUTE div pm))"

lemma peer_ok_sweep:
  assumes l: "peer_ok pm burst t0 T n p l" and pm: "rate_ok pm" and now: "T \<le> now" "now \<le> U64_MAX"
  shows "peer_ok pm burst t0 now n p (limiter_sweep l now)"
proof -
  have grow: "(T - t0) div (MS_PER_MINUTE div pm) \<le> (now - t0) div (MS_PER_MINUTE div pm)"
    using now by (intro div_le_mono) simp
  have stay: "peer_ok pm burst t0 now n p l"
    using l now grow by (auto simp: peer_ok_def split: option.splits intro: bucket_ok_less)
  show ?thesis
  proof (cases "bm_get (il_per_peer l) p")
    case None
    with stay show ?thesis
      by (auto simp: peer_ok_def limiter_sweep_def limiter_prune_idle_def bm_get_retain)
  next
    case (Some b)
    with l have "bucket_ok pm burst t0 now n (bucket_refill b now)"
      by (intro bucket_refill_ok [OF _ pm now]) (simp add: peer_ok_def)
    with bucket_full [OF this] show ?thesis
      using stay Some
      by (auto simp: peer_ok_def limiter_sweep_def limiter_prune_idle_def bm_get_retain)
  qed
qed

definition peer_bucket :: "ingress_limiter \<Rightarrow> transport_identity \<Rightarrow> nat \<Rightarrow> bucket" where
  "peer_bucket l peer now =
    (case bm_get (il_per_peer l) peer of
       Some b \<Rightarrow> b | None \<Rightarrow> bucket_new (il_per_peer_per_minute l) (il_per_peer_burst l) now)"

lemma limiter_sweep_frame [simp]:
  "il_global (limiter_sweep l now) = il_global l"
  "il_per_peer_per_minute (limiter_sweep l now) = il_per_peer_per_minute l"
  "il_per_peer_burst (limiter_sweep l now) = il_per_peer_burst l"
  by (simp_all add: limiter_sweep_def limiter_prune_idle_def)

lemma limiter_admit_parts:
  fixes l peer now
  defines "s \<equiv> limiter_sweep l now"
  defines "c \<equiv> bucket_try_consume (peer_bucket s peer now) now"
  shows "il_per_peer (snd (limiter_admit l peer now)) = bm_insert peer (snd c) (il_per_peer s)"
    and "il_per_peer_per_minute (snd (limiter_admit l peer now)) = il_per_peer_per_minute l"
    and "il_per_peer_burst (snd (limiter_admit l peer now)) = il_per_peer_burst l"
    and "is_ok (fst (limiter_admit l peer now)) \<longleftrightarrow>
      fst c \<and> (case il_global l of None \<Rightarrow> True | Some g \<Rightarrow> fst (bucket_try_consume g now))"
    and "il_global (snd (limiter_admit l peer now)) =
      (if fst c then map_option (\<lambda>g. snd (bucket_try_consume g now)) (il_global l) else il_global l)"
    and "fst (limiter_admit l peer now) = Err PerPeerExhausted \<longleftrightarrow> \<not> fst c"
  by (auto simp: limiter_admit_def Let_def s_def c_def peer_bucket_def split: prod.splits option.splits)

lemma peer_ok_admit:
  assumes l: "peer_ok pm burst t0 T n p l" and pm: "rate_ok pm" and now: "T \<le> now" "now \<le> U64_MAX"
  shows "peer_ok pm burst t0 now (n + of_bool (q = p \<and> is_ok (fst (limiter_admit l q now)))) p
    (snd (limiter_admit l q now))"
proof -
  let ?s = "limiter_sweep l now"
  have s: "peer_ok pm burst t0 now n p ?s" by (rule peer_ok_sweep [OF assms])
  show ?thesis
  proof (cases "q = p")
    case False
    with s show ?thesis by (simp add: peer_ok_def limiter_admit_parts)
  next
    case True
    let ?b = "peer_bucket ?s p now"
    have "bucket_ok pm burst t0 now n ?b"
      using s by (auto simp: peer_ok_def peer_bucket_def split: option.splits intro: bucket_new_ok)
    from bucket_consume_ok [OF this pm order_refl now(2)]
    have "bucket_ok pm burst t0 now (n + of_bool (is_ok (fst (limiter_admit l p now))))
        (snd (bucket_try_consume ?b now))"
      by (rule bucket_ok_less) (auto simp: limiter_admit_parts)
    with True s show ?thesis by (simp add: peer_ok_def limiter_admit_parts)
  qed
qed

text \<open>Times of a run: nondecreasing from \<open>T\<close>, within the clock's width.\<close>

fun times_from :: "nat \<Rightarrow> (transport_identity \<times> nat) list \<Rightarrow> bool" where
  "times_from T [] = True"
| "times_from T ((_, now) # xs) = (T \<le> now \<and> now \<le> U64_MAX \<and> times_from now xs)"

definition end_time :: "nat \<Rightarrow> (transport_identity \<times> nat) list \<Rightarrow> nat" where
  "end_time T xs = (if xs = [] then T else snd (last xs))"

lemma end_time_Cons [simp]: "end_time T ((p, now) # xs) = end_time now xs"
  by (simp add: end_time_def)

lemma peer_ok_bound:
  "peer_ok pm burst t0 T n p l \<Longrightarrow> n \<le> burst + (T - t0) div (MS_PER_MINUTE div pm)"
  by (auto simp: peer_ok_def split: option.splits dest: bucket_grants)

lemma grants_peer_bound:
  "peer_ok pm burst t0 T n p l \<Longrightarrow> rate_ok pm \<Longrightarrow> times_from T xs \<Longrightarrow>
     n + grants (\<lambda>q. q = p) l xs \<le> burst + (end_time T xs - t0) div (MS_PER_MINUTE div pm)"
proof (induction xs arbitrary: T n l)
  case Nil
  then show ?case by (simp add: end_time_def peer_ok_bound)
next
  case (Cons x xs)
  obtain q now where x: "x = (q, now)" by (cases x)
  from Cons.prems have now: "T \<le> now" "now \<le> U64_MAX" "times_from now xs" by (simp_all add: x)
  from Cons.IH [OF peer_ok_admit [OF Cons.prems(1,2) now(1,2), of q] Cons.prems(2) now(3)]
  show ?case by (simp add: x)
qed

definition global_ok :: "nat \<Rightarrow> nat \<Rightarrow> nat \<Rightarrow> nat \<Rightarrow> nat \<Rightarrow> ingress_limiter \<Rightarrow> bool" where
  "global_ok pm burst t0 T n l \<longleftrightarrow>
     (case il_global l of None \<Rightarrow> False | Some g \<Rightarrow> bucket_ok pm burst t0 T n g)"

lemma global_ok_admit:
  assumes l: "global_ok pm burst t0 T n l" and pm: "rate_ok pm" and now: "T \<le> now" "now \<le> U64_MAX"
  shows "global_ok pm burst t0 now (n + of_bool (is_ok (fst (limiter_admit l q now))))
    (snd (limiter_admit l q now))"
proof -
  obtain g where g: "il_global l = Some g" "bucket_ok pm burst t0 T n g"
    using l by (auto simp: global_ok_def split: option.splits)
  show ?thesis
    using g bucket_consume_ok [OF g(2) pm now] bucket_ok_less [OF g(2) order_refl now(1)]
    by (auto simp: global_ok_def limiter_admit_parts)
qed

lemma grants_global_bound:
  "global_ok pm burst t0 T n l \<Longrightarrow> rate_ok pm \<Longrightarrow> times_from T xs \<Longrightarrow>
     n + grants (\<lambda>_. True) l xs \<le> burst + (end_time T xs - t0) div (MS_PER_MINUTE div pm)"
proof (induction xs arbitrary: T n l)
  case Nil
  then show ?case by (auto simp: end_time_def global_ok_def split: option.splits dest: bucket_grants)
next
  case (Cons x xs)
  obtain q now where x: "x = (q, now)" by (cases x)
  from Cons.prems have now: "T \<le> now" "now \<le> U64_MAX" "times_from now xs" by (simp_all add: x)
  from Cons.IH [OF global_ok_admit [OF Cons.prems(1,2) now(1,2), of q] Cons.prems(2) now(3)]
  show ?case by (simp add: x)
qed

section \<open>Properties of the limiter\<close>

text \<open>C31. Over any sequence of requests from any peers, with idle buckets swept whenever the limiter
  sweeps them, one peer is granted at most its burst plus one request per refill interval of
  elapsed time, and all peers together at most the global burst plus one per global
  interval.  Forgetting a full bucket never lets a peer exceed its rate.\<close>

theorem ingress_rate_bound:
  assumes "rate_ok pm" and "rate_ok gpm" and "times_from t0 xs"
  shows "grants (\<lambda>q. q = p) (limiter_new pm burst gpm gburst t0) xs
      \<le> burst + (end_time t0 xs - t0) div (MS_PER_MINUTE div pm)
    \<and> grants (\<lambda>_. True) (limiter_new pm burst gpm gburst t0) xs
      \<le> gburst + (end_time t0 xs - t0) div (MS_PER_MINUTE div gpm)"
proof
  have "peer_ok pm burst t0 t0 0 p (limiter_new pm burst gpm gburst t0)"
    by (simp add: peer_ok_def limiter_new_def)
  from grants_peer_bound [OF this assms(1,3)]
  show "grants (\<lambda>q. q = p) (limiter_new pm burst gpm gburst t0) xs
      \<le> burst + (end_time t0 xs - t0) div (MS_PER_MINUTE div pm)" by simp
  have "global_ok gpm gburst t0 t0 0 (limiter_new pm burst gpm gburst t0)"
    by (simp add: global_ok_def limiter_new_def bucket_new_ok)
  from grants_global_bound [OF this assms(2,3)]
  show "grants (\<lambda>_. True) (limiter_new pm burst gpm gburst t0) xs
      \<le> gburst + (end_time t0 xs - t0) div (MS_PER_MINUTE div gpm)" by simp
qed

theorem ingress_rate_bound_witness:
  "(let a = TransportIdentity [1]; b = TransportIdentity [2];
        l = limiter_new 120 1 1200 2 1000; xs = [(a, 1000), (a, 1100), (b, 1200), (a, 1600)]
    in grants (\<lambda>q. q = a) l xs = 2 \<and> grants (\<lambda>q. q = a) l xs \<le> 1 + (1600 - 1000) div 500
       \<and> grants (\<lambda>_. True) l xs \<le> 2 + (1600 - 1000) div 50)"
proof -
  let ?a = "TransportIdentity [1]" and ?b = "TransportIdentity [2]"
  let ?xs = "[(?a, 1000), (?a, 1100), (?b, 1200), (?a, 1600)]"
  have "grants (\<lambda>q. q = ?a) (limiter_new 120 1 1200 2 1000) ?xs = 2" by code_simp
  moreover have "rate_ok 120" "rate_ok 1200" by (simp_all add: rate_ok_def MS_PER_MINUTE_def)
  moreover have "times_from 1000 ?xs" by (simp add: U64_MAX_def)
  moreover have "end_time 1000 ?xs = 1600" by (simp add: end_time_def)
  ultimately show ?thesis
    unfolding Let_def using ingress_rate_bound [of 120 1200 1000 ?xs ?a 1 2]
    by (simp add: MS_PER_MINUTE_def)
qed

text \<open>A peer over its own allowance spends nobody else's: when a request is refused for the peer's
  own bucket, the shared bucket is untouched, and a request is admitted exactly when the
  peer's bucket and, where there is one, the shared bucket each had a token.\<close>

theorem ingress_peer_first:
  "(fst (limiter_admit l p now) = Err PerPeerExhausted \<longrightarrow> il_global (snd (limiter_admit l p now)) = il_global l)
   \<and> (is_ok (fst (limiter_admit l p now)) \<longleftrightarrow>
        fst (bucket_try_consume (peer_bucket (limiter_sweep l now) p now) now)
        \<and> (case il_global l of None \<Rightarrow> True | Some g \<Rightarrow> fst (bucket_try_consume g now)))"
  by (auto simp: limiter_admit_parts)

theorem ingress_peer_first_witness:
  "(let a = TransportIdentity [1]; l = snd (limiter_admit (limiter_new 120 1 1200 9 1000) a 1000)
    in fst (limiter_admit l a 1001) = Err PerPeerExhausted
       \<and> il_global (snd (limiter_admit l a 1001)) = il_global l)"
proof -
  have "fst (limiter_admit (snd (limiter_admit (limiter_new 120 1 1200 9 1000) (TransportIdentity [1]) 1000))
      (TransportIdentity [1]) 1001) = Err PerPeerExhausted" by code_simp
  then show ?thesis
    unfolding Let_def
    using ingress_peer_first [of "snd (limiter_admit (limiter_new 120 1 1200 9 1000) (TransportIdentity [1]) 1000)"
        "TransportIdentity [1]" 1001] by blast
qed

section \<open>The join registry\<close>

definition registry_ok :: "subscription_registry \<Rightarrow> bool" where
  "registry_ok r \<longleftrightarrow>
     bm_ok (sr_joins r) \<and> bs_ok (sr_desired r) \<and>
     (\<forall>c s. bm_get (sr_joins r) c = Some s \<longrightarrow> bs_ok s \<and> s \<noteq> [] \<and> length s \<le> MAX_SESSIONS_PER_CHANNEL) \<and>
     subscriptions r \<le> sr_ceiling r \<and> sr_ceiling r \<le> MAX_SUBSCRIPTIONS"

text \<open>The slots used are the channels joined or desired, counted once.\<close>

lemma subscriptions_card:
  assumes "bm_ok (sr_joins r)" "bs_ok (sr_desired r)"
  shows "subscriptions r = card (fst ` set (sr_joins r) \<union> set (sr_desired r))"
proof -
  let ?new = "filter (\<lambda>c. c \<notin> set (sr_desired r)) (map fst (sr_joins r))"
  have "distinct (?new @ sr_desired r)"
    using bm_ok_distinct [OF assms(1)] bs_ok_distinct [OF assms(2)] by auto
  then have "length (?new @ sr_desired r) = card (set (?new @ sr_desired r))"
    by (simp only: distinct_card)
  moreover have "set (?new @ sr_desired r) = fst ` set (sr_joins r) \<union> set (sr_desired r)" by auto
  ultimately show ?thesis by (simp add: subscriptions_def)
qed

lemma set_desired_count:
  "length (filter (\<lambda>c. c \<notin> set d) (map fst (sr_joins r))) + length d = subscriptions (r\<lparr>sr_desired := d\<rparr>)"
  by (simp add: subscriptions_def)

lemma set_desired_ok:
  assumes "registry_ok r" "bs_ok d"
  shows "registry_ok (snd (set_desired r d))"
proof -
  have "sat_add64 (length (filter (\<lambda>c. c \<notin> set d) (map fst (sr_joins r)))) (length d) \<le> sr_ceiling r
      \<Longrightarrow> subscriptions (r\<lparr>sr_desired := d\<rparr>) \<le> sr_ceiling r"
    using assms(1) unfolding set_desired_count [symmetric]
    by (auto simp: registry_ok_def sat_add64_def MAX_SUBSCRIPTIONS_def U64_MAX_def min_def split: if_splits)
  then show ?thesis
    using assms by (auto simp: set_desired_def Let_def registry_ok_def)
qed

lemma subscriptions_ceiling [simp]: "subscriptions (r\<lparr>sr_ceiling := k\<rparr>) = subscriptions r"
  by (simp add: subscriptions_def)

lemma configure_err: "\<not> is_ok (fst (configure r d k)) \<Longrightarrow> snd (configure r d k) = r"
  by (auto simp: configure_def set_desired_def Let_def split: if_splits)

lemma configure_ok:
  assumes "registry_ok r" "bs_ok d"
  shows "registry_ok (snd (configure r d k))"
proof (cases "is_ok (fst (configure r d k))")
  case False
  then show ?thesis using assms(1) by (simp add: configure_err)
next
  case True
  then have r': "snd (configure r d k) = r\<lparr>sr_desired := d, sr_ceiling := k\<rparr>"
    and k: "k \<le> MAX_SUBSCRIPTIONS"
    and count: "subscriptions (r\<lparr>sr_desired := d, sr_ceiling := k\<rparr>) \<le> k"
    by (auto simp: configure_def set_desired_def Let_def sat_add64_def subscriptions_def
        MAX_SUBSCRIPTIONS_def U64_MAX_def min_def split: if_splits)
  with assms show ?thesis by (simp add: registry_ok_def)
qed

lemma join_ok:
  assumes ok: "registry_ok r"
  shows "registry_ok (snd (join r c s))"
proof (cases "is_ok (fst (join r c s)) \<and> \<not> may_publish r c s")
  case False
  then have "snd (join r c s) = r"
    by (auto simp: join_def may_publish_def Let_def split: option.splits if_splits)
  with ok show ?thesis by simp
next
  case True
  define old where "old = (case bm_get (sr_joins r) c of Some x \<Rightarrow> x | None \<Rightarrow> [])"
  define r' where "r' = r\<lparr>sr_joins := bm_insert c (bs_insert s old) (sr_joins r)\<rparr>"
  have r': "snd (join r c s) = r'"
    using True by (auto simp: join_def may_publish_def Let_def r'_def old_def split: option.splits if_splits)
  have old: "bs_ok old" "length old < MAX_SESSIONS_PER_CHANNEL"
    using True ok
    by (auto simp: join_def may_publish_def Let_def old_def registry_ok_def MAX_SESSIONS_PER_CHANNEL_def
        split: option.splits if_splits)
  have fin: "finite (fst ` set (sr_joins r) \<union> set (sr_desired r))" by simp
  have "subscriptions r' = card (insert c (fst ` set (sr_joins r) \<union> set (sr_desired r)))"
    using ok by (subst subscriptions_card) (simp_all add: r'_def registry_ok_def set_bm_insert_keys)
  moreover have "subscriptions r = card (fst ` set (sr_joins r) \<union> set (sr_desired r))"
    using ok by (simp add: registry_ok_def subscriptions_card)
  moreover have "c \<in> fst ` set (sr_joins r) \<union> set (sr_desired r) \<or> subscriptions r < sr_ceiling r"
    using True
    by (auto simp: join_def may_publish_def Let_def split: option.splits if_splits dest: bm_get_key)
  ultimately have "subscriptions r' \<le> sr_ceiling r'"
    using fin ok by (auto simp: card_insert_if r'_def registry_ok_def)
  moreover have "length (bs_insert s old) \<le> MAX_SESSIONS_PER_CHANNEL" "bs_insert s old \<noteq> []"
    using old(2) by (auto simp: length_bs_insert simp flip: length_greater_0_conv)
  ultimately show ?thesis
    using ok old(1) unfolding r' by (auto simp: registry_ok_def r'_def split: if_splits)
qed

lemma leave_ok:
  assumes ok: "registry_ok r"
  shows "registry_ok (leave r c s)"
proof -
  have "subscriptions (leave r c s) \<le> subscriptions r" if "bm_ok (sr_joins (leave r c s))"
    using that ok
    by (auto simp: subscriptions_card registry_ok_def leave_def Let_def set_bm_insert_keys set_bm_remove
        split: option.splits intro!: card_mono)
      (auto simp: insert_absorb dest: bm_get_key intro!: card_mono)
  then show ?thesis
    using ok by (auto simp: registry_ok_def leave_def Let_def split: option.splits if_splits
        intro: order_trans [OF length_bs_remove_le] order_trans)
qed

text \<open>One call on the registry; a desired set arrives as a \<open>BTreeSet\<close>.\<close>

datatype registry_op =
    RConfigure "channel_id list" nat
  | RSetDesired "channel_id list"
  | RJoin channel_id session
  | RLeave channel_id session

fun registry_step :: "subscription_registry \<Rightarrow> registry_op \<Rightarrow> subscription_registry" where
  "registry_step r (RConfigure d k) = snd (configure r (bs_from_list d) k)"
| "registry_step r (RSetDesired d) = snd (set_desired r (bs_from_list d))"
| "registry_step r (RJoin c s) = snd (join r c s)"
| "registry_step r (RLeave c s) = leave r c s"

interpretation registry: stepwise registry_step registry_ok
proof
  show "registry_ok (registry_step r op)" if "registry_ok r" for r op
    using that by (cases op) (simp_all add: configure_ok set_desired_ok join_ok leave_ok)
qed

lemma registry_default_ok: "registry_ok registry_default"
  by (simp add: registry_ok_def registry_default_def subscriptions_def)

lemma may_publish_join:
  "may_publish (snd (join r c s)) c' s' \<longleftrightarrow>
     may_publish r c' s' \<or> (c' = c \<and> s' = s \<and> is_ok (fst (join r c s)))"
  by (auto simp: join_def may_publish_def Let_def split: option.splits if_splits)

lemma may_publish_leave:
  "may_publish (leave r c s) c' s' \<longleftrightarrow> may_publish r c' s' \<and> \<not> (c' = c \<and> s' = s)"
proof (cases "bm_get (sr_joins r) c")
  case (Some x)
  have "bs_remove s x = [] \<Longrightarrow> set x \<subseteq> {s}" using set_bs_remove [of s x] by auto
  with Some show ?thesis by (auto simp: leave_def may_publish_def Let_def split: option.splits)
qed (auto simp: leave_def may_publish_def split: option.splits)

lemma may_publish_desired:
  "may_publish (snd (set_desired r d)) = may_publish r" "may_publish (snd (configure r d k)) = may_publish r"
  by (auto simp: fun_eq_iff may_publish_def set_desired_def configure_def Let_def)

lemma set_subscribers: "set (subscribers r c) = {s. may_publish r c s}"
  by (cases "bm_get (sr_joins r) c") (simp_all add: subscribers_def may_publish_def)

section \<open>Properties of the registry\<close>

text \<open>Whatever clients and profiles do, the channels held (joined or merely desired, counted once)
  stay within the profile's ceiling, that ceiling stays within the architecture's, and no
  channel holds more local joins than its own ceiling or an empty set of joins.\<close>

theorem subscription_ceilings:
  assumes "r = foldl registry_step registry_default ops"
  shows "subscriptions r = card (fst ` set (sr_joins r) \<union> set (sr_desired r))
    \<and> subscriptions r \<le> sr_ceiling r \<and> sr_ceiling r \<le> MAX_SUBSCRIPTIONS
    \<and> (\<forall>c s. bm_get (sr_joins r) c = Some s \<longrightarrow>
          0 < length s \<and> length s \<le> MAX_SESSIONS_PER_CHANNEL \<and> distinct s)"
  using registry.inv_run [OF registry_default_ok, of ops] subscriptions_card [of r]
  by (auto simp: assms registry_ok_def bs_ok_distinct)

theorem subscription_ceilings_witness:
  "(let c = ChannelId [1]; d = ChannelId [2];
        r = foldl registry_step registry_default [RConfigure [d] 2, RJoin c [9], RJoin d [9], RJoin (ChannelId [3]) [9]]
    in subscriptions r = 2 \<and> sr_ceiling r = 2 \<and> bm_get (sr_joins r) c = Some [[9]]
       \<and> bm_get (sr_joins r) (ChannelId [3]) = None \<and> length [[9 :: byte]] \<le> MAX_SESSIONS_PER_CHANNEL)"
proof -
  let ?r = "foldl registry_step registry_default
    [RConfigure [ChannelId [2]] 2, RJoin (ChannelId [1]) [9], RJoin (ChannelId [2]) [9], RJoin (ChannelId [3]) [9]]"
  have r: "?r = \<lparr>sr_joins = [(ChannelId [1], [[9]]), (ChannelId [2], [[9]])], sr_desired = [ChannelId [2]],
      sr_ceiling = 2\<rparr>"
    by code_simp
  have "subscriptions ?r = 2" unfolding r by code_simp
  with subscription_ceilings [OF refl, of "[RConfigure [ChannelId [2]] 2, RJoin (ChannelId [1]) [9],
      RJoin (ChannelId [2]) [9], RJoin (ChannelId [3]) [9]]"]
  show ?thesis unfolding Let_def r by (auto simp: split: if_splits)
qed

text \<open>The registry implements a plain set of (channel, session) pairs: a successful join adds exactly
  its pair, a refused one nothing, a leave removes exactly its pair, reconfiguration touches no
  pair, and the sessions a broadcast reaches are exactly those whose own join allows them to
  publish.\<close>

theorem registry_refines_joins:
  "{(c, s). may_publish (snd (join r ch se)) c s} =
     {(c, s). may_publish r c s} \<union> (if is_ok (fst (join r ch se)) then {(ch, se)} else {})
   \<and> {(c, s). may_publish (leave r ch se) c s} = {(c, s). may_publish r c s} - {(ch, se)}
   \<and> may_publish (snd (set_desired r d)) = may_publish r
   \<and> may_publish (snd (configure r d k)) = may_publish r
   \<and> set (subscribers r ch) = {s. may_publish r ch s}"
  by (auto simp: may_publish_join may_publish_leave may_publish_desired set_subscribers)

lemma narrowing_accepted:
  assumes ok: "registry_ok r" and "bs_ok d" and "set d \<subseteq> set (sr_desired r)"
  shows "fst (set_desired r d) = Ok ()"
proof -
  have "subscriptions (r\<lparr>sr_desired := d\<rparr>) = card (fst ` set (sr_joins r) \<union> set d)"
    using ok assms(2) by (subst subscriptions_card) (simp_all add: registry_ok_def)
  also have "\<dots> \<le> card (fst ` set (sr_joins r) \<union> set (sr_desired r))"
    using assms(3) by (intro card_mono) auto
  also have "\<dots> \<le> sr_ceiling r"
    using ok subscriptions_card [of r] by (simp add: registry_ok_def)
  finally have "length (filter (\<lambda>c. c \<notin> set d) (map fst (sr_joins r))) + length d \<le> sr_ceiling r"
    by (simp only: set_desired_count)
  then show ?thesis
    using sat_add64_le(1) [of "length (filter (\<lambda>c. c \<notin> set d) (map fst (sr_joins r)))" "length d"]
    by (simp add: set_desired_def Let_def)
qed

text \<open>Narrowing the desired set of a running profile is never refused, so a reconfiguration can always
  back out of channels that failed to subscribe.\<close>

theorem narrowing_never_refused:
  assumes "r = foldl registry_step registry_default ops"
    and "set d \<subseteq> set (sr_desired r)"
  shows "fst (set_desired r (bs_from_list d)) = Ok ()"
  using assms by (intro narrowing_accepted) (simp_all add: registry.inv_run registry_default_ok)

theorem narrowing_never_refused_witness:
  "fst (set_desired (foldl registry_step registry_default
      [RConfigure [ChannelId [1], ChannelId [2]] 2, RJoin (ChannelId [1]) [9]]) (bs_from_list [ChannelId [2]])) = Ok ()"
proof (rule narrowing_never_refused [OF refl])
  have "list_all (\<lambda>c. c \<in> set (sr_desired (foldl registry_step registry_default
      [RConfigure [ChannelId [1], ChannelId [2]] 2, RJoin (ChannelId [1]) [9]]))) [ChannelId [2]]"
    by code_simp
  then show "set [ChannelId [2]] \<subseteq> set (sr_desired (foldl registry_step registry_default
      [RConfigure [ChannelId [1], ChannelId [2]] 2, RJoin (ChannelId [1]) [9]]))"
    by (simp only: list_all_iff subset_iff) blast
qed

end
