(* ===== verification/Queues.thy ===== *)
theory Queues
  imports Payload Status "HOL-Library.Sublist" "HOL-Library.Code_Target_Nat"
begin

text \<open>
  The bounded delivery queues: \<open>endpoint_queue.rs\<close> (one queue per leased endpoint, refusing
  when full) and \<open>session_queue.rs\<close> (one queue per joined session, dropping its oldest when
  full), both in \<open>crates/transport/runtime/src\<close>.  Both keep a map of bounded FIFOs and share
  opening, closing and draining; the locale \<open>delivery_queues\<close> states what a client of either
  relies on, and \<open>lossless_queues\<close> adds what only the endpoint queues promise.
\<close>

section \<open>Queues by key\<close>

record 'e queue =
  q_events :: "'e list"
  q_bound :: nat

type_synonym ('k, 'e) queues = "('k, 'e queue) bmap"

definition queues_open :: "('k :: linorder, 'e) queues \<Rightarrow> 'k \<Rightarrow> nat \<Rightarrow> ('k, 'e) queues" where
  "queues_open qs k bound = bm_insert k \<lparr>q_events = [], q_bound = max bound 1\<rparr> qs"

definition queues_len :: "('k, 'e) queues \<Rightarrow> 'k \<Rightarrow> nat" where
  "queues_len qs k = (case bm_get qs k of None \<Rightarrow> 0 | Some q \<Rightarrow> length (q_events q))"

definition queues_close :: "('k, 'e) queues \<Rightarrow> 'k \<Rightarrow> nat \<times> ('k, 'e) queues" where
  "queues_close qs k = (queues_len qs k, bm_remove k qs)"

definition queues_is_open :: "('k, 'e) queues \<Rightarrow> 'k \<Rightarrow> bool" where
  "queues_is_open qs k = bm_has qs k"

definition queues_drain_up_to ::
  "('k :: linorder, 'e) queues \<Rightarrow> 'k \<Rightarrow> nat \<Rightarrow> 'e list \<times> ('k, 'e) queues" where
  "queues_drain_up_to qs k mx =
    (case bm_get qs k of
       None \<Rightarrow> ([], qs)
     | Some q \<Rightarrow>
         let n = min (length (q_events q)) mx in
         (take n (q_events q), bm_insert k (q\<lparr>q_events := drop n (q_events q)\<rparr>) qs))"

definition waiting :: "('k, 'e) queues \<Rightarrow> 'k \<Rightarrow> 'e list" where
  "waiting qs k = (case bm_get qs k of None \<Rightarrow> [] | Some q \<Rightarrow> q_events q)"

section \<open>Endpoint queues\<close>

record direct_event =
  de_source_peer :: transport_identity
  de_source_endpoint :: endpoint_id
  de_destination_endpoint :: endpoint_id
  de_message_id :: message_id
  de_payload :: payload
  de_received_at :: nat

datatype queue_refusal = QFull nat | QNotOpen

fun queue_refusal_to_wire :: "queue_refusal \<Rightarrow> direct_reject_reason" where
  "queue_refusal_to_wire (QFull _) = RjOverloaded"
| "queue_refusal_to_wire QNotOpen = RjNoRoute"

type_synonym endpoint_queues = "(endpoint_id, direct_event) queues"

definition endpoint_push :: "endpoint_queues \<Rightarrow> direct_event \<Rightarrow> (queue_refusal + unit) \<times> endpoint_queues" where
  "endpoint_push qs event =
    (case bm_get qs (de_destination_endpoint event) of
       None \<Rightarrow> (Err QNotOpen, qs)
     | Some q \<Rightarrow>
         if length (q_events q) \<ge> q_bound q then (Err (QFull (q_bound q)), qs)
         else (Ok (), bm_insert (de_destination_endpoint event)
                 (q\<lparr>q_events := q_events q @ [event]\<rparr>) qs))"

definition endpoint_drain :: "endpoint_queues \<Rightarrow> endpoint_id \<Rightarrow> direct_event list \<times> endpoint_queues" where
  "endpoint_drain qs k = queues_drain_up_to qs k U64_MAX"

section \<open>Session queues\<close>

record broadcast_event =
  bev_source_peer :: transport_identity
  bev_channel :: channel_id
  bev_message_id :: message_id
  bev_payload :: payload
  bev_received_at :: nat

datatype session_drop = SdFull nat | SdNotOpen

datatype pushed = Queued | DroppedOldest nat

type_synonym session_queues = "(bytes, broadcast_event) queues"

definition session_set_bound :: "session_queues \<Rightarrow> nat \<Rightarrow> session_queues" where
  "session_set_bound qs bound = bm_map_values (\<lambda>q. q\<lparr>q_bound := bound\<rparr>) qs"

definition session_push ::
  "session_queues \<Rightarrow> bytes \<Rightarrow> broadcast_event \<Rightarrow> (session_drop + pushed) \<times> session_queues" where
  "session_push qs session event =
    (case bm_get qs session of
       None \<Rightarrow> (Err SdNotOpen, qs)
     | Some q \<Rightarrow>
         let full = length (q_events q) \<ge> q_bound q;
             kept = (if full then tl (q_events q) else q_events q)
         in (Ok (if full then DroppedOldest (q_bound q) else Queued),
             bm_insert session (q\<lparr>q_events := kept @ [event]\<rparr>) qs))"

section \<open>What a client relies on\<close>

text \<open>
  A trace of pushes and takes as one client sees it: what was accepted for a key, what was
  taken from it, and the state left behind.
\<close>

datatype ('k, 'm) queue_op = QPush 'm | QTake 'k nat

fun queue_trace ::
  "('s \<Rightarrow> 'm \<Rightarrow> bool \<times> 's) \<Rightarrow> ('s \<Rightarrow> 'k \<Rightarrow> nat \<Rightarrow> 'e list \<times> 's) \<Rightarrow> ('m \<Rightarrow> 'k) \<Rightarrow> ('m \<Rightarrow> 'e) \<Rightarrow>
     'k \<Rightarrow> 's \<Rightarrow> ('k, 'm) queue_op list \<Rightarrow> 'e list \<times> 'e list \<times> 's" where
  "queue_trace push take_to key body k s [] = ([], [], s)"
| "queue_trace push take_to key body k s (QPush m # ops) =
    (let (ok, s') = push s m; (acc, out, s'') = queue_trace push take_to key body k s' ops
     in ((if ok \<and> key m = k then [body m] else []) @ acc, out, s''))"
| "queue_trace push take_to key body k s (QTake j n # ops) =
    (let (got, s') = take_to s j n; (acc, out, s'') = queue_trace push take_to key body k s' ops
     in (acc, (if j = k then got else []) @ out, s''))"

locale delivery_queues =
  fixes items :: "'s \<Rightarrow> 'k \<Rightarrow> 'e list"
    and push :: "'s \<Rightarrow> 'm \<Rightarrow> bool \<times> 's"
    and take_to :: "'s \<Rightarrow> 'k \<Rightarrow> nat \<Rightarrow> 'e list \<times> 's"
    and key :: "'m \<Rightarrow> 'k"
    and body :: "'m \<Rightarrow> 'e"
    and lost :: "'s \<Rightarrow> 'm \<Rightarrow> nat"
  assumes push_items: "items (snd (push s m)) k =
      (if fst (push s m) \<and> key m = k then drop (lost s m) (items s k) @ [body m] else items s k)"
    and taken: "fst (take_to s k n) = take n (items s k)"
    and left: "items (snd (take_to s k n)) j = (if j = k then drop n (items s k) else items s j)"
begin

lemma subseq_drop_append: "subseq (drop n xs @ ys) (xs @ ys)"
  by (metis append_take_drop_id list_emb_append2 subseq_order.order_refl append.assoc)

text \<open>Order is kept and nothing is delivered twice or made up: what was taken and what waits is a
  subsequence of what was there and what was accepted.\<close>

lemma trace_in_order:
  "queue_trace push take_to key body k s ops = (acc, out, s') \<Longrightarrow>
     subseq (out @ items s' k) (items s k @ acc)"
proof (induction ops arbitrary: s acc out)
  case Nil
  then show ?case by simp
next
  case (Cons op ops)
  show ?case
  proof (cases op)
    case (QPush m)
    obtain ok s1 where p: "push s m = (ok, s1)" by (cases "push s m")
    obtain acc' where t: "queue_trace push take_to key body k s1 ops = (acc', out, s')"
      and acc: "acc = (if ok \<and> key m = k then [body m] else []) @ acc'"
      using Cons.prems by (auto simp: QPush p split: prod.splits)
    have "subseq (items s1 k @ acc') (items s k @ acc)"
      using push_items [of s m k] subseq_drop_append [of "lost s m" "items s k" "[body m] @ acc'"]
      by (simp add: p acc)
    with Cons.IH [OF t] show ?thesis by (rule subseq_order.order_trans)
  next
    case (QTake j n)
    obtain got s1 where p: "take_to s j n = (got, s1)" by (cases "take_to s j n")
    obtain out' where t: "queue_trace push take_to key body k s1 ops = (acc, out', s')"
      and out: "out = (if j = k then got else []) @ out'"
      using Cons.prems by (auto simp: QTake p split: prod.splits)
    have "items s k @ acc = (if j = k then got else []) @ items s1 k @ acc"
      using taken [of s j n] left [of s j n k] by (auto simp: p)
    with Cons.IH [OF t] show ?thesis by (auto simp: out intro: list_emb_append_mono)
  qed
qed

end

locale lossless_queues = delivery_queues +
  assumes no_loss: "lost s m = 0"
begin

text \<open>With no loss the client gets exactly what was accepted, in order, once.\<close>

lemma trace_exact:
  "queue_trace push take_to key body k s ops = (acc, out, s') \<Longrightarrow> out @ items s' k = items s k @ acc"
proof (induction ops arbitrary: s acc out)
  case Nil
  then show ?case by simp
next
  case (Cons op ops)
  show ?case
  proof (cases op)
    case (QPush m)
    obtain ok s1 where p: "push s m = (ok, s1)" by (cases "push s m")
    obtain acc' where t: "queue_trace push take_to key body k s1 ops = (acc', out, s')"
      and acc: "acc = (if ok \<and> key m = k then [body m] else []) @ acc'"
      using Cons.prems by (auto simp: QPush p split: prod.splits)
    with Cons.IH [OF t] push_items [of s m k] show ?thesis by (simp add: p no_loss)
  next
    case (QTake j n)
    obtain got s1 where p: "take_to s j n = (got, s1)" by (cases "take_to s j n")
    obtain out' where t: "queue_trace push take_to key body k s1 ops = (acc, out', s')"
      and out: "out = (if j = k then got else []) @ out'"
      using Cons.prems by (auto simp: QTake p split: prod.splits)
    have "items s k = (if j = k then got else []) @ items s1 k"
      using taken [of s j n] left [of s j n k] by (auto simp: p)
    with Cons.IH [OF t] show ?thesis by (simp add: out)
  qed
qed

end

section \<open>The two implementations\<close>

text \<open>The endpoint queues refuse rather than lose; a push is accepted when the queue took it.\<close>

definition endpoint_accepts :: "endpoint_queues \<Rightarrow> direct_event \<Rightarrow> bool \<times> endpoint_queues" where
  "endpoint_accepts qs event = (let (r, qs) = endpoint_push qs event in (is_ok r, qs))"

lemma endpoint_accepts_parts:
  "fst (endpoint_accepts qs e) = is_ok (fst (endpoint_push qs e))"
  "snd (endpoint_accepts qs e) = snd (endpoint_push qs e)"
  by (simp_all add: endpoint_accepts_def split: prod.splits)

lemma take_min_length: "take (min (length xs) n) xs = take n xs" "drop (min (length xs) n) xs = drop n xs"
  by (simp_all add: min_def)

lemma queues_drain_fst: "fst (queues_drain_up_to qs k n) = take n (waiting qs k)"
  by (simp add: queues_drain_up_to_def waiting_def Let_def take_min_length split: option.splits)

lemma queues_drain_waiting:
  "waiting (snd (queues_drain_up_to qs k n)) j = (if j = k then drop n (waiting qs k) else waiting qs j)"
  by (auto simp: queues_drain_up_to_def waiting_def Let_def take_min_length split: option.splits)

lemma endpoint_push_waiting:
  "waiting (snd (endpoint_push qs e)) k =
     (if is_ok (fst (endpoint_push qs e)) \<and> de_destination_endpoint e = k
      then waiting qs k @ [e] else waiting qs k)"
  by (auto simp: endpoint_push_def waiting_def split: option.splits)

interpretation endpoint_queue: lossless_queues waiting endpoint_accepts queues_drain_up_to
  de_destination_endpoint id "\<lambda>_ _. 0"
  by unfold_locales
    (simp_all add: endpoint_accepts_parts endpoint_push_waiting queues_drain_fst queues_drain_waiting)

text \<open>A session queue takes every event while it is open, at the cost of its oldest when full.\<close>

definition session_accepts :: "session_queues \<Rightarrow> bytes \<times> broadcast_event \<Rightarrow> bool \<times> session_queues" where
  "session_accepts qs m = (let (r, qs) = session_push qs (fst m) (snd m) in (is_ok r, qs))"

lemma session_accepts_parts:
  "fst (session_accepts qs m) = is_ok (fst (session_push qs (fst m) (snd m)))"
  "snd (session_accepts qs m) = snd (session_push qs (fst m) (snd m))"
  by (simp_all add: session_accepts_def split: prod.splits)

definition session_lost :: "session_queues \<Rightarrow> bytes \<times> broadcast_event \<Rightarrow> nat" where
  "session_lost qs m =
    (case bm_get qs (fst m) of None \<Rightarrow> 0 | Some q \<Rightarrow> if length (q_events q) \<ge> q_bound q then 1 else 0)"

lemma session_push_waiting:
  "waiting (snd (session_push qs s e)) k =
     (if is_ok (fst (session_push qs s e)) \<and> s = k
      then drop (session_lost qs (s, e)) (waiting qs k) @ [e] else waiting qs k)"
  by (auto simp: session_push_def waiting_def session_lost_def Let_def drop_Suc split: option.splits)

lemma session_accepts_waiting:
  "waiting (snd (session_accepts qs m)) k =
     (if fst (session_accepts qs m) \<and> fst m = k
      then drop (session_lost qs m) (waiting qs k) @ [snd m] else waiting qs k)"
  by (cases m) (auto simp: session_accepts_parts session_push_waiting)

interpretation session_queue: delivery_queues waiting session_accepts queues_drain_up_to fst snd session_lost
  by unfold_locales
    (simp_all add: session_accepts_waiting queues_drain_fst queues_drain_waiting)

section \<open>Bounds\<close>

definition queues_ok :: "('k :: linorder, 'e) queues \<Rightarrow> bool" where
  "queues_ok qs \<longleftrightarrow>
     bm_ok qs \<and> (\<forall>k q. bm_get qs k = Some q \<longrightarrow> 0 < q_bound q \<and> length (q_events q) \<le> q_bound q)"

lemma queues_open_ok: "queues_ok qs \<Longrightarrow> queues_ok (queues_open qs k b)"
  by (auto simp: queues_ok_def queues_open_def)

lemma queues_close_ok: "queues_ok qs \<Longrightarrow> queues_ok (snd (queues_close qs k))"
  by (auto simp: queues_ok_def queues_close_def split: if_splits)

lemma queues_drain_ok: "queues_ok qs \<Longrightarrow> queues_ok (snd (queues_drain_up_to qs k n))"
  by (auto simp: queues_ok_def queues_drain_up_to_def Let_def split: option.splits if_splits
      intro: order_trans [OF diff_le_self])

lemma endpoint_push_ok: "queues_ok qs \<Longrightarrow> queues_ok (snd (endpoint_push qs e))"
  by (auto simp: queues_ok_def endpoint_push_def split: option.splits if_splits)

lemma session_push_ok: "queues_ok qs \<Longrightarrow> queues_ok (snd (session_push qs s e))"
  by (fastforce simp: queues_ok_def session_push_def Let_def Suc_diff_Suc split: option.splits if_splits)

text \<open>One call on the endpoint queues.\<close>

datatype endpoint_queue_op =
    EqOpen endpoint_id nat
  | EqClose endpoint_id
  | EqPush direct_event
  | EqDrain endpoint_id nat

fun endpoint_queue_step :: "endpoint_queues \<Rightarrow> endpoint_queue_op \<Rightarrow> endpoint_queues" where
  "endpoint_queue_step qs (EqOpen k b) = queues_open qs k b"
| "endpoint_queue_step qs (EqClose k) = snd (queues_close qs k)"
| "endpoint_queue_step qs (EqPush e) = snd (endpoint_push qs e)"
| "endpoint_queue_step qs (EqDrain k n) = snd (queues_drain_up_to qs k n)"

interpretation endpoint_calls: stepwise endpoint_queue_step queues_ok
proof
  show "queues_ok (endpoint_queue_step qs op)" if "queues_ok qs" for qs op
    using that
    by (cases op) (simp_all add: queues_open_ok queues_close_ok queues_drain_ok endpoint_push_ok)
qed

lemma endpoint_push_keys: "fst ` set (snd (endpoint_push qs e)) = fst ` set qs"
  by (auto simp: endpoint_push_def set_bm_insert_keys insert_absorb dest: bm_get_key split: option.splits)

section \<open>Properties\<close>

text \<open>An endpoint queue is an exact FIFO: over any interleaving of pushes and partial drains, by
  anyone and for any endpoint, what was drained for an endpoint followed by what still waits is
  what waited before followed by exactly the events accepted for it, in order and once each.\<close>

theorem endpoint_queue_fifo:
  assumes "queue_trace endpoint_accepts queues_drain_up_to de_destination_endpoint id k qs ops
    = (accepted, drained, qs')"
  shows "drained @ waiting qs' k = waiting qs k @ accepted"
  using endpoint_queue.trace_exact [OF assms] .

text \<open>A session queue never reorders, duplicates or invents: what a session drained followed by what
  still waits is a subsequence of what waited before followed by what was accepted for it.\<close>

theorem session_queue_in_order:
  assumes "queue_trace session_accepts queues_drain_up_to fst snd k qs ops = (accepted, drained, qs')"
  shows "subseq (drained @ waiting qs' k) (waiting qs k @ accepted)"
  using session_queue.trace_in_order [OF assms] .

text \<open>However the endpoint queues are driven, no queue holds more events than its bound; and a push,
  whose destination a remote peer chose, never creates a queue: it is refused as not open
  exactly when none is open, as full exactly when the queue is at its bound, and accepted
  otherwise.\<close>

theorem endpoint_queue_bounded:
  assumes "qs = foldl endpoint_queue_step [] ops"
  shows "(\<forall>k q. bm_get qs k = Some q \<longrightarrow> 0 < q_bound q \<and> length (q_events q) \<le> q_bound q)
    \<and> fst ` set (snd (endpoint_push qs e)) = fst ` set qs
    \<and> fst (endpoint_push qs e) =
        (case bm_get qs (de_destination_endpoint e) of
           None \<Rightarrow> Err QNotOpen
         | Some q \<Rightarrow> if length (q_events q) = q_bound q then Err (QFull (q_bound q)) else Ok ())"
proof -
  have "queues_ok qs"
    unfolding assms by (rule endpoint_calls.inv_run) (simp add: queues_ok_def)
  then have bounds: "\<forall>k q. bm_get qs k = Some q \<longrightarrow> 0 < q_bound q \<and> length (q_events q) \<le> q_bound q"
    by (simp add: queues_ok_def)
  then have "fst (endpoint_push qs e) =
        (case bm_get qs (de_destination_endpoint e) of
           None \<Rightarrow> Err QNotOpen
         | Some q \<Rightarrow> if length (q_events q) = q_bound q then Err (QFull (q_bound q)) else Ok ())"
    by (auto simp: endpoint_push_def split: option.splits intro: order.antisym)
  with bounds show ?thesis by (simp add: endpoint_push_keys)
qed

text \<open>Concrete runs.\<close>

definition sample_event :: "endpoint_id \<Rightarrow> byte \<Rightarrow> direct_event" where
  "sample_event e n =
    \<lparr>de_source_peer = TransportIdentity [1], de_source_endpoint = EndpointId [2],
     de_destination_endpoint = e, de_message_id = MessageId [n],
     de_payload = \<lparr>payload_media = None, payload_bytes = [n]\<rparr>, de_received_at = 0\<rparr>"

definition sample_broadcast :: "byte \<Rightarrow> broadcast_event" where
  "sample_broadcast n =
    \<lparr>bev_source_peer = TransportIdentity [1], bev_channel = ChannelId [2], bev_message_id = MessageId [n],
     bev_payload = \<lparr>payload_media = None, payload_bytes = [n]\<rparr>, bev_received_at = 0\<rparr>"

theorem endpoint_queue_fifo_witness:
  "(let a = EndpointId [7]; qs = queues_open [] a 2;
        ops = [QPush (sample_event a 1), QPush (sample_event a 2), QPush (sample_event a 3), QTake a 1,
               QPush (sample_event a 4)];
        (accepted, drained, qs') =
          queue_trace endpoint_accepts queues_drain_up_to de_destination_endpoint id a qs ops
    in accepted = [sample_event a 1, sample_event a 2, sample_event a 4]
       \<and> drained = [sample_event a 1] \<and> drained @ waiting qs' a = waiting qs a @ accepted)"
proof -
  let ?a = "EndpointId [7]"
  let ?qs = "queues_open [] ?a 2"
  let ?ops = "[QPush (sample_event ?a 1), QPush (sample_event ?a 2), QPush (sample_event ?a 3), QTake ?a 1,
               QPush (sample_event ?a 4)]"
  let ?t = "queue_trace endpoint_accepts queues_drain_up_to de_destination_endpoint id ?a ?qs ?ops"
  have "fst ?t = [sample_event ?a 1, sample_event ?a 2, sample_event ?a 4]" by code_simp
  moreover have "fst (snd ?t) = [sample_event ?a 1]" by code_simp
  moreover obtain acc out qs' where t: "?t = (acc, out, qs')" by (cases ?t)
  ultimately show ?thesis
    using endpoint_queue_fifo [OF t] by (simp only: Let_def t fst_conv snd_conv case_prod_conv simp_thms)
qed

theorem session_queue_in_order_witness:
  "(let s = [7]; qs = queues_open [] s 2;
        ops = [QPush (s, sample_broadcast 1), QPush (s, sample_broadcast 2), QPush (s, sample_broadcast 3),
               QTake s 1];
        (accepted, drained, qs') = queue_trace session_accepts queues_drain_up_to fst snd s qs ops
    in accepted = [sample_broadcast 1, sample_broadcast 2, sample_broadcast 3]
       \<and> drained = [sample_broadcast 2] \<and> subseq (drained @ waiting qs' s) (waiting qs s @ accepted))"
proof -
  let ?s = "[7 :: byte]"
  let ?qs = "queues_open [] ?s 2"
  let ?ops = "[QPush (?s, sample_broadcast 1), QPush (?s, sample_broadcast 2), QPush (?s, sample_broadcast 3),
               QTake ?s 1]"
  let ?t = "queue_trace session_accepts queues_drain_up_to fst snd ?s ?qs ?ops"
  have "fst ?t = [sample_broadcast 1, sample_broadcast 2, sample_broadcast 3]" by code_simp
  moreover have "fst (snd ?t) = [sample_broadcast 2]" by code_simp
  moreover obtain acc out qs' where t: "?t = (acc, out, qs')" by (cases ?t)
  ultimately show ?thesis
    using session_queue_in_order [OF t] by (simp only: Let_def t fst_conv snd_conv case_prod_conv simp_thms)
qed

theorem endpoint_queue_bounded_witness:
  "(let a = EndpointId [7]; qs = foldl endpoint_queue_step [] [EqOpen a 1, EqPush (sample_event a 1)]
    in fst (endpoint_push qs (sample_event a 2)) = Err (QFull 1)
       \<and> fst (endpoint_push qs (sample_event (EndpointId [8]) 2)) = Err QNotOpen
       \<and> fst ` set (snd (endpoint_push qs (sample_event (EndpointId [8]) 2))) = fst ` set qs)"
proof -
  let ?a = "EndpointId [7]"
  let ?qs = "foldl endpoint_queue_step [] [EqOpen ?a 1, EqPush (sample_event ?a 1)]"
  have "fst (endpoint_push ?qs (sample_event ?a 2)) = Err (QFull 1)" by code_simp
  moreover have "fst (endpoint_push ?qs (sample_event (EndpointId [8]) 2)) = Err QNotOpen" by code_simp
  ultimately show ?thesis
    using endpoint_queue_bounded [OF refl, of "[EqOpen ?a 1, EqPush (sample_event ?a 1)]"
        "sample_event (EndpointId [8]) 2"]
    unfolding Let_def by blast
qed

end
