(* ===== verification/Trust.thy ===== *)
theory Trust
  imports Ids "HOL-Library.Code_Target_Nat"
begin

text \<open>
  Peer trust, \<open>crates/api/trust-api/src/lib.rs\<close>: the profile allowlist with its
  administrative mutations, the narrowing filter of an endpoint, the separate set of
  infrastructure peers, and the bounded reading of their wire forms.  The policy admits
  nobody by default, an endpoint can only subtract from it, and neither the ceiling nor the
  exclusion of the local peer is ever broken.
\<close>

section \<open>Decisions\<close>

datatype deny_reason = NotAllowlisted | NarrowedByEndpoint | SelfIdentity

datatype trust_decision = Allowed | Denied deny_reason

definition is_allowed :: "trust_decision \<Rightarrow> bool" where
  "is_allowed d = (case d of Allowed \<Rightarrow> True | Denied _ \<Rightarrow> False)"

datatype trust_policy_error = AllowlistTooLarge nat nat | LocalPeer

section \<open>The profile policy\<close>

record peer_trust_policy =
  tp_allowed_peers :: "transport_identity bset"
  tp_local_peer :: "transport_identity option"

definition MAX_ALLOWED_PEERS :: nat where
  "MAX_ALLOWED_PEERS = 4096"

definition trust_default :: peer_trust_policy where
  "trust_default = \<lparr>tp_allowed_peers = [], tp_local_peer = None\<rparr>"

definition trust_new :: "transport_identity list \<Rightarrow> trust_policy_error + peer_trust_policy" where
  "trust_new xs =
    (let allowed = bs_from_list xs in
     if length allowed > MAX_ALLOWED_PEERS
     then Err (AllowlistTooLarge (length allowed) MAX_ALLOWED_PEERS)
     else Ok \<lparr>tp_allowed_peers = allowed, tp_local_peer = None\<rparr>)"

definition with_local_peer :: "peer_trust_policy \<Rightarrow> transport_identity \<Rightarrow> peer_trust_policy" where
  "with_local_peer p local =
    p\<lparr>tp_allowed_peers := bs_remove local (tp_allowed_peers p), tp_local_peer := Some local\<rparr>"

text \<open>A mutation returns its answer with the policy it leaves behind.\<close>

definition trust_allow ::
  "peer_trust_policy \<Rightarrow> transport_identity \<Rightarrow> (trust_policy_error + bool) \<times> peer_trust_policy" where
  "trust_allow p peer =
    (if tp_local_peer p = Some peer then (Err LocalPeer, p)
     else if peer \<in> set (tp_allowed_peers p) then (Ok False, p)
     else if length (tp_allowed_peers p) \<ge> MAX_ALLOWED_PEERS
     then (Err (AllowlistTooLarge (length (tp_allowed_peers p) + 1) MAX_ALLOWED_PEERS), p)
     else (Ok True, p\<lparr>tp_allowed_peers := bs_insert peer (tp_allowed_peers p)\<rparr>))"

definition trust_revoke :: "peer_trust_policy \<Rightarrow> transport_identity \<Rightarrow> bool \<times> peer_trust_policy" where
  "trust_revoke p peer =
    (peer \<in> set (tp_allowed_peers p),
     p\<lparr>tp_allowed_peers := bs_remove peer (tp_allowed_peers p)\<rparr>)"

definition decide :: "peer_trust_policy \<Rightarrow> transport_identity \<Rightarrow> trust_decision" where
  "decide p peer =
    (if tp_local_peer p = Some peer then Denied SelfIdentity
     else if peer \<in> set (tp_allowed_peers p) then Allowed
     else Denied NotAllowlisted)"

section \<open>Endpoint narrowing\<close>

datatype endpoint_trust_policy = InheritProfileTrust | StaticSubset "transport_identity bset"

definition MAX_STATIC_SUBSET :: nat where
  "MAX_STATIC_SUBSET = MAX_ALLOWED_PEERS"

fun admits :: "endpoint_trust_policy \<Rightarrow> transport_identity \<Rightarrow> bool" where
  "admits InheritProfileTrust peer = True"
| "admits (StaticSubset allowed) peer = (peer \<in> set allowed)"

fun is_subset_of :: "endpoint_trust_policy \<Rightarrow> peer_trust_policy \<Rightarrow> bool" where
  "is_subset_of InheritProfileTrust profile = True"
| "is_subset_of (StaticSubset allowed) profile =
     list_all (\<lambda>p. p \<in> set (tp_allowed_peers profile)) allowed"

definition decide_for_endpoint ::
  "peer_trust_policy \<Rightarrow> transport_identity \<Rightarrow> endpoint_trust_policy \<Rightarrow> trust_decision" where
  "decide_for_endpoint p peer endpoint =
    (case decide p peer of
       Denied reason \<Rightarrow> Denied reason
     | Allowed \<Rightarrow> if admits endpoint peer then Allowed else Denied NarrowedByEndpoint)"

section \<open>Infrastructure peers\<close>

record infrastructure_set =
  is_allowed_peers :: "transport_identity bset"

definition MAX_INFRASTRUCTURE_PEERS :: nat where
  "MAX_INFRASTRUCTURE_PEERS = 256"

definition infrastructure_new :: "transport_identity list \<Rightarrow> trust_policy_error + infrastructure_set" where
  "infrastructure_new xs =
    (let allowed = bs_from_list xs in
     if length allowed > MAX_INFRASTRUCTURE_PEERS
     then Err (AllowlistTooLarge (length allowed) MAX_INFRASTRUCTURE_PEERS)
     else Ok \<lparr>is_allowed_peers = allowed\<rparr>)"

definition permits_control_connection :: "infrastructure_set \<Rightarrow> transport_identity \<Rightarrow> bool" where
  "permits_control_connection s peer \<longleftrightarrow> peer \<in> set (is_allowed_peers s)"

section \<open>Wire forms\<close>

text \<open>
  The readers see the array element by element, as the JSON parser yields it, and count what
  arrives rather than what the set keeps.
\<close>

datatype wire_error =
    WireTooMany nat
  | WireRepeated
  | WireInvalidString bytes
  | WireUnknownField bytes
  | WireDuplicateField
  | WireMissingField
  | WirePolicy trust_policy_error

fun bounded_peer_loop ::
  "nat \<Rightarrow> nat \<Rightarrow> transport_identity bset \<Rightarrow> transport_identity list \<Rightarrow>
     wire_error + transport_identity bset" where
  "bounded_peer_loop mx count out [] = Ok out"
| "bounded_peer_loop mx count out (peer # seq) =
     (let count = sat_add64 count 1 in
      if count > mx then Err (WireTooMany mx)
      else bounded_peer_loop mx count (bs_insert peer out) seq)"

definition bounded_peer_seq :: "nat \<Rightarrow> transport_identity list \<Rightarrow> wire_error + transport_identity bset" where
  "bounded_peer_seq mx seq = bounded_peer_loop mx 0 [] seq"

definition trust_deserialize ::
  "transport_identity list \<Rightarrow> transport_identity option \<Rightarrow> wire_error + peer_trust_policy" where
  "trust_deserialize allowed local =
    and_then (bounded_peer_seq MAX_ALLOWED_PEERS allowed) (\<lambda>peers.
    and_then (map_err WirePolicy (trust_new peers)) (\<lambda>policy.
      Ok (case local of Some l \<Rightarrow> with_local_peer policy l | None \<Rightarrow> policy)))"

definition infrastructure_deserialize :: "transport_identity list \<Rightarrow> wire_error + infrastructure_set" where
  "infrastructure_deserialize allowed =
    and_then (bounded_peer_seq MAX_INFRASTRUCTURE_PEERS allowed) (\<lambda>peers.
      map_err WirePolicy (infrastructure_new peers))"

fun bounded_subset_loop ::
  "nat \<Rightarrow> transport_identity bset \<Rightarrow> transport_identity list \<Rightarrow> wire_error + transport_identity bset" where
  "bounded_subset_loop count out [] = Ok out"
| "bounded_subset_loop count out (peer # seq) =
     (let count = sat_add64 count 1 in
      if count > MAX_STATIC_SUBSET then Err (WireTooMany MAX_STATIC_SUBSET)
      else if peer \<in> set out then Err WireRepeated
      else bounded_subset_loop count (bs_insert peer out) seq)"

text \<open>The endpoint policy document: a bare string or an object, keys in the order they arrive.\<close>

datatype policy_doc = PolicyStr bytes | PolicyMap "(bytes \<times> transport_identity list) list"

fun policy_map_loop ::
  "transport_identity bset option \<Rightarrow> (bytes \<times> transport_identity list) list \<Rightarrow>
     wire_error + transport_identity bset option" where
  "policy_map_loop allowed [] = Ok allowed"
| "policy_map_loop allowed ((key, v) # rest) =
     (if key = ascii ''static_subset'' then
        if allowed \<noteq> None then Err WireDuplicateField
        else and_then (bounded_subset_loop 0 [] v) (\<lambda>s. policy_map_loop (Some s) rest)
      else Err (WireUnknownField key))"

fun endpoint_policy_deserialize :: "policy_doc \<Rightarrow> wire_error + endpoint_trust_policy" where
  "endpoint_policy_deserialize (PolicyStr v) =
     (if v = ascii ''inherit_profile_trust'' then Ok InheritProfileTrust else Err (WireInvalidString v))"
| "endpoint_policy_deserialize (PolicyMap entries) =
     and_then (policy_map_loop None entries) (\<lambda>allowed.
       case allowed of None \<Rightarrow> Err WireMissingField | Some s \<Rightarrow> Ok (StaticSubset s))"

fun endpoint_policy_serialize :: "endpoint_trust_policy \<Rightarrow> policy_doc" where
  "endpoint_policy_serialize InheritProfileTrust = PolicyStr (ascii ''inherit_profile_trust'')"
| "endpoint_policy_serialize (StaticSubset allowed) = PolicyMap [(ascii ''static_subset'', allowed)]"

section \<open>The policy under administration\<close>

definition trust_ok :: "peer_trust_policy \<Rightarrow> bool" where
  "trust_ok p \<longleftrightarrow>
     bs_ok (tp_allowed_peers p) \<and> length (tp_allowed_peers p) \<le> MAX_ALLOWED_PEERS \<and>
     (case tp_local_peer p of None \<Rightarrow> True | Some l \<Rightarrow> l \<notin> set (tp_allowed_peers p))"

datatype admin_op = Allow transport_identity | Revoke transport_identity

fun admin_step :: "peer_trust_policy \<Rightarrow> admin_op \<Rightarrow> peer_trust_policy" where
  "admin_step p (Allow peer) = snd (trust_allow p peer)"
| "admin_step p (Revoke peer) = snd (trust_revoke p peer)"

lemma trust_new_ok: "trust_new xs = Ok p \<Longrightarrow> trust_ok p \<and> set (tp_allowed_peers p) = set xs"
  by (auto simp: trust_new_def trust_ok_def Let_def split: if_splits)

lemma with_local_peer_ok: "trust_ok p \<Longrightarrow> trust_ok (with_local_peer p l)"
  by (auto simp: trust_ok_def with_local_peer_def intro: order_trans [OF length_bs_remove_le])

interpretation admin: stepwise admin_step trust_ok
proof
  fix p op assume "trust_ok p"
  then show "trust_ok (admin_step p op)"
    by (cases op)
      (auto simp: trust_ok_def trust_allow_def trust_revoke_def length_bs_insert
        intro: order_trans [OF length_bs_remove_le] split: option.splits)
qed

lemma admin_local [simp]: "tp_local_peer (admin_step p op) = tp_local_peer p"
  by (cases op) (simp_all add: trust_allow_def trust_revoke_def)

lemma admin_run_local [simp]: "tp_local_peer (foldl admin_step p ops) = tp_local_peer p"
  by (induction ops arbitrary: p) simp_all

lemma admin_allowed:
  "x \<in> set (tp_allowed_peers (admin_step p op)) \<Longrightarrow>
     op = Allow x \<or> (x \<in> set (tp_allowed_peers p) \<and> op \<noteq> Revoke x)"
  by (cases op) (auto simp: trust_allow_def trust_revoke_def split: if_splits)

fun about :: "transport_identity \<Rightarrow> admin_op \<Rightarrow> bool" where
  "about x (Allow y) = (x = y)"
| "about x (Revoke y) = (x = y)"

lemma about_iff: "about x op \<longleftrightarrow> op = Allow x \<or> op = Revoke x"
  by (cases op) auto

lemma admin_run_allowed:
  assumes "x \<in> set (tp_allowed_peers (foldl admin_step p ops))"
  shows "if \<exists>op \<in> set ops. about x op then last (filter (about x) ops) = Allow x
         else x \<in> set (tp_allowed_peers p)"
  using assms
proof (induction ops rule: rev_induct)
  case Nil
  then show ?case by simp
next
  case (snoc op ops)
  then have now: "op = Allow x \<or> (x \<in> set (tp_allowed_peers (foldl admin_step p ops)) \<and> op \<noteq> Revoke x)"
    using admin_allowed [of x "foldl admin_step p ops" op] by simp
  show ?case
  proof (cases "about x op")
    case True
    with now show ?thesis by (auto simp: about_iff [of x op])
  next
    case False
    with now snoc.IH show ?thesis by (auto simp: about_iff [of x op])
  qed
qed

lemma decide_allowed: "trust_ok p \<Longrightarrow> decide p x = Allowed \<longleftrightarrow> x \<in> set (tp_allowed_peers p)"
  by (auto simp: decide_def trust_ok_def split: option.splits)

lemma decide_for_endpoint_allowed:
  "decide_for_endpoint p x e = Allowed \<longleftrightarrow> decide p x = Allowed \<and> admits e x"
  by (auto simp: decide_for_endpoint_def split: trust_decision.splits)

section \<open>Bounded reading\<close>

lemma bounded_peer_loop_Inr:
  "bounded_peer_loop mx count out xs = Ok s \<Longrightarrow> bs_ok out \<Longrightarrow> mx < U64_MAX \<Longrightarrow>
     bs_ok s \<and> set s = set out \<union> set xs \<and> (xs \<noteq> [] \<longrightarrow> count + length xs \<le> mx)"
proof (induction mx count out xs arbitrary: s rule: bounded_peer_loop.induct)
  case (2 mx count out peer seq)
  then have "sat_add64 count 1 = count + 1"
    by (auto simp: Let_def sat_add64_def split: if_splits)
  with 2 show ?case by (cases "seq = []") (auto simp: Let_def split: if_splits)
qed simp

lemma bounded_peer_seq_Inr:
  "bounded_peer_seq mx xs = Ok s \<Longrightarrow> mx < U64_MAX \<Longrightarrow> bs_ok s \<and> set s = set xs \<and> length xs \<le> mx"
  unfolding bounded_peer_seq_def by (drule bounded_peer_loop_Inr) auto

lemma trust_deserialize_ok:
  "trust_deserialize xs l = Ok p \<Longrightarrow> trust_ok p \<and> length xs \<le> MAX_ALLOWED_PEERS"
proof -
  assume "trust_deserialize xs l = Ok p"
  then obtain s q where s: "bounded_peer_seq MAX_ALLOWED_PEERS xs = Ok s" and q: "trust_new s = Ok q"
    and p: "p = (case l of Some l \<Rightarrow> with_local_peer q l | None \<Rightarrow> q)"
    by (auto simp: trust_deserialize_def and_then_eq_Inr)
  have "length xs \<le> MAX_ALLOWED_PEERS"
    using bounded_peer_seq_Inr [OF s] by (simp add: MAX_ALLOWED_PEERS_def U64_MAX_def)
  with trust_new_ok [OF q] p show ?thesis
    by (simp add: with_local_peer_ok split: option.splits)
qed

section \<open>Properties\<close>

text \<open>C32. Whatever an administrator does to a policy, the data plane stays deny-by-default: a peer
  allowed at an endpoint is not the local peer, is admitted by the endpoint's own filter, and
  was either in the configured allowlist and never mentioned since, or last mentioned by an
  allow rather than a revoke.  The ceiling on the allowlist holds throughout.\<close>

theorem trust_administration:
  assumes "trust_new xs = Ok p0"
    and "p = foldl admin_step (with_local_peer p0 self) ops"
  shows "length (tp_allowed_peers p) \<le> MAX_ALLOWED_PEERS
    \<and> (decide_for_endpoint p x e = Allowed \<longleftrightarrow> decide p x = Allowed \<and> admits e x)
    \<and> (decide p x = Allowed \<longrightarrow> x \<noteq> self \<and>
        (if \<exists>op \<in> set ops. about x op then last (filter (about x) ops) = Allow x else x \<in> set xs))"
proof (intro conjI impI)
  have ok: "trust_ok p"
    using trust_new_ok [OF assms(1)] assms(2) by (simp add: admin.inv_run with_local_peer_ok)
  then show "length (tp_allowed_peers p) \<le> MAX_ALLOWED_PEERS" by (simp add: trust_ok_def)
  show "decide_for_endpoint p x e = Allowed \<longleftrightarrow> decide p x = Allowed \<and> admits e x"
    by (rule decide_for_endpoint_allowed)
  assume allowed: "decide p x = Allowed"
  then show "x \<noteq> self"
    by (auto simp: decide_def assms(2) with_local_peer_def split: if_splits)
  from ok allowed have "x \<in> set (tp_allowed_peers p)" by (simp add: decide_allowed)
  with admin_run_allowed [of x "with_local_peer p0 self" ops] trust_new_ok [OF assms(1)]
  show "if \<exists>op \<in> set ops. about x op then last (filter (about x) ops) = Allow x else x \<in> set xs"
    by (auto simp: assms(2) with_local_peer_def split: if_splits)
qed

theorem trust_administration_witness:
  "(let a = TransportIdentity (ascii ''a''); b = TransportIdentity (ascii ''b'');
        c = TransportIdentity (ascii ''c'');
        p = foldl admin_step (with_local_peer \<lparr>tp_allowed_peers = [a, b], tp_local_peer = None\<rparr> a)
              [Revoke b, Allow c, Revoke c, Allow b]
    in trust_new [b, a] = Ok \<lparr>tp_allowed_peers = [a, b], tp_local_peer = None\<rparr>
       \<and> decide p b = Allowed \<and> b \<noteq> a
       \<and> decide_for_endpoint p b (StaticSubset [c]) = Denied NarrowedByEndpoint
       \<and> decide p c = Denied NotAllowlisted \<and> decide p a = Denied SelfIdentity
       \<and> length (tp_allowed_peers p) \<le> MAX_ALLOWED_PEERS)"
proof -
  let ?a = "TransportIdentity (ascii ''a'')" and ?b = "TransportIdentity (ascii ''b'')"
  let ?c = "TransportIdentity (ascii ''c'')"
  let ?ops = "[Revoke ?b, Allow ?c, Revoke ?c, Allow ?b]"
  let ?p0 = "\<lparr>tp_allowed_peers = [?a, ?b], tp_local_peer = None\<rparr>"
  have new: "trust_new [?b, ?a] = Ok ?p0" by code_simp
  have run: "foldl admin_step (with_local_peer ?p0 ?a) ?ops
      = \<lparr>tp_allowed_peers = [?b], tp_local_peer = Some ?a\<rparr>"
    by code_simp
  have "decide (foldl admin_step (with_local_peer ?p0 ?a) ?ops) ?b = Allowed"
    unfolding run by code_simp
  moreover note trust_administration [OF new refl, of ?a ?ops ?b "StaticSubset [?c]"]
  ultimately show ?thesis
    unfolding Let_def run using new by (auto simp: decide_def decide_for_endpoint_def ascii_def)
qed

text \<open>A trust policy read from its wire form is within the ceiling, counts the array that arrived
  (so repeats cannot smuggle an oversized input past it), and never lists the local peer.\<close>

theorem trust_wire_bounded:
  assumes "trust_deserialize xs local = Ok p"
  shows "length xs \<le> MAX_ALLOWED_PEERS \<and> length (tp_allowed_peers p) \<le> MAX_ALLOWED_PEERS
    \<and> set (tp_allowed_peers p) = set xs - set_option local \<and> tp_local_peer p = local"
proof -
  from assms obtain s q where s: "bounded_peer_seq MAX_ALLOWED_PEERS xs = Ok s" and q: "trust_new s = Ok q"
    and p: "p = (case local of Some l \<Rightarrow> with_local_peer q l | None \<Rightarrow> q)"
    by (auto simp: trust_deserialize_def and_then_eq_Inr)
  have "set s = set xs" "tp_local_peer q = None"
    using bounded_peer_seq_Inr [OF s] q
    by (auto simp: MAX_ALLOWED_PEERS_def U64_MAX_def trust_new_def Let_def split: if_splits)
  with trust_deserialize_ok [OF assms] trust_new_ok [OF q] show ?thesis
    by (auto simp: p with_local_peer_def trust_ok_def split: option.splits)
qed

theorem trust_wire_bounded_witness:
  "(let a = TransportIdentity (ascii ''a''); b = TransportIdentity (ascii ''b'')
    in trust_deserialize [b, a, b] (Some a) = Ok \<lparr>tp_allowed_peers = [b], tp_local_peer = Some a\<rparr>
       \<and> length [b, a, b] \<le> MAX_ALLOWED_PEERS)"
proof -
  let ?a = "TransportIdentity (ascii ''a'')" and ?b = "TransportIdentity (ascii ''b'')"
  have "trust_deserialize [?b, ?a, ?b] (Some ?a) = Ok \<lparr>tp_allowed_peers = [?b], tp_local_peer = Some ?a\<rparr>"
    by code_simp
  from trust_wire_bounded [OF this] this show ?thesis unfolding Let_def by blast
qed

end
