(* ===== verification/Endpoint_Registry.thy ===== *)
theory Endpoint_Registry
  imports Trust Status
begin

text \<open>
  The endpoint registry (\<open>crates/transport/runtime/src/endpoint_registry.rs\<close>): which endpoints
  are configured, which session holds the exclusive lease on each, and where a directed
  message lands.  The lease epochs are the \<open>Generation\<close> values of
  \<open>crates/api/local-client-api\<close>.
\<close>

section \<open>Definitions\<close>

datatype session_error = SeInvalidGeneration

datatype generation = Generation (generation_str: bytes)

definition GENERATION_MIN_BYTES :: nat where
  "GENERATION_MIN_BYTES = 16"

definition GENERATION_MAX_BYTES :: nat where
  "GENERATION_MAX_BYTES = 64"

definition generation_parse :: "bytes \<Rightarrow> session_error + generation" where
  "generation_parse value =
    (let ok = GENERATION_MIN_BYTES \<le> length value \<and> length value \<le> GENERATION_MAX_BYTES
         \<and> list_all (\<lambda>b. is_ascii_alphanumeric b \<or> b = 0x5F \<or> b = 0x2D) value
     in if ok then Ok (Generation value) else Err SeInvalidGeneration)"

datatype local_session_id = LocalSessionId (session_str: bytes)

instantiation local_session_id :: linorder
begin
definition less_eq_local_session_id :: "local_session_id \<Rightarrow> local_session_id \<Rightarrow> bool" where
  "less_eq_local_session_id a b \<longleftrightarrow> session_str a \<le> session_str b"
definition less_local_session_id :: "local_session_id \<Rightarrow> local_session_id \<Rightarrow> bool" where
  "less_local_session_id a b \<longleftrightarrow> session_str a < session_str b"
instance
  by intro_classes
    (auto simp: less_eq_local_session_id_def less_local_session_id_def less_le_not_le local_session_id.expand)
end

record registered_endpoint =
  re_enabled :: bool
  re_advertise :: bool
  re_allowed_client_kinds :: "bytes list"
  re_inbound :: endpoint_trust_policy
  re_outbound :: endpoint_trust_policy

definition registered_endpoint_default :: registered_endpoint where
  "registered_endpoint_default =
    \<lparr>re_enabled = True, re_advertise = False, re_allowed_client_kinds = [],
     re_inbound = InheritProfileTrust, re_outbound = InheritProfileTrust\<rparr>"

record active_lease =
  al_owner :: local_session_id
  al_epoch :: generation
  al_client_kind :: bytes

datatype resolve_failure =
    RfEndpointUnknown
  | RfEndpointDisabled
  | RfEndpointOffline
  | RfNoDefaultConfigured
  | RfEndpointPolicyDenied

definition resolve_failure_to_wire :: "resolve_failure \<Rightarrow> direct_reject_reason" where
  "resolve_failure_to_wire f = RjNoRoute"

datatype claim_failure =
    CfEndpointUnknown
  | CfEndpointDisabled
  | CfEndpointClientKindDenied
  | CfEndpointInUse
  | CfSessionAlreadyLeased endpoint_id
  | CfEpochInUse endpoint_id

fun claim_failure_to_transport :: "claim_failure \<Rightarrow> transport_error" where
  "claim_failure_to_transport CfEndpointUnknown = TeEndpointUnknown"
| "claim_failure_to_transport CfEndpointDisabled = TeEndpointDisabled"
| "claim_failure_to_transport CfEndpointClientKindDenied = TeEndpointClientKindDenied"
| "claim_failure_to_transport CfEndpointInUse = TeEndpointInUse"
| "claim_failure_to_transport (CfSessionAlreadyLeased _) = TeInvalidArgument"
| "claim_failure_to_transport (CfEpochInUse _) = TeInvalidArgument"

record endpoint_registry =
  er_endpoints :: "(endpoint_id, registered_endpoint) bmap"
  er_leases :: "(endpoint_id, active_lease) bmap"
  er_default :: "endpoint_id option"

definition endpoint_registry_new ::
  "(endpoint_id, registered_endpoint) bmap \<Rightarrow> endpoint_id option \<Rightarrow> endpoint_registry" where
  "endpoint_registry_new endpoints dflt = \<lparr>er_endpoints = endpoints, er_leases = [], er_default = dflt\<rparr>"

definition kind_permitted :: "registered_endpoint \<Rightarrow> bytes \<Rightarrow> bool" where
  "kind_permitted configured client_kind \<longleftrightarrow>
     re_allowed_client_kinds configured = [] \<or> client_kind \<in> set (re_allowed_client_kinds configured)"

definition claim ::
  "endpoint_registry \<Rightarrow> endpoint_id \<Rightarrow> local_session_id \<Rightarrow> bytes \<Rightarrow> generation \<Rightarrow>
     (claim_failure + active_lease) \<times> endpoint_registry" where
  "claim r endpoint session client_kind epoch =
    (case bm_get (er_endpoints r) endpoint of
       None \<Rightarrow> (Err CfEndpointUnknown, r)
     | Some configured \<Rightarrow>
         if \<not> re_enabled configured then (Err CfEndpointDisabled, r)
         else if \<not> kind_permitted configured client_kind then (Err CfEndpointClientKindDenied, r)
         else if bm_has (er_leases r) endpoint then (Err CfEndpointInUse, r)
         else
           (case find (\<lambda>(_, l). al_owner l = session) (er_leases r) of
              Some (held, _) \<Rightarrow> (Err (CfSessionAlreadyLeased held), r)
            | None \<Rightarrow>
                (case find (\<lambda>(_, l). al_epoch l = epoch) (er_leases r) of
                   Some (held, _) \<Rightarrow> (Err (CfEpochInUse held), r)
                 | None \<Rightarrow>
                     let lease = \<lparr>al_owner = session, al_epoch = epoch, al_client_kind = client_kind\<rparr>
                     in (Ok lease, r\<lparr>er_leases := bm_insert endpoint lease (er_leases r)\<rparr>))))"

definition release_session ::
  "endpoint_registry \<Rightarrow> local_session_id \<Rightarrow> endpoint_id list \<times> endpoint_registry" where
  "release_session r session =
    (let released = map fst (filter (\<lambda>(_, l). al_owner l = session) (er_leases r))
     in (released, foldl (\<lambda>r e. r\<lparr>er_leases := bm_remove e (er_leases r)\<rparr>) r released))"

definition revoke :: "endpoint_registry \<Rightarrow> endpoint_id \<Rightarrow> generation option \<times> endpoint_registry" where
  "revoke r endpoint =
    (map_option al_epoch (bm_get (er_leases r) endpoint),
     r\<lparr>er_leases := bm_remove endpoint (er_leases r)\<rparr>)"

definition set_enabled ::
  "endpoint_registry \<Rightarrow> endpoint_id \<Rightarrow> bool \<Rightarrow> generation option \<times> endpoint_registry" where
  "set_enabled r endpoint enabled =
    (case bm_get (er_endpoints r) endpoint of
       None \<Rightarrow> (None, r)
     | Some e \<Rightarrow>
         let r = r\<lparr>er_endpoints := bm_insert endpoint (e\<lparr>re_enabled := enabled\<rparr>) (er_endpoints r)\<rparr>
         in if enabled then (None, r) else revoke r endpoint)"

definition set_default :: "endpoint_registry \<Rightarrow> endpoint_id option \<Rightarrow> endpoint_registry" where
  "set_default r endpoint = r\<lparr>er_default := endpoint\<rparr>"

definition lease :: "endpoint_registry \<Rightarrow> endpoint_id \<Rightarrow> active_lease option" where
  "lease r endpoint = bm_get (er_leases r) endpoint"

definition holds_lease :: "endpoint_registry \<Rightarrow> endpoint_id \<Rightarrow> generation \<Rightarrow> bool" where
  "holds_lease r endpoint epoch =
    (case bm_get (er_leases r) endpoint of None \<Rightarrow> False | Some l \<Rightarrow> al_epoch l = epoch)"

definition resolve_inbound ::
  "endpoint_registry \<Rightarrow> endpoint_id option \<Rightarrow> (endpoint_trust_policy \<Rightarrow> bool) \<Rightarrow>
     resolve_failure + (endpoint_id \<times> active_lease)" where
  "resolve_inbound r requested source_peer_allowed =
    and_then
      (case requested of
         Some e \<Rightarrow> Ok e
       | None \<Rightarrow> (case er_default r of None \<Rightarrow> Err RfNoDefaultConfigured | Some e \<Rightarrow> Ok e))
      (\<lambda>target.
         case bm_get (er_endpoints r) target of
           None \<Rightarrow> Err RfEndpointUnknown
         | Some configured \<Rightarrow>
             if \<not> re_enabled configured then Err RfEndpointDisabled
             else if \<not> source_peer_allowed (re_inbound configured) then Err RfEndpointPolicyDenied
             else
               (case bm_get (er_leases r) target of
                  None \<Rightarrow> Err RfEndpointOffline
                | Some l \<Rightarrow> Ok (target, l)))"

definition MAX_DIRECTORY_ENTRIES :: nat where
  "MAX_DIRECTORY_ENTRIES = 32"

definition advertised_for ::
  "endpoint_registry \<Rightarrow> transport_identity \<Rightarrow> peer_trust_policy \<Rightarrow> nat \<Rightarrow> endpoint_id list" where
  "advertised_for r peer profile cap =
    take (min cap MAX_DIRECTORY_ENTRIES)
      (map fst
        (filter (\<lambda>(_, configured). is_allowed (decide_for_endpoint profile peer (re_inbound configured)))
          (filter (\<lambda>(endpoint, _). bm_has (er_leases r) endpoint)
            (filter (\<lambda>(_, configured). re_enabled configured \<and> re_advertise configured)
              (er_endpoints r)))))"

definition authorize_outbound ::
  "endpoint_registry \<Rightarrow> endpoint_id \<Rightarrow> transport_identity \<Rightarrow> peer_trust_policy \<Rightarrow> trust_decision" where
  "authorize_outbound r from peer profile =
    (case bm_get (er_endpoints r) from of
       None \<Rightarrow> decide_for_endpoint profile peer (StaticSubset [])
     | Some configured \<Rightarrow> decide_for_endpoint profile peer (re_outbound configured))"

section \<open>The invariant of the leases\<close>

text \<open>
  Every lease is on a configured, enabled endpoint open to its client kind; no session and no
  epoch appears in two leases.
\<close>

definition leases_ok :: "endpoint_registry \<Rightarrow> bool" where
  "leases_ok r \<longleftrightarrow>
     bm_ok (er_endpoints r) \<and> bm_ok (er_leases r) \<and>
     (\<forall>e l. bm_get (er_leases r) e = Some l \<longrightarrow>
        (\<exists>c. bm_get (er_endpoints r) e = Some c \<and> re_enabled c \<and> kind_permitted c (al_client_kind l))) \<and>
     (\<forall>e l e' l'. bm_get (er_leases r) e = Some l \<longrightarrow> bm_get (er_leases r) e' = Some l' \<longrightarrow>
        al_owner l = al_owner l' \<or> al_epoch l = al_epoch l' \<longrightarrow> e = e')"

lemma find_map_None:
  "bm_ok m \<Longrightarrow> find (\<lambda>(_, v). P v) m = None \<longleftrightarrow> (\<forall>k v. bm_get m k = Some v \<longrightarrow> \<not> P v)"
  by (auto simp: find_None_iff bm_get_in_set)

lemma claim_Inr:
  assumes "bm_ok (er_leases r)"
  shows "fst (claim r e s k ep) = Ok l \<longleftrightarrow>
    l = \<lparr>al_owner = s, al_epoch = ep, al_client_kind = k\<rparr> \<and>
    (\<exists>c. bm_get (er_endpoints r) e = Some c \<and> re_enabled c \<and> kind_permitted c k) \<and>
    bm_get (er_leases r) e = None \<and>
    (\<forall>e' l'. bm_get (er_leases r) e' = Some l' \<longrightarrow> al_owner l' \<noteq> s \<and> al_epoch l' \<noteq> ep)"
  using find_map_None [OF assms, of "\<lambda>l. al_owner l = s"] find_map_None [OF assms, of "\<lambda>l. al_epoch l = ep"]
  by (auto simp: claim_def Let_def bm_has_def split: option.splits)

lemma claim_state:
  "snd (claim r e s k ep) =
    (case fst (claim r e s k ep) of
       Inl _ \<Rightarrow> r | Inr l \<Rightarrow> r\<lparr>er_leases := bm_insert e l (er_leases r)\<rparr>)"
  by (auto simp: claim_def Let_def split: option.splits prod.splits)

lemma foldl_remove_leases:
  "foldl (\<lambda>r e. r\<lparr>er_leases := bm_remove e (er_leases r)\<rparr>) r es =
     r\<lparr>er_leases := filter (\<lambda>x. fst x \<notin> set es) (er_leases r)\<rparr>"
  by (induction es arbitrary: r) (auto simp: bm_remove_def intro!: filter_cong)

lemma release_session_state:
  assumes "bm_ok (er_leases r)"
  shows "snd (release_session r s) = r\<lparr>er_leases := bm_retain (\<lambda>_ l. al_owner l \<noteq> s) (er_leases r)\<rparr>"
proof -
  have "filter (\<lambda>x. fst x \<notin> set (map fst (filter (\<lambda>(_, l). al_owner l = s) (er_leases r)))) (er_leases r)
      = bm_retain (\<lambda>_ l. al_owner l \<noteq> s) (er_leases r)"
    unfolding bm_retain_def
    using assms by (intro filter_cong refl) (force simp: bm_get_in_set)
  then show ?thesis by (simp add: release_session_def Let_def foldl_remove_leases)
qed

lemma claim_keeps: "leases_ok r \<Longrightarrow> leases_ok (snd (claim r e s k ep))"
proof -
  assume ok: "leases_ok r"
  show "leases_ok (snd (claim r e s k ep))"
  proof (cases "fst (claim r e s k ep)")
    case (Inl f)
    then show ?thesis using ok by (simp add: claim_state)
  next
    case (Inr l)
    then have "l = \<lparr>al_owner = s, al_epoch = ep, al_client_kind = k\<rparr> \<and>
      (\<exists>c. bm_get (er_endpoints r) e = Some c \<and> re_enabled c \<and> kind_permitted c k) \<and>
      bm_get (er_leases r) e = None \<and>
      (\<forall>e' l'. bm_get (er_leases r) e' = Some l' \<longrightarrow> al_owner l' \<noteq> s \<and> al_epoch l' \<noteq> ep)"
      using ok claim_Inr [of r e s k ep l] by (simp add: leases_ok_def)
    with ok show ?thesis by (auto simp: leases_ok_def claim_state Inr split: if_splits)
  qed
qed

lemma release_session_keeps: "leases_ok r \<Longrightarrow> leases_ok (snd (release_session r s))"
  by (auto simp: leases_ok_def release_session_state bm_get_retain split: option.splits if_splits)

lemma revoke_keeps: "leases_ok r \<Longrightarrow> leases_ok (snd (revoke r e))"
  by (auto simp: leases_ok_def revoke_def split: if_splits)

lemma set_enabled_keeps: "leases_ok r \<Longrightarrow> leases_ok (snd (set_enabled r e b))"
  by (fastforce simp: leases_ok_def set_enabled_def revoke_def kind_permitted_def Let_def
      split: option.splits if_splits)

lemma set_default_keeps: "leases_ok r \<Longrightarrow> leases_ok (set_default r d)"
  by (auto simp: leases_ok_def set_default_def)

text \<open>One call on the registry.\<close>

datatype lease_op =
    LoClaim endpoint_id local_session_id bytes generation
  | LoReleaseSession local_session_id
  | LoRevoke endpoint_id
  | LoSetEnabled endpoint_id bool
  | LoSetDefault "endpoint_id option"

fun lease_step :: "endpoint_registry \<Rightarrow> lease_op \<Rightarrow> endpoint_registry" where
  "lease_step r (LoClaim e s k ep) = snd (claim r e s k ep)"
| "lease_step r (LoReleaseSession s) = snd (release_session r s)"
| "lease_step r (LoRevoke e) = snd (revoke r e)"
| "lease_step r (LoSetEnabled e b) = snd (set_enabled r e b)"
| "lease_step r (LoSetDefault d) = set_default r d"

interpretation leases: stepwise lease_step leases_ok
proof
  show "leases_ok (lease_step r op)" if "leases_ok r" for r op
    using that
    by (cases op) (simp_all add: claim_keeps release_session_keeps revoke_keeps set_enabled_keeps set_default_keeps)
qed

lemma endpoint_registry_new_ok: "bm_ok eps \<Longrightarrow> leases_ok (endpoint_registry_new eps d)"
  by (simp add: leases_ok_def endpoint_registry_new_def)

section \<open>Leases in force\<close>

fun ends_lease :: "endpoint_id \<Rightarrow> active_lease \<Rightarrow> lease_op \<Rightarrow> bool" where
  "ends_lease e l (LoReleaseSession s) \<longleftrightarrow> s = al_owner l"
| "ends_lease e l (LoRevoke e') \<longleftrightarrow> e' = e"
| "ends_lease e l (LoSetEnabled e' b) \<longleftrightarrow> e' = e \<and> \<not> b"
| "ends_lease e l _ \<longleftrightarrow> False"

lemma lease_step_stays:
  assumes "leases_ok r" "lease r e = Some l" "\<not> ends_lease e l op"
  shows "lease (lease_step r op) e = Some l"
proof (cases op)
  case (LoClaim e' s k ep)
  show ?thesis
  proof (cases "fst (claim r e' s k ep)")
    case (Inl f)
    then show ?thesis using assms(2) by (simp add: LoClaim claim_state)
  next
    case (Inr l')
    then have "bm_get (er_leases r) e' = None"
      using assms(1) claim_Inr [of r e' s k ep l'] by (simp add: leases_ok_def)
    then show ?thesis using assms(2) by (auto simp: LoClaim claim_state Inr lease_def)
  qed
next
  case (LoReleaseSession s)
  then show ?thesis
    using assms by (simp add: leases_ok_def release_session_state lease_def bm_get_retain)
next
  case (LoRevoke e')
  then show ?thesis using assms by (simp add: revoke_def lease_def)
next
  case (LoSetEnabled e' b)
  then show ?thesis
    using assms by (auto simp: set_enabled_def revoke_def lease_def Let_def split: option.splits)
next
  case (LoSetDefault d)
  then show ?thesis using assms by (simp add: set_default_def lease_def)
qed

lemma lease_run_stays:
  "leases_ok r \<Longrightarrow> lease r e = Some l \<Longrightarrow> \<forall>op\<in>set ops. \<not> ends_lease e l op \<Longrightarrow>
     lease (foldl lease_step r ops) e = Some l"
  by (induction ops arbitrary: r) (auto simp: lease_step_stays leases.inv_step)

lemma resolve_inbound_Inr:
  "resolve_inbound r requested allowed = Ok (e, l) \<longleftrightarrow>
     (requested = Some e \<or> requested = None \<and> er_default r = Some e) \<and> lease r e = Some l \<and>
     (\<exists>c. bm_get (er_endpoints r) e = Some c \<and> re_enabled c \<and> allowed (re_inbound c))"
  by (auto simp: resolve_inbound_def and_then_eq_Inr lease_def split: option.splits if_splits)

text \<open>The endpoints that qualify for a peer's directory, in order.\<close>

definition listable :: "endpoint_registry \<Rightarrow> transport_identity \<Rightarrow> peer_trust_policy \<Rightarrow> endpoint_id \<Rightarrow> bool" where
  "listable r peer profile e \<longleftrightarrow>
     (\<exists>c. bm_get (er_endpoints r) e = Some c \<and> re_advertise c) \<and>
     is_ok (resolve_inbound r (Some e) (\<lambda>p. decide_for_endpoint profile peer p = Allowed))"

lemma listable_eq:
  "listable r peer profile e \<longleftrightarrow>
     (\<exists>c. bm_get (er_endpoints r) e = Some c \<and> re_enabled c \<and> re_advertise c \<and> bm_has (er_leases r) e \<and>
        decide_for_endpoint profile peer (re_inbound c) = Allowed)"
  by (auto simp: listable_def resolve_inbound_def bm_has_def split: option.splits)

lemma is_allowed_iff: "is_allowed d \<longleftrightarrow> d = Allowed"
  by (cases d) (simp_all add: is_allowed_def)

lemma sorted_map_fst_filter: "bm_ok m \<Longrightarrow> sorted_wrt (<) (map fst (filter P m))"
  using bm_ok_filter [of m P] by (simp add: bm_ok_def)

lemma advertised_filter:
  assumes "bm_ok (er_endpoints r)"
  shows "advertised_for r peer profile cap =
    take (min cap MAX_DIRECTORY_ENTRIES) (filter (listable r peer profile) (map fst (er_endpoints r)))"
proof -
  have "filter (\<lambda>(_, c). is_allowed (decide_for_endpoint profile peer (re_inbound c)))
      (filter (\<lambda>(e, _). bm_has (er_leases r) e) (filter (\<lambda>(_, c). re_enabled c \<and> re_advertise c) (er_endpoints r)))
    = filter (listable r peer profile \<circ> fst) (er_endpoints r)"
    unfolding filter_filter
    using assms by (intro filter_cong refl)
      (auto simp: listable_eq bm_get_in_set is_allowed_iff)
  then show ?thesis by (simp add: advertised_for_def filter_map)
qed

section \<open>Properties\<close>

text \<open>C27. Leases are exclusive whatever sequence of claims, releases, revocations and reconfigurations
  is made: a leased endpoint is configured, enabled and open to the kind of client holding it,
  a session holds at most one lease, and an epoch names at most one leased endpoint, so the
  pair a sender presents identifies one lease.\<close>

theorem leases_exclusive:
  assumes "bm_ok endpoints" and "r = foldl lease_step (endpoint_registry_new endpoints dflt) ops"
  shows "(\<forall>e l. lease r e = Some l \<longrightarrow>
      (\<exists>c. bm_get (er_endpoints r) e = Some c \<and> re_enabled c \<and> kind_permitted c (al_client_kind l)))
    \<and> (\<forall>e l e' l'. lease r e = Some l \<longrightarrow> lease r e' = Some l' \<longrightarrow> al_owner l = al_owner l' \<longrightarrow> e = e')
    \<and> (\<forall>e e' epoch. holds_lease r e epoch \<longrightarrow> holds_lease r e' epoch \<longrightarrow> e = e')"
proof -
  have "leases_ok r"
    unfolding assms(2) by (rule leases.inv_run [OF endpoint_registry_new_ok [OF assms(1)]])
  then show ?thesis
    unfolding leases_ok_def lease_def holds_lease_def by (auto split: option.splits)
qed

text \<open>A lease is never stolen, transferred or dropped behind its holder's back: it stays in force,
  with its epoch, through every sequence of calls that does not release its own session,
  revoke it or disable its endpoint, claims by any other session included.\<close>

theorem lease_not_stolen:
  assumes "bm_ok endpoints" and "r = foldl lease_step (endpoint_registry_new endpoints dflt) before"
    and "lease r e = Some l" and "list_all (\<lambda>op. \<not> ends_lease e l op) ops"
  shows "lease (foldl lease_step r ops) e = Some l
    \<and> fst (claim (foldl lease_step r ops) e s k epoch) \<in> {Err CfEndpointInUse, Err CfEndpointClientKindDenied}"
proof -
  have ok: "leases_ok r"
    unfolding assms(2) by (rule leases.inv_run [OF endpoint_registry_new_ok [OF assms(1)]])
  let ?r = "foldl lease_step r ops"
  have stays: "lease ?r e = Some l"
    using assms(4) by (intro lease_run_stays [OF ok assms(3)]) (simp add: list_all_iff)
  moreover have "leases_ok ?r" by (rule leases.inv_run [OF ok])
  then obtain c where "bm_get (er_endpoints ?r) e = Some c" "re_enabled c"
    using stays unfolding leases_ok_def lease_def by blast
  ultimately show ?thesis by (simp add: claim_def bm_has_def lease_def)
qed

text \<open>What a peer is shown is what it could reach: the advertised list is strictly ascending, no
  longer than the cap and the wire bound, and a prefix of the endpoints that ask to be
  advertised and to which a message from that peer would resolve; when those fit, it is all of
  them.  A peer outside the profile's trust is shown nothing.\<close>

theorem advertised_exact:
  assumes "bm_ok endpoints" and "r = foldl lease_step (endpoint_registry_new endpoints dflt) ops"
    and "listed = advertised_for r peer profile cap"
    and "eligible = {e. (\<exists>c. bm_get (er_endpoints r) e = Some c \<and> re_advertise c)
      \<and> is_ok (resolve_inbound r (Some e) (\<lambda>p. decide_for_endpoint profile peer p = Allowed))}"
  shows "sorted_wrt (<) listed \<and> length listed \<le> min cap MAX_DIRECTORY_ENTRIES \<and> set listed \<subseteq> eligible
    \<and> (card eligible \<le> min cap MAX_DIRECTORY_ENTRIES \<longrightarrow> set listed = eligible)
    \<and> (decide profile peer \<noteq> Allowed \<longrightarrow> listed = [])"
proof -
  have ok: "bm_ok (er_endpoints r)"
    using leases.inv_run [OF endpoint_registry_new_ok [OF assms(1)], of dflt ops]
    unfolding assms(2) leases_ok_def by blast
  let ?all = "filter (listable r peer profile) (map fst (er_endpoints r))"
  have elig: "eligible = set ?all"
    using listable_eq [of r peer profile]
    by (auto simp: assms(4) listable_def dest: bm_get_key)
  have srt: "sorted_wrt (<) ?all"
    using ok sorted_map_fst_filter [OF ok, of "listable r peer profile \<circ> fst"] by (simp add: filter_map)
  have len: "length ?all = card eligible"
    unfolding elig using srt strict_sorted_iff distinct_card by metis
  have l: "listed = take (min cap MAX_DIRECTORY_ENTRIES) ?all"
    by (simp add: assms(3) advertised_filter [OF ok])
  have "decide profile peer \<noteq> Allowed \<longrightarrow> ?all = []"
    by (auto simp: filter_empty_conv listable_eq decide_for_endpoint_def split: trust_decision.splits)
  moreover have "sorted_wrt (<) listed" unfolding l by (rule sorted_wrt_take [OF srt])
  moreover have "set listed \<subseteq> eligible" unfolding l elig by (rule set_take_subset)
  moreover have "length listed \<le> min cap MAX_DIRECTORY_ENTRIES"
    unfolding l length_take by (rule min.cobounded2)
  moreover have "card eligible \<le> min cap MAX_DIRECTORY_ENTRIES \<longrightarrow> set listed = eligible"
    using len unfolding l elig by (metis take_all)
  ultimately show ?thesis using l by auto
qed

definition sample_registry :: endpoint_registry where
  "sample_registry = endpoint_registry_new
    [(EndpointId [1], registered_endpoint_default\<lparr>re_advertise := True\<rparr>), (EndpointId [2], registered_endpoint_default)]
    (Some (EndpointId [1]))"

lemma sample_registry_eps [simp]:
  "bm_ok [(EndpointId [1], registered_endpoint_default\<lparr>re_advertise := True\<rparr>), (EndpointId [2], registered_endpoint_default)]"
  by code_simp

definition sample_claim :: lease_op where
  "sample_claim = LoClaim (EndpointId [1]) (LocalSessionId [5]) [9] (Generation [6])"

theorem leases_exclusive_witness:
  "(let r = foldl lease_step sample_registry
        [sample_claim, LoClaim (EndpointId [2]) (LocalSessionId [5]) [9] (Generation [7]),
         LoClaim (EndpointId [2]) (LocalSessionId [4]) [9] (Generation [7])]
    in holds_lease r (EndpointId [2]) (Generation [7]) \<and> \<not> holds_lease r (EndpointId [1]) (Generation [7])
       \<and> map_option al_owner (lease r (EndpointId [1])) = Some (LocalSessionId [5]))"
proof -
  let ?ops = "[sample_claim, LoClaim (EndpointId [2]) (LocalSessionId [5]) [9] (Generation [7]),
         LoClaim (EndpointId [2]) (LocalSessionId [4]) [9] (Generation [7])]"
  let ?r = "foldl lease_step sample_registry ?ops"
  have "holds_lease ?r (EndpointId [2]) (Generation [7])" by code_simp
  moreover have "map_option al_owner (lease ?r (EndpointId [1])) = Some (LocalSessionId [5])" by code_simp
  moreover have "EndpointId [1] \<noteq> EndpointId [2]" by simp
  ultimately show ?thesis
    using leases_exclusive [OF sample_registry_eps, of ?r "Some (EndpointId [1])" ?ops]
    unfolding Let_def sample_registry_def by blast
qed

theorem lease_not_stolen_witness:
  "(let r = foldl lease_step sample_registry [sample_claim]
    in fst (claim r (EndpointId [1]) (LocalSessionId [4]) [9] (Generation [8])) = Err CfEndpointInUse
       \<and> map_option al_owner (lease (foldl lease_step r
           [LoClaim (EndpointId [1]) (LocalSessionId [4]) [9] (Generation [8]), LoSetDefault None]) (EndpointId [1]))
         = Some (LocalSessionId [5]))"
proof -
  let ?r = "foldl lease_step sample_registry [sample_claim]"
  let ?l = "\<lparr>al_owner = LocalSessionId [5], al_epoch = Generation [6], al_client_kind = [9]\<rparr>"
  have "lease ?r (EndpointId [1]) = Some ?l" by code_simp
  moreover have "fst (claim ?r (EndpointId [1]) (LocalSessionId [4]) [9] (Generation [8])) = Err CfEndpointInUse"
    by code_simp
  ultimately show ?thesis
    using lease_not_stolen [OF sample_registry_eps, of ?r "Some (EndpointId [1])" "[sample_claim]" "EndpointId [1]" ?l
        "[LoClaim (EndpointId [1]) (LocalSessionId [4]) [9] (Generation [8]), LoSetDefault None]"]
    unfolding Let_def by (simp add: sample_registry_def)
qed

theorem advertised_exact_witness:
  "(let p = TransportIdentity [3]; profile = \<lparr>tp_allowed_peers = [p], tp_local_peer = None\<rparr>;
        r = foldl lease_step sample_registry [sample_claim]
    in advertised_for r p profile 8 = [EndpointId [1]]
       \<and> advertised_for r (TransportIdentity [4]) profile 8 = [])"
proof -
  let ?p = "TransportIdentity [3]" and ?profile = "\<lparr>tp_allowed_peers = [TransportIdentity [3]], tp_local_peer = None\<rparr>"
  let ?r = "foldl lease_step sample_registry [sample_claim]"
  have "advertised_for ?r ?p ?profile 8 = [EndpointId [1]]" by code_simp
  moreover have "decide ?profile (TransportIdentity [4]) \<noteq> Allowed" by code_simp
  ultimately show ?thesis
    using advertised_exact [OF sample_registry_eps, of ?r "Some (EndpointId [1])" "[sample_claim]" _
        "TransportIdentity [4]" ?profile 8, OF _ refl refl]
    unfolding Let_def by (simp add: sample_registry_def)
qed

end
