(* ===== verification/Direct_Inbound.thy ===== *)
theory Direct_Inbound
  imports Direct_Frame Dedup Ingress Queues Endpoint_Registry
begin

text \<open>
  Admission of one inbound direct message, \<open>crates/transport/runtime/src/direct_inbound.rs\<close>: the
  order in which trust, draining, rate, content identity, duplicate suppression, reservation,
  resolution and queueing run.  The borrowed context of the source is a record that the
  functions return updated.  SHA-256 is the parameter \<open>sha256\<close>.
\<close>

section \<open>Definitions\<close>

record clocks =
  ck_monotonic_ms :: nat
  ck_wall_ms :: nat

record prefix_context =
  pc_trust :: peer_trust_policy
  pc_ingress :: ingress_limiter
  pc_draining :: bool

record admission_context =
  ac_prefix :: prefix_context
  ac_dedup :: dedup_cache
  ac_reservations :: reservation_map
  ac_registry :: endpoint_registry
  ac_queues :: endpoint_queues

datatype refusal =
    UntrustedPeer
  | Draining
  | RateLimited
  | Unfingerprintable
  | DuplicateConflict
  | Overloaded
  | NoRoute resolve_failure
  | QueueRefused queue_refusal

datatype outcome =
    OcAccepted endpoint_id
  | OcDuplicateAccepted endpoint_id
  | OcAttachedAsWaiter
  | OcRefused refusal

fun refusal_to_wire :: "refusal \<Rightarrow> direct_reject_reason" where
  "refusal_to_wire UntrustedPeer = RjUnauthorizedPeer"
| "refusal_to_wire Draining = RjShuttingDown"
| "refusal_to_wire RateLimited = RjOverloaded"
| "refusal_to_wire Overloaded = RjOverloaded"
| "refusal_to_wire Unfingerprintable = RjMalformed"
| "refusal_to_wire DuplicateConflict = RjMalformed"
| "refusal_to_wire (NoRoute inner) = resolve_failure_to_wire inner"
| "refusal_to_wire (QueueRefused inner) = queue_refusal_to_wire inner"

definition admit_prefix ::
  "transport_identity \<Rightarrow> nat \<Rightarrow> prefix_context \<Rightarrow> (refusal + unit) \<times> prefix_context" where
  "admit_prefix peer now_ms ctx =
    (case decide (pc_trust ctx) peer of
       Denied _ \<Rightarrow> (Err UntrustedPeer, ctx)
     | Allowed \<Rightarrow>
         if pc_draining ctx then (Err Draining, ctx)
         else
           let (r, ingress) = limiter_admit (pc_ingress ctx) peer now_ms;
               ctx = ctx\<lparr>pc_ingress := ingress\<rparr>
           in if is_ok r then (Ok (), ctx) else (Err RateLimited, ctx))"

definition dedup_key_of :: "direct_message \<Rightarrow> transport_identity \<Rightarrow> dedup_key" where
  "dedup_key_of frame peer =
    KDirect peer (dm_source_endpoint frame)
      (case dm_destination_endpoint frame of None \<Rightarrow> Default | Some e \<Rightarrow> Explicit e)
      (dm_message_id frame)"

definition frame_fingerprint :: "(bytes \<Rightarrow> bytes) \<Rightarrow> direct_message \<Rightarrow> fingerprint_error + content_fingerprint" where
  "frame_fingerprint sha256 frame =
    direct_content_fingerprint_v1 sha256 (map_option media_str (payload_media (dm_payload frame)))
      (payload_bytes (dm_payload frame))"

definition event_of :: "direct_message \<Rightarrow> transport_identity \<Rightarrow> endpoint_id \<Rightarrow> nat \<Rightarrow> direct_event" where
  "event_of frame peer resolved wall_ms =
    \<lparr>de_source_peer = peer, de_source_endpoint = dm_source_endpoint frame,
     de_destination_endpoint = resolved, de_message_id = dm_message_id frame,
     de_payload = dm_payload frame, de_received_at = wall_ms\<rparr>"

text \<open>The steps taken while the key is held; every exit releases it.\<close>

definition admit_held ::
  "direct_message \<Rightarrow> transport_identity \<Rightarrow> clocks \<Rightarrow> dedup_key \<Rightarrow> content_fingerprint \<Rightarrow>
     admission_context \<Rightarrow> outcome \<times> admission_context" where
  "admit_held frame peer clocks key fingerprint ctx =
    (case resolve_inbound (ac_registry ctx) (dm_destination_endpoint frame)
            (\<lambda>policy. decide_for_endpoint (pc_trust (ac_prefix ctx)) peer policy = Allowed) of
       Inl failure \<Rightarrow>
         (OcRefused (NoRoute failure), ctx\<lparr>ac_reservations := release (ac_reservations ctx) key\<rparr>)
     | Inr (resolved, _) \<Rightarrow>
         let (pushed, queues) =
               endpoint_push (ac_queues ctx) (event_of frame peer resolved (ck_wall_ms clocks));
             ctx = ctx\<lparr>ac_queues := queues\<rparr>
         in (case pushed of
               Inl refusal \<Rightarrow>
                 (OcRefused (QueueRefused refusal),
                  ctx\<lparr>ac_reservations := release (ac_reservations ctx) key\<rparr>)
             | Inr _ \<Rightarrow>
                 (OcAccepted resolved,
                  ctx\<lparr>ac_dedup := record_accepted (ac_dedup ctx) key (RouteDirect resolved) fingerprint
                        (ck_monotonic_ms clocks),
                      ac_reservations := release (ac_reservations ctx) key\<rparr>)))"

definition admit_structured ::
  "(bytes \<Rightarrow> bytes) \<Rightarrow> direct_message \<Rightarrow> transport_identity \<Rightarrow> clocks \<Rightarrow> admission_context \<Rightarrow>
     outcome \<times> admission_context" where
  "admit_structured sha256 frame peer clocks ctx =
    (case frame_fingerprint sha256 frame of
       Inl _ \<Rightarrow> (OcRefused Unfingerprintable, ctx)
     | Inr fingerprint \<Rightarrow>
         let key = dedup_key_of frame peer;
             (adm, dedup) = dedup_admit (ac_dedup ctx) key fingerprint (ck_monotonic_ms clocks);
             ctx = ctx\<lparr>ac_dedup := dedup\<rparr>
         in (case adm of
               DuplicateAccepted (RouteDirect resolved) \<Rightarrow> (OcDuplicateAccepted resolved, ctx)
             | DuplicateAccepted RouteBroadcast \<Rightarrow> (OcRefused DuplicateConflict, ctx)
             | AdmConflict \<Rightarrow> (OcRefused DuplicateConflict, ctx)
             | Fresh \<Rightarrow>
                 let (res, reservations) = acquire (ac_reservations ctx) key fingerprint;
                     ctx = ctx\<lparr>ac_reservations := reservations\<rparr>
                 in (case res of
                       Inr Waiter \<Rightarrow> (OcAttachedAsWaiter, ctx)
                     | Inl ResOverloaded \<Rightarrow> (OcRefused Overloaded, ctx)
                     | Inl ResConflict \<Rightarrow> (OcRefused DuplicateConflict, ctx)
                     | Inr Owner \<Rightarrow> admit_held frame peer clocks key fingerprint ctx)))"

definition admit_inbound ::
  "(bytes \<Rightarrow> bytes) \<Rightarrow> direct_message \<Rightarrow> transport_identity \<Rightarrow> clocks \<Rightarrow> admission_context \<Rightarrow>
     outcome \<times> admission_context" where
  "admit_inbound sha256 frame peer clocks ctx =
    (let (r, prefix) = admit_prefix peer (ck_monotonic_ms clocks) (ac_prefix ctx);
         ctx = ctx\<lparr>ac_prefix := prefix\<rparr>
     in (case r of
           Inl refusal \<Rightarrow> (OcRefused refusal, ctx)
         | Inr _ \<Rightarrow> admit_structured sha256 frame peer clocks ctx))"

section \<open>One step at a time\<close>

lemma admit_prefix_cases:
  "fst (admit_prefix p now ctx) =
     (if decide (pc_trust ctx) p \<noteq> Allowed then Err UntrustedPeer
      else if pc_draining ctx then Err Draining
      else if is_ok (fst (limiter_admit (pc_ingress ctx) p now)) then Ok ()
      else Err RateLimited)"
  by (auto simp: admit_prefix_def Let_def split: trust_decision.splits prod.splits)

lemma admit_prefix_state:
  "snd (admit_prefix p now ctx) =
     (if decide (pc_trust ctx) p \<noteq> Allowed \<or> pc_draining ctx then ctx
      else ctx\<lparr>pc_ingress := snd (limiter_admit (pc_ingress ctx) p now)\<rparr>)"
  by (auto simp: admit_prefix_def Let_def split: trust_decision.splits prod.splits)

lemma admit_inbound_parts:
  "admit_inbound sha frame p ck ctx =
     (let pre = admit_prefix p (ck_monotonic_ms ck) (ac_prefix ctx);
          ctx = ctx\<lparr>ac_prefix := snd pre\<rparr>
      in case fst pre of Inl refusal \<Rightarrow> (OcRefused refusal, ctx)
         | Inr _ \<Rightarrow> admit_structured sha frame p ck ctx)"
  by (simp add: admit_inbound_def Let_def case_prod_beta)

text \<open>What each branch of the structured half does, as one case distinction.\<close>

lemma admit_structured_cases [consumes 1, case_names unhashable known reserved held]:
  assumes "admit_structured sha frame p ck ctx = (oc, ctx')"
  obtains
    (unhashable) e where "frame_fingerprint sha frame = Inl e" "oc = OcRefused Unfingerprintable" "ctx' = ctx"
  | (known) fp c where "frame_fingerprint sha frame = Inr fp"
      "c = dedup_admit (ac_dedup ctx) (dedup_key_of frame p) fp (ck_monotonic_ms ck)"
      "ctx' = ctx\<lparr>ac_dedup := snd c\<rparr>"
      "(fst c = AdmConflict \<or> fst c = DuplicateAccepted RouteBroadcast) \<and> oc = OcRefused DuplicateConflict
       \<or> (\<exists>e. fst c = DuplicateAccepted (RouteDirect e) \<and> oc = OcDuplicateAccepted e)"
  | (reserved) fp c r where "frame_fingerprint sha frame = Inr fp"
      "c = dedup_admit (ac_dedup ctx) (dedup_key_of frame p) fp (ck_monotonic_ms ck)" "fst c = Fresh"
      "r = acquire (ac_reservations ctx) (dedup_key_of frame p) fp"
      "ctx' = ctx\<lparr>ac_dedup := snd c, ac_reservations := snd r\<rparr>"
      "fst r = Inr Waiter \<and> oc = OcAttachedAsWaiter \<or> fst r = Inl ResOverloaded \<and> oc = OcRefused Overloaded
       \<or> fst r = Inl ResConflict \<and> oc = OcRefused DuplicateConflict"
  | (held) fp c r where "frame_fingerprint sha frame = Inr fp"
      "c = dedup_admit (ac_dedup ctx) (dedup_key_of frame p) fp (ck_monotonic_ms ck)" "fst c = Fresh"
      "r = acquire (ac_reservations ctx) (dedup_key_of frame p) fp" "fst r = Inr Owner"
      "admit_held frame p ck (dedup_key_of frame p) fp (ctx\<lparr>ac_dedup := snd c, ac_reservations := snd r\<rparr>)
        = (oc, ctx')"
proof (cases "frame_fingerprint sha frame")
  case (Inl e)
  then show thesis using assms by (intro unhashable) (auto simp: admit_structured_def)
next
  case fp: (Inr fp)
  define c where "c = dedup_admit (ac_dedup ctx) (dedup_key_of frame p) fp (ck_monotonic_ms ck)"
  define r where "r = acquire (ac_reservations ctx) (dedup_key_of frame p) fp"
  have untouched: "ac_reservations (ctx\<lparr>ac_dedup := d\<rparr>) = ac_reservations ctx" for d by simp
  have run: "(case fst c of
       DuplicateAccepted (RouteDirect resolved) \<Rightarrow> (OcDuplicateAccepted resolved, ctx\<lparr>ac_dedup := snd c\<rparr>)
     | DuplicateAccepted RouteBroadcast \<Rightarrow> (OcRefused DuplicateConflict, ctx\<lparr>ac_dedup := snd c\<rparr>)
     | AdmConflict \<Rightarrow> (OcRefused DuplicateConflict, ctx\<lparr>ac_dedup := snd c\<rparr>)
     | Fresh \<Rightarrow> (case fst r of
           Inr Waiter \<Rightarrow> (OcAttachedAsWaiter, ctx\<lparr>ac_dedup := snd c, ac_reservations := snd r\<rparr>)
         | Inl ResOverloaded \<Rightarrow> (OcRefused Overloaded, ctx\<lparr>ac_dedup := snd c, ac_reservations := snd r\<rparr>)
         | Inl ResConflict \<Rightarrow> (OcRefused DuplicateConflict, ctx\<lparr>ac_dedup := snd c, ac_reservations := snd r\<rparr>)
         | Inr Owner \<Rightarrow> admit_held frame p ck (dedup_key_of frame p) fp
             (ctx\<lparr>ac_dedup := snd c, ac_reservations := snd r\<rparr>))) = (oc, ctx')"
    using assms unfolding admit_structured_def fp sum.case Let_def case_prod_beta untouched c_def r_def .
  show thesis
  proof (cases "fst c")
    case Fresh
    then show thesis
      using run reserved [OF fp c_def Fresh r_def] held [OF fp c_def Fresh r_def]
      by (auto split: sum.splits reservation.splits reservation_failure.splits)
  qed (use run known [OF fp c_def] in \<open>auto split: recorded_route.splits\<close>)
qed

lemma admit_held_cases [consumes 1, case_names unroutable refused accepted]:
  assumes "admit_held frame p ck key fp ctx = (oc, ctx')"
  obtains
    (unroutable) f where "oc = OcRefused (NoRoute f)"
      "ctx' = ctx\<lparr>ac_reservations := release (ac_reservations ctx) key\<rparr>"
  | (refused) e l q where
      "resolve_inbound (ac_registry ctx) (dm_destination_endpoint frame)
        (\<lambda>policy. decide_for_endpoint (pc_trust (ac_prefix ctx)) p policy = Allowed) = Ok (e, l)"
      "fst (endpoint_push (ac_queues ctx) (event_of frame p e (ck_wall_ms ck))) = Inl q"
      "oc = OcRefused (QueueRefused q)"
      "ctx' = ctx\<lparr>ac_reservations := release (ac_reservations ctx) key\<rparr>"
  | (accepted) e l where
      "resolve_inbound (ac_registry ctx) (dm_destination_endpoint frame)
        (\<lambda>policy. decide_for_endpoint (pc_trust (ac_prefix ctx)) p policy = Allowed) = Ok (e, l)"
      "fst (endpoint_push (ac_queues ctx) (event_of frame p e (ck_wall_ms ck))) = Ok ()"
      "oc = OcAccepted e"
      "ctx' = ctx\<lparr>ac_queues := snd (endpoint_push (ac_queues ctx) (event_of frame p e (ck_wall_ms ck))),
          ac_dedup := record_accepted (ac_dedup ctx) key (RouteDirect e) fp (ck_monotonic_ms ck),
          ac_reservations := release (ac_reservations ctx) key\<rparr>"
proof (cases "resolve_inbound (ac_registry ctx) (dm_destination_endpoint frame)
        (\<lambda>policy. decide_for_endpoint (pc_trust (ac_prefix ctx)) p policy = Allowed)")
  case (Inl f)
  then show thesis using assms by (intro unroutable) (auto simp: admit_held_def)
next
  case (Inr el)
  obtain e l where el: "el = (e, l)" by (cases el)
  have same: "is_ok (fst (endpoint_push qs ev)) \<or> snd (endpoint_push qs ev) = qs" for qs ev
    by (simp add: endpoint_push_def split: option.splits)
  show thesis
  proof (cases "fst (endpoint_push (ac_queues ctx) (event_of frame p e (ck_wall_ms ck)))")
    case (Inl q)
    then show thesis
      using assms Inr el same [of "ac_queues ctx" "event_of frame p e (ck_wall_ms ck)"]
      by (intro refused [of e l q]) (auto simp: admit_held_def Let_def case_prod_beta)
  next
    case (Inr u)
    then show thesis
      using assms \<open>_ = Inr el\<close> el
      by (intro accepted [of e l]) (auto simp: admit_held_def Let_def case_prod_beta)
  qed
qed

section \<open>What admission changes\<close>

lemma acquire_refused_state: "fst (acquire r k fp) = Inl f \<Longrightarrow> snd (acquire r k fp) = r"
  by (auto simp: acquire_def Let_def split: option.splits if_splits)

lemma acquire_waiter: "fst (acquire r k fp) = Inr Waiter \<Longrightarrow> bm_has (rm_in_flight r) k"
  by (auto simp: acquire_def Let_def bm_has_def split: option.splits if_splits)

lemma admit_structured_frame:
  assumes "admit_structured sha frame p ck ctx = (oc, ctx')"
  shows "ac_prefix ctx' = ac_prefix ctx \<and> ac_registry ctx' = ac_registry ctx"
  using assms
proof (cases rule: admit_structured_cases)
  case (held fp c r)
  from held(6) show ?thesis by (cases rule: admit_held_cases) simp_all
qed simp_all

lemma admit_structured_queues:
  assumes "admit_structured sha frame p ck ctx = (oc, ctx')"
  shows "(\<exists>e l. oc = OcAccepted e
      \<and> resolve_inbound (ac_registry ctx) (dm_destination_endpoint frame)
          (\<lambda>policy. decide_for_endpoint (pc_trust (ac_prefix ctx)) p policy = Allowed) = Ok (e, l)
      \<and> fst (endpoint_push (ac_queues ctx) (event_of frame p e (ck_wall_ms ck))) = Ok ()
      \<and> ac_queues ctx' = snd (endpoint_push (ac_queues ctx) (event_of frame p e (ck_wall_ms ck))))
    \<or> (\<nexists>e. oc = OcAccepted e) \<and> ac_queues ctx' = ac_queues ctx"
  using assms
proof (cases rule: admit_structured_cases)
  case (held fp c r)
  from held(6) show ?thesis by (cases rule: admit_held_cases) simp_all
qed auto

lemma admit_structured_reservations:
  assumes "admit_structured sha frame p ck ctx = (oc, ctx')" "reservations_ok (ac_reservations ctx)"
  shows "if oc = OcAttachedAsWaiter then bm_has (rm_in_flight (ac_reservations ctx)) (dedup_key_of frame p)
    else ac_reservations ctx' = ac_reservations ctx"
  using assms(1)
proof (cases rule: admit_structured_cases)
  case (reserved fp c r)
  then show ?thesis using acquire_refused_state [of "ac_reservations ctx"] acquire_waiter by auto
next
  case (held fp c r)
  have "release (snd r) (dedup_key_of frame p) = ac_reservations ctx"
    using held(4,5) acquire_release [OF assms(2)] by simp
  with held(6) show ?thesis by (cases rule: admit_held_cases) simp_all
qed auto

text \<open>A route recorded for an explicit destination is that destination.\<close>

fun record_ok :: "dedup_op \<Rightarrow> bool" where
  "record_ok (OpRecord k route _ _) \<longleftrightarrow>
     (\<exists>p s sel m e. k = KDirect p s sel m \<and> route = RouteDirect e \<and> (sel = Explicit e \<or> sel = Default))"
| "record_ok _ \<longleftrightarrow> True"

lemma admit_held_record_ok:
  "resolve_inbound reg (dm_destination_endpoint frame) allowed = Ok (e, l) \<Longrightarrow>
     record_ok (OpRecord (dedup_key_of frame p) (RouteDirect e) fp t)"
  by (auto simp: dedup_key_of_def resolve_inbound_Inr)

text \<open>The calls one admission makes on the duplicate cache, all at its own time.\<close>

lemma admit_structured_calls:
  assumes "admit_structured sha frame p ck ctx = (oc, ctx')"
  obtains ops where "ac_dedup ctx' = foldl dedup_step (ac_dedup ctx) ops" "length ops \<le> 2"
    "\<forall>op\<in>set ops. op_time op = ck_monotonic_ms ck \<and> record_ok op"
  using assms
proof (cases rule: admit_structured_cases)
  case (unhashable e)
  then show thesis using that [of "[]"] by simp
next
  case (known fp c)
  then show thesis using that [of "[OpAdmit (dedup_key_of frame p) fp (ck_monotonic_ms ck)]"] by simp
next
  case (reserved fp c r)
  then show thesis using that [of "[OpAdmit (dedup_key_of frame p) fp (ck_monotonic_ms ck)]"] by simp
next
  case (held fp c r)
  let ?a = "OpAdmit (dedup_key_of frame p) fp (ck_monotonic_ms ck)"
  from held(6) show thesis
  proof (cases rule: admit_held_cases)
    case (accepted e l)
    have "record_ok (OpRecord (dedup_key_of frame p) (RouteDirect e) fp (ck_monotonic_ms ck))"
      using accepted(1) by (rule admit_held_record_ok)
    with accepted(4) show thesis
      using that [of "[?a, OpRecord (dedup_key_of frame p) (RouteDirect e) fp (ck_monotonic_ms ck)]"] held(2)
      by simp
  qed (use that [of "[?a]"] held(2) in simp_all)
qed

text \<open>An accepted message is recorded, under its own key and content.\<close>

lemma dedup_admit_Fresh_state:
  "fst (dedup_admit c k fp t) = Fresh \<Longrightarrow> snd (dedup_admit c k fp t) = dedup_expire c t"
  by (auto simp: dedup_admit_def Let_def split: option.splits if_splits)

lemma dedup_expire_again:
  "dedup_ok c \<Longrightarrow> bm_get (dc_entries (dedup_expire (dedup_expire c t) t)) k = bm_get (dc_entries (dedup_expire c t)) k"
  by (simp add: dedup_expire_get dedup_expire_ok split: option.splits)

lemma admit_structured_recorded:
  assumes "admit_structured sha frame p ck ctx = (OcAccepted e, ctx')" "dedup_ok (ac_dedup ctx)"
    "frame_fingerprint sha frame = Ok fp"
  shows "holds 0 (ac_dedup ctx') (dedup_key_of frame p)
    \<lparr>ar_route = RouteDirect e, ar_fingerprint = fp, ar_stored_at_ms = ck_monotonic_ms ck\<rparr>"
  using assms(1)
proof (cases rule: admit_structured_cases)
  case (held fp' c r)
  have ok: "dedup_ok (snd c)" unfolding held(2) by (rule dedup_admit_ok [OF assms(2)])
  have "bm_get (dc_entries (dedup_expire (ac_dedup ctx) (ck_monotonic_ms ck))) (dedup_key_of frame p) = None"
    using held(3) by (auto simp: held(2) dedup_admit_def Let_def split: option.splits if_splits)
  then have "fst (dedup_admit (snd c) (dedup_key_of frame p) fp (ck_monotonic_ms ck)) = Fresh"
    using held(3) dedup_expire_again [OF assms(2)]
    by (simp add: held(2) dedup_admit_Fresh_state) (simp add: dedup_admit_def Let_def)
  note recorded = record_accepted_holds [OF ok this, of "RouteDirect e" fp]
  from held(6) show ?thesis
    using recorded assms(3) held(1) by (cases rule: admit_held_cases) simp_all
qed auto

lemma admit_structured_known:
  assumes "holds n (ac_dedup ctx) (dedup_key_of frame p) r"
    "ck_monotonic_ms ck - ar_stored_at_ms r < dc_ttl_ms (ac_dedup ctx)"
    "frame_fingerprint sha frame = Ok fp" "ar_route r = RouteDirect e"
  shows "fst (admit_structured sha frame p ck ctx) =
      (if fp = ar_fingerprint r then OcDuplicateAccepted e else OcRefused DuplicateConflict)
    \<and> ac_queues (snd (admit_structured sha frame p ck ctx)) = ac_queues ctx"
proof -
  obtain oc ctx' where run: "admit_structured sha frame p ck ctx = (oc, ctx')"
    by (cases "admit_structured sha frame p ck ctx")
  from run show ?thesis
    using dedup_admit_holds [OF assms(1,2)] assms(3,4) run
    by (cases rule: admit_structured_cases) (auto split: if_splits)
qed

section \<open>Properties\<close>

text \<open>The gates run in order and touch nothing they should not: a peer the profile does not trust
  is refused without any change of state, a draining node refuses without charging a token,
  and a peer over its rate changes only the rate limiter; no refusal at the gates reaches the
  duplicate cache, the reservations or a queue.\<close>

theorem admission_gates:
  "(decide (pc_trust (ac_prefix ctx)) peer \<noteq> Allowed \<longrightarrow>
      admit_inbound sha frame peer ck ctx = (OcRefused UntrustedPeer, ctx))
   \<and> (decide (pc_trust (ac_prefix ctx)) peer = Allowed \<and> pc_draining (ac_prefix ctx) \<longrightarrow>
      admit_inbound sha frame peer ck ctx = (OcRefused Draining, ctx))
   \<and> (decide (pc_trust (ac_prefix ctx)) peer = Allowed \<and> \<not> pc_draining (ac_prefix ctx)
        \<and> \<not> is_ok (fst (limiter_admit (pc_ingress (ac_prefix ctx)) peer (ck_monotonic_ms ck))) \<longrightarrow>
      admit_inbound sha frame peer ck ctx =
        (OcRefused RateLimited,
         ctx\<lparr>ac_prefix := (ac_prefix ctx)\<lparr>pc_ingress :=
           snd (limiter_admit (pc_ingress (ac_prefix ctx)) peer (ck_monotonic_ms ck))\<rparr>\<rparr>))"
  by (auto simp: admit_inbound_parts admit_prefix_cases admit_prefix_state Let_def)

text \<open>C3. A message is accepted exactly when a queue took it.  An acceptance names the endpoint asked
  for, or the default when none was; that endpoint is configured, enabled, leased and open to
  the sender under profile and endpoint policy; and its queue grew by exactly this message,
  every other queue being as before.  Any other outcome leaves every queue as it was, and no
  outcome changes the registry or the trust in force.\<close>

theorem accepted_exactly_queued:
  assumes "admit_inbound sha frame peer ck ctx = (oc, ctx')"
  shows "(case oc of
      OcAccepted e \<Rightarrow>
        dm_destination_endpoint frame = Some e
          \<or> dm_destination_endpoint frame = None \<and> er_default (ac_registry ctx) = Some e
    | _ \<Rightarrow> ac_queues ctx' = ac_queues ctx)
    \<and> (\<forall>e. oc = OcAccepted e \<longrightarrow>
        (\<exists>c l. bm_get (er_endpoints (ac_registry ctx)) e = Some c \<and> re_enabled c
           \<and> lease (ac_registry ctx) e = Some l
           \<and> decide_for_endpoint (pc_trust (ac_prefix ctx)) peer (re_inbound c) = Allowed)
        \<and> (\<forall>k. waiting (ac_queues ctx') k =
             waiting (ac_queues ctx) k @ (if k = e then [event_of frame peer e (ck_wall_ms ck)] else [])))
    \<and> ac_registry ctx' = ac_registry ctx \<and> pc_trust (ac_prefix ctx') = pc_trust (ac_prefix ctx)"
proof (cases "fst (admit_prefix peer (ck_monotonic_ms ck) (ac_prefix ctx))")
  case (Inl f)
  with assms have "oc = OcRefused f" "ctx' = ctx\<lparr>ac_prefix := snd (admit_prefix peer (ck_monotonic_ms ck) (ac_prefix ctx))\<rparr>"
    by (auto simp: admit_inbound_parts Let_def)
  then show ?thesis by (simp add: admit_prefix_state)
next
  case (Inr u)
  let ?ctx = "ctx\<lparr>ac_prefix := snd (admit_prefix peer (ck_monotonic_ms ck) (ac_prefix ctx))\<rparr>"
  have run: "admit_structured sha frame peer ck ?ctx = (oc, ctx')"
    using assms Inr by (simp add: admit_inbound_parts Let_def)
  have trust: "pc_trust (ac_prefix ?ctx) = pc_trust (ac_prefix ctx)" by (simp add: admit_prefix_state)
  have dest: "de_destination_endpoint (event_of frame peer e t) = e" for e t by (simp add: event_of_def)
  show ?thesis
    using admit_structured_frame [OF run] admit_structured_queues [OF run] trust
    by (auto simp: resolve_inbound_Inr endpoint_push_waiting dest split: outcome.splits)
qed

text \<open>Admission settles what it reserves: in every reachable state of the reservation map, an
  admission that does not attach to a request already in flight leaves the map exactly as it
  found it, so no budget decays under retries; and it attaches only to a request that is in
  flight.\<close>

theorem admission_settles_reservation:
  assumes "ac_reservations ctx = foldl reservation_step (reservations_new g p) ops"
    and "admit_inbound sha frame peer ck ctx = (oc, ctx')"
  shows "if oc = OcAttachedAsWaiter then bm_has (rm_in_flight (ac_reservations ctx)) (dedup_key_of frame peer)
    else ac_reservations ctx' = ac_reservations ctx"
proof (cases "fst (admit_prefix peer (ck_monotonic_ms ck) (ac_prefix ctx))")
  case (Inl f)
  with assms(2) show ?thesis by (auto simp: admit_inbound_parts Let_def)
next
  case (Inr u)
  let ?ctx = "ctx\<lparr>ac_prefix := snd (admit_prefix peer (ck_monotonic_ms ck) (ac_prefix ctx))\<rparr>"
  have "reservations_ok (ac_reservations ctx)"
    by (simp add: assms(1) reservations.inv_run reservations_new_ok)
  moreover have "admit_structured sha frame peer ck ?ctx = (oc, ctx')"
    using assms(2) Inr by (simp add: admit_inbound_parts Let_def)
  ultimately show ?thesis using admit_structured_reservations [of sha frame peer ck ?ctx oc ctx']
    by (auto split: if_splits)
qed

text \<open>A concrete node: one trusted peer, one leased endpoint that is the default, its queue open.\<close>

definition sample_peer :: transport_identity where
  "sample_peer = TransportIdentity [3]"

definition sample_frame :: direct_message where
  "sample_frame =
    \<lparr>dm_message_id = MessageId [1], dm_sent_at_ms = 0, dm_source_endpoint = EndpointId [8],
     dm_destination_endpoint = None, dm_payload = \<lparr>payload_media = None, payload_bytes = [9]\<rparr>\<rparr>"

definition sample_context :: "bool \<Rightarrow> admission_context" where
  "sample_context draining =
    \<lparr>ac_prefix = \<lparr>pc_trust = \<lparr>tp_allowed_peers = [sample_peer], tp_local_peer = None\<rparr>,
        pc_ingress = limiter_new 60 1 60 1 0, pc_draining = draining\<rparr>,
     ac_dedup = dedup_new 4 100, ac_reservations = reservations_new 4 2,
     ac_registry = lease_step sample_registry sample_claim,
     ac_queues = queues_open [] (EndpointId [1]) 2\<rparr>"

definition sample_clocks :: "nat \<Rightarrow> clocks" where
  "sample_clocks t = \<lparr>ck_monotonic_ms = t, ck_wall_ms = 1000 + t\<rparr>"

abbreviation sample_admit :: "bool \<Rightarrow> transport_identity \<Rightarrow> nat \<Rightarrow> outcome \<times> admission_context" where
  "sample_admit draining peer t \<equiv>
     admit_inbound (\<lambda>x. []) sample_frame peer (sample_clocks t) (sample_context draining)"

lemma sample_accepted: "fst (sample_admit False sample_peer 5) = OcAccepted (EndpointId [1])"
  by code_simp

theorem admission_gates_witness:
  "sample_admit False (TransportIdentity [4]) 5 = (OcRefused UntrustedPeer, sample_context False)
   \<and> sample_admit True sample_peer 5 = (OcRefused Draining, sample_context True)
   \<and> fst (admit_inbound (\<lambda>x. []) sample_frame sample_peer (sample_clocks 6) (snd (sample_admit False sample_peer 5)))
       = OcRefused RateLimited"
proof -
  let ?ctx = "snd (sample_admit False sample_peer 5)"
  have "decide (pc_trust (ac_prefix (sample_context False))) (TransportIdentity [4]) \<noteq> Allowed" by code_simp
  moreover have "decide (pc_trust (ac_prefix (sample_context True))) sample_peer = Allowed
      \<and> pc_draining (ac_prefix (sample_context True))" by code_simp
  moreover have "decide (pc_trust (ac_prefix ?ctx)) sample_peer = Allowed \<and> \<not> pc_draining (ac_prefix ?ctx)
      \<and> \<not> is_ok (fst (limiter_admit (pc_ingress (ac_prefix ?ctx)) sample_peer (ck_monotonic_ms (sample_clocks 6))))"
    by code_simp
  ultimately show ?thesis
    using admission_gates [where sha = "\<lambda>x. []" and frame = sample_frame and ctx = "sample_context False"
        and peer = "TransportIdentity [4]" and ck = "sample_clocks 5"]
      admission_gates [where sha = "\<lambda>x. []" and frame = sample_frame and ctx = "sample_context True"
        and peer = sample_peer and ck = "sample_clocks 5"]
      admission_gates [where sha = "\<lambda>x. []" and frame = sample_frame and ctx = ?ctx
        and peer = sample_peer and ck = "sample_clocks 6"]
    by (metis fst_conv)
qed

theorem accepted_exactly_queued_witness:
  "waiting (ac_queues (snd (sample_admit False sample_peer 5))) (EndpointId [1])
     = [event_of sample_frame sample_peer (EndpointId [1]) 1005]
   \<and> ac_queues (snd (sample_admit True sample_peer 5)) = ac_queues (sample_context True)"
proof -
  let ?r = "sample_admit False sample_peer 5" and ?d = "sample_admit True sample_peer 5"
  have "waiting (ac_queues (sample_context False)) (EndpointId [1]) = []" by code_simp
  moreover have "ck_wall_ms (sample_clocks 5) = 1005" by code_simp
  moreover have "fst ?d = OcRefused Draining" by code_simp
  ultimately show ?thesis
    using sample_accepted
      accepted_exactly_queued [where oc = "fst ?r" and ctx' = "snd ?r", OF prod.collapse [symmetric]]
      accepted_exactly_queued [where oc = "fst ?d" and ctx' = "snd ?d", OF prod.collapse [symmetric]]
    by auto
qed

theorem admission_settles_reservation_witness:
  "fst (sample_admit False sample_peer 5) = OcAccepted (EndpointId [1])
   \<and> ac_reservations (snd (sample_admit False sample_peer 5)) = reservations_new 4 2"
proof -
  have start: "ac_reservations (sample_context False) = foldl reservation_step (reservations_new 4 2) []"
    by (simp add: sample_context_def)
  show ?thesis
    using sample_accepted start
      admission_settles_reservation [OF start prod.collapse [symmetric], of "\<lambda>x. []" sample_frame sample_peer "sample_clocks 5"]
    by simp
qed

end
