(* ===== verification/Direct_Codec.thy ===== *)
theory Direct_Codec
  imports Direct_Frame "HOL-Library.Code_Target_Nat"
begin

text \<open>
  The request-response codec of \<open>/interweave/direct/2.0.0\<close>,
  \<open>crates/transport/libp2p/src/direct_codec.rs\<close>: the bounded read of a substream, the parse a
  request gets once it is admitted, and the response encoding.  A substream is modelled by the
  bytes its sender writes before closing it; failures of the socket are not modelled.
\<close>

section \<open>Definitions\<close>

definition MAX_REQUEST_BYTES :: nat where
  "MAX_REQUEST_BYTES =
    16 + 8 + (1 + ENDPOINT_MAX_BYTES) + (1 + ENDPOINT_MAX_BYTES) + (1 + MAX_MEDIA_TYPE_BYTES)
    + (4 + MAX_PAYLOAD_BYTES)"

definition MAX_RESPONSE_BYTES :: nat where
  "MAX_RESPONSE_BYTES = 1 + 16 + 1 + ENDPOINT_MAX_BYTES"

datatype direct_response =
    RespAccepted message_id endpoint_id
  | RespRejected message_id direct_reject_reason

definition TAG_ACCEPTED :: byte where "TAG_ACCEPTED = 1"
definition TAG_REJECTED :: byte where "TAG_REJECTED = 2"

fun reason_code :: "direct_reject_reason \<Rightarrow> byte" where
  "reason_code RjNoRoute = 1"
| "reason_code RjUnauthorizedPeer = 2"
| "reason_code RjOverloaded = 3"
| "reason_code RjMalformed = 4"
| "reason_code RjTooLarge = 5"
| "reason_code RjShuttingDown = 6"
| "reason_code RjUnsupported = 7"

definition reason_from_code :: "byte \<Rightarrow> direct_reject_reason option" where
  "reason_from_code code =
    (if code = 1 then Some RjNoRoute
     else if code = 2 then Some RjUnauthorizedPeer
     else if code = 3 then Some RjOverloaded
     else if code = 4 then Some RjMalformed
     else if code = 5 then Some RjTooLarge
     else if code = 6 then Some RjShuttingDown
     else if code = 7 then Some RjUnsupported
     else None)"

definition read_bounded_or_oversize :: "bytes \<Rightarrow> nat \<Rightarrow> bytes \<times> bool" where
  "read_bounded_or_oversize stream limit =
    (let buffer = take (limit + 1) stream in (buffer, length buffer > limit))"

definition read_bounded :: "bytes \<Rightarrow> nat \<Rightarrow> bytes option" where
  "read_bounded stream limit =
    (let (buffer, oversize) = read_bounded_or_oversize stream limit
     in if oversize then None else Some buffer)"

definition recover_id :: "bytes \<Rightarrow> message_id option" where
  "recover_id bytes =
    (if length bytes < MESSAGE_ID_LEN then None else Some (MessageId (take MESSAGE_ID_LEN bytes)))"

definition parse_inbound ::
  "bytes \<Rightarrow> bool \<Rightarrow> nat \<Rightarrow> (message_id option \<times> direct_reject_reason) + direct_message" where
  "parse_inbound bytes oversize max_payload_bytes =
    (if oversize then
       let reason =
         (case declared_payload_len bytes of
            Inr declared \<Rightarrow> if declared > max_payload_bytes then RjTooLarge else RjMalformed
          | Inl _ \<Rightarrow> RjMalformed)
       in Err (recover_id bytes, reason)
     else map_err (\<lambda>error. (recover_id bytes, frame_error_to_wire error))
            (direct_decode bytes max_payload_bytes))"

datatype response_error =
    ReOversize nat
  | ReEmpty
  | ReNoMessageId
  | ReNoLength
  | ReNoEndpoint
  | ReLabelLength nat nat
  | ReNotUtf8
  | ReIllegalLabel id_error
  | ReNoReason
  | ReTrailing nat
  | ReUnassignedReason byte
  | ReUnknownTag byte

fun encode_response :: "direct_response \<Rightarrow> bytes" where
  "encode_response (RespAccepted message_id resolved_endpoint) =
    [TAG_ACCEPTED] @ message_bytes message_id
    @ put_u8_prefixed (endpoint_str resolved_endpoint)"
| "encode_response (RespRejected message_id reason) =
    [TAG_REJECTED] @ message_bytes message_id @ [reason_code reason]"

definition decode_accepted :: "message_id \<Rightarrow> bytes \<Rightarrow> response_error + direct_response" where
  "decode_accepted message_id rest =
    (case rest of
       [] \<Rightarrow> Err ReNoLength
     | len # label \<Rightarrow>
         if unat len = 0 then Err ReNoEndpoint
         else if length label \<noteq> unat len then Err (ReLabelLength (unat len) (length label))
         else if \<not> utf8_ok label then Err ReNotUtf8
         else and_then (map_err ReIllegalLabel (endpoint_parse label))
                (\<lambda>resolved_endpoint. Ok (RespAccepted message_id resolved_endpoint)))"

definition decode_rejected :: "message_id \<Rightarrow> bytes \<Rightarrow> response_error + direct_response" where
  "decode_rejected message_id rest =
    (case rest of
       [] \<Rightarrow> Err ReNoReason
     | code # extra \<Rightarrow>
         if extra \<noteq> [] then Err (ReTrailing (length extra))
         else (case reason_from_code code of
                 None \<Rightarrow> Err (ReUnassignedReason code)
               | Some reason \<Rightarrow> Ok (RespRejected message_id reason)))"

definition decode_response :: "bytes \<Rightarrow> response_error + direct_response" where
  "decode_response bytes =
    (case bytes of
       [] \<Rightarrow> Err ReEmpty
     | tag # rest \<Rightarrow>
         if length rest < 16 then Err ReNoMessageId
         else
           let message_id = MessageId (take 16 rest); rest = drop 16 rest in
           if tag = TAG_ACCEPTED then decode_accepted message_id rest
           else if tag = TAG_REJECTED then decode_rejected message_id rest
           else Err (ReUnknownTag tag))"

definition read_request :: "bytes \<Rightarrow> bytes \<times> bool" where
  "read_request stream = read_bounded_or_oversize stream MAX_REQUEST_BYTES"

definition read_response :: "bytes \<Rightarrow> response_error + direct_response" where
  "read_response stream =
    (case read_bounded stream MAX_RESPONSE_BYTES of
       None \<Rightarrow> Err (ReOversize MAX_RESPONSE_BYTES)
     | Some bytes \<Rightarrow> decode_response bytes)"

section \<open>Lemmas\<close>

lemma reason_from_reason_code [simp]: "reason_from_code (reason_code r) = Some r"
  by (cases r) (simp_all add: reason_from_code_def)

lemma reason_from_code_Some: "reason_from_code code = Some r \<Longrightarrow> reason_code r = code"
  by (auto simp: reason_from_code_def split: if_splits)

fun response_ok :: "direct_response \<Rightarrow> bool" where
  "response_ok (RespAccepted m e) \<longleftrightarrow> message_id_ok m \<and> endpoint_ok e"
| "response_ok (RespRejected m _) \<longleftrightarrow> message_id_ok m"

lemma endpoint_ok_length: "endpoint_ok e \<Longrightarrow> 0 < length (endpoint_str e) \<and> length (endpoint_str e) \<le> 64"
  by (simp add: endpoint_ok_def ENDPOINT_MAX_BYTES_def)

lemma take_drop_eq: "drop n xs = ys \<Longrightarrow> take n xs @ ys = xs"
  by auto

interpretation response: strict_codec encode_response decode_response response_ok
proof
  fix m assume ok: "response_ok m"
  then show "decode_response (encode_response m) = Inr m"
  proof (cases m)
    case (RespAccepted i e)
    then have "length (message_bytes i) = 16" "endpoint_ok e"
      using ok by (simp_all add: message_id_ok_def MESSAGE_ID_LEN_def)
    moreover from this have "0 < length (endpoint_str e)" "length (endpoint_str e) < 256"
      using endpoint_ok_length by fastforce+
    moreover have "endpoint_parse (endpoint_str e) = Inr e"
      using \<open>endpoint_ok e\<close> by (simp add: endpoint_parse_iff)
    ultimately show ?thesis
      by (simp add: RespAccepted decode_response_def decode_accepted_def put_u8_prefixed_def u8_len_def
          unat_of_nat endpoint_ok_utf8 TAG_ACCEPTED_def Let_def)
  next
    case (RespRejected i r)
    then show ?thesis
      using ok by (simp add: message_id_ok_def MESSAGE_ID_LEN_def decode_response_def decode_rejected_def
          TAG_ACCEPTED_def TAG_REJECTED_def Let_def)
  qed
next
  fix w m assume "decode_response w = Inr m"
  then show "encode_response m = w"
    by (auto simp: decode_response_def decode_accepted_def decode_rejected_def and_then_eq_Inr
        endpoint_parse_iff put_u8_prefixed_def Let_def intro: take_drop_eq dest!: reason_from_code_Some
        split: list.splits if_splits option.splits)
next
  fix w m assume "decode_response w = Inr m"
  then show "response_ok m"
    by (auto simp: decode_response_def decode_accepted_def decode_rejected_def and_then_eq_Inr
        endpoint_parse_iff message_id_ok_def MESSAGE_ID_LEN_def Let_def split: list.splits if_splits option.splits)
qed

lemma length_encode_response: "response_ok r \<Longrightarrow> length (encode_response r) \<le> MAX_RESPONSE_BYTES"
  by (cases r) (auto simp: put_u8_prefixed_def message_id_ok_def MESSAGE_ID_LEN_def MAX_RESPONSE_BYTES_def
      endpoint_ok_def ENDPOINT_MAX_BYTES_def)

lemma length_direct_encode: "direct_ok limit m \<Longrightarrow> length (direct_encode m) \<le> MAX_REQUEST_BYTES"
  by (cases "dm_destination_endpoint m"; cases "payload_media (dm_payload m)")
    (auto simp: direct_ok_def direct_encode_def put_u8_prefixed_def message_id_ok_def MESSAGE_ID_LEN_def
      MAX_REQUEST_BYTES_def payload_ok_def media_ok_def endpoint_ok_def u32_len_be_def Let_def)

lemma refused_too_large:
  "direct_decode w limit = Err e \<Longrightarrow>
     frame_error_to_wire e = RjTooLarge \<longleftrightarrow> (\<exists>n. declared_payload_len w = Ok n \<and> min limit MAX_PAYLOAD_BYTES < n)"
  using direct_decode_too_large [of w limit]
  by (auto simp: to_wire_too_large declared_payload_len_def and_then_eq_Inr)

section \<open>Properties\<close>

text \<open>The response codec is strict, bound included: what a responder writes on the substream is
  read as a response exactly when it is the encoding of that response with a well-formed id and
  label; an unassigned reason or tag, trailing bytes and an over-long answer are refused.\<close>

theorem response_codec_strict:
  "read_response stream = Ok r \<longleftrightarrow> response_ok r \<and> encode_response r = stream"
proof (cases "length stream \<le> MAX_RESPONSE_BYTES")
  case True
  then show ?thesis
    using response.accepted_iff [of stream r]
    by (simp add: read_response_def read_bounded_def read_bounded_or_oversize_def Let_def)
next
  case False
  then show ?thesis
    using length_encode_response [of r]
    by (auto simp: read_response_def read_bounded_def read_bounded_or_oversize_def Let_def)
qed

text \<open>C29. Cutting a request at its ceiling never changes what it says: whatever a peer writes on the
  substream, the bounded read followed by the deferred parse yields a message exactly when the
  whole stream is the encoding of that message, well formed under the profile's limit.\<close>

theorem request_read_exact:
  "(case read_request stream of
      (bytes, oversize) \<Rightarrow> parse_inbound bytes oversize limit = Ok m)
   \<longleftrightarrow> direct_ok limit m \<and> direct_encode m = stream"
proof (cases "length stream \<le> MAX_REQUEST_BYTES")
  case True
  then show ?thesis
    using direct.accepted_iff [where limit = limit and w = stream and m = m]
    by (simp add: read_request_def read_bounded_or_oversize_def parse_inbound_def Let_def)
next
  case False
  then show ?thesis
    using length_direct_encode [of limit m]
    by (auto simp: read_request_def read_bounded_or_oversize_def parse_inbound_def Let_def)
qed

text \<open>C40. A request that does not parse is answered under the id it carries, and \<open>too_large\<close> only
  when that is the trouble: the answer is \<open>too_large\<close> exactly when the header is sound and
  declares more than the limit, and \<open>malformed\<close> otherwise, whether or not the stream overran its
  ceiling; and it goes unanswered exactly when fewer than sixteen bytes arrived.\<close>

theorem request_refusal:
  assumes "limit \<le> MAX_PAYLOAD_BYTES" and "parse_inbound bytes oversize limit = Err (i, reason)"
  shows "reason = (case declared_payload_len bytes of
      Inr n \<Rightarrow> if n > limit then RjTooLarge else RjMalformed | Inl _ \<Rightarrow> RjMalformed)
    \<and> (i = None \<longleftrightarrow> length bytes < 16) \<and> (i \<noteq> None \<longrightarrow> i = Some (MessageId (take 16 bytes)))"
proof -
  have id: "i = recover_id bytes"
    using assms(2) by (auto simp: parse_inbound_def Let_def map_err_eq_Inl split: if_splits)
  have "reason = (case declared_payload_len bytes of
      Inr n \<Rightarrow> if n > limit then RjTooLarge else RjMalformed | Inl _ \<Rightarrow> RjMalformed)"
  proof (cases oversize)
    case True
    then show ?thesis using assms(2) by (simp add: parse_inbound_def Let_def)
  next
    case False
    then obtain e where e: "direct_decode bytes limit = Err e" "reason = frame_error_to_wire e"
      using assms(2) by (auto simp: parse_inbound_def map_err_eq_Inl)
    have wire: "frame_error_to_wire e \<in> {RjTooLarge, RjMalformed}" by (cases e) simp_all
    have "frame_error_to_wire e = RjTooLarge \<longleftrightarrow> (\<exists>n. declared_payload_len bytes = Ok n \<and> limit < n)"
      using refused_too_large [of bytes limit e] e(1) assms(1) by simp
    then show ?thesis using wire e(2) by (auto split: sum.splits)
  qed
  with id show ?thesis by (simp add: recover_id_def MESSAGE_ID_LEN_def)
qed

theorem request_refusal_witness:
  "parse_inbound (replicate 25 0) False 10 = Err (Some (MessageId (replicate 16 0)), RjMalformed)
   \<and> parse_inbound [1, 2] False 10 = Err (None, RjMalformed)"
proof -
  have a: "parse_inbound (replicate 25 0) False 10 = Err (Some (MessageId (replicate 16 0)), RjMalformed)"
    by code_simp
  have b: "parse_inbound [1, 2] False 10 = Err (None, RjMalformed)" by code_simp
  have "10 \<le> MAX_PAYLOAD_BYTES" by (simp add: MAX_PAYLOAD_BYTES_def)
  then show ?thesis using request_refusal [OF _ a] request_refusal [OF _ b] a b by simp
qed

end
