(* ===== verification/Directory.thy ===== *)
theory Directory
  imports Ingress Endpoint_Registry "HOL-Library.Multiset"
begin

text \<open>
  The endpoint directory, requester and budget: \<open>crates/transport/runtime/src/directory.rs\<close> and
  the shapes of \<open>crates/api/transport-api/src/endpoint_directory.rs\<close>.  A list from a peer is
  validated, clamped in freshness and cached in a bounded map; queries are charged per peer and
  counted in flight.
\<close>

section \<open>Definitions\<close>

definition MAX_DIRECTORY_TTL_MS :: nat where "MAX_DIRECTORY_TTL_MS = 300000"
definition DEFAULT_CACHE_TTL_MS :: nat where "DEFAULT_CACHE_TTL_MS = 60000"
definition DEFAULT_ADVERTISED_TTL_MS :: nat where "DEFAULT_ADVERTISED_TTL_MS = DEFAULT_CACHE_TTL_MS"
definition DEFAULT_CACHE_PEERS :: nat where "DEFAULT_CACHE_PEERS = 64"
definition DEFAULT_QUERIES_PER_PEER_PER_MINUTE :: nat where "DEFAULT_QUERIES_PER_PEER_PER_MINUTE = 12"
definition MAX_QUERIES_PER_PEER_PER_MINUTE :: nat where "MAX_QUERIES_PER_PEER_PER_MINUTE = 60"
definition DEFAULT_MAX_INFLIGHT :: nat where "DEFAULT_MAX_INFLIGHT = 16"
definition MAX_INFLIGHT_CEILING :: nat where "MAX_INFLIGHT_CEILING = 64"

record endpoint_directory =
  ed_generated_at_ms :: nat
  ed_ttl_ms :: nat
  ed_endpoints :: "endpoint_id list"

datatype directory_refusal = DrOverloaded | DrUnauthorized | DrUnavailable

datatype budget_denial = PeerExhausted | InFlightExhausted
datatype budget_config_error = BcQueriesPerPeer nat | BcMaxInflight nat

record directory_budget =
  db_per_peer :: ingress_limiter
  db_inflight :: nat
  db_max_inflight :: nat

definition budget_with_defaults :: "nat \<Rightarrow> directory_budget" where
  "budget_with_defaults now_ms =
    \<lparr>db_per_peer = limiter_per_peer_only DEFAULT_QUERIES_PER_PEER_PER_MINUTE
        DEFAULT_QUERIES_PER_PEER_PER_MINUTE now_ms,
     db_inflight = 0, db_max_inflight = DEFAULT_MAX_INFLIGHT\<rparr>"

definition budget_reserve :: "directory_budget \<Rightarrow> (budget_denial + unit) \<times> directory_budget" where
  "budget_reserve b =
    (if db_inflight b \<ge> db_max_inflight b then (Err InFlightExhausted, b)
     else (Ok (), b\<lparr>db_inflight := db_inflight b + 1\<rparr>))"

definition charge_rate ::
  "directory_budget \<Rightarrow> transport_identity \<Rightarrow> nat \<Rightarrow> (budget_denial + unit) \<times> directory_budget" where
  "charge_rate b peer now_ms =
    (let (r, l) = limiter_admit (db_per_peer b) peer now_ms
     in ((case r of Inr _ \<Rightarrow> Ok () | Inl _ \<Rightarrow> Err PeerExhausted), b\<lparr>db_per_peer := l\<rparr>))"

definition end_exchange :: "directory_budget \<Rightarrow> directory_budget" where
  "end_exchange b = b\<lparr>db_inflight := db_inflight b - 1\<rparr>"

definition set_limits ::
  "directory_budget \<Rightarrow> nat \<Rightarrow> nat \<Rightarrow> nat \<Rightarrow> (budget_config_error + unit) \<times> directory_budget" where
  "set_limits b queries max_inflight now_ms =
    (if queries = 0 \<or> queries > MAX_QUERIES_PER_PEER_PER_MINUTE then (Err (BcQueriesPerPeer queries), b)
     else if max_inflight = 0 \<or> max_inflight > MAX_INFLIGHT_CEILING then (Err (BcMaxInflight max_inflight), b)
     else (Ok (), b\<lparr>db_per_peer := limiter_per_peer_only queries queries now_ms,
                    db_max_inflight := max_inflight\<rparr>))"

datatype directory_violation = TooManyEntries nat | DuplicateEntry endpoint_id

record validated_directory =
  vd_endpoints :: "endpoint_id list"
  vd_ttl_ms :: nat
  vd_generated_at_ms :: nat
  vd_noncanonical :: bool

fun ascending :: "'a :: linorder list \<Rightarrow> bool" where
  "ascending (a # b # xs) \<longleftrightarrow> a \<le> b \<and> ascending (b # xs)"
| "ascending _ \<longleftrightarrow> True"

fun adjacent_dup :: "'a list \<Rightarrow> 'a option" where
  "adjacent_dup (a # b # xs) = (if a = b then Some a else adjacent_dup (b # xs))"
| "adjacent_dup _ = None"

definition validate_directory :: "endpoint_directory \<Rightarrow> directory_violation + validated_directory" where
  "validate_directory raw =
    (if length (ed_endpoints raw) > MAX_DIRECTORY_ENTRIES then Err (TooManyEntries (length (ed_endpoints raw)))
     else
       let endpoints = sort (ed_endpoints raw) in
       (case adjacent_dup endpoints of
          Some dup \<Rightarrow> Err (DuplicateEntry dup)
        | None \<Rightarrow>
            Ok \<lparr>vd_endpoints = endpoints, vd_ttl_ms = ed_ttl_ms raw,
                vd_generated_at_ms = ed_generated_at_ms raw,
                vd_noncanonical = (\<not> ascending (ed_endpoints raw))\<rparr>))"

definition clamp_ttl :: "nat \<Rightarrow> nat \<Rightarrow> nat" where
  "clamp_ttl remote_ttl_ms local_cache_ttl_ms =
    (let loc = (if local_cache_ttl_ms < MAX_DIRECTORY_TTL_MS then local_cache_ttl_ms else MAX_DIRECTORY_TTL_MS)
     in if remote_ttl_ms < loc then remote_ttl_ms else loc)"

record cache_entry =
  ce_endpoints :: "endpoint_id list"
  ce_received_at_ms :: nat
  ce_fresh_until_ms :: nat
  ce_generated_at_ms :: nat
  ce_noncanonical :: bool

record directory_cache =
  dca_entries :: "(transport_identity, cache_entry) bmap"
  dca_max_peers :: nat
  dca_local_ttl_ms :: nat

definition directory_cache_new :: "nat \<Rightarrow> nat \<Rightarrow> directory_cache" where
  "directory_cache_new max_peers local_ttl_ms =
    \<lparr>dca_entries = [], dca_max_peers = max max_peers 1, dca_local_ttl_ms = local_ttl_ms\<rparr>"

definition cache_expire :: "directory_cache \<Rightarrow> nat \<Rightarrow> directory_cache" where
  "cache_expire c now_ms =
    c\<lparr>dca_entries := bm_retain (\<lambda>_ e. now_ms < ce_fresh_until_ms e) (dca_entries c)\<rparr>"

text \<open>The first entry, in key order, of those received earliest.\<close>

definition oldest_receipt :: "('p \<times> cache_entry) list \<Rightarrow> 'p option" where
  "oldest_receipt m = map_option fst (min_by_key (\<lambda>(_, e). ce_received_at_ms e) m)"

definition cache_insert ::
  "directory_cache \<Rightarrow> transport_identity \<Rightarrow> validated_directory \<Rightarrow> nat \<Rightarrow> cache_entry \<times> directory_cache" where
  "cache_insert c peer validated now_ms =
    (let c = (if \<not> bm_has (dca_entries c) peer \<and> length (dca_entries c) \<ge> dca_max_peers c then
                let c = cache_expire c now_ms in
                (case oldest_receipt (dca_entries c) of
                   None \<Rightarrow> c
                 | Some oldest \<Rightarrow>
                     if length (dca_entries c) \<ge> dca_max_peers c
                     then c\<lparr>dca_entries := bm_remove oldest (dca_entries c)\<rparr> else c)
              else c);
         ttl = clamp_ttl (vd_ttl_ms validated) (dca_local_ttl_ms c);
         entry = \<lparr>ce_endpoints = vd_endpoints validated, ce_received_at_ms = now_ms,
                  ce_fresh_until_ms = sat_add64 now_ms ttl,
                  ce_generated_at_ms = vd_generated_at_ms validated,
                  ce_noncanonical = vd_noncanonical validated\<rparr>
     in (entry, c\<lparr>dca_entries := bm_insert peer entry (dca_entries c)\<rparr>))"

definition set_local_ttl :: "directory_cache \<Rightarrow> nat \<Rightarrow> directory_cache" where
  "set_local_ttl c local_ttl_ms =
    c\<lparr>dca_local_ttl_ms := local_ttl_ms,
      dca_entries := bm_map_values
        (\<lambda>e. e\<lparr>ce_fresh_until_ms :=
           min (ce_fresh_until_ms e) (sat_add64 (ce_received_at_ms e) local_ttl_ms)\<rparr>) (dca_entries c)\<rparr>"

definition cache_get :: "directory_cache \<Rightarrow> transport_identity \<Rightarrow> nat \<Rightarrow> cache_entry option" where
  "cache_get c peer now_ms =
    (case bm_get (dca_entries c) peer of
       None \<Rightarrow> None
     | Some e \<Rightarrow> if now_ms < ce_fresh_until_ms e then Some e else None)"

definition cache_forget :: "directory_cache \<Rightarrow> transport_identity \<Rightarrow> bool \<times> directory_cache" where
  "cache_forget c peer =
    (bm_has (dca_entries c) peer, c\<lparr>dca_entries := bm_remove peer (dca_entries c)\<rparr>)"

section \<open>Validation\<close>

lemma ascending_sorted: "ascending xs \<longleftrightarrow> sorted xs"
  by (induction xs rule: ascending.induct) (auto intro: order_trans)

lemma adjacent_dup_None: "sorted xs \<Longrightarrow> adjacent_dup xs = None \<longleftrightarrow> distinct xs"
  by (induction xs rule: adjacent_dup.induct) (auto dest: antisym)

lemma adjacent_dup_Some: "adjacent_dup xs = Some a \<Longrightarrow> a \<in> set xs"
  by (induction xs rule: adjacent_dup.induct) (auto split: if_splits)

lemma validate_directory_Ok:
  "validate_directory raw = Ok v \<longleftrightarrow>
     length (ed_endpoints raw) \<le> MAX_DIRECTORY_ENTRIES \<and> distinct (ed_endpoints raw) \<and>
     v = \<lparr>vd_endpoints = sort (ed_endpoints raw), vd_ttl_ms = ed_ttl_ms raw,
          vd_generated_at_ms = ed_generated_at_ms raw, vd_noncanonical = (\<not> sorted (ed_endpoints raw))\<rparr>"
  using adjacent_dup_None [of "sort (ed_endpoints raw)"]
  by (auto simp: validate_directory_def Let_def ascending_sorted split: option.splits)

section \<open>The cache\<close>

lemma clamp_ttl_eq: "clamp_ttl remote loc = min remote (min loc MAX_DIRECTORY_TTL_MS)"
  by (simp add: clamp_ttl_def Let_def)

definition entry_ok :: "cache_entry \<Rightarrow> bool" where
  "entry_ok e \<longleftrightarrow>
     sorted (ce_endpoints e) \<and> distinct (ce_endpoints e) \<and> length (ce_endpoints e) \<le> MAX_DIRECTORY_ENTRIES \<and>
     ce_fresh_until_ms e \<le> ce_received_at_ms e + MAX_DIRECTORY_TTL_MS"

definition directory_cache_ok :: "directory_cache \<Rightarrow> bool" where
  "directory_cache_ok c \<longleftrightarrow>
     bm_ok (dca_entries c) \<and> length (dca_entries c) \<le> dca_max_peers c \<and> 0 < dca_max_peers c \<and>
     (\<forall>p e. bm_get (dca_entries c) p = Some e \<longrightarrow>
        entry_ok e \<and> ce_fresh_until_ms e \<le> ce_received_at_ms e + dca_local_ttl_ms c)"

lemma oldest_receipt_in: "oldest_receipt m = Some p \<Longrightarrow> bm_has m p"
  by (auto simp: oldest_receipt_def bm_has_keys dest!: min_by_key_Some intro: rev_image_eqI)

lemma oldest_receipt_None: "oldest_receipt m = None \<longleftrightarrow> m = []" "oldest_receipt [] = None"
  by (simp_all add: oldest_receipt_def)

text \<open>Making room: what is left is a part of what was there, below the bound.\<close>

definition make_room :: "directory_cache \<Rightarrow> nat \<Rightarrow> directory_cache" where
  "make_room c now_ms =
    (let c = cache_expire c now_ms in
     (case oldest_receipt (dca_entries c) of
        None \<Rightarrow> c
      | Some oldest \<Rightarrow>
          if length (dca_entries c) \<ge> dca_max_peers c
          then c\<lparr>dca_entries := bm_remove oldest (dca_entries c)\<rparr> else c))"

lemma make_room_bounds [simp]:
  "dca_max_peers (make_room c now) = dca_max_peers c" "dca_local_ttl_ms (make_room c now) = dca_local_ttl_ms c"
  by (simp_all add: make_room_def cache_expire_def Let_def split: option.splits)

lemma make_room_length:
  assumes "directory_cache_ok c"
  shows "length (dca_entries (make_room c now)) < dca_max_peers c"
proof -
  let ?m = "dca_entries (cache_expire c now)"
  have len: "length ?m \<le> dca_max_peers c" and ok: "bm_ok ?m" and pos: "0 < dca_max_peers c"
    using assms length_bm_retain_le [of _ "dca_entries c"]
    by (auto simp: cache_expire_def directory_cache_ok_def intro: order_trans)
  show ?thesis
  proof (cases "oldest_receipt ?m")
    case None
    then show ?thesis using pos by (simp add: make_room_def Let_def oldest_receipt_None)
  next
    case (Some p)
    then show ?thesis
      using len ok pos oldest_receipt_in [OF Some]
      by (auto simp: make_room_def Let_def length_bm_remove cache_expire_def)
  qed
qed

lemma make_room_get:
  assumes "directory_cache_ok c" "bm_get (dca_entries (make_room c now)) p = Some e"
  shows "bm_get (dca_entries c) p = Some e"
  using assms
  by (auto simp: make_room_def cache_expire_def Let_def directory_cache_ok_def bm_get_retain
      split: option.splits if_splits)

lemma make_room_ok: "directory_cache_ok c \<Longrightarrow> bm_ok (dca_entries (make_room c now))"
  by (simp add: make_room_def cache_expire_def Let_def directory_cache_ok_def split: option.splits)

lemma cache_insert_eq:
  "cache_insert c peer v now =
    (let c = (if \<not> bm_has (dca_entries c) peer \<and> length (dca_entries c) \<ge> dca_max_peers c
              then make_room c now else c);
         entry = \<lparr>ce_endpoints = vd_endpoints v, ce_received_at_ms = now,
                  ce_fresh_until_ms = sat_add64 now (clamp_ttl (vd_ttl_ms v) (dca_local_ttl_ms c)),
                  ce_generated_at_ms = vd_generated_at_ms v, ce_noncanonical = vd_noncanonical v\<rparr>
     in (entry, c\<lparr>dca_entries := bm_insert peer entry (dca_entries c)\<rparr>))"
  by (simp add: cache_insert_def make_room_def Let_def)

lemma fresh_until_le:
  "sat_add64 now (clamp_ttl remote loc) \<le> now + MAX_DIRECTORY_TTL_MS"
  "sat_add64 now (clamp_ttl remote loc) \<le> now + loc"
  using sat_add64_le(1) [of now "clamp_ttl remote loc"] by (simp_all add: clamp_ttl_eq)

lemma cache_extend_ok:
  assumes "directory_cache_ok c" "bm_ok (dca_entries c')"
    "dca_max_peers c' = dca_max_peers c" "dca_local_ttl_ms c' = dca_local_ttl_ms c"
    "length (bm_insert p e (dca_entries c')) \<le> dca_max_peers c"
    "\<And>q x. bm_get (dca_entries c') q = Some x \<Longrightarrow> bm_get (dca_entries c) q = Some x"
    "entry_ok e" "ce_fresh_until_ms e \<le> ce_received_at_ms e + dca_local_ttl_ms c"
  shows "directory_cache_ok (c'\<lparr>dca_entries := bm_insert p e (dca_entries c')\<rparr>)"
  using assms unfolding directory_cache_ok_def by simp blast

lemma cache_insert_ok:
  assumes "directory_cache_ok c" "validate_directory raw = Ok v"
  shows "directory_cache_ok (snd (cache_insert c peer v now))"
proof -
  have v: "sorted (vd_endpoints v)" "distinct (vd_endpoints v)" "length (vd_endpoints v) \<le> MAX_DIRECTORY_ENTRIES"
    using assms(2) by (auto simp: validate_directory_Ok)
  let ?room = "\<not> bm_has (dca_entries c) peer \<and> length (dca_entries c) \<ge> dca_max_peers c"
  let ?c = "if ?room then make_room c now else c"
  have "bm_ok (dca_entries ?c)" using assms(1) make_room_ok by (simp add: directory_cache_ok_def)
  moreover have "length (bm_insert peer e (dca_entries ?c)) \<le> dca_max_peers c" for e
  proof (cases "bm_has (dca_entries ?c) peer")
    case True
    have "length (dca_entries ?c) \<le> dca_max_peers c"
      using assms(1) make_room_length [OF assms(1), of now] by (auto simp: directory_cache_ok_def)
    with True show ?thesis by (simp add: length_bm_insert calculation)
  next
    case False
    have "length (dca_entries ?c) < dca_max_peers c"
      using False make_room_length [OF assms(1), of now] by (auto split: if_splits)
    with False show ?thesis by (simp add: length_bm_insert calculation)
  qed
  moreover have "bm_get (dca_entries ?c) p = Some e \<Longrightarrow> bm_get (dca_entries c) p = Some e" for p e
    using make_room_get [OF assms(1)] by (auto split: if_splits)
  moreover let ?e = "fst (cache_insert c peer v now)"
  have "entry_ok ?e" "ce_fresh_until_ms ?e \<le> ce_received_at_ms ?e + dca_local_ttl_ms c"
    using v by (simp_all add: cache_insert_eq entry_ok_def fresh_until_le Let_def)
  moreover have "snd (cache_insert c peer v now) = ?c\<lparr>dca_entries := bm_insert peer ?e (dca_entries ?c)\<rparr>"
    by (simp add: cache_insert_eq Let_def)
  moreover have "dca_max_peers ?c = dca_max_peers c" "dca_local_ttl_ms ?c = dca_local_ttl_ms c" by simp_all
  ultimately show ?thesis using cache_extend_ok [OF assms(1), of ?c peer ?e] by presburger
qed

lemma set_local_ttl_ok: "directory_cache_ok c \<Longrightarrow> directory_cache_ok (set_local_ttl c t)"
  by (auto simp: directory_cache_ok_def set_local_ttl_def entry_ok_def min_le_iff_disj sat_add64_le(1))

lemma cache_forget_ok: "directory_cache_ok c \<Longrightarrow> directory_cache_ok (snd (cache_forget c p))"
  by (auto simp: directory_cache_ok_def cache_forget_def split: if_splits
      intro: order_trans [OF length_bm_remove_le])

text \<open>One call on the cache; a list is inserted only when it validates.\<close>

datatype cache_op =
    CaReceive transport_identity endpoint_directory nat
  | CaSetTtl nat
  | CaForget transport_identity

fun cache_step :: "directory_cache \<Rightarrow> cache_op \<Rightarrow> directory_cache" where
  "cache_step c (CaReceive p raw now) =
    (case validate_directory raw of Inl _ \<Rightarrow> c | Inr v \<Rightarrow> snd (cache_insert c p v now))"
| "cache_step c (CaSetTtl t) = set_local_ttl c t"
| "cache_step c (CaForget p) = snd (cache_forget c p)"

interpretation directory_calls: stepwise cache_step directory_cache_ok
proof
  show "directory_cache_ok (cache_step c op)" if "directory_cache_ok c" for c op
    using that
    by (cases op) (auto simp: cache_insert_ok set_local_ttl_ok cache_forget_ok split: sum.splits)
qed

lemma directory_cache_new_ok: "directory_cache_ok (directory_cache_new n t)"
  by (simp add: directory_cache_ok_def directory_cache_new_def)

lemma cache_step_max: "dca_max_peers (cache_step c op) = dca_max_peers c"
  by (cases op) (auto simp: cache_insert_eq set_local_ttl_def cache_forget_def Let_def split: sum.splits)

lemma cache_run_max: "dca_max_peers (foldl cache_step c ops) = dca_max_peers c"
  by (induction ops arbitrary: c) (simp_all add: cache_step_max)

section \<open>Properties\<close>

text \<open>A directory response is taken exactly when it lists at most 32 endpoints with none twice;
  what is surfaced is that list sorted, with nothing added or dropped, flagged when the remote
  sent it out of order; a longer list or a repeated endpoint is a violation naming the length
  or a repeated endpoint.\<close>

theorem directory_validation:
  "case validate_directory raw of
     Inr v \<Rightarrow> length (ed_endpoints raw) \<le> MAX_DIRECTORY_ENTRIES \<and> distinct (ed_endpoints raw)
       \<and> sorted (vd_endpoints v) \<and> mset (vd_endpoints v) = mset (ed_endpoints raw)
       \<and> vd_noncanonical v = (vd_endpoints v \<noteq> ed_endpoints raw) \<and> vd_ttl_ms v = ed_ttl_ms raw
   | Inl (TooManyEntries n) \<Rightarrow> n = length (ed_endpoints raw) \<and> MAX_DIRECTORY_ENTRIES < n
   | Inl (DuplicateEntry e) \<Rightarrow> e \<in> set (ed_endpoints raw) \<and> \<not> distinct (ed_endpoints raw)"
proof (cases "validate_directory raw")
  case (Inr v)
  have "sorted (ed_endpoints raw) \<longleftrightarrow> sort (ed_endpoints raw) = ed_endpoints raw"
    by (metis sorted_sort sorted_sort_id)
  moreover have "length (ed_endpoints raw) \<le> MAX_DIRECTORY_ENTRIES \<and> distinct (ed_endpoints raw) \<and>
     v = \<lparr>vd_endpoints = sort (ed_endpoints raw), vd_ttl_ms = ed_ttl_ms raw,
          vd_generated_at_ms = ed_generated_at_ms raw, vd_noncanonical = (\<not> sorted (ed_endpoints raw))\<rparr>"
    using Inr validate_directory_Ok by blast
  ultimately show ?thesis using Inr by simp
next
  case (Inl x)
  then show ?thesis
    using adjacent_dup_Some [of "sort (ed_endpoints raw)"] adjacent_dup_None [of "sort (ed_endpoints raw)"]
    by (auto simp: validate_directory_def Let_def split: if_splits option.splits)
qed

text \<open>C39. The directory cache is bounded and never stale: whatever is received, forgotten or
  reconfigured, it holds at most its bound of peers; an entry it serves is sorted, without
  repetition and at most 32 long, and is served less than the local time to live and less than
  five minutes after it was received, however long the remote asked for.  Lowering the local
  time to live takes effect on entries already held.\<close>

theorem directory_cache_fresh:
  assumes "c = foldl cache_step (directory_cache_new max_peers ttl) ops"
  shows "length (dca_entries c) \<le> max max_peers 1
    \<and> (\<forall>p now e. cache_get c p now = Some e \<longrightarrow>
         sorted (ce_endpoints e) \<and> distinct (ce_endpoints e) \<and> length (ce_endpoints e) \<le> MAX_DIRECTORY_ENTRIES
         \<and> now < ce_received_at_ms e + MAX_DIRECTORY_TTL_MS
         \<and> now < ce_received_at_ms e + dca_local_ttl_ms c)
    \<and> (\<forall>p now e t. cache_get (set_local_ttl c t) p now = Some e \<longrightarrow> now < ce_received_at_ms e + t)"
proof -
  have ok: "directory_cache_ok c"
    unfolding assms by (rule directory_calls.inv_run [OF directory_cache_new_ok])
  have mx: "dca_max_peers c = max max_peers 1"
    by (simp add: assms cache_run_max directory_cache_new_def)
  have served: "now < ce_received_at_ms e + dca_local_ttl_ms c' \<and> entry_ok e
      \<and> now < ce_received_at_ms e + MAX_DIRECTORY_TTL_MS"
    if "directory_cache_ok c'" "cache_get c' p now = Some e" for c' p now e
    using that unfolding directory_cache_ok_def cache_get_def
    by (fastforce simp: entry_ok_def split: option.splits if_splits)
  have "now < ce_received_at_ms e + t" if "cache_get (set_local_ttl c t) p now = Some e" for p now e t
    using served [OF set_local_ttl_ok [OF ok] that] by (simp add: set_local_ttl_def)
  moreover have "length (dca_entries c) \<le> max max_peers 1"
    using ok mx by (simp add: directory_cache_ok_def)
  ultimately show ?thesis using served [OF ok] unfolding entry_ok_def by blast
qed

text \<open>What was received is served until it expires: right after a valid list from a peer is
  cached, the cache answers for that peer with exactly that list at every time before receipt
  plus the smallest of the remote's, the local and the hard time to live, and not after.\<close>

theorem directory_cache_serves:
  assumes "validate_directory raw = Ok v" and "now + MAX_DIRECTORY_TTL_MS \<le> U64_MAX" and "now \<le> t"
    and "c' = snd (cache_insert c p v now)"
  shows "map_option ce_endpoints (cache_get c' p t) =
    (if t < now + min (ed_ttl_ms raw) (min (dca_local_ttl_ms c) MAX_DIRECTORY_TTL_MS)
     then Some (sort (ed_endpoints raw)) else None)"
proof -
  have "clamp_ttl (vd_ttl_ms v) l = min (ed_ttl_ms raw) (min l MAX_DIRECTORY_TTL_MS)" for l
    using assms(1) by (auto simp: clamp_ttl_eq validate_directory_Ok)
  moreover from this have "sat_add64 now (clamp_ttl (vd_ttl_ms v) l) = now + min (ed_ttl_ms raw) (min l MAX_DIRECTORY_TTL_MS)" for l
    using assms(2) by (simp add: sat_add64_eq)
  moreover have "vd_endpoints v = sort (ed_endpoints raw)" using assms(1) by (auto simp: validate_directory_Ok)
  ultimately show ?thesis
    by (simp add: assms(4) cache_get_def cache_insert_eq Let_def)
qed

definition sample_directory :: endpoint_directory where
  "sample_directory = \<lparr>ed_generated_at_ms = 7, ed_ttl_ms = 500, ed_endpoints = [EndpointId [2], EndpointId [1]]\<rparr>"

theorem directory_cache_fresh_witness:
  "(let p = TransportIdentity [1];
        c = foldl cache_step (directory_cache_new 1 1000) [CaReceive p sample_directory 10]
    in cache_get c p 400 \<noteq> None \<and> length (dca_entries c) \<le> 1
       \<and> cache_get (set_local_ttl c 100) p 400 = None)"
proof -
  let ?p = "TransportIdentity [1]"
  let ?c = "foldl cache_step (directory_cache_new 1 1000) [CaReceive ?p sample_directory 10]"
  have "cache_get ?c ?p 400 \<noteq> None" by code_simp
  moreover have "bm_get (dca_entries (set_local_ttl ?c 100)) ?p =
      Some \<lparr>ce_endpoints = [EndpointId [1], EndpointId [2]], ce_received_at_ms = 10, ce_fresh_until_ms = 110,
        ce_generated_at_ms = 7, ce_noncanonical = True\<rparr>" by code_simp
  ultimately show ?thesis
    using directory_cache_fresh [OF refl, of 1 1000 "[CaReceive ?p sample_directory 10]"]
    unfolding Let_def by (auto simp: cache_get_def split: option.splits if_splits)
qed

theorem directory_cache_serves_witness:
  "(let p = TransportIdentity [1]; c = directory_cache_new 1 1000;
        v = \<lparr>vd_endpoints = [EndpointId [1], EndpointId [2]], vd_ttl_ms = 500, vd_generated_at_ms = 7,
             vd_noncanonical = True\<rparr>
    in map_option ce_endpoints (cache_get (snd (cache_insert c p v 10)) p 509) = Some [EndpointId [1], EndpointId [2]]
       \<and> cache_get (snd (cache_insert c p v 10)) p 510 = None)"
proof -
  let ?v = "\<lparr>vd_endpoints = [EndpointId [1], EndpointId [2]], vd_ttl_ms = 500, vd_generated_at_ms = 7,
             vd_noncanonical = True\<rparr>"
  have v: "validate_directory sample_directory = Ok ?v" by code_simp
  have b: "10 + MAX_DIRECTORY_TTL_MS \<le> U64_MAX" by (simp add: MAX_DIRECTORY_TTL_MS_def U64_MAX_def)
  have s: "sort (ed_endpoints sample_directory) = [EndpointId [1], EndpointId [2]]" "ed_ttl_ms sample_directory = 500"
    by code_simp+
  show ?thesis
    unfolding Let_def
    using directory_cache_serves [OF v b _ refl, of 509 "directory_cache_new 1 1000" "TransportIdentity [1]"]
      directory_cache_serves [OF v b _ refl, of 510 "directory_cache_new 1 1000" "TransportIdentity [1]"]
    by (simp add: s directory_cache_new_def MAX_DIRECTORY_TTL_MS_def)
qed

end
