(* ===== verification/Direct_Node.thy ===== *)
theory Direct_Node
  imports Direct_Inbound Direct_Codec Directory
begin

text \<open>
  The direct half of the Swarm task, \<open>crates/transport/libp2p/src/runtime/direct.rs\<close>: the state
  that admission owns, leases and queues kept as one fact, the revocation notices owed to
  sessions, and the handling of one inbound request or response.  Whether the network layer
  still takes an answer, and the random bytes of a lease epoch, are arguments.  The identity
  of a remote is the result of converting its \<open>PeerId\<close>, \<open>None\<close> when the conversion fails.
\<close>

section \<open>State\<close>

datatype session_notice = EndpointLeaseChanged endpoint_id generation

record endpoint_lease =
  le_endpoint :: endpoint_id
  le_epoch :: generation

record direct_state =
  ds_trust :: peer_trust_policy
  ds_ingress :: ingress_limiter
  ds_dedup :: dedup_cache
  ds_reservations :: reservation_map
  ds_registry :: endpoint_registry
  ds_queues :: endpoint_queues
  ds_lease_notices :: "(local_session_id, session_notice list) bmap"
  ds_owed_wakes :: "local_session_id list"
  ds_queue_bound :: nat
  ds_directory_enabled :: bool
  ds_max_advertised :: nat
  ds_directory_queries_per_min :: nat
  ds_directory_max_inflight :: nat
  ds_directory_cache_ttl_ms :: nat
  ds_answering :: "nat bset"

definition MAX_OWED_NOTICES :: nat where "MAX_OWED_NOTICES = 8"
definition DEFAULT_EVENT_QUEUE :: nat where "DEFAULT_EVENT_QUEUE = 256"

definition direct_state_new :: "nat \<Rightarrow> direct_state" where
  "direct_state_new now_ms =
    \<lparr>ds_trust = trust_default, ds_ingress = limiter_with_defaults now_ms,
     ds_dedup = dedup_new DEFAULT_MAX_ENTRIES DEFAULT_TTL_MS,
     ds_reservations = reservations_new DEFAULT_MAX_RESERVATIONS DEFAULT_MAX_RESERVATIONS_PER_PEER,
     ds_registry = endpoint_registry_new [] None, ds_queues = [], ds_lease_notices = [],
     ds_owed_wakes = [], ds_queue_bound = DEFAULT_EVENT_QUEUE, ds_directory_enabled = False,
     ds_max_advertised = 0, ds_directory_queries_per_min = DEFAULT_QUERIES_PER_PEER_PER_MINUTE,
     ds_directory_max_inflight = DEFAULT_MAX_INFLIGHT, ds_directory_cache_ttl_ms = DEFAULT_CACHE_TTL_MS, ds_answering = []\<rparr>"

text \<open>The endpoint state derived from a validated profile.\<close>

record direct_endpoints =
  dn_endpoints :: "(endpoint_id \<times> registered_endpoint) list"
  dn_default :: "endpoint_id option"
  dn_queue_bound :: nat
  dn_directory_enabled :: bool
  dn_max_advertised :: nat
  dn_directory_queries_per_min :: nat
  dn_directory_max_inflight :: nat
  dn_directory_cache_ttl_ms :: nat

section \<open>Leases and administration\<close>

definition mint_epoch :: "bytes \<Rightarrow> transport_error + generation" where
  "mint_epoch random = map_err (\<lambda>_. TeBackendUnavailable) (generation_parse (concat (map hex_of_byte random)))"

definition adopt_trust :: "direct_state \<Rightarrow> peer_trust_policy \<Rightarrow> direct_state" where
  "adopt_trust st peers = st\<lparr>ds_trust := peers\<rparr>"

definition direct_configure :: "direct_state \<Rightarrow> direct_endpoints \<Rightarrow> direct_state" where
  "direct_configure st config =
    st\<lparr>ds_registry := endpoint_registry_new
          (foldl (\<lambda>m (e, r). bm_insert e r m) [] (dn_endpoints config)) (dn_default config),
       ds_queues := [],
       ds_queue_bound := dn_queue_bound config,
       ds_directory_enabled := dn_directory_enabled config,
       ds_max_advertised := dn_max_advertised config,
       ds_directory_queries_per_min := dn_directory_queries_per_min config,
       ds_directory_max_inflight := dn_directory_max_inflight config,
       ds_directory_cache_ttl_ms := dn_directory_cache_ttl_ms config\<rparr>"

definition direct_claim ::
  "direct_state \<Rightarrow> local_session_id \<Rightarrow> endpoint_id \<Rightarrow> bytes \<Rightarrow> bytes \<Rightarrow>
     (transport_error + endpoint_lease) \<times> direct_state" where
  "direct_claim st session endpoint client_kind random =
    (case mint_epoch random of
       Inl e \<Rightarrow> (Err e, st)
     | Inr epoch \<Rightarrow>
         let (r, registry) = claim (ds_registry st) endpoint session client_kind epoch;
             st = st\<lparr>ds_registry := registry\<rparr>
         in (case r of
               Inl f \<Rightarrow> (Err (claim_failure_to_transport f), st)
             | Inr granted \<Rightarrow>
                 (Ok \<lparr>le_endpoint = endpoint, le_epoch = al_epoch granted\<rparr>,
                  st\<lparr>ds_queues := queues_open (ds_queues st) endpoint (ds_queue_bound st)\<rparr>)))"

definition direct_release :: "direct_state \<Rightarrow> local_session_id \<Rightarrow> endpoint_id list \<times> direct_state" where
  "direct_release st session =
    (let st = st\<lparr>ds_lease_notices := bm_remove session (ds_lease_notices st)\<rparr>;
         (released, registry) = release_session (ds_registry st) session
     in (released,
         st\<lparr>ds_registry := registry,
            ds_queues := foldl (\<lambda>qs e. snd (queues_close qs e)) (ds_queues st) released\<rparr>))"

definition source_for_lease :: "direct_state \<Rightarrow> endpoint_lease \<Rightarrow> endpoint_id option" where
  "source_for_lease st l =
    (if holds_lease (ds_registry st) (le_endpoint l) (le_epoch l) then Some (le_endpoint l) else None)"

definition drain_leased :: "direct_state \<Rightarrow> endpoint_lease \<Rightarrow> nat \<Rightarrow> direct_event list \<times> direct_state" where
  "drain_leased st l mx =
    (if source_for_lease st l \<noteq> None then
       let (events, queues) = queues_drain_up_to (ds_queues st) (le_endpoint l) mx
       in (events, st\<lparr>ds_queues := queues\<rparr>)
     else ([], st))"

definition owe_notice :: "direct_state \<Rightarrow> endpoint_id \<Rightarrow> direct_state" where
  "owe_notice st endpoint =
    (case lease (ds_registry st) endpoint of
       None \<Rightarrow> st
     | Some l \<Rightarrow>
         let owed = (case bm_get (ds_lease_notices st) (al_owner l) of None \<Rightarrow> [] | Some ns \<Rightarrow> ns);
             owed = (if length owed \<ge> MAX_OWED_NOTICES then tl owed else owed);
             owed = owed @ [EndpointLeaseChanged endpoint (al_epoch l)]
         in st\<lparr>ds_lease_notices := bm_insert (al_owner l) owed (ds_lease_notices st),
               ds_owed_wakes := ds_owed_wakes st @ [al_owner l]\<rparr>)"

definition direct_revoke :: "direct_state \<Rightarrow> endpoint_id \<Rightarrow> nat \<times> direct_state" where
  "direct_revoke st endpoint =
    (let st = owe_notice st endpoint;
         st = st\<lparr>ds_registry := snd (revoke (ds_registry st) endpoint)\<rparr>;
         (n, queues) = queues_close (ds_queues st) endpoint
     in (n, st\<lparr>ds_queues := queues\<rparr>))"

definition take_owed_wakes :: "direct_state \<Rightarrow> local_session_id list \<times> direct_state" where
  "take_owed_wakes st = (ds_owed_wakes st, st\<lparr>ds_owed_wakes := []\<rparr>)"

definition has_pending :: "direct_state \<Rightarrow> local_session_id \<Rightarrow> endpoint_lease option \<Rightarrow> bool" where
  "has_pending st session l \<longleftrightarrow>
     (case bm_get (ds_lease_notices st) session of None \<Rightarrow> False | Some owed \<Rightarrow> owed \<noteq> [])
     \<or> (case l of None \<Rightarrow> False
        | Some l \<Rightarrow> source_for_lease st l \<noteq> None \<and> queues_len (ds_queues st) (le_endpoint l) > 0)"

definition take_lease_notices ::
  "direct_state \<Rightarrow> local_session_id \<Rightarrow> nat \<Rightarrow> session_notice list \<times> direct_state" where
  "take_lease_notices st session mx =
    (case bm_get (ds_lease_notices st) session of
       None \<Rightarrow> ([], st)
     | Some owed \<Rightarrow>
         let n = min (length owed) mx; left = drop n owed
         in (take n owed,
             st\<lparr>ds_lease_notices :=
               (if left = [] then bm_remove session (ds_lease_notices st)
                else bm_insert session left (ds_lease_notices st))\<rparr>))"

definition direct_set_enabled ::
  "direct_state \<Rightarrow> endpoint_id \<Rightarrow> bool \<Rightarrow> (transport_error + generation option) \<times> direct_state" where
  "direct_set_enabled st endpoint enabled =
    (if \<not> bm_has (er_endpoints (ds_registry st)) endpoint then (Err TeEndpointUnknown, st)
     else
       let st = (if enabled then st
                 else
                   let st = owe_notice st endpoint in
                   if er_default (ds_registry st) = Some endpoint
                   then st\<lparr>ds_registry := set_default (ds_registry st) None\<rparr> else st);
           (revoked, registry) = set_enabled (ds_registry st) endpoint enabled;
           st = st\<lparr>ds_registry := registry\<rparr>
       in (Ok revoked,
           if revoked \<noteq> None then st\<lparr>ds_queues := snd (queues_close (ds_queues st) endpoint)\<rparr> else st))"

definition direct_set_default ::
  "direct_state \<Rightarrow> endpoint_id option \<Rightarrow> (transport_error + unit) \<times> direct_state" where
  "direct_set_default st endpoint =
    (let checked =
       (case endpoint of
          None \<Rightarrow> Ok ()
        | Some e \<Rightarrow>
            (case bm_get (er_endpoints (ds_registry st)) e of
               None \<Rightarrow> Err TeEndpointUnknown
             | Some registered \<Rightarrow> if \<not> re_enabled registered then Err TeEndpointDisabled else Ok ()))
     in (case checked of
           Inl e \<Rightarrow> (Err e, st)
         | Inr _ \<Rightarrow> (Ok (), st\<lparr>ds_registry := set_default (ds_registry st) endpoint\<rparr>)))"

definition direct_advertised_for :: "direct_state \<Rightarrow> transport_identity \<Rightarrow> endpoint_id list" where
  "direct_advertised_for st peer = advertised_for (ds_registry st) peer (ds_trust st) (ds_max_advertised st)"

record lease_record =
  lr_endpoint :: endpoint_id
  lr_epoch :: generation
  lr_client_kind :: bytes
  lr_session_id :: "bytes option"

record endpoint_admin_view =
  ev_endpoint :: endpoint_id
  ev_enabled :: bool
  ev_default :: bool
  ev_persisted :: bool
  ev_lease :: "lease_record option"

definition endpoint_views :: "direct_state \<Rightarrow> endpoint_admin_view list" where
  "endpoint_views st =
    map (\<lambda>(i, registered).
        \<lparr>ev_endpoint = i, ev_enabled = re_enabled registered,
         ev_default = (er_default (ds_registry st) = Some i), ev_persisted = False,
         ev_lease = map_option (\<lambda>l. \<lparr>lr_endpoint = i, lr_epoch = al_epoch l,
             lr_client_kind = al_client_kind l, lr_session_id = Some (session_str (al_owner l))\<rparr>)
           (lease (ds_registry st) i)\<rparr>)
      (er_endpoints (ds_registry st))"

section \<open>One request\<close>

record direct_tick =
  dt_now_ms :: nat
  dt_max_payload_bytes :: nat
  dt_wall_ms :: nat
  dt_draining :: bool
  dt_may_buffer_delivery :: bool

definition waiter_response :: "dedup_cache \<Rightarrow> direct_message \<Rightarrow> transport_identity \<Rightarrow> direct_response option" where
  "waiter_response dedup request source =
    (case dedup_get dedup (dedup_key_of request source) of
       None \<Rightarrow> None
     | Some r \<Rightarrow>
         (case ar_route r of
            RouteDirect resolved \<Rightarrow> Some (RespAccepted (dm_message_id request) resolved)
          | RouteBroadcast \<Rightarrow> None))"

definition response_of ::
  "dedup_cache \<Rightarrow> direct_message \<Rightarrow> transport_identity \<Rightarrow> outcome \<Rightarrow> direct_response option" where
  "response_of dedup request source oc =
    (case oc of
       OcAccepted resolved \<Rightarrow> Some (RespAccepted (dm_message_id request) resolved)
     | OcDuplicateAccepted resolved \<Rightarrow> Some (RespAccepted (dm_message_id request) resolved)
     | OcAttachedAsWaiter \<Rightarrow> waiter_response dedup request source
     | OcRefused refusal \<Rightarrow> Some (RespRejected (dm_message_id request) (refusal_to_wire refusal)))"

text \<open>Handing an answer to the network: its request is remembered until the answer is written.\<close>

definition answer ::
  "(nat \<Rightarrow> bool) \<Rightarrow> nat \<Rightarrow> direct_response \<Rightarrow> direct_state \<Rightarrow> direct_response option \<times> direct_state" where
  "answer takes request_id response st =
    (if takes request_id
     then (Some response, st\<lparr>ds_answering := bs_insert request_id (ds_answering st)\<rparr>)
     else (None, st))"

definition admission_of :: "direct_state \<Rightarrow> bool \<Rightarrow> admission_context" where
  "admission_of st draining =
    \<lparr>ac_prefix = \<lparr>pc_trust = ds_trust st, pc_ingress = ds_ingress st, pc_draining = draining\<rparr>,
     ac_dedup = ds_dedup st, ac_reservations = ds_reservations st, ac_registry = ds_registry st,
     ac_queues = ds_queues st\<rparr>"

text \<open>The half after the gates: parse, admit, answer, and notify when a queue took the message.\<close>

definition handle_admitted ::
  "(bytes \<Rightarrow> bytes) \<Rightarrow> (nat \<Rightarrow> bool) \<Rightarrow> transport_identity \<Rightarrow> bytes \<Rightarrow> bool \<Rightarrow> nat \<Rightarrow> direct_tick \<Rightarrow>
     direct_state \<Rightarrow> direct_response option \<times> (endpoint_id \<times> transport_identity) option \<times> direct_state" where
  "handle_admitted sha256 takes source bytes oversize request_id tick st =
    (case parse_inbound bytes oversize (dt_max_payload_bytes tick) of
       Inl (i, reason) \<Rightarrow>
         (case i of
            None \<Rightarrow> (None, None, st)
          | Some message_id \<Rightarrow>
              let (resp, st) = answer takes request_id (RespRejected message_id reason) st
              in (resp, None, st))
     | Inr request \<Rightarrow>
         let (oc, ctx) = admit_structured sha256 request source
               \<lparr>ck_monotonic_ms = dt_now_ms tick, ck_wall_ms = dt_wall_ms tick\<rparr>
               (admission_of st (dt_draining tick));
             st = st\<lparr>ds_dedup := ac_dedup ctx, ds_reservations := ac_reservations ctx,
                     ds_queues := ac_queues ctx\<rparr>
         in (case response_of (ds_dedup st) request source oc of
               None \<Rightarrow> (None, None, st)
             | Some response \<Rightarrow>
                 let (resp, st) = answer takes request_id response st
                 in (resp,
                     (case oc of
                        OcAccepted resolved \<Rightarrow>
                          if dt_may_buffer_delivery tick then Some (resolved, source) else None
                      | _ \<Rightarrow> None),
                     st)))"

definition handle_request ::
  "(bytes \<Rightarrow> bytes) \<Rightarrow> (nat \<Rightarrow> bool) \<Rightarrow> transport_identity option \<Rightarrow> bytes \<Rightarrow> bool \<Rightarrow> nat \<Rightarrow> direct_tick \<Rightarrow>
     direct_state \<Rightarrow> direct_response option \<times> (endpoint_id \<times> transport_identity) option \<times> direct_state" where
  "handle_request sha256 takes remote bytes oversize request_id tick st =
    (case remote of
       None \<Rightarrow> (None, None, st)
     | Some source \<Rightarrow>
         let (gated, ctx) = admit_prefix source (dt_now_ms tick)
               \<lparr>pc_trust = ds_trust st, pc_ingress = ds_ingress st, pc_draining = dt_draining tick\<rparr>;
             st = st\<lparr>ds_ingress := pc_ingress ctx\<rparr>
         in (case gated of
               Inl refusal \<Rightarrow>
                 (case recover_id bytes of
                    None \<Rightarrow> (None, None, st)
                  | Some message_id \<Rightarrow>
                      let (resp, st) =
                        answer takes request_id (RespRejected message_id (refusal_to_wire refusal)) st
                      in (resp, None, st))
             | Inr _ \<Rightarrow> handle_admitted sha256 takes source bytes oversize request_id tick st))"

definition answer_settled :: "direct_state \<Rightarrow> nat \<Rightarrow> direct_state" where
  "answer_settled st request_id = st\<lparr>ds_answering := bs_remove request_id (ds_answering st)\<rparr>"

section \<open>The sender's half\<close>

definition validate_response ::
  "direct_response \<Rightarrow> message_id \<Rightarrow> endpoint_id option \<Rightarrow> transport_error + endpoint_id" where
  "validate_response response asked requested =
    (let echoed = (case response of RespAccepted m _ \<Rightarrow> m | RespRejected m _ \<Rightarrow> m) in
     if echoed \<noteq> asked then Err TeProtocolViolation
     else
       (case response of
          RespAccepted _ resolved \<Rightarrow>
            (case requested of
               Some asked_for \<Rightarrow> if resolved \<noteq> asked_for then Err TeProtocolViolation else Ok resolved
             | None \<Rightarrow> Ok resolved)
        | RespRejected _ reason \<Rightarrow>
            Err (case reason of
                   RjNoRoute \<Rightarrow> TeRemoteEndpointUnavailable
                 | RjUnauthorizedPeer \<Rightarrow> TeUnauthorizedPeer
                 | RjOverloaded \<Rightarrow> TeOverloaded
                 | RjMalformed \<Rightarrow> TeProtocolViolation
                 | RjTooLarge \<Rightarrow> TePayloadTooLarge
                 | RjShuttingDown \<Rightarrow> TeBackendUnavailable
                 | RjUnsupported \<Rightarrow> TeProtocolUnsupported)))"

datatype outbound_failure =
    FTimeout
  | FIo bool
  | FDialFailure
  | FConnectionClosed
  | FUnsupportedProtocols

text \<open>The argument of \<open>FIo\<close> says whether the error kind is \<open>InvalidData\<close>.\<close>

fun outbound_error :: "outbound_failure \<Rightarrow> transport_error" where
  "outbound_error (FIo True) = TeProtocolViolation"
| "outbound_error FTimeout = TePeerUnreachable"
| "outbound_error (FIo False) = TePeerUnreachable"
| "outbound_error FDialFailure = TePeerUnreachable"
| "outbound_error FConnectionClosed = TePeerUnreachable"
| "outbound_error FUnsupportedProtocols = TeProtocolUnsupported"

record pending_direct =
  pd_message_id :: message_id
  pd_requested :: "endpoint_id option"
  pd_peer :: transport_identity

definition handle_response ::
  "(nat, pending_direct) bmap \<Rightarrow> nat \<Rightarrow> direct_response \<Rightarrow>
     (transport_error + endpoint_id) option \<times> (nat, pending_direct) bmap" where
  "handle_response pending request_id response =
    (case bm_get pending request_id of
       None \<Rightarrow> (None, pending)
     | Some p \<Rightarrow>
         (Some (validate_response response (pd_message_id p) (pd_requested p)), bm_remove request_id pending))"

definition handle_outbound_failure ::
  "(nat, pending_direct) bmap \<Rightarrow> nat \<Rightarrow> outbound_failure \<Rightarrow>
     (transport_error + endpoint_id) option \<times> (nat, pending_direct) bmap" where
  "handle_outbound_failure pending request_id failure =
    (case bm_get pending request_id of
       None \<Rightarrow> (None, pending)
     | Some p \<Rightarrow> (Some (Err (outbound_error failure)), bm_remove request_id pending))"

definition MAX_OUTBOUND_DIRECT :: nat where "MAX_OUTBOUND_DIRECT = 128"
definition MAX_OUTBOUND_DIRECT_PER_PEER :: nat where "MAX_OUTBOUND_DIRECT_PER_PEER = 8"

definition admit_outbound :: "transport_identity list \<Rightarrow> transport_identity \<Rightarrow> transport_error + unit" where
  "admit_outbound in_flight peer =
    (let (total, for_peer) =
       foldl (\<lambda>(total, for_peer) held.
           (sat_add64 total 1, if held = peer then sat_add64 for_peer 1 else for_peer)) (0, 0) in_flight
     in if total \<ge> MAX_OUTBOUND_DIRECT then Err TeOverloaded
        else if for_peer \<ge> MAX_OUTBOUND_DIRECT_PER_PEER then Err TeOverloaded
        else Ok ())"

definition shutdown_settled :: "nat \<Rightarrow> nat \<Rightarrow> nat \<Rightarrow> nat \<Rightarrow> bool \<Rightarrow> bool" where
  "shutdown_settled pending_direct pending_directory answering_direct answering_directory past_deadline \<longleftrightarrow>
     past_deadline
     \<or> (pending_direct = 0 \<and> pending_directory = 0 \<and> answering_direct = 0 \<and> answering_directory = 0)"

section \<open>One call on the state\<close>

datatype node_op =
    NoTrust peer_trust_policy
  | NoConfigure direct_endpoints
  | NoClaim local_session_id endpoint_id bytes bytes
  | NoRelease local_session_id
  | NoRevoke endpoint_id
  | NoSetEnabled endpoint_id bool
  | NoSetDefault "endpoint_id option"
  | NoDrain endpoint_lease nat
  | NoTakeNotices local_session_id nat
  | NoTakeWakes
  | NoRequest "nat \<Rightarrow> bool" "transport_identity option" bytes bool nat direct_tick
  | NoSettled nat

fun node_step :: "(bytes \<Rightarrow> bytes) \<Rightarrow> direct_state \<Rightarrow> node_op \<Rightarrow> direct_state" where
  "node_step sha256 st (NoTrust p) = adopt_trust st p"
| "node_step sha256 st (NoConfigure c) = direct_configure st c"
| "node_step sha256 st (NoClaim s e k random) = snd (direct_claim st s e k random)"
| "node_step sha256 st (NoRelease s) = snd (direct_release st s)"
| "node_step sha256 st (NoRevoke e) = snd (direct_revoke st e)"
| "node_step sha256 st (NoSetEnabled e b) = snd (direct_set_enabled st e b)"
| "node_step sha256 st (NoSetDefault d) = snd (direct_set_default st d)"
| "node_step sha256 st (NoDrain l n) = snd (drain_leased st l n)"
| "node_step sha256 st (NoTakeNotices s n) = snd (take_lease_notices st s n)"
| "node_step sha256 st NoTakeWakes = snd (take_owed_wakes st)"
| "node_step sha256 st (NoRequest takes remote bytes oversize i tick) =
    snd (snd (handle_request sha256 takes remote bytes oversize i tick st))"
| "node_step sha256 st (NoSettled i) = answer_settled st i"

section \<open>What a request does\<close>

lemma answer_state: "snd (answer takes i r st) = st\<lparr>ds_answering := ds_answering (snd (answer takes i r st))\<rparr>"
  by (simp add: answer_def)

lemma answer_fst: "fst (answer takes i r st) = (if takes i then Some r else None)"
  by (simp add: answer_def)

text \<open>Either the frame did not parse and nothing but the pending answers changed, or it was admitted
  and the cache, the reservations and the queues are what admission made of them.\<close>

lemma handle_admitted_cases [consumes 1, case_names unparsed ran]:
  assumes "handle_admitted sha takes source bytes oversize i tick st = (resp, note, st')"
  obtains
    (unparsed) m reason ans where
      "parse_inbound bytes oversize (dt_max_payload_bytes tick) = Inl (m, reason)"
      "st' = st\<lparr>ds_answering := ans\<rparr>" "note = None"
      "resp = (case m of None \<Rightarrow> None | Some m \<Rightarrow> if takes i then Some (RespRejected m reason) else None)"
  | (ran) request oc ctx ans where
      "parse_inbound bytes oversize (dt_max_payload_bytes tick) = Inr request"
      "admit_structured sha request source \<lparr>ck_monotonic_ms = dt_now_ms tick, ck_wall_ms = dt_wall_ms tick\<rparr>
         (admission_of st (dt_draining tick)) = (oc, ctx)"
      "st' = st\<lparr>ds_dedup := ac_dedup ctx, ds_reservations := ac_reservations ctx, ds_queues := ac_queues ctx,
         ds_answering := ans\<rparr>"
      "resp = (case response_of (ac_dedup ctx) request source oc of
         None \<Rightarrow> None | Some r \<Rightarrow> if takes i then Some r else None)"
      "note = (case oc of OcAccepted e \<Rightarrow> if dt_may_buffer_delivery tick then Some (e, source) else None
         | _ \<Rightarrow> None)"
proof (cases "parse_inbound bytes oversize (dt_max_payload_bytes tick)")
  case (Inl mr)
  obtain m reason where mr: "mr = (m, reason)" by (cases mr)
  show thesis
  proof (cases m)
    case None
    then show thesis
      using assms Inl mr by (intro unparsed [of m reason "ds_answering st"]) (auto simp: handle_admitted_def)
  next
    case (Some m')
    then show thesis
      using assms Inl mr
      by (intro unparsed [of m reason "ds_answering (snd (answer takes i (RespRejected m' reason) st))"])
        (auto simp: handle_admitted_def case_prod_beta Let_def answer_fst intro: answer_state)
  qed
next
  case (Inr request)
  let ?ck = "\<lparr>ck_monotonic_ms = dt_now_ms tick, ck_wall_ms = dt_wall_ms tick\<rparr>"
  obtain oc ctx where run: "admit_structured sha request source ?ck (admission_of st (dt_draining tick)) = (oc, ctx)"
    by (cases "admit_structured sha request source ?ck (admission_of st (dt_draining tick))")
  let ?st = "st\<lparr>ds_dedup := ac_dedup ctx, ds_reservations := ac_reservations ctx, ds_queues := ac_queues ctx\<rparr>"
  show thesis
  proof (cases "response_of (ac_dedup ctx) request source oc")
    case None
    then have "\<nexists>e. oc = OcAccepted e" by (auto simp: response_of_def)
    with None show thesis
      using assms Inr run
      by (intro ran [OF Inr run, of "ds_answering st"])
        (auto simp: handle_admitted_def Let_def split: outcome.splits)
  next
    case (Some r)
    then show thesis
      using assms Inr run answer_state [of takes i r ?st]
      by (intro ran [OF Inr run, of "ds_answering (snd (answer takes i r ?st))"])
        (auto simp: handle_admitted_def Let_def case_prod_beta answer_fst)
  qed
qed

lemma handle_request_cases [consumes 1, case_names nameless gated admitted]:
  assumes "handle_request sha takes remote bytes oversize i tick st = (resp, note, st')"
  obtains
    (nameless) "remote = None" "resp = None" "note = None" "st' = st"
  | (gated) source refusal lim ans where "remote = Some source"
      "fst (admit_prefix source (dt_now_ms tick)
         \<lparr>pc_trust = ds_trust st, pc_ingress = ds_ingress st, pc_draining = dt_draining tick\<rparr>) = Inl refusal"
      "st' = st\<lparr>ds_ingress := lim, ds_answering := ans\<rparr>" "note = None"
      "resp = (case recover_id bytes of None \<Rightarrow> None
         | Some m \<Rightarrow> if takes i then Some (RespRejected m (refusal_to_wire refusal)) else None)"
  | (admitted) source lim where "remote = Some source"
      "fst (admit_prefix source (dt_now_ms tick)
         \<lparr>pc_trust = ds_trust st, pc_ingress = ds_ingress st, pc_draining = dt_draining tick\<rparr>) = Ok ()"
      "handle_admitted sha takes source bytes oversize i tick (st\<lparr>ds_ingress := lim\<rparr>) = (resp, note, st')"
proof (cases remote)
  case None
  then show thesis using assms by (intro nameless) (auto simp: handle_request_def)
next
  case (Some source)
  let ?ctx = "\<lparr>pc_trust = ds_trust st, pc_ingress = ds_ingress st, pc_draining = dt_draining tick\<rparr>"
  let ?pre = "admit_prefix source (dt_now_ms tick) ?ctx"
  let ?st = "st\<lparr>ds_ingress := pc_ingress (snd ?pre)\<rparr>"
  show thesis
  proof (cases "fst ?pre")
    case (Inr u)
    then show thesis
      using assms Some by (intro admitted [of source "pc_ingress (snd ?pre)"])
        (auto simp: handle_request_def Let_def case_prod_beta)
  next
    case (Inl refusal)
    show thesis
    proof (cases "recover_id bytes")
      case None
      then show thesis
        using assms Some Inl
        by (intro gated [where lim = "pc_ingress (snd ?pre)" and ans = "ds_answering st"])
          (auto simp: handle_request_def Let_def case_prod_beta)
    next
      case (Some m)
      let ?r = "RespRejected m (refusal_to_wire refusal)"
      from Some show thesis
        using assms \<open>remote = Some source\<close> Inl answer_state [of takes i ?r ?st]
        by (intro gated [where lim = "pc_ingress (snd ?pre)" and ans = "ds_answering (snd (answer takes i ?r ?st))"])
          (auto simp: handle_request_def Let_def case_prod_beta answer_fst)
    qed
  qed
qed

end
