(* ===== verification/Direct_Delivery.thy ===== *)
theory Direct_Delivery
  imports Direct_Node
begin

text \<open>
  What the direct node guarantees as a whole: leases and queues are one fact under every
  sequence of commands and requests, a retried message is answered alike and delivered once,
  every request that can be answered is, and the answers to unroutable messages do not tell
  which of the reasons applied.
\<close>

section \<open>The invariant of the node\<close>

definition notices_ok :: "(local_session_id, session_notice list) bmap \<Rightarrow> bool" where
  "notices_ok m \<longleftrightarrow>
     bm_ok m \<and> (\<forall>s ns. bm_get m s = Some ns \<longrightarrow> ns \<noteq> [] \<and> length ns \<le> MAX_OWED_NOTICES)"

definition node_ok :: "direct_state \<Rightarrow> bool" where
  "node_ok st \<longleftrightarrow>
     leases_ok (ds_registry st) \<and> queues_ok (ds_queues st) \<and>
     fst ` set (ds_queues st) = fst ` set (er_leases (ds_registry st)) \<and>
     dedup_ok (ds_dedup st) \<and> dc_max_entries (ds_dedup st) = DEFAULT_MAX_ENTRIES \<and>
     dc_ttl_ms (ds_dedup st) = DEFAULT_TTL_MS \<and>
     ds_reservations st = reservations_new DEFAULT_MAX_RESERVATIONS DEFAULT_MAX_RESERVATIONS_PER_PEER \<and>
     notices_ok (ds_lease_notices st)"

lemma keys_bm_remove: "fst ` set (bm_remove k m) = fst ` set m - {k}"
  by (auto simp: set_bm_remove image_iff)

lemma keys_drain: "fst ` set (snd (queues_drain_up_to qs k n)) = fst ` set qs"
  by (auto simp: queues_drain_up_to_def Let_def set_bm_insert_keys insert_absorb dest: bm_get_key
      split: option.splits)

lemma close_all:
  "queues_ok qs \<Longrightarrow> queues_ok (foldl (\<lambda>qs e. snd (queues_close qs e)) qs es)
   \<and> fst ` set (foldl (\<lambda>qs e. snd (queues_close qs e)) qs es) = fst ` set qs - set es"
proof (induction es arbitrary: qs)
  case (Cons e es)
  have "fst ` set (snd (queues_close qs e)) = fst ` set qs - {e}"
    by (simp add: queues_close_def keys_bm_remove)
  then show ?case using Cons.IH [OF queues_close_ok [OF Cons.prems, of e]] by auto
qed simp

lemma direct_state_new_ok: "node_ok (direct_state_new now)"
  by (simp add: node_ok_def direct_state_new_def endpoint_registry_new_def leases_ok_def queues_ok_def
      dedup_new_ok notices_ok_def) (simp add: dedup_new_def DEFAULT_MAX_ENTRIES_def)

lemma configured_ok: "bm_ok (foldl (\<lambda>m (e, r). bm_insert e r m) [] es)"
proof -
  have "bm_ok m \<Longrightarrow> bm_ok (foldl (\<lambda>m (e, r). bm_insert e r m) m es)" for m
    by (induction es arbitrary: m) auto
  then show ?thesis by simp
qed

lemma direct_configure_ok: "node_ok st \<Longrightarrow> node_ok (direct_configure st c)"
  using endpoint_registry_new_ok [OF configured_ok]
  by (simp add: node_ok_def direct_configure_def queues_ok_def) (simp add: endpoint_registry_new_def)

lemma direct_claim_ok:
  assumes "node_ok st"
  shows "node_ok (snd (direct_claim st s e k random))"
proof (cases "mint_epoch random")
  case (Inl x)
  then show ?thesis using assms by (simp add: direct_claim_def)
next
  case (Inr epoch)
  let ?r = "claim (ds_registry st) e s k epoch"
  have ok: "leases_ok (snd ?r)" using assms claim_keeps by (simp add: node_ok_def)
  show ?thesis
  proof (cases "fst ?r")
    case (Inl f)
    then have "snd ?r = ds_registry st" by (simp add: claim_state)
    with Inl \<open>mint_epoch random = Inr epoch\<close> show ?thesis
      using assms by (simp add: direct_claim_def Let_def case_prod_beta)
  next
    case (Inr l)
    then have "er_leases (snd ?r) = bm_insert e l (er_leases (ds_registry st))" by (simp add: claim_state)
    with Inr \<open>mint_epoch random = Inr epoch\<close> ok show ?thesis
      using assms queues_open_ok [of "ds_queues st" e]
      by (simp add: direct_claim_def Let_def case_prod_beta node_ok_def queues_open_def set_bm_insert_keys)
  qed
qed

lemma notices_remove: "notices_ok m \<Longrightarrow> notices_ok (bm_remove s m)"
  by (simp add: notices_ok_def)

lemma released_set:
  "bm_ok (er_leases r) \<Longrightarrow>
     set (fst (release_session r s)) = {e. \<exists>l. bm_get (er_leases r) e = Some l \<and> al_owner l = s}"
  by (force simp: release_session_def Let_def bm_get_in_set)

lemma keys_bm_get: "bm_ok m \<Longrightarrow> fst ` set m = {k. \<exists>v. bm_get m k = Some v}"
  using bm_retain_keys [of m "\<lambda>_ _. True"] by (simp add: bm_retain_def)

lemma set_default_selectors [simp]:
  "er_leases (set_default r d) = er_leases r" "er_endpoints (set_default r d) = er_endpoints r"
  by (simp_all add: set_default_def)

lemma direct_release_ok:
  assumes "node_ok st"
  shows "node_ok (snd (direct_release st s))"
proof -
  let ?r = "ds_registry st"
  let ?es = "fst (release_session ?r s)"
  have ok: "bm_ok (er_leases ?r)" using assms by (simp add: node_ok_def leases_ok_def)
  have "fst ` set (er_leases (snd (release_session ?r s))) = fst ` set (er_leases ?r) - set ?es"
    using ok by (auto simp: release_session_state released_set keys_bm_get bm_get_retain
        split: option.splits if_splits)
  then show ?thesis
    using assms close_all [of "ds_queues st" ?es] release_session_keeps [of ?r s]
    by (simp add: node_ok_def direct_release_def Let_def case_prod_beta notices_remove)
qed

lemma owe_notice_frame:
  "owe_notice st e = st\<lparr>ds_lease_notices := ds_lease_notices (owe_notice st e),
     ds_owed_wakes := ds_owed_wakes (owe_notice st e)\<rparr>"
  by (simp add: owe_notice_def Let_def split: option.splits)

lemma owe_notice_selectors [simp]:
  "ds_registry (owe_notice st e) = ds_registry st" "ds_queues (owe_notice st e) = ds_queues st"
  "ds_dedup (owe_notice st e) = ds_dedup st" "ds_reservations (owe_notice st e) = ds_reservations st"
  "ds_trust (owe_notice st e) = ds_trust st" "ds_ingress (owe_notice st e) = ds_ingress st"
  by (subst owe_notice_frame; simp)+

lemma owe_notice_notices: "notices_ok (ds_lease_notices st) \<Longrightarrow> notices_ok (ds_lease_notices (owe_notice st e))"
  by (fastforce simp: owe_notice_def notices_ok_def Let_def MAX_OWED_NOTICES_def split: option.splits)

lemma direct_revoke_ok: "node_ok st \<Longrightarrow> node_ok (snd (direct_revoke st e))"
  by (simp add: node_ok_def direct_revoke_def Let_def case_prod_beta revoke_keeps queues_close_ok
      owe_notice_notices) (simp add: revoke_def queues_close_def keys_bm_remove)

lemma direct_set_enabled_ok:
  assumes "node_ok st"
  shows "node_ok (snd (direct_set_enabled st e b))"
proof -
  define st1 where "st1 = (if b then st else let st = owe_notice st e in
      if er_default (ds_registry st) = Some e then st\<lparr>ds_registry := set_default (ds_registry st) None\<rparr> else st)"
  have st1: "node_ok st1" "er_endpoints (ds_registry st1) = er_endpoints (ds_registry st)"
    using assms by (auto simp: st1_def node_ok_def Let_def set_default_keeps owe_notice_notices)
  let ?r = "set_enabled (ds_registry st1) e b"
  have keep: "leases_ok (snd ?r)" using st1(1) set_enabled_keeps by (simp add: node_ok_def)
  have "fst ` set (er_leases (snd ?r)) =
      (if fst ?r = None then fst ` set (er_leases (ds_registry st1)) else fst ` set (er_leases (ds_registry st1)) - {e})"
    by (auto simp: set_enabled_def revoke_def Let_def keys_bm_remove map_of_eq_None_iff split: option.splits)
  moreover have "snd (direct_set_enabled st e b) =
      (if bm_has (er_endpoints (ds_registry st)) e then
        (if fst ?r \<noteq> None
         then st1\<lparr>ds_registry := snd ?r, ds_queues := snd (queues_close (ds_queues st1) e)\<rparr>
         else st1\<lparr>ds_registry := snd ?r\<rparr>)
       else st)"
    by (simp add: direct_set_enabled_def st1_def [symmetric] Let_def case_prod_beta)
  ultimately show ?thesis
    using assms st1(1) keep queues_close_ok [of "ds_queues st1" e]
    by (simp add: node_ok_def) (simp add: queues_close_def keys_bm_remove)
qed

lemma direct_set_default_ok: "node_ok st \<Longrightarrow> node_ok (snd (direct_set_default st d))"
  by (auto simp: direct_set_default_def node_ok_def Let_def set_default_keeps split: sum.splits)

lemma drain_leased_ok: "node_ok st \<Longrightarrow> node_ok (snd (drain_leased st l n))"
  by (auto simp: drain_leased_def node_ok_def Let_def case_prod_beta queues_drain_ok keys_drain)

lemma take_lease_notices_ok: "node_ok st \<Longrightarrow> node_ok (snd (take_lease_notices st s n))"
  by (auto simp: take_lease_notices_def node_ok_def notices_ok_def Let_def split: option.splits
      intro: order_trans [OF diff_le_self])

lemma node_reservations_ok: "node_ok st \<Longrightarrow> reservations_ok (ds_reservations st)"
  by (simp add: node_ok_def reservations_new_ok)

lemma node_nothing_in_flight: "node_ok st \<Longrightarrow> \<not> bm_has (rm_in_flight (ds_reservations st)) k"
  by (simp add: node_ok_def reservations_new_def bm_has_def)

lemma admission_of_selectors [simp]:
  "ac_dedup (admission_of st d) = ds_dedup st" "ac_reservations (admission_of st d) = ds_reservations st"
  "ac_registry (admission_of st d) = ds_registry st" "ac_queues (admission_of st d) = ds_queues st"
  "pc_trust (ac_prefix (admission_of st d)) = ds_trust st"
  by (simp_all add: admission_of_def)

text \<open>Nothing is ever in flight between two requests, so no request attaches as a waiter.\<close>

lemma never_a_waiter:
  assumes "node_ok st" "admit_structured sha request p ck (admission_of st d) = (oc, ctx)"
  shows "oc \<noteq> OcAttachedAsWaiter \<and> ac_reservations ctx = ds_reservations st"
  using admit_structured_reservations [OF assms(2)] node_reservations_ok [OF assms(1)]
    node_nothing_in_flight [OF assms(1)]
  by (auto split: if_splits)

lemma admitted_ok:
  assumes "node_ok st" "admit_structured sha request p ck (admission_of st d) = (oc, ctx)"
  shows "node_ok (st\<lparr>ds_dedup := ac_dedup ctx, ds_reservations := ac_reservations ctx,
    ds_queues := ac_queues ctx, ds_answering := ans\<rparr>)"
proof -
  obtain ops where ops: "ac_dedup ctx = foldl dedup_step (ds_dedup st) ops"
    using admit_structured_calls [OF assms(2)] by auto
  have d: "dedup_ok (ds_dedup st)" using assms(1) by (simp add: node_ok_def)
  have "queues_ok (ac_queues ctx) \<and> fst ` set (ac_queues ctx) = fst ` set (ds_queues st)"
    using admit_structured_queues [OF assms(2)] assms(1)
    by (elim disjE exE conjE) (simp_all add: node_ok_def endpoint_push_ok endpoint_push_keys)
  then show ?thesis
    using assms(1) never_a_waiter [OF assms] dedup.inv_run [OF d, of ops] dedup_run_bounds [OF d, of ops]
    by (simp add: node_ok_def ops)
qed

lemma handle_request_ok:
  assumes "node_ok st"
  shows "node_ok (snd (snd (handle_request sha takes remote bytes oversize i tick st)))"
proof -
  obtain resp n st' where run: "handle_request sha takes remote bytes oversize i tick st = (resp, n, st')"
    by (cases "handle_request sha takes remote bytes oversize i tick st")
  from run have "node_ok st'"
  proof (cases rule: handle_request_cases)
    case (admitted source lim)
    have ok: "node_ok (st\<lparr>ds_ingress := lim\<rparr>)" using assms by (simp add: node_ok_def)
    from admitted(3) show ?thesis
    proof (cases rule: handle_admitted_cases)
      case (unparsed m reason ans)
      then show ?thesis using assms by (simp add: node_ok_def)
    next
      case (ran request oc ctx ans)
      show ?thesis unfolding ran(3) by (rule admitted_ok [OF ok ran(2)])
    qed
  qed (use assms in \<open>simp_all add: node_ok_def\<close>)
  with run show ?thesis by simp
qed

interpretation node: stepwise "node_step sha" node_ok for sha
proof
  show "node_ok (node_step sha st op)" if "node_ok st" for st op
  proof (cases op)
    case (NoRequest takes remote bytes oversize i tick)
    then show ?thesis using handle_request_ok [OF that] by simp
  qed (use that in \<open>simp_all add: direct_configure_ok direct_claim_ok direct_release_ok direct_revoke_ok
        direct_set_enabled_ok direct_set_default_ok drain_leased_ok take_lease_notices_ok\<close>,
      simp_all add: node_ok_def adopt_trust_def take_owed_wakes_def answer_settled_def)
qed

section \<open>What the cache remembers\<close>

fun is_request :: "node_op \<Rightarrow> bool" where
  "is_request (NoRequest _ _ _ _ _ _) = True"
| "is_request _ = False"

fun op_before :: "nat \<Rightarrow> node_op \<Rightarrow> bool" where
  "op_before t (NoRequest _ _ _ _ _ tick) \<longleftrightarrow> dt_now_ms tick - t < DEFAULT_TTL_MS"
| "op_before t _ \<longleftrightarrow> True"

definition routes_ok :: "dedup_cache \<Rightarrow> bool" where
  "routes_ok c \<longleftrightarrow>
     (\<forall>k r. bm_get (dc_entries c) k = Some r \<longrightarrow> record_ok (OpRecord k (ar_route r) (ar_fingerprint r) 0))"

lemma node_step_dedup:
  obtains ops where "ds_dedup (node_step sha st op) = foldl dedup_step (ds_dedup st) ops"
    "length ops \<le> (if is_request op then 2 else 0)"
    "\<forall>d\<in>set ops. record_ok d \<and> (op_before t op \<longrightarrow> op_time d - t < DEFAULT_TTL_MS)"
proof (cases op)
  case (NoRequest takes remote bytes oversize i tick)
  obtain resp n st' where run: "handle_request sha takes remote bytes oversize i tick st = (resp, n, st')"
    by (cases "handle_request sha takes remote bytes oversize i tick st")
  from run show thesis
  proof (cases rule: handle_request_cases)
    case (admitted source lim)
    from admitted(3) show thesis
    proof (cases rule: handle_admitted_cases)
      case (unparsed m reason ans)
      then show thesis using that [of "[]"] NoRequest run by simp
    next
      case (ran request oc ctx ans)
      obtain ops where "ac_dedup ctx = foldl dedup_step (ds_dedup st) ops" "length ops \<le> 2"
        "\<forall>d\<in>set ops. op_time d = dt_now_ms tick \<and> record_ok d"
        using admit_structured_calls [OF ran(2)] by auto
      then show thesis using that [of ops] NoRequest run ran(3) by simp
    qed
  qed (use that [of "[]"] NoRequest run in simp_all)
qed (use that [of "[]"] in \<open>simp_all add: adopt_trust_def direct_configure_def direct_claim_def
      direct_release_def direct_revoke_def direct_set_enabled_def direct_set_default_def drain_leased_def
      take_lease_notices_def take_owed_wakes_def answer_settled_def Let_def case_prod_beta
      split: sum.splits option.splits\<close>)

lemma node_step_holds:
  assumes "node_ok st" "holds n (ds_dedup st) k r" "op_before (ar_stored_at_ms r) op"
    "n + 2 < DEFAULT_MAX_ENTRIES"
  shows "holds (n + (if is_request op then 2 else 0)) (ds_dedup (node_step sha st op)) k r"
proof -
  obtain ops where ops: "ds_dedup (node_step sha st op) = foldl dedup_step (ds_dedup st) ops"
    "length ops \<le> (if is_request op then 2 else 0)"
    "\<forall>d\<in>set ops. op_time d - ar_stored_at_ms r < DEFAULT_TTL_MS"
    using node_step_dedup [of sha st op "ar_stored_at_ms r"] assms(3) by metis
  have "holds (n + length ops) (foldl dedup_step (ds_dedup st) ops) k r"
    using assms(1,4) ops(2,3) by (intro holds_run [OF assms(2)]) (auto simp: node_ok_def list_all_iff split: if_splits)
  then show ?thesis using ops(1,2) by (auto simp: holds_def intro: recent_mono)
qed

lemma node_run_holds:
  assumes "node_ok st" "holds n (ds_dedup st) k r" "list_all (op_before (ar_stored_at_ms r)) ops"
    "n + 2 * length (filter is_request ops) + 2 < DEFAULT_MAX_ENTRIES"
  shows "holds (n + 2 * length (filter is_request ops)) (ds_dedup (foldl (node_step sha) st ops)) k r"
  using assms
proof (induction ops arbitrary: st n)
  case (Cons op ops)
  have "holds (n + (if is_request op then 2 else 0)) (ds_dedup (node_step sha st op)) k r"
    using Cons.prems by (intro node_step_holds) auto
  from Cons.IH [OF node.inv_step [OF Cons.prems(1)] this] Cons.prems(3,4) show ?case
    by (auto simp: algebra_simps)
qed simp

lemma routes_expire: "dedup_ok c \<Longrightarrow> routes_ok c \<Longrightarrow> routes_ok (dedup_expire c t)"
  by (auto simp: routes_ok_def dedup_expire_get split: option.splits if_splits)

lemma dedup_evict_get:
  "bm_get (fst (dedup_evict mx m order)) k = Some r \<Longrightarrow> bm_get m k = Some r"
  by (induction mx m order rule: dedup_evict.induct) (auto split: if_splits)

lemma routes_step: "dedup_ok c \<Longrightarrow> routes_ok c \<Longrightarrow> record_ok op \<Longrightarrow> routes_ok (dedup_step c op)"
proof (cases op)
  case (OpAdmit k fp t)
  assume "dedup_ok c" "routes_ok c"
  then have "routes_ok (dedup_expire c t)" by (rule routes_expire)
  then show ?thesis
    by (auto simp: OpAdmit dedup_admit_def Let_def routes_ok_def split: option.splits)
next
  case (OpRecord k route fp t)
  assume "dedup_ok c" "routes_ok c" "record_ok op"
  then have r: "routes_ok (dedup_expire c t)" by (intro routes_expire)
  let ?c = "dedup_expire c t"
  show ?thesis
    using r \<open>record_ok op\<close> dedup_evict_get [of "dc_max_entries ?c" "dc_entries ?c" "dc_order ?c"]
    by (auto simp: OpRecord record_accepted_def Let_def routes_ok_def case_prod_beta split: if_splits)
qed

lemma routes_run:
  "dedup_ok c \<Longrightarrow> routes_ok c \<Longrightarrow> \<forall>op\<in>set ops. record_ok op \<Longrightarrow> routes_ok (foldl dedup_step c ops)"
  by (induction ops arbitrary: c) (auto simp: routes_step dedup.inv_step)

lemma node_run_routes:
  "node_ok st \<Longrightarrow> routes_ok (ds_dedup st) \<Longrightarrow> routes_ok (ds_dedup (foldl (node_step sha) st ops))"
proof (induction ops arbitrary: st)
  case (Cons op ops)
  obtain dops where "ds_dedup (node_step sha st op) = foldl dedup_step (ds_dedup st) dops"
    "\<forall>d\<in>set dops. record_ok d"
    using node_step_dedup [of sha st op 0] by metis
  with Cons have "routes_ok (ds_dedup (node_step sha st op))" by (simp add: node_ok_def routes_run)
  then show ?case using Cons.IH [OF node.inv_step [OF Cons.prems(1)]] by simp
qed simp

section \<open>Answers\<close>

fun response_id :: "direct_response \<Rightarrow> message_id" where
  "response_id (RespAccepted m _) = m"
| "response_id (RespRejected m _) = m"

lemma node_reachable: "node_ok (foldl (node_step sha) (direct_state_new now) ops)"
  by (rule node.inv_run [OF direct_state_new_ok])

lemma node_routes: "routes_ok (ds_dedup (foldl (node_step sha) (direct_state_new now) ops))"
  by (rule node_run_routes [OF direct_state_new_ok]) (simp add: direct_state_new_def dedup_new_def routes_ok_def)

lemma parsed_id:
  assumes "parse_inbound bytes oversize limit = Ok request"
  shows "recover_id bytes = Some (dm_message_id request) \<and> direct_ok limit request"
proof -
  have ok: "direct_ok limit request" "direct_encode request = bytes"
    using assms direct.accepted_iff [where limit = limit and w = bytes and m = request]
    by (auto simp: parse_inbound_def Let_def split: if_splits)
  then have "length (message_bytes (dm_message_id request)) = 16"
    by (simp add: direct_ok_def message_id_ok_def MESSAGE_ID_LEN_def)
  with ok show ?thesis
    by (auto simp: recover_id_def MESSAGE_ID_LEN_def direct_encode_def Let_def)
qed

lemma unparsed_id: "parse_inbound bytes oversize limit = Inl (m, reason) \<Longrightarrow> m = recover_id bytes"
  by (auto simp: parse_inbound_def Let_def map_err_eq_Inl split: if_splits)

lemma response_of_id: "response_of d request p oc = Some r \<Longrightarrow> response_id r = dm_message_id request"
  by (auto simp: response_of_def waiter_response_def split: outcome.splits option.splits recorded_route.splits)

lemma response_of_Some: "oc \<noteq> OcAttachedAsWaiter \<Longrightarrow> response_of d request p oc \<noteq> None"
  by (auto simp: response_of_def split: outcome.splits)

lemma answered_when_named:
  assumes "node_ok st" "handle_request sha takes (Some p) bytes oversize i tick st = (resp, n, st')"
  shows "(resp = None \<longleftrightarrow> \<not> takes i \<or> recover_id bytes = None)
    \<and> (\<forall>r. resp = Some r \<longrightarrow> recover_id bytes = Some (response_id r))"
  using assms(2)
proof (cases rule: handle_request_cases)
  case (admitted source lim)
  have ok: "node_ok (st\<lparr>ds_ingress := lim\<rparr>)" using assms(1) by (simp add: node_ok_def)
  from admitted(3) show ?thesis
  proof (cases rule: handle_admitted_cases)
    case (unparsed m reason ans)
    then show ?thesis using unparsed_id [OF unparsed(1)] by (auto split: option.splits)
  next
    case (ran request oc ctx ans)
    have "oc \<noteq> OcAttachedAsWaiter" using never_a_waiter [OF ok ran(2)] by simp
    then obtain r where "response_of (ac_dedup ctx) request source oc = Some r"
      using response_of_Some by (metis not_None_eq)
    with ran(4) show ?thesis
      using response_of_id [of "ac_dedup ctx" request source oc r] parsed_id [OF ran(1)] by auto
  qed
qed (auto split: option.splits)

text \<open>A newly accepted message is in the cache; a message in the cache is answered from it.\<close>

lemma newly_accepted_recorded:
  assumes "node_ok st"
    "handle_request sha takes (Some p) bytes oversize i tick st = (Some (RespAccepted m e), n, st1)"
    "ds_queues st1 \<noteq> ds_queues st"
    "parse_inbound bytes oversize (dt_max_payload_bytes tick) = Ok request"
  obtains fp where "frame_fingerprint sha request = Ok fp" "m = dm_message_id request"
    "holds 0 (ds_dedup st1) (dedup_key_of request p)
      \<lparr>ar_route = RouteDirect e, ar_fingerprint = fp, ar_stored_at_ms = dt_now_ms tick\<rparr>"
  using assms(2)
proof (cases rule: handle_request_cases)
  case (admitted source lim)
  from admitted(3) show thesis
  proof (cases rule: handle_admitted_cases)
    case (ran req oc ctx ans)
    have req: "req = request" using ran(1) assms(4) by simp
    have "\<nexists>e. oc = OcAccepted e \<Longrightarrow> ds_queues st1 = ds_queues st"
      using admit_structured_queues [OF ran(2)] ran(3) by auto
    then obtain e' where oc: "oc = OcAccepted e'" using assms(3) by blast
    then have e: "e' = e" "m = dm_message_id request"
      using ran(4) req by (auto simp: response_of_def split: if_splits)
    from ran(2) obtain fp where fp: "frame_fingerprint sha request = Ok fp"
      unfolding oc req by (cases rule: admit_structured_cases) auto
    have "dedup_ok (ds_dedup st)" using assms(1) by (simp add: node_ok_def)
    with admit_structured_recorded [OF ran(2) [unfolded oc req] _ fp] fp e ran(3) admitted(1)
    show thesis by (intro that [of fp]) simp_all
  qed (use assms(4) in simp)
qed (use assms(3) in \<open>auto split: option.splits if_splits\<close>)

lemma known_retry:
  assumes "node_ok st"
    "holds n (ds_dedup st) (dedup_key_of retry p)
      \<lparr>ar_route = RouteDirect e, ar_fingerprint = fp, ar_stored_at_ms = t\<rparr>"
    "frame_fingerprint sha retry = Ok fp" "dt_now_ms tick - t < DEFAULT_TTL_MS"
    "parse_inbound bytes oversize (dt_max_payload_bytes tick) = Ok retry"
    "fst (admit_prefix p (dt_now_ms tick)
      \<lparr>pc_trust = ds_trust st, pc_ingress = ds_ingress st, pc_draining = dt_draining tick\<rparr>) = Ok ()"
    "handle_request sha takes (Some p) bytes oversize i tick st = (resp, d, st')"
  shows "resp = (if takes i then Some (RespAccepted (dm_message_id retry) e) else None)
    \<and> ds_queues st' = ds_queues st \<and> d = None"
  using assms(7)
proof (cases rule: handle_request_cases)
  case (admitted source lim)
  from admitted(3) show ?thesis
  proof (cases rule: handle_admitted_cases)
    case (ran req oc ctx ans)
    have req: "req = retry" and src: "source = p" using ran(1) assms(5) admitted(1) by simp_all
    have ttl: "dc_ttl_ms (ds_dedup st) = DEFAULT_TTL_MS" using assms(1) by (simp add: node_ok_def)
    have "oc = OcDuplicateAccepted e \<and> ac_queues ctx = ds_queues st"
      using admit_structured_known [where ctx = "admission_of (st\<lparr>ds_ingress := lim\<rparr>) (dt_draining tick)"
          and frame = retry and p = p and sha = sha and fp = fp and e = e
          and ck = "\<lparr>ck_monotonic_ms = dt_now_ms tick, ck_wall_ms = dt_wall_ms tick\<rparr>"]
        assms(2-4) ttl ran(2) by (simp add: req src)
    then show ?thesis using ran(3-5) req by (simp add: response_of_def)
  qed (use assms(5) in simp)
qed (use assms(6) in simp_all)

text \<open>Outcomes that the wire does not tell apart.\<close>

definition same_on_wire :: "outcome \<Rightarrow> outcome \<Rightarrow> bool" where
  "same_on_wire oc oc' \<longleftrightarrow> oc = oc' \<or> (\<exists>f f'. oc = OcRefused (NoRoute f) \<and> oc' = OcRefused (NoRoute f'))"

lemma admit_held_unroutable:
  assumes "admit_held frame p ck key fp ctx = (oc, ctx')"
    "\<not> is_ok (resolve_inbound (ac_registry ctx) (dm_destination_endpoint frame)
        (\<lambda>policy. decide_for_endpoint (pc_trust (ac_prefix ctx)) p policy = Allowed))"
  shows "\<exists>f. oc = OcRefused (NoRoute f)"
  using assms by (cases rule: admit_held_cases) auto

lemma admit_structured_alike:
  assumes "admit_structured sha frame p ck c = (oc, d)" "admit_structured sha frame p ck c' = (oc', d')"
    and "ac_dedup c' = ac_dedup c" "ac_reservations c' = ac_reservations c"
    and u: "\<not> is_ok (resolve_inbound (ac_registry c) (dm_destination_endpoint frame)
        (\<lambda>policy. decide_for_endpoint (pc_trust (ac_prefix c)) p policy = Allowed))"
    and u': "\<not> is_ok (resolve_inbound (ac_registry c') (dm_destination_endpoint frame)
        (\<lambda>policy. decide_for_endpoint (pc_trust (ac_prefix c')) p policy = Allowed))"
  shows "same_on_wire oc oc'"
  using assms(1)
proof (cases rule: admit_structured_cases)
  case (unhashable e)
  from assms(2) show ?thesis
    by (cases rule: admit_structured_cases) (use unhashable in \<open>auto simp: same_on_wire_def\<close>)
next
  case (known fp a)
  from assms(2) show ?thesis
    by (cases rule: admit_structured_cases) (use known assms(3) in \<open>auto simp: same_on_wire_def\<close>)
next
  case (reserved fp a r)
  from assms(2) show ?thesis
    by (cases rule: admit_structured_cases) (use reserved assms(3,4) in \<open>auto simp: same_on_wire_def\<close>)
next
  case (held fp a r)
  have oc: "\<exists>f. oc = OcRefused (NoRoute f)" using admit_held_unroutable [OF held(6)] u by simp
  from assms(2) show ?thesis
  proof (cases rule: admit_structured_cases)
    case (held fp' a' r')
    have "\<exists>f. oc' = OcRefused (NoRoute f)" using admit_held_unroutable [OF held(6)] u' by simp
    with oc show ?thesis by (auto simp: same_on_wire_def)
  qed (use held assms(3,4) in auto)
qed

lemma response_of_alike:
  "same_on_wire oc oc' \<Longrightarrow> oc \<noteq> OcAttachedAsWaiter \<Longrightarrow> response_of d request p oc = response_of d' request p oc'"
  by (auto simp: same_on_wire_def response_of_def resolve_failure_to_wire_def split: outcome.splits)

lemma handle_admitted_alike:
  assumes "node_ok st" "node_ok st'" "ds_trust st' = ds_trust st" "ds_dedup st' = ds_dedup st"
    and u: "\<And>request. parse_inbound bytes oversize (dt_max_payload_bytes tick) = Ok request \<Longrightarrow>
      \<not> is_ok (resolve_inbound (ds_registry st) (dm_destination_endpoint request)
          (\<lambda>policy. decide_for_endpoint (ds_trust st) p policy = Allowed))
      \<and> \<not> is_ok (resolve_inbound (ds_registry st') (dm_destination_endpoint request)
          (\<lambda>policy. decide_for_endpoint (ds_trust st) p policy = Allowed))"
  shows "fst (handle_admitted sha takes p bytes oversize i tick st)
    = fst (handle_admitted sha takes p bytes oversize i tick st')"
proof -
  obtain resp n s where run: "handle_admitted sha takes p bytes oversize i tick st = (resp, n, s)"
    by (cases "handle_admitted sha takes p bytes oversize i tick st")
  obtain resp' n' s' where run': "handle_admitted sha takes p bytes oversize i tick st' = (resp', n', s')"
    by (cases "handle_admitted sha takes p bytes oversize i tick st'")
  have res: "ds_reservations st' = ds_reservations st" using assms(1,2) by (simp add: node_ok_def)
  from run have "resp = resp'"
  proof (cases rule: handle_admitted_cases)
    case (unparsed m reason ans)
    from run' show ?thesis by (cases rule: handle_admitted_cases) (use unparsed in auto)
  next
    case (ran request oc ctx ans)
    note first = ran
    from run' show ?thesis
    proof (cases rule: handle_admitted_cases)
      case (unparsed m reason ans)
      then show ?thesis using first by simp
    next
      case (ran request' oc' ctx' ans')
      then have req: "request' = request" using first by simp
      have "same_on_wire oc oc'"
        using u [OF first(1)] assms(3,4) res
        by (intro admit_structured_alike [OF first(2) ran(2) [unfolded req]]) simp_all
      moreover have "oc \<noteq> OcAttachedAsWaiter" using never_a_waiter [OF assms(1) first(2)] by simp
      ultimately show ?thesis
        using first(4) ran(4) response_of_alike by (metis req)
    qed
  qed
  then show ?thesis by (simp add: run run')
qed

lemma unroutable_alike:
  assumes "node_ok st" "node_ok st'"
    and "ds_trust st' = ds_trust st \<and> ds_ingress st' = ds_ingress st \<and> ds_dedup st' = ds_dedup st"
    and "\<forall>request. parse_inbound bytes oversize (dt_max_payload_bytes tick) = Ok request \<longrightarrow>
      \<not> is_ok (resolve_inbound (ds_registry st) (dm_destination_endpoint request)
          (\<lambda>policy. decide_for_endpoint (ds_trust st) p policy = Allowed))
      \<and> \<not> is_ok (resolve_inbound (ds_registry st') (dm_destination_endpoint request)
          (\<lambda>policy. decide_for_endpoint (ds_trust st) p policy = Allowed))"
  shows "fst (handle_request sha takes (Some p) bytes oversize i tick st)
    = fst (handle_request sha takes (Some p) bytes oversize i tick st')"
proof -
  have "node_ok (s\<lparr>ds_ingress := lim\<rparr>) = node_ok s" for s lim by (simp add: node_ok_def)
  then have "fst (handle_admitted sha takes p bytes oversize i tick (st\<lparr>ds_ingress := lim\<rparr>))
      = fst (handle_admitted sha takes p bytes oversize i tick (st'\<lparr>ds_ingress := lim\<rparr>))" for lim
    using assms by (intro handle_admitted_alike) simp_all
  then show ?thesis
    using assms(3)
    by (auto simp: handle_request_def Let_def case_prod_beta answer_fst split: sum.splits option.splits)
qed

text \<open>What an acceptance names, whether it is fresh or replayed.\<close>

lemma dedup_admit_Duplicate:
  "dedup_ok c \<Longrightarrow> fst (dedup_admit c k fp t) = DuplicateAccepted route \<Longrightarrow>
     \<exists>r. bm_get (dc_entries c) k = Some r \<and> ar_route r = route"
  by (auto simp: dedup_admit_def Let_def dedup_expire_get split: option.splits if_splits)

lemma refusal_reasons: "refusal_to_wire r \<notin> {RjTooLarge, RjUnsupported}"
proof (cases r)
  case (QueueRefused q)
  then show ?thesis by (cases q) simp_all
qed (simp_all add: resolve_failure_to_wire_def)

lemma accepted_endpoint:
  assumes "node_ok st" "routes_ok (ds_dedup st)"
    "admit_structured sha request p ck (admission_of st d) = (oc, ctx)"
    "oc = OcAccepted e \<or> oc = OcDuplicateAccepted e"
  shows "dm_destination_endpoint request \<in> {Some e, None}"
  using assms(3)
proof (cases rule: admit_structured_cases)
  case (known fp c)
  have "dedup_ok (ds_dedup st)" using assms(1) by (simp add: node_ok_def)
  moreover have "fst c = DuplicateAccepted (RouteDirect e)" using known(4) assms(4) by auto
  then have "fst (dedup_admit (ds_dedup st) (dedup_key_of request p) fp (ck_monotonic_ms ck))
      = DuplicateAccepted (RouteDirect e)"
    by (simp add: known(2))
  ultimately obtain r where "bm_get (dc_entries (ds_dedup st)) (dedup_key_of request p) = Some r"
    "ar_route r = RouteDirect e"
    using dedup_admit_Duplicate by blast
  then have "record_ok (OpRecord (dedup_key_of request p) (RouteDirect e) (ar_fingerprint r) 0)"
    using assms(2) by (metis routes_ok_def)
  then show ?thesis by (auto simp: dedup_key_of_def split: option.splits)
next
  case (held fp c r)
  from held(6) show ?thesis
    by (cases rule: admit_held_cases) (use assms(4) in \<open>auto simp: resolve_inbound_Inr\<close>)
qed (use assms(4) in auto)

lemma response_cases:
  assumes "response_of dd request p oc = Some r" "oc \<noteq> OcAttachedAsWaiter"
  obtains (accepted) e where "r = RespAccepted (dm_message_id request) e"
      "oc = OcAccepted e \<or> oc = OcDuplicateAccepted e"
  | (rejected) f where "r = RespRejected (dm_message_id request) (refusal_to_wire f)"
  using assms by (auto simp: response_of_def split: outcome.splits)

section \<open>Properties\<close>

text \<open>C2. Leases and queues are one fact: after any sequence of configuration, claims, releases,
  revocations, drains and remote requests, a queue is open for exactly the leased endpoints and
  is within its bound; so an endpoint nobody holds accumulates nothing, and an endpoint that
  resolves always has a queue.  No session is owed more than eight notices, and no reservation
  is left behind.\<close>

theorem lease_queue_one_fact:
  assumes "st = foldl (node_step sha) (direct_state_new now) ops"
  shows "(\<forall>e. queues_is_open (ds_queues st) e \<longleftrightarrow> lease (ds_registry st) e \<noteq> None)
    \<and> (\<forall>e q. bm_get (ds_queues st) e = Some q \<longrightarrow> length (q_events q) \<le> q_bound q)
    \<and> (\<forall>s ns. bm_get (ds_lease_notices st) s = Some ns \<longrightarrow> ns \<noteq> [] \<and> length ns \<le> MAX_OWED_NOTICES)
    \<and> outstanding (ds_reservations st) = 0"
proof -
  have ok: "node_ok st" unfolding assms by (rule node_reachable)
  then have "queues_is_open (ds_queues st) e \<longleftrightarrow> lease (ds_registry st) e \<noteq> None" for e
    by (auto simp: node_ok_def queues_is_open_def bm_has_keys lease_def map_of_eq_None_iff)
  moreover have "outstanding (ds_reservations st) = 0"
    using ok by (simp add: node_ok_def outstanding_def reservations_new_def)
  ultimately show ?thesis using ok by (simp add: node_ok_def queues_ok_def notices_ok_def)
qed

text \<open>C6. Every request that can be answered is: in every reachable state a request from a nameable
  peer that carries at least sixteen bytes gets an answer handed to the network whenever the
  network takes one, and every answer echoes the id the request carries.  In particular no
  request is left waiting on another.\<close>

theorem every_request_answered:
  assumes "st = foldl (node_step sha) (direct_state_new now) ops"
    and "handle_request sha takes (Some p) bytes oversize i tick st = (resp, delivered, st')"
  shows "(resp \<noteq> None \<longleftrightarrow> takes i \<and> 16 \<le> length bytes)
    \<and> (\<forall>r. resp = Some r \<longrightarrow> response_id r = MessageId (take 16 bytes))"
proof -
  have "node_ok st" unfolding assms(1) by (rule node_reachable)
  from answered_when_named [OF this assms(2)] show ?thesis
    by (auto simp: recover_id_def MESSAGE_ID_LEN_def split: if_splits)
qed


text \<open>C5. The answer to an unroutable message does not say why it was unroutable.  Take two nodes that
  agree on trust, rate limits and what they have already accepted, however they differ in which
  endpoints are configured, enabled, leased, open to the sender or made the default: if the
  message resolves at neither, the peer receives the same answer from both.\<close>

theorem no_route_indistinguishable:
  assumes "st = foldl (node_step sha) (direct_state_new now) ops"
    and "st' = foldl (node_step sha) (direct_state_new now') ops'"
    and "ds_trust st' = ds_trust st \<and> ds_ingress st' = ds_ingress st \<and> ds_dedup st' = ds_dedup st"
    and "\<forall>request. parse_inbound bytes oversize (dt_max_payload_bytes tick) = Ok request \<longrightarrow>
      \<not> is_ok (resolve_inbound (ds_registry st) (dm_destination_endpoint request)
          (\<lambda>policy. decide_for_endpoint (ds_trust st) p policy = Allowed))
      \<and> \<not> is_ok (resolve_inbound (ds_registry st') (dm_destination_endpoint request)
          (\<lambda>policy. decide_for_endpoint (ds_trust st) p policy = Allowed))"
  shows "fst (handle_request sha takes (Some p) bytes oversize i tick st)
    = fst (handle_request sha takes (Some p) bytes oversize i tick st')"
proof -
  have ok: "node_ok st" "node_ok st'" unfolding assms(1,2) by (rule node_reachable)+
  show ?thesis using unroutable_alike [OF ok assms(3,4)] .
qed

text \<open>C28. An honest exchange never misroutes.  When a well-formed message is written whole on the
  substream and a node in any reachable state answers it, either the answer is an acceptance
  that the sender's checks let through, naming the endpoint asked for when one was, or it is a
  rejection of that message with a reason other than \<open>too_large\<close> or \<open>unsupported\<close>.  And when the
  node announces a delivery, the answer is an acceptance by that endpoint.\<close>

theorem direct_exchange:
  assumes "st = foldl (node_step sha) (direct_state_new now) ops"
    and "direct_ok (dt_max_payload_bytes tick) m" and "read_request (direct_encode m) = (bytes, oversize)"
    and "handle_request sha takes (Some p) bytes oversize i tick st = (Some r, delivered, st')"
  shows "((\<exists>e. r = RespAccepted (dm_message_id m) e
        \<and> validate_response r (dm_message_id m) (dm_destination_endpoint m) = Ok e)
      \<or> (\<exists>reason. r = RespRejected (dm_message_id m) reason \<and> reason \<notin> {RjTooLarge, RjUnsupported}))
    \<and> (\<forall>e. delivered = Some (e, p) \<longrightarrow> r = RespAccepted (dm_message_id m) e)"
proof -
  have ok: "node_ok st" and rok: "routes_ok (ds_dedup st)"
    unfolding assms(1) by (rule node_reachable node_routes)+
  have parse: "parse_inbound bytes oversize (dt_max_payload_bytes tick) = Ok m"
    using length_direct_encode [OF assms(2)] assms(2,3)
      direct.accepted_iff [where limit = "dt_max_payload_bytes tick" and w = "direct_encode m" and m = m]
    by (auto simp: read_request_def read_bounded_or_oversize_def parse_inbound_def Let_def)
  from assms(4) show ?thesis
  proof (cases rule: handle_request_cases)
    case (gated source refusal lim ans)
    then show ?thesis using parsed_id [OF parse] refusal_reasons [of refusal] by (auto split: if_splits)
  next
    case (admitted source lim)
    have ok': "node_ok (st\<lparr>ds_ingress := lim\<rparr>)" using ok by (simp add: node_ok_def)
    from admitted(3) show ?thesis
    proof (cases rule: handle_admitted_cases)
      case (ran request oc ctx ans)
      have req: "request = m" using ran(1) parse by simp
      have w: "oc \<noteq> OcAttachedAsWaiter" using never_a_waiter [OF ok' ran(2)] by simp
      have "response_of (ac_dedup ctx) request source oc = Some r"
        using ran(4) by (auto split: option.splits if_splits)
      from this w show ?thesis
      proof (cases rule: response_cases)
        case (accepted e)
        have "dm_destination_endpoint m \<in> {Some e, None}"
          using accepted_endpoint [OF ok' _ ran(2) accepted(2)] rok by (simp add: req)
        then show ?thesis
          using accepted ran(5) by (auto simp: req validate_response_def split: outcome.splits if_splits)
      next
        case (rejected f)
        have "delivered = None"
          using rejected ran(4,5) by (auto simp: response_of_def split: outcome.splits option.splits if_splits)
        with rejected show ?thesis using refusal_reasons [of f] by (simp add: req)
      qed
    qed (use parse in simp)
  qed auto
qed

text \<open>A concrete node: a trusted peer, an endpoint configured as the default, and its lease.\<close>

definition node_peer :: transport_identity where "node_peer = TransportIdentity [3]"
definition node_endpoint :: endpoint_id where "node_endpoint = EndpointId [98]"

definition node_setup :: "node_op list" where
  "node_setup =
    [NoTrust \<lparr>tp_allowed_peers = [node_peer], tp_local_peer = None\<rparr>,
     NoConfigure \<lparr>dn_endpoints = [(node_endpoint, registered_endpoint_default)], dn_default = Some node_endpoint,
       dn_queue_bound = 4, dn_directory_enabled = True, dn_max_advertised = 8,
       dn_directory_queries_per_min = 12, dn_directory_max_inflight = 16, dn_directory_cache_ttl_ms = 60000\<rparr>,
     NoClaim (LocalSessionId [5]) node_endpoint [] (replicate 16 7)]"

definition node_message :: direct_message where
  "node_message =
    \<lparr>dm_message_id = MessageId (replicate 16 1), dm_sent_at_ms = 0, dm_source_endpoint = EndpointId [97],
     dm_destination_endpoint = None, dm_payload = \<lparr>payload_media = None, payload_bytes = [9]\<rparr>\<rparr>"

definition node_tick :: "nat \<Rightarrow> direct_tick" where
  "node_tick t = \<lparr>dt_now_ms = t, dt_max_payload_bytes = 100, dt_wall_ms = 1000 + t, dt_draining = False,
     dt_may_buffer_delivery = True\<rparr>"

abbreviation node_start :: "node_op list \<Rightarrow> direct_state" where
  "node_start ops \<equiv> foldl (node_step (\<lambda>x. [])) (direct_state_new 0) ops"

abbreviation node_handle :: "nat \<Rightarrow> direct_state \<Rightarrow>
    direct_response option \<times> (endpoint_id \<times> transport_identity) option \<times> direct_state" where
  "node_handle t st \<equiv>
     handle_request (\<lambda>x. []) (\<lambda>_. True) (Some node_peer) (direct_encode node_message) False 1 (node_tick t) st"

definition node_accepted :: direct_response where
  "node_accepted = RespAccepted (MessageId (replicate 16 1)) node_endpoint"

lemma node_parse: "parse_inbound (direct_encode node_message) False (dt_max_payload_bytes (node_tick t)) = Ok node_message"
proof -
  have "parse_inbound (direct_encode node_message) False 100 = Ok node_message" by code_simp
  then show ?thesis by (simp add: node_tick_def)
qed

lemma node_takes:
  "fst (node_handle 5 (node_start node_setup)) = Some node_accepted"
  "fst (snd (node_handle 5 (node_start node_setup))) = Some (node_endpoint, node_peer)"
  by code_simp+

abbreviation node_after :: direct_state where
  "node_after \<equiv> snd (snd (node_handle 5 (node_start node_setup)))"

lemma node_first:
  "node_handle 5 (node_start node_setup) = (Some node_accepted, Some (node_endpoint, node_peer), node_after)"
  using node_takes by (simp add: prod_eq_iff)

lemma node_grew:
  "map de_message_id (waiting (ds_queues node_after) node_endpoint)
     = [MessageId (replicate 16 1)]
   \<and> waiting (ds_queues (node_start node_setup)) node_endpoint = []"
  by code_simp

theorem lease_queue_one_fact_witness:
  "lease (ds_registry (node_start node_setup)) node_endpoint \<noteq> None
   \<and> queues_is_open (ds_queues (node_start node_setup)) node_endpoint
   \<and> \<not> queues_is_open (ds_queues (node_start (node_setup @ [NoRevoke node_endpoint]))) node_endpoint"
proof -
  have "lease (ds_registry (node_start node_setup)) node_endpoint \<noteq> None" by code_simp
  moreover have "lease (ds_registry (node_start (node_setup @ [NoRevoke node_endpoint]))) node_endpoint = None"
    by code_simp
  ultimately show ?thesis
    using lease_queue_one_fact [OF refl, of "\<lambda>x. []" 0 node_setup]
      lease_queue_one_fact [OF refl, of "\<lambda>x. []" 0 "node_setup @ [NoRevoke node_endpoint]"]
    by blast
qed

theorem every_request_answered_witness:
  "fst (node_handle 5 (node_start node_setup)) \<noteq> None \<and> response_id node_accepted = MessageId (replicate 16 1)"
proof -
  have "16 \<le> length (direct_encode node_message) \<and> take 16 (direct_encode node_message) = replicate 16 1"
    by code_simp
  then show ?thesis
    using every_request_answered [OF refl node_first] node_takes(1) by simp
qed


theorem no_route_indistinguishable_witness:
  "fst (node_handle 5 (node_start (node_setup @ [NoRevoke node_endpoint])))
     = fst (node_handle 5 (node_start (node_setup @ [NoSetEnabled node_endpoint False])))
   \<and> fst (node_handle 5 (node_start (node_setup @ [NoRevoke node_endpoint])))
     = Some (RespRejected (MessageId (replicate 16 1)) RjNoRoute)"
proof -
  let ?st = "node_start (node_setup @ [NoRevoke node_endpoint])"
  let ?st' = "node_start (node_setup @ [NoSetEnabled node_endpoint False])"
  have a: "resolve_inbound (ds_registry ?st) None (\<lambda>policy. decide_for_endpoint (ds_trust ?st) node_peer policy = Allowed)
      = Err RfEndpointOffline" by code_simp
  have b: "resolve_inbound (ds_registry ?st') None (\<lambda>policy. decide_for_endpoint (ds_trust ?st) node_peer policy = Allowed)
      = Err RfNoDefaultConfigured" by code_simp
  have c: "ds_trust ?st' = ds_trust ?st \<and> ds_ingress ?st' = ds_ingress ?st \<and> ds_dedup ?st' = ds_dedup ?st"
    by code_simp
  have d: "dm_destination_endpoint node_message = None" by (simp add: node_message_def)
  have "fst (node_handle 5 ?st) = Some (RespRejected (MessageId (replicate 16 1)) RjNoRoute)" by code_simp
  moreover have "fst (node_handle 5 ?st) = fst (node_handle 5 ?st')"
    by (rule no_route_indistinguishable [OF refl refl c])
      (simp only: node_parse sum.inject a b d is_ok_simps simp_thms)
  ultimately show ?thesis by blast
qed

theorem direct_exchange_witness:
  "validate_response node_accepted (MessageId (replicate 16 1)) None = Ok node_endpoint
   \<and> fst (node_handle 5 (node_start node_setup)) = Some node_accepted"
proof -
  have "direct_ok 100 node_message"
    using node_parse parsed_id [of "direct_encode node_message" False 100 node_message] by (simp add: node_tick_def)
  moreover have "read_request (direct_encode node_message) = (direct_encode node_message, False)" by code_simp
  ultimately show ?thesis
    using direct_exchange [OF refl _ _ node_first, of node_message] node_takes
    by (simp add: node_tick_def node_accepted_def node_message_def)
qed

end
