(* ===== verification/Directory_Codec.thy ===== *)
theory Directory_Codec
  imports Directory Direct_Codec
begin

text \<open>
  The codec of \<open>/interweave/endpoints/1.0.0\<close>, \<open>crates/transport/libp2p/src/endpoints_codec.rs\<close>:
  a one-byte request and a response that is a directory of at most 32 labels or a coarse
  refusal.  The string errors of the source are constructors here.
\<close>

section \<open>Definitions\<close>

definition DIRECTORY_MAX_REQUEST_BYTES :: nat where
  "DIRECTORY_MAX_REQUEST_BYTES = 1"

definition DIRECTORY_MAX_RESPONSE_BYTES :: nat where
  "DIRECTORY_MAX_RESPONSE_BYTES = 1 + 8 + 4 + 1 + MAX_DIRECTORY_ENTRIES * (1 + ENDPOINT_MAX_BYTES)"

definition TAG_REQUEST :: byte where "TAG_REQUEST = 1"
definition TAG_DIRECTORY :: byte where "TAG_DIRECTORY = 1"
definition TAG_REFUSED :: byte where "TAG_REFUSED = 2"

datatype directory_response = DirectoryList endpoint_directory | DirectoryRefused directory_refusal

datatype directory_codec_error =
    DceOversize
  | DceEmptyRequest
  | DceRequestShape
  | DceEmptyResponse
  | DceRefusalShape
  | DceUnassignedCode
  | DceShortGenerated
  | DceShortTtl
  | DceShortCount
  | DceTooManyEntries
  | DceShortEntryLength
  | DceShortEntry
  | DceEntryNotAscii
  | DceEntryGrammar
  | DceTrailing
  | DceUnknownTag

fun directory_reason_code :: "directory_refusal \<Rightarrow> byte" where
  "directory_reason_code DrOverloaded = 1"
| "directory_reason_code DrUnauthorized = 2"
| "directory_reason_code DrUnavailable = 3"

definition directory_reason_from_code :: "byte \<Rightarrow> directory_codec_error + directory_refusal" where
  "directory_reason_from_code code =
    (if code = 1 then Ok DrOverloaded
     else if code = 2 then Ok DrUnauthorized
     else if code = 3 then Ok DrUnavailable
     else Err DceUnassignedCode)"

definition encode_directory_request :: bytes where
  "encode_directory_request = [TAG_REQUEST]"

definition decode_directory_request :: "bytes \<Rightarrow> directory_codec_error + unit" where
  "decode_directory_request bytes =
    (if bytes = [TAG_REQUEST] then Ok ()
     else if bytes = [] then Err DceEmptyRequest
     else Err DceRequestShape)"

fun encode_directory_response :: "directory_response \<Rightarrow> bytes" where
  "encode_directory_response (DirectoryList d) =
    (let entries = take MAX_DIRECTORY_ENTRIES (ed_endpoints d)
     in [TAG_DIRECTORY] @ be_bytes 8 (ed_generated_at_ms d) @ be_bytes 4 (ed_ttl_ms d)
        @ [u8_len (length entries)] @ concat (map (\<lambda>e. put_u8_prefixed (endpoint_str e)) entries))"
| "encode_directory_response (DirectoryRefused reason) = [TAG_REFUSED, directory_reason_code reason]"

fun read_entries :: "nat \<Rightarrow> bytes \<Rightarrow> directory_codec_error + endpoint_id list \<times> bytes" where
  "read_entries 0 rest = Ok ([], rest)"
| "read_entries (Suc n) rest =
    (case rest of
       [] \<Rightarrow> Err DceShortEntryLength
     | len # tail \<Rightarrow>
         if length tail < unat len then Err DceShortEntry
         else
           let label = take (unat len) tail; tail = drop (unat len) tail in
           if \<not> utf8_ok label then Err DceEntryNotAscii
           else and_then (map_err (\<lambda>_. DceEntryGrammar) (endpoint_parse label)) (\<lambda>e.
                and_then (read_entries n tail) (\<lambda>(es, rest). Ok (e # es, rest))))"

definition decode_directory_list :: "bytes \<Rightarrow> directory_codec_error + directory_response" where
  "decode_directory_list rest =
    (if length rest < 8 then Err DceShortGenerated
     else
       let generated = take 8 rest; rest = drop 8 rest in
       if length rest < 4 then Err DceShortTtl
       else
         let ttl = take 4 rest; rest = drop 4 rest in
         (case rest of
            [] \<Rightarrow> Err DceShortCount
          | n # rest \<Rightarrow>
              if unat n > MAX_DIRECTORY_ENTRIES then Err DceTooManyEntries
              else and_then (read_entries (unat n) rest) (\<lambda>(endpoints, rest).
                   if rest \<noteq> [] then Err DceTrailing
                   else Ok (DirectoryList
                     \<lparr>ed_generated_at_ms = be_val generated, ed_ttl_ms = be_val ttl,
                      ed_endpoints = endpoints\<rparr>))))"

definition decode_directory_response :: "bytes \<Rightarrow> directory_codec_error + directory_response" where
  "decode_directory_response bytes =
    (case bytes of
       [] \<Rightarrow> Err DceEmptyResponse
     | tag # rest \<Rightarrow>
         if tag = TAG_REFUSED then
           (case rest of
              [code] \<Rightarrow> and_then (directory_reason_from_code code) (\<lambda>r. Ok (DirectoryRefused r))
            | _ \<Rightarrow> Err DceRefusalShape)
         else if tag = TAG_DIRECTORY then decode_directory_list rest
         else Err DceUnknownTag)"

definition read_directory_request :: "bytes \<Rightarrow> directory_codec_error + unit" where
  "read_directory_request stream =
    (case read_bounded stream DIRECTORY_MAX_REQUEST_BYTES of
       None \<Rightarrow> Err DceOversize | Some bytes \<Rightarrow> decode_directory_request bytes)"

definition read_directory_response :: "bytes \<Rightarrow> directory_codec_error + directory_response" where
  "read_directory_response stream =
    (case read_bounded stream DIRECTORY_MAX_RESPONSE_BYTES of
       None \<Rightarrow> Err DceOversize | Some bytes \<Rightarrow> decode_directory_response bytes)"

section \<open>A strict codec\<close>

fun directory_response_ok :: "directory_response \<Rightarrow> bool" where
  "directory_response_ok (DirectoryRefused _) \<longleftrightarrow> True"
| "directory_response_ok (DirectoryList d) \<longleftrightarrow>
     ed_generated_at_ms d < 2 ^ 64 \<and> ed_ttl_ms d < 2 ^ 32 \<and>
     length (ed_endpoints d) \<le> MAX_DIRECTORY_ENTRIES \<and> list_all endpoint_ok (ed_endpoints d)"

lemma read_entries_encode:
  "list_all endpoint_ok es \<Longrightarrow>
     read_entries (length es) (concat (map (\<lambda>e. put_u8_prefixed (endpoint_str e)) es) @ rest) = Ok (es, rest)"
proof (induction es)
  case (Cons e es)
  have e: "endpoint_parse (endpoint_str e) = Ok e" "utf8_ok (endpoint_str e)" "length (endpoint_str e) < 256"
    using Cons.prems endpoint_ok_length [of e] by (auto simp: endpoint_parse_iff endpoint_ok_utf8)
  then have "unat (u8_len (length (endpoint_str e))) = length (endpoint_str e)" by (simp add: unat_u8_len)
  with Cons e show ?case by (simp add: put_u8_prefixed_def Let_def)
qed simp

lemma read_entries_Ok:
  "read_entries n w = Ok (es, rest) \<Longrightarrow>
     length es = n \<and> list_all endpoint_ok es \<and>
     w = concat (map (\<lambda>e. put_u8_prefixed (endpoint_str e)) es) @ rest"
proof (induction n arbitrary: w es)
  case (Suc n)
  then obtain len tail e es' where w: "w = len # tail" "\<not> length tail < unat len"
    and e: "endpoint_ok e" "take (unat len) tail = endpoint_str e"
    and r: "read_entries n (drop (unat len) tail) = Ok (es', rest)" "es = e # es'"
    by (auto simp: and_then_eq_Inr endpoint_parse_iff Let_def split: list.splits if_splits)
  have "u8_len (length (endpoint_str e)) = len"
    using w(2) by (simp add: e(2) [symmetric] min_def)
  moreover have "tail = endpoint_str e @ drop (unat len) tail" by (simp add: e(2) [symmetric])
  ultimately show ?case
    using Suc.IH [OF r(1)] e(1) r(2) w(1) by (simp add: put_u8_prefixed_def)
qed simp

lemma be_val_four: "length bs = 4 \<Longrightarrow> be_val bs < 2 ^ 32"
  using be_val_less [of bs] by simp

lemma be_val_eight: "length bs = 8 \<Longrightarrow> be_val bs < 2 ^ 64"
  using be_val_less [of bs] by simp

lemma decode_directory_list_encode:
  assumes "directory_response_ok (DirectoryList d)"
  shows "decode_directory_list (tl (encode_directory_response (DirectoryList d))) = Ok (DirectoryList d)"
proof -
  have "length (ed_endpoints d) \<le> 32" using assms by (simp add: MAX_DIRECTORY_ENTRIES_def)
  then have "unat (u8_len (length (ed_endpoints d))) = length (ed_endpoints d)" by (simp add: unat_u8_len)
  moreover have "read_entries (length (ed_endpoints d))
      (concat (map (\<lambda>e. put_u8_prefixed (endpoint_str e)) (ed_endpoints d))) = Ok (ed_endpoints d, [])"
    using assms read_entries_encode [of "ed_endpoints d" "[]"] by simp
  moreover have "be_val (be_bytes 8 (ed_generated_at_ms d)) = ed_generated_at_ms d"
    "be_val (be_bytes 4 (ed_ttl_ms d)) = ed_ttl_ms d"
    using assms by (simp_all add: be_val_be_bytes)
  ultimately show ?thesis
    using assms by (simp add: decode_directory_list_def Let_def)
qed

lemma decode_directory_list_Ok:
  assumes "decode_directory_list rest = Ok m"
  shows "directory_response_ok m \<and> encode_directory_response m = TAG_DIRECTORY # rest"
proof -
  obtain b es where len: "8 \<le> length rest" "4 \<le> length (drop 8 rest)"
    and n: "drop 12 rest = b # concat (map (\<lambda>e. put_u8_prefixed (endpoint_str e)) es)"
      "length es = unat b" "unat b \<le> MAX_DIRECTORY_ENTRIES" "list_all endpoint_ok es"
    and m: "m = DirectoryList \<lparr>ed_generated_at_ms = be_val (take 8 rest), ed_ttl_ms = be_val (take 4 (drop 8 rest)),
        ed_endpoints = es\<rparr>"
    using assms
    by (auto simp: decode_directory_list_def and_then_eq_Inr Let_def not_less
        dest!: read_entries_Ok split: list.splits if_splits)
  have "take 4 (drop 8 rest) @ drop 12 rest = drop 8 rest" by (rule take_drop_eq) simp
  then have "take 8 rest @ take 4 (drop 8 rest) @ drop 12 rest = rest" by simp
  moreover have "be_bytes 8 (be_val (take 8 rest)) = take 8 rest"
    "be_bytes 4 (be_val (take 4 (drop 8 rest))) = take 4 (drop 8 rest)"
    using len be_bytes_be_val [of "take 8 rest"] be_bytes_be_val [of "take 4 (drop 8 rest)"] by simp_all
  ultimately show ?thesis
    using n len be_val_four [of "take 4 (drop 8 rest)"] be_val_eight [of "take 8 rest"]
    by (simp add: m Let_def)
qed

lemma directory_reason_from_code_Ok: "directory_reason_from_code c = Ok r \<longleftrightarrow> c = directory_reason_code r"
  by (cases r) (auto simp: directory_reason_from_code_def split: if_splits)

interpretation directory: strict_codec encode_directory_response decode_directory_response directory_response_ok
proof
  fix m assume ok: "directory_response_ok m"
  show "decode_directory_response (encode_directory_response m) = Inr m"
  proof (cases m)
    case (DirectoryList d)
    then show ?thesis
      using decode_directory_list_encode [of d] ok
      by (simp add: decode_directory_response_def TAG_DIRECTORY_def TAG_REFUSED_def Let_def)
  next
    case (DirectoryRefused r)
    then have "directory_reason_from_code (directory_reason_code r) = Ok r"
      by (simp add: directory_reason_from_code_Ok)
    then show ?thesis by (simp add: DirectoryRefused decode_directory_response_def)
  qed
next
  fix w m assume "decode_directory_response w = Inr m"
  then have "directory_response_ok m \<and> encode_directory_response m = w"
    using decode_directory_list_Ok
    by (auto simp: decode_directory_response_def and_then_eq_Inr directory_reason_from_code_Ok
        split: list.splits if_splits)
  then show "encode_directory_response m = w" "directory_response_ok m" by blast+
qed

lemma length_entries:
  "list_all endpoint_ok es \<Longrightarrow>
     length (concat (map (\<lambda>e. put_u8_prefixed (endpoint_str e)) es)) \<le> length es * (1 + ENDPOINT_MAX_BYTES)"
  by (induction es) (auto simp: put_u8_prefixed_def endpoint_ok_def)

lemma length_directory_response:
  "directory_response_ok r \<Longrightarrow> length (encode_directory_response r) \<le> DIRECTORY_MAX_RESPONSE_BYTES"
proof (cases r)
  case (DirectoryList d)
  moreover assume "directory_response_ok r"
  ultimately have "list_all endpoint_ok (ed_endpoints d)" "length (ed_endpoints d) \<le> MAX_DIRECTORY_ENTRIES"
    by simp_all
  then have "length (concat (map (\<lambda>e. put_u8_prefixed (endpoint_str e)) (ed_endpoints d)))
      \<le> MAX_DIRECTORY_ENTRIES * (1 + ENDPOINT_MAX_BYTES)"
    using order_trans [OF length_entries mult_le_mono1] by blast
  then show ?thesis
    using \<open>directory_response_ok r\<close> DirectoryList by (simp add: DIRECTORY_MAX_RESPONSE_BYTES_def Let_def)
qed (simp add: DIRECTORY_MAX_RESPONSE_BYTES_def)

section \<open>Properties\<close>

text \<open>The directory exchange is a strict codec, bounds included: what a responder writes is read
  as a response exactly when it is the encoding of that response, a refusal with an assigned
  code or at most 32 legal labels, with nothing after it and never more than the ceiling; and
  a query is exactly its one tag byte.\<close>

theorem directory_codec_strict:
  "(read_directory_response stream = Ok r
      \<longleftrightarrow> directory_response_ok r \<and> encode_directory_response r = stream)
   \<and> (read_directory_request stream = Ok () \<longleftrightarrow> stream = encode_directory_request)"
proof -
  have "read_directory_response stream = Ok r
      \<longleftrightarrow> directory_response_ok r \<and> encode_directory_response r = stream"
  proof (cases "length stream \<le> DIRECTORY_MAX_RESPONSE_BYTES")
    case True
    then show ?thesis
      using directory.accepted_iff [of stream r]
      by (simp add: read_directory_response_def read_bounded_def read_bounded_or_oversize_def Let_def)
  next
    case False
    then show ?thesis
      using length_directory_response [of r]
      by (auto simp: read_directory_response_def read_bounded_def read_bounded_or_oversize_def Let_def)
  qed
  moreover have "read_directory_request stream = Ok () \<longleftrightarrow> stream = encode_directory_request"
    by (auto simp: read_directory_request_def read_bounded_def read_bounded_or_oversize_def Let_def
        decode_directory_request_def encode_directory_request_def DIRECTORY_MAX_REQUEST_BYTES_def)
  ultimately show ?thesis by blast
qed

end
