(* ===== verification/Connection_Policy.thy ===== *)
theory Connection_Policy
  imports Trust
begin

text \<open>
  The dial admission policy, \<open>crates/transport/runtime/src/connection_policy.rs\<close>: connection
  classes and dial origins, the address-scoped and the peer-scoped failure state kept apart,
  the address book beside them, and the decision whether a dial may proceed.  Both tables are
  bounded, and neither making room nor pruning ever forgets a live quarantine.
\<close>

section \<open>Definitions\<close>

type_synonym address = bytes
type_synonym address_key = "transport_identity \<times> address"

definition IDENTITY_MISMATCH_QUARANTINE_MS :: nat where "IDENTITY_MISMATCH_QUARANTINE_MS = 30 * 60 * 1000"
definition DEFAULT_MAX_ADDRESS_ENTRIES :: nat where "DEFAULT_MAX_ADDRESS_ENTRIES = 8192"
definition DEFAULT_MAX_PEER_ENTRIES :: nat where "DEFAULT_MAX_PEER_ENTRIES = 4096"
definition DEFAULT_MAX_CONNECTED_PEERS :: nat where "DEFAULT_MAX_CONNECTED_PEERS = 256"
definition DEFAULT_MAX_CONNECTIONS_PER_PEER :: nat where "DEFAULT_MAX_CONNECTIONS_PER_PEER = 3"
definition DEFAULT_IDLE_TTL_MS :: nat where "DEFAULT_IDLE_TTL_MS = 60 * 60 * 1000"

datatype connection_class = DataPlaneTrusted | ConnectivityInfrastructureOnly | Unauthorized

datatype dial_origin =
    Manual | ConnectionManager | DiscoveryReconnect | KademliaQuery
  | RelayReservation | RelayCircuit | AutonatProbe | DcutrHolePunch

definition names_application_destination :: "dial_origin \<Rightarrow> bool" where
  "names_application_destination origin =
    (case origin of
       Manual \<Rightarrow> True | ConnectionManager \<Rightarrow> True | DiscoveryReconnect \<Rightarrow> True | KademliaQuery \<Rightarrow> True
     | RelayCircuit \<Rightarrow> True | DcutrHolePunch \<Rightarrow> True | _ \<Rightarrow> False)"

record dial_request =
  dq_peer :: "transport_identity option"
  dq_address :: address
  dq_origin :: dial_origin

datatype dial_denial =
    DnShuttingDown | DnUnauthorized | DnNotAuthorizedForDataPlane | DnPeerBackoff | DnAddressQuarantined
  | DnTooManyPendingDials | DnConnectionLimitReached | DnPolicySuperseded | DnPolicyStateFull

subsection \<open>Address and peer state\<close>

record address_state =
  as_consecutive_failures :: nat
  as_last_touched_ms :: nat
  as_last_success_ms :: "nat option"
  as_quarantined_until_ms :: "nat option"

definition address_state_default :: address_state where
  "address_state_default =
    \<lparr>as_consecutive_failures = 0, as_last_touched_ms = 0, as_last_success_ms = None,
     as_quarantined_until_ms = None\<rparr>"

definition is_dialable_at :: "address_state \<Rightarrow> nat \<Rightarrow> bool" where
  "is_dialable_at s now_ms = (case as_quarantined_until_ms s of None \<Rightarrow> True | Some until \<Rightarrow> now_ms \<ge> until)"

definition is_known_good :: "address_state \<Rightarrow> bool" where
  "is_known_good s \<longleftrightarrow> as_last_success_ms s \<noteq> None"

definition is_recently_good :: "address_state \<Rightarrow> bool" where
  "is_recently_good s \<longleftrightarrow> as_last_success_ms s \<noteq> None \<and> as_consecutive_failures s = 0"

definition is_punitive_at :: "address_state \<Rightarrow> nat \<Rightarrow> bool" where
  "is_punitive_at s now_ms = (case as_quarantined_until_ms s of None \<Rightarrow> False | Some until \<Rightarrow> now_ms < until)"

record peer_backoff =
  pb_consecutive_failures :: nat
  pb_last_touched_ms :: nat
  pb_until_ms :: "nat option"

definition peer_backoff_default :: peer_backoff where
  "peer_backoff_default = \<lparr>pb_consecutive_failures = 0, pb_last_touched_ms = 0, pb_until_ms = None\<rparr>"

definition is_clear_at :: "peer_backoff \<Rightarrow> nat \<Rightarrow> bool" where
  "is_clear_at b now_ms = (case pb_until_ms b of None \<Rightarrow> True | Some until \<Rightarrow> now_ms \<ge> until)"

definition backoff_is_punitive_at :: "peer_backoff \<Rightarrow> nat \<Rightarrow> bool" where
  "backoff_is_punitive_at b now_ms \<longleftrightarrow> \<not> is_clear_at b now_ms"

subsection \<open>The policy\<close>

type_synonym address_book = "(transport_identity, address bset) bmap"

record connection_policy =
  cp_addresses :: "(address_key, address_state) bmap"
  cp_book :: address_book
  cp_peers :: "(transport_identity, peer_backoff) bmap"
  cp_max_addresses :: nat
  cp_max_peers :: nat
  cp_idle_ttl_ms :: nat
  cp_max_pending_dials :: nat
  cp_max_connections :: nat
  cp_max_connected_peers :: nat
  cp_max_connections_per_peer :: nat
  cp_shutting_down :: bool

definition in_book :: "address_book \<Rightarrow> transport_identity \<Rightarrow> address \<Rightarrow> bool" where
  "in_book book peer address =
    (case bm_get book peer of None \<Rightarrow> False | Some known \<Rightarrow> address \<in> set known)"

definition policy_default :: connection_policy where
  "policy_default =
    \<lparr>cp_addresses = [], cp_book = [], cp_peers = [], cp_max_addresses = DEFAULT_MAX_ADDRESS_ENTRIES,
     cp_max_peers = DEFAULT_MAX_PEER_ENTRIES, cp_idle_ttl_ms = DEFAULT_IDLE_TTL_MS,
     cp_max_pending_dials = 0, cp_max_connections = 0, cp_max_connected_peers = DEFAULT_MAX_CONNECTED_PEERS,
     cp_max_connections_per_peer = DEFAULT_MAX_CONNECTIONS_PER_PEER, cp_shutting_down = False\<rparr>"

definition policy_new :: "nat \<Rightarrow> nat \<Rightarrow> connection_policy" where
  "policy_new max_pending_dials max_connections =
    policy_default\<lparr>cp_max_pending_dials := max_pending_dials, cp_max_connections := max_connections\<rparr>"

definition prune :: "connection_policy \<Rightarrow> nat \<Rightarrow> nat \<times> connection_policy" where
  "prune p now_ms =
    (let idle = (\<lambda>touched. now_ms - touched \<ge> cp_idle_ttl_ms p);
         before = length (cp_addresses p) + length (cp_peers p);
         addresses = bm_retain
           (\<lambda>(peer, address) s. in_book (cp_book p) peer address \<or> is_punitive_at s now_ms
              \<or> \<not> idle (as_last_touched_ms s)) (cp_addresses p);
         peers = bm_retain (\<lambda>_ b. backoff_is_punitive_at b now_ms \<or> \<not> idle (pb_last_touched_ms b)) (cp_peers p)
     in (before - (length addresses + length peers), p\<lparr>cp_addresses := addresses, cp_peers := peers\<rparr>))"

text \<open>The entries whose key the book does not hold: the ones the table's bound counts.\<close>

definition outside_entries :: "connection_policy \<Rightarrow> (address_key \<times> address_state) list" where
  "outside_entries p = filter (\<lambda>((peer, address), _). \<not> in_book (cp_book p) peer address) (cp_addresses p)"

definition make_room_for_address :: "connection_policy \<Rightarrow> nat \<Rightarrow> bool \<times> connection_policy" where
  "make_room_for_address p now_ms =
    (if length (outside_entries p) < cp_max_addresses p then (True, p)
     else
       (case min_by_key (\<lambda>(_, s). as_last_touched_ms s)
               (filter (\<lambda>(_, s). \<not> is_punitive_at s now_ms) (outside_entries p)) of
          Some (key, _) \<Rightarrow> (True, p\<lparr>cp_addresses := bm_remove key (cp_addresses p)\<rparr>)
        | None \<Rightarrow> (False, p)))"

text \<open>Taking an address out of a peer's list, and the peer with its last one.\<close>

definition book_remove :: "transport_identity \<Rightarrow> address \<Rightarrow> address_book \<Rightarrow> address_book" where
  "book_remove peer address book =
    (case bm_get book peer of
       None \<Rightarrow> book
     | Some known \<Rightarrow>
         let known = bs_remove address known
         in if known = [] then bm_remove peer book else bm_insert peer known book)"

definition book_add :: "transport_identity \<Rightarrow> address \<Rightarrow> address_book \<Rightarrow> address_book" where
  "book_add peer address book =
    bm_insert peer (bs_insert address (case bm_get book peer of None \<Rightarrow> [] | Some known \<Rightarrow> known)) book"

definition release_from_book ::
  "connection_policy \<Rightarrow> transport_identity \<Rightarrow> address \<Rightarrow> nat \<Rightarrow> bool \<times> connection_policy" where
  "release_from_book p peer address now_ms =
    (if \<not> in_book (cp_book p) peer address then (True, p)
     else
       let key = (peer, address);
           released = (\<lambda>p. (True, p\<lparr>cp_book := book_remove peer address (cp_book p)\<rparr>))
       in (case bm_get (cp_addresses p) key of
             None \<Rightarrow> released p
           | Some s \<Rightarrow>
               let punitive = is_punitive_at s now_ms;
                   (room, p) = make_room_for_address p now_ms
               in if punitive \<and> \<not> room then (False, p)
                  else if \<not> room then released (p\<lparr>cp_addresses := bm_remove key (cp_addresses p)\<rparr>)
                  else released p))"

definition make_room_for_peer :: "connection_policy \<Rightarrow> nat \<Rightarrow> bool \<times> connection_policy" where
  "make_room_for_peer p now_ms =
    (if length (cp_peers p) < cp_max_peers p then (True, p)
     else
       (case min_by_key (\<lambda>(_, b). pb_last_touched_ms b)
               (filter (\<lambda>(_, b). \<not> backoff_is_punitive_at b now_ms) (cp_peers p)) of
          Some (key, _) \<Rightarrow> (True, p\<lparr>cp_peers := bm_remove key (cp_peers p)\<rparr>)
        | None \<Rightarrow> (False, p)))"

definition live_quarantines :: "connection_policy \<Rightarrow> nat \<Rightarrow> nat" where
  "live_quarantines p now_ms = length (filter (\<lambda>(_, s). is_punitive_at s now_ms) (outside_entries p))"

definition policy_address :: "connection_policy \<Rightarrow> transport_identity \<Rightarrow> address \<Rightarrow> address_state option" where
  "policy_address p peer address = bm_get (cp_addresses p) (peer, address)"

definition policy_peer :: "connection_policy \<Rightarrow> transport_identity \<Rightarrow> peer_backoff option" where
  "policy_peer p peer = bm_get (cp_peers p) peer"

fun earliest_release ::
  "connection_policy \<Rightarrow> transport_identity \<Rightarrow> nat \<Rightarrow> nat option \<Rightarrow> address list \<Rightarrow> nat option" where
  "earliest_release p peer now_ms earliest [] = earliest"
| "earliest_release p peer now_ms earliest (address # known) =
    (case bm_get (cp_addresses p) (peer, address) of
       None \<Rightarrow> None
     | Some s \<Rightarrow>
         (case as_quarantined_until_ms s of
            None \<Rightarrow> None
          | Some until \<Rightarrow>
              if now_ms < until
              then earliest_release p peer now_ms
                     (Some (case earliest of None \<Rightarrow> until | Some e \<Rightarrow> min e until)) known
              else None))"

definition quarantined_until :: "connection_policy \<Rightarrow> transport_identity \<Rightarrow> nat \<Rightarrow> nat option" where
  "quarantined_until p peer now_ms =
    (case bm_get (cp_book p) peer of
       None \<Rightarrow> None
     | Some known \<Rightarrow> earliest_release p peer now_ms None known)"

definition clear_peer_backoff :: "connection_policy \<Rightarrow> transport_identity \<Rightarrow> bool \<times> connection_policy" where
  "clear_peer_backoff p peer = (bm_has (cp_peers p) peer, p\<lparr>cp_peers := bm_remove peer (cp_peers p)\<rparr>)"

definition lift_peer_backoff ::
  "connection_policy \<Rightarrow> transport_identity \<Rightarrow> nat \<Rightarrow> bool \<times> connection_policy" where
  "lift_peer_backoff p peer now_ms =
    (case bm_get (cp_peers p) peer of
       None \<Rightarrow> (False, p)
     | Some b \<Rightarrow>
         if backoff_is_punitive_at b now_ms
         then (True, p\<lparr>cp_peers := bm_insert peer (b\<lparr>pb_until_ms := None\<rparr>) (cp_peers p)\<rparr>)
         else (False, p))"

definition backed_off_peers :: "connection_policy \<Rightarrow> transport_identity list" where
  "backed_off_peers p = map fst (cp_peers p)"

subsection \<open>Admission\<close>

definition class_denial :: "connection_class \<Rightarrow> dial_origin \<Rightarrow> dial_denial option" where
  "class_denial class origin =
    (case class of
       Unauthorized \<Rightarrow> Some DnUnauthorized
     | ConnectivityInfrastructureOnly \<Rightarrow>
         if names_application_destination origin then Some DnNotAuthorizedForDataPlane else None
     | DataPlaneTrusted \<Rightarrow> None)"

definition backoff_denies :: "connection_policy \<Rightarrow> transport_identity \<Rightarrow> address \<Rightarrow> nat \<Rightarrow> bool" where
  "backoff_denies p peer address now_ms =
    (case bm_get (cp_peers p) peer of
       None \<Rightarrow> False
     | Some b \<Rightarrow> \<not> is_clear_at b now_ms \<and> (address = [] \<or> bm_has (cp_addresses p) (peer, address)))"

definition quarantine_denies :: "connection_policy \<Rightarrow> transport_identity \<Rightarrow> address \<Rightarrow> nat \<Rightarrow> bool" where
  "quarantine_denies p peer address now_ms =
    (case bm_get (cp_addresses p) (peer, address) of None \<Rightarrow> False | Some s \<Rightarrow> \<not> is_dialable_at s now_ms)"

definition state_full :: "connection_policy \<Rightarrow> transport_identity \<Rightarrow> address \<Rightarrow> nat \<Rightarrow> bool" where
  "state_full p peer address now_ms \<longleftrightarrow>
     \<not> bm_has (cp_addresses p) (peer, address) \<and> \<not> in_book (cp_book p) peer address
     \<and> length (outside_entries p) \<ge> cp_max_addresses p
     \<and> \<not> list_ex (\<lambda>(_, s). \<not> is_punitive_at s now_ms) (outside_entries p)"

definition policy_admit ::
  "connection_policy \<Rightarrow> dial_request \<Rightarrow> connection_class \<Rightarrow> nat \<Rightarrow> dial_denial + unit" where
  "policy_admit p request class now_ms =
    (if cp_shutting_down p then Err DnShuttingDown
     else
       (case class_denial class (dq_origin request) of
          Some denial \<Rightarrow> Err denial
        | None \<Rightarrow>
            (case dq_peer request of
               None \<Rightarrow> Ok ()
             | Some peer \<Rightarrow>
                 if backoff_denies p peer (dq_address request) now_ms then Err DnPeerBackoff
                 else if quarantine_denies p peer (dq_address request) now_ms then Err DnAddressQuarantined
                 else if state_full p peer (dq_address request) now_ms then Err DnPolicyStateFull
                 else Ok ())))"

subsection \<open>Outcomes\<close>

definition entry_or_default :: "connection_policy \<Rightarrow> address_key \<Rightarrow> address_state" where
  "entry_or_default p key =
    (case bm_get (cp_addresses p) key of None \<Rightarrow> address_state_default | Some s \<Rightarrow> s)"

definition policy_record_success ::
  "connection_policy \<Rightarrow> transport_identity \<Rightarrow> address \<Rightarrow> nat \<Rightarrow> connection_policy" where
  "policy_record_success p peer address now_ms =
    (let key = (peer, address);
         (room, p) = (if bm_has (cp_addresses p) key \<or> in_book (cp_book p) peer address then (True, p)
                      else make_room_for_address p now_ms)
     in if \<not> room then p\<lparr>cp_peers := bm_remove peer (cp_peers p)\<rparr>
        else
          let entry = (entry_or_default p key)
                \<lparr>as_consecutive_failures := 0, as_last_success_ms := Some now_ms,
                 as_quarantined_until_ms := None, as_last_touched_ms := now_ms\<rparr>
          in p\<lparr>cp_addresses := bm_insert key entry (cp_addresses p),
               cp_peers := bm_remove peer (cp_peers p)\<rparr>)"

text \<open>Room for a failure's record: one is there, the book has it, or prune and make room.\<close>

definition room_for_failure :: "connection_policy \<Rightarrow> address_key \<Rightarrow> nat \<Rightarrow> bool \<times> connection_policy" where
  "room_for_failure p key now_ms =
    (if bm_has (cp_addresses p) key \<or> in_book (cp_book p) (fst key) (snd key) then (True, p)
     else make_room_for_address (snd (prune p now_ms)) now_ms)"

definition score_address_failure ::
  "connection_policy \<Rightarrow> transport_identity \<Rightarrow> address \<Rightarrow> nat \<Rightarrow> connection_policy" where
  "score_address_failure p peer address now_ms =
    (let key = (peer, address);
         (room, p) = room_for_failure p key now_ms
     in if room then
          let entry = entry_or_default p key;
              entry = entry\<lparr>as_consecutive_failures := sat_add32 (as_consecutive_failures entry) 1,
                            as_last_touched_ms := now_ms\<rparr>
          in p\<lparr>cp_addresses := bm_insert key entry (cp_addresses p)\<rparr>
        else p)"

definition alternative_exists ::
  "connection_policy \<Rightarrow> transport_identity \<Rightarrow> address \<Rightarrow> nat \<Rightarrow> bool" where
  "alternative_exists p peer address now_ms =
    list_ex (\<lambda>((q, a), s). q = peer \<and> a \<noteq> address \<and> is_known_good s \<and> is_dialable_at s now_ms) (cp_addresses p)"

definition record_address_failure ::
  "connection_policy \<Rightarrow> transport_identity \<Rightarrow> address \<Rightarrow> nat \<Rightarrow> nat \<Rightarrow> bool \<times> connection_policy" where
  "record_address_failure p peer address now_ms backoff_ms =
    (let p = score_address_failure p peer address now_ms in
     if alternative_exists p peer address now_ms then (False, p)
     else
       let (room, p) = (if bm_has (cp_peers p) peer then (True, p) else make_room_for_peer p now_ms)
       in if \<not> room then (False, p)
          else
            let b = (case bm_get (cp_peers p) peer of None \<Rightarrow> peer_backoff_default | Some b \<Rightarrow> b);
                b = b\<lparr>pb_consecutive_failures := sat_add32 (pb_consecutive_failures b) 1,
                      pb_until_ms := Some (sat_add64 now_ms backoff_ms), pb_last_touched_ms := now_ms\<rparr>
            in (True, p\<lparr>cp_peers := bm_insert peer b (cp_peers p)\<rparr>))"

definition policy_record_mismatch ::
  "connection_policy \<Rightarrow> transport_identity \<Rightarrow> address \<Rightarrow> nat \<Rightarrow> bool \<times> connection_policy" where
  "policy_record_mismatch p expected_peer address now_ms =
    (let key = (expected_peer, address);
         (room, p) = room_for_failure p key now_ms
     in if \<not> room then (False, p)
        else
          let entry = entry_or_default p key;
              entry = entry\<lparr>as_consecutive_failures := sat_add32 (as_consecutive_failures entry) 1,
                as_quarantined_until_ms := Some (sat_add64 now_ms IDENTITY_MISMATCH_QUARANTINE_MS),
                as_last_touched_ms := now_ms, as_last_success_ms := None\<rparr>
          in (True, p\<lparr>cp_addresses := bm_insert key entry (cp_addresses p)\<rparr>))"

subsection \<open>Reading\<close>

definition is_address_dialable ::
  "connection_policy \<Rightarrow> transport_identity \<Rightarrow> address \<Rightarrow> nat \<Rightarrow> bool" where
  "is_address_dialable p peer address now_ms =
    (case bm_get (cp_addresses p) (peer, address) of None \<Rightarrow> True | Some s \<Rightarrow> is_dialable_at s now_ms)"

definition dial_rank :: "connection_policy \<Rightarrow> transport_identity \<Rightarrow> address \<Rightarrow> bool \<times> nat \<times> address" where
  "dial_rank p peer address =
    (let s = bm_get (cp_addresses p) (peer, address)
     in (\<not> (case s of None \<Rightarrow> False | Some s \<Rightarrow> is_recently_good s),
         (case s of None \<Rightarrow> 0 | Some s \<Rightarrow> as_consecutive_failures s), address))"

definition preferred_addresses ::
  "connection_policy \<Rightarrow> transport_identity \<Rightarrow> address list \<Rightarrow> nat \<Rightarrow> address list" where
  "preferred_addresses p peer candidates now_ms =
    sort_key (dial_rank p peer) (filter (\<lambda>a. is_address_dialable p peer a now_ms) candidates)"

section \<open>What the tables hold\<close>

abbreviation booked :: "connection_policy \<Rightarrow> address_key \<Rightarrow> bool" where
  "booked p k \<equiv> in_book (cp_book p) (fst k) (snd k)"

abbreviation record_of :: "connection_policy \<Rightarrow> address_key \<Rightarrow> address_state option" where
  "record_of p k \<equiv> bm_get (cp_addresses p) k"

definition outside_keys :: "connection_policy \<Rightarrow> address_key set" where
  "outside_keys p = {k. bm_has (cp_addresses p) k \<and> \<not> booked p k}"

definition quarantined_keys :: "connection_policy \<Rightarrow> nat \<Rightarrow> address_key set" where
  "quarantined_keys p t = {k. (\<exists>s. record_of p k = Some s \<and> is_punitive_at s t) \<and> \<not> booked p k}"

definition policy_ok :: "connection_policy \<Rightarrow> bool" where
  "policy_ok p \<longleftrightarrow>
     bm_ok (cp_addresses p) \<and> bm_ok (cp_book p) \<and> bm_ok (cp_peers p)
     \<and> (\<forall>q known. bm_get (cp_book p) q = Some known \<longrightarrow> bs_ok known \<and> known \<noteq> [])
     \<and> card (outside_keys p) \<le> cp_max_addresses p \<and> length (cp_peers p) \<le> cp_max_peers p"

lemma bm_filter_card:
  assumes "bm_ok m"
  shows "length (filter (\<lambda>(k, v). P k v) m) = card {k. \<exists>v. bm_get m k = Some v \<and> P k v}"
proof -
  have "distinct (map fst (filter (\<lambda>(k, v). P k v) m))"
    using bm_ok_distinct [OF bm_ok_filter [OF assms]] .
  moreover have "set (map fst (filter (\<lambda>(k, v). P k v) m)) = {k. \<exists>v. bm_get m k = Some v \<and> P k v}"
    using assms by (force simp: bm_get_in_set [symmetric])
  ultimately show ?thesis by (metis distinct_card length_map)
qed

lemma finite_outside [simp]: "finite (outside_keys p)"
  by (rule finite_subset [of _ "fst ` set (cp_addresses p)"]) (auto simp: outside_keys_def bm_has_keys)

lemma quarantined_outside: "quarantined_keys p t \<subseteq> outside_keys p"
  by (auto simp: quarantined_keys_def outside_keys_def bm_has_def)

lemma finite_quarantined [simp]: "finite (quarantined_keys p t)"
  by (rule finite_subset [OF quarantined_outside]) simp

lemma outside_entries_eq: "outside_entries p = filter (\<lambda>(k, _). \<not> booked p k) (cp_addresses p)"
  unfolding outside_entries_def by (rule filter_cong) auto

lemma length_outside_entries:
  "bm_ok (cp_addresses p) \<Longrightarrow> length (outside_entries p) = card (outside_keys p)"
  by (simp add: outside_entries_eq bm_filter_card outside_keys_def bm_has_def)

lemma live_quarantines_card:
  assumes "bm_ok (cp_addresses p)"
  shows "live_quarantines p t = card (quarantined_keys p t)"
proof -
  have "live_quarantines p t = length (filter (\<lambda>(k, s). is_punitive_at s t \<and> \<not> booked p k) (cp_addresses p))"
    unfolding live_quarantines_def outside_entries_eq filter_filter
    by (rule arg_cong [where f = length], rule filter_cong) auto
  also have "\<dots> = card {k. \<exists>s. record_of p k = Some s \<and> is_punitive_at s t \<and> \<not> booked p k}"
    by (rule bm_filter_card [OF assms])
  also have "{k. \<exists>s. record_of p k = Some s \<and> is_punitive_at s t \<and> \<not> booked p k} = quarantined_keys p t"
    by (auto simp: quarantined_keys_def)
  finally show ?thesis .
qed

lemma in_outside_entries:
  "bm_ok (cp_addresses p) \<Longrightarrow> (k, s) \<in> set (outside_entries p) \<longleftrightarrow> record_of p k = Some s \<and> \<not> booked p k"
  by (auto simp: outside_entries_eq bm_get_in_set)

lemma punitive_antimono: "is_punitive_at s t \<Longrightarrow> u \<le> t \<Longrightarrow> is_punitive_at s u"
  by (auto simp: is_punitive_at_def split: option.splits)

lemma dialable_iff: "is_dialable_at s t \<longleftrightarrow> \<not> is_punitive_at s t"
  by (auto simp: is_dialable_at_def is_punitive_at_def split: option.splits)

lemma quarantined_antimono: "u \<le> t \<Longrightarrow> quarantined_keys p t \<subseteq> quarantined_keys p u"
  by (auto simp: quarantined_keys_def intro: punitive_antimono)

lemma live_quarantines_antimono:
  "bm_ok (cp_addresses p) \<Longrightarrow> u \<le> t \<Longrightarrow> live_quarantines p t \<le> live_quarantines p u"
  by (simp add: live_quarantines_card card_mono quarantined_antimono)

text \<open>Making room for an address: nothing to do, one record gone that suppresses nothing, or full.\<close>

lemma make_room_cases:
  assumes "bm_ok (cp_addresses p)"
  obtains (room) "make_room_for_address p t = (True, p)" "card (outside_keys p) < cp_max_addresses p"
  | (evict) k s where "make_room_for_address p t = (True, p\<lparr>cp_addresses := bm_remove k (cp_addresses p)\<rparr>)"
      "record_of p k = Some s" "\<not> is_punitive_at s t" "\<not> booked p k"
  | (full) "make_room_for_address p t = (False, p)" "cp_max_addresses p \<le> card (quarantined_keys p t)"
proof (cases "length (outside_entries p) < cp_max_addresses p")
  case True
  then show ?thesis using room assms by (simp add: make_room_for_address_def length_outside_entries)
next
  case False
  show ?thesis
  proof (cases "min_by_key (\<lambda>(_, s). as_last_touched_ms s)
               (filter (\<lambda>(_, s). \<not> is_punitive_at s t) (outside_entries p))")
    case None
    then have "filter (\<lambda>(_, s). is_punitive_at s t) (outside_entries p) = outside_entries p"
      by (simp only: min_by_key_None) (auto simp: filter_empty_conv filter_id_conv)
    then have "live_quarantines p t = length (outside_entries p)" by (simp add: live_quarantines_def)
    then show ?thesis
      using full False None assms by (simp add: make_room_for_address_def live_quarantines_card)
  next
    case (Some e)
    obtain k s where e: "e = (k, s)" by (cases e)
    have "(k, s) \<in> set (outside_entries p)" "\<not> is_punitive_at s t"
      using min_by_key_Some [OF Some] by (auto simp: e)
    then show ?thesis
      using evict [of k s] False Some assms by (simp add: make_room_for_address_def e in_outside_entries)
  qed
qed

lemma make_room_frame:
  "cp_book (snd (make_room_for_address p t)) = cp_book p"
  "cp_peers (snd (make_room_for_address p t)) = cp_peers p"
  "cp_max_addresses (snd (make_room_for_address p t)) = cp_max_addresses p"
  "cp_max_peers (snd (make_room_for_address p t)) = cp_max_peers p"
  by (auto simp: make_room_for_address_def split: option.splits)

lemma make_room_record:
  assumes "bm_ok (cp_addresses p)" "record_of p k = Some s" "is_punitive_at s t \<or> booked p k"
  shows "record_of (snd (make_room_for_address p t)) k = Some s"
  using assms(1) by (cases rule: make_room_cases [where t = t]) (use assms in auto)

lemma make_room_sub:
  "record_of (snd (make_room_for_address p t)) k = Some s \<Longrightarrow> record_of p k = Some s"
  by (auto simp: make_room_for_address_def split: option.splits if_splits)

section \<open>Every operation keeps the bounds\<close>

lemma outside_insert:
  "outside_keys (p\<lparr>cp_addresses := bm_insert k s (cp_addresses p)\<rparr>)
     = (if booked p k then outside_keys p else insert k (outside_keys p))"
  by (auto simp: outside_keys_def)

lemma outside_remove:
  "outside_keys (p\<lparr>cp_addresses := bm_remove k (cp_addresses p)\<rparr>) = outside_keys p - {k}"
  by (auto simp: outside_keys_def)

lemma outside_peers [simp]: "outside_keys (p\<lparr>cp_peers := ps\<rparr>) = outside_keys p"
  by (simp add: outside_keys_def)

lemma policy_ok_peers:
  "policy_ok p \<Longrightarrow> bm_ok ps \<Longrightarrow> length ps \<le> cp_max_peers p \<Longrightarrow> policy_ok (p\<lparr>cp_peers := ps\<rparr>)"
  by (simp add: policy_ok_def)

lemma policy_ok_remove_peer: "policy_ok p \<Longrightarrow> policy_ok (p\<lparr>cp_peers := bm_remove q (cp_peers p)\<rparr>)"
  using length_bm_remove_le [of q "cp_peers p"] by (intro policy_ok_peers) (simp_all add: policy_ok_def)

lemma policy_ok_shrink:
  assumes "policy_ok p" "bm_ok m" "\<And>k. bm_has m k \<Longrightarrow> bm_has (cp_addresses p) k"
  shows "policy_ok (p\<lparr>cp_addresses := m\<rparr>)"
proof -
  have "outside_keys (p\<lparr>cp_addresses := m\<rparr>) \<subseteq> outside_keys p"
    using assms(3) by (auto simp: outside_keys_def)
  then have "card (outside_keys (p\<lparr>cp_addresses := m\<rparr>)) \<le> card (outside_keys p)" by (simp add: card_mono)
  with assms(1,2) show ?thesis by (simp add: policy_ok_def)
qed

lemma policy_ok_insert:
  assumes "policy_ok p" "bm_has (cp_addresses p) k \<or> booked p k \<or> card (outside_keys p) < cp_max_addresses p"
  shows "policy_ok (p\<lparr>cp_addresses := bm_insert k s (cp_addresses p)\<rparr>)"
proof -
  have "card (outside_keys (p\<lparr>cp_addresses := bm_insert k s (cp_addresses p)\<rparr>)) \<le> cp_max_addresses p"
  proof (cases "booked p k \<or> k \<in> outside_keys p")
    case True
    then show ?thesis using assms(1) by (auto simp: outside_insert insert_absorb policy_ok_def)
  next
    case False
    then have "card (outside_keys p) < cp_max_addresses p" using assms(2) by (auto simp: outside_keys_def)
    with False show ?thesis by (simp add: outside_insert)
  qed
  with assms(1) show ?thesis by (simp add: policy_ok_def)
qed

lemma bm_has_retain: "bm_has (bm_retain P m) k \<Longrightarrow> bm_has m k"
  by (auto simp: bm_has_keys bm_retain_def)

lemma prune_ok:
  assumes "policy_ok p"
  shows "policy_ok (snd (prune p t))"
proof -
  have "policy_ok (p\<lparr>cp_addresses := bm_retain P (cp_addresses p)\<rparr>)" for P
    using assms bm_has_retain by (intro policy_ok_shrink) (auto simp: policy_ok_def)
  moreover have "bm_ok (bm_retain Q (cp_peers p))" "length (bm_retain Q (cp_peers p)) \<le> cp_max_peers p" for Q
    using assms by (auto simp: policy_ok_def intro: order_trans [OF length_bm_retain_le])
  ultimately show ?thesis
    using policy_ok_peers [of "p\<lparr>cp_addresses := bm_retain P (cp_addresses p)\<rparr>" for P]
    by (simp add: prune_def Let_def)
qed

lemma prune_frame [simp]:
  "cp_book (snd (prune p t)) = cp_book p" "cp_max_addresses (snd (prune p t)) = cp_max_addresses p"
  "cp_max_peers (snd (prune p t)) = cp_max_peers p"
  by (simp_all add: prune_def Let_def)

lemma prune_record:
  assumes "bm_ok (cp_addresses p)" "record_of p k = Some s" "is_punitive_at s t \<or> booked p k"
  shows "record_of (snd (prune p t)) k = Some s"
  using assms by (cases k) (auto simp: prune_def Let_def bm_get_retain)

lemma prune_sub: "bm_ok (cp_addresses p) \<Longrightarrow> record_of (snd (prune p t)) k = Some s \<Longrightarrow> record_of p k = Some s"
  by (cases k) (auto simp: prune_def Let_def bm_get_retain split: option.splits if_splits)

lemma make_room_policy_ok:
  assumes "policy_ok p"
  shows "policy_ok (snd (make_room_for_address p t))
    \<and> (fst (make_room_for_address p t) \<longrightarrow>
         card (outside_keys (snd (make_room_for_address p t))) < cp_max_addresses p)"
proof -
  have ok: "bm_ok (cp_addresses p)" using assms by (simp add: policy_ok_def)
  from ok show ?thesis
  proof (cases rule: make_room_cases [where t = t])
    case room
    then show ?thesis using assms by simp
  next
    case (evict k s)
    have "k \<in> outside_keys p" using evict by (simp add: outside_keys_def bm_has_def)
    then have "card (outside_keys p - {k}) < card (outside_keys p)" by (rule card_Diff1_less [OF finite_outside])
    moreover have "policy_ok (p\<lparr>cp_addresses := bm_remove k (cp_addresses p)\<rparr>)"
      using assms ok by (intro policy_ok_shrink) auto
    ultimately show ?thesis using evict assms by (simp add: outside_remove policy_ok_def)
  next
    case full
    then show ?thesis using assms by simp
  qed
qed

lemma room_for_failure_ok:
  assumes "policy_ok p" "room_for_failure p k t = (r, p')"
  shows "policy_ok p' \<and> cp_book p' = cp_book p \<and> cp_max_addresses p' = cp_max_addresses p
    \<and> cp_max_peers p' = cp_max_peers p
    \<and> (r \<longrightarrow> bm_has (cp_addresses p') k \<or> booked p' k \<or> card (outside_keys p') < cp_max_addresses p')"
proof (cases "bm_has (cp_addresses p) k \<or> booked p k")
  case True
  then show ?thesis using assms by (auto simp: room_for_failure_def)
next
  case False
  then have "(r, p') = make_room_for_address (snd (prune p t)) t"
    using assms(2) by (simp add: room_for_failure_def)
  then show ?thesis
    using make_room_policy_ok [OF prune_ok [OF assms(1), of t], of t] make_room_frame [of "snd (prune p t)" t]
    by (metis fst_conv snd_conv prune_frame)
qed

lemma room_insert_ok:
  "policy_ok p \<Longrightarrow> room_for_failure p k t = (r, p') \<Longrightarrow>
     policy_ok p' \<and> (r \<longrightarrow> (\<forall>s. policy_ok (p'\<lparr>cp_addresses := bm_insert k s (cp_addresses p')\<rparr>)))"
  using room_for_failure_ok policy_ok_insert by blast

lemma score_ok:
  assumes "policy_ok p"
  shows "policy_ok (score_address_failure p q a t)"
proof -
  obtain r p' where r: "room_for_failure p (q, a) t = (r, p')" by (cases "room_for_failure p (q, a) t")
  show ?thesis
    using room_insert_ok [OF assms r] r by (simp add: score_address_failure_def Let_def)
qed

lemma mismatch_ok:
  assumes "policy_ok p"
  shows "policy_ok (snd (policy_record_mismatch p q a t))"
proof -
  obtain r p' where r: "room_for_failure p (q, a) t = (r, p')" by (cases "room_for_failure p (q, a) t")
  show ?thesis
    using room_insert_ok [OF assms r] r by (simp add: policy_record_mismatch_def Let_def)
qed

lemma success_ok:
  assumes "policy_ok p"
  shows "policy_ok (policy_record_success p q a t)"
proof -
  obtain r p' where r: "(if bm_has (cp_addresses p) (q, a) \<or> in_book (cp_book p) q a then (True, p)
      else make_room_for_address p t) = (r, p')"
    by (cases "if bm_has (cp_addresses p) (q, a) \<or> in_book (cp_book p) q a then (True, p)
      else make_room_for_address p t")
  have "policy_ok p' \<and> (r \<longrightarrow> bm_has (cp_addresses p') (q, a) \<or> booked p' (q, a)
      \<or> card (outside_keys p') < cp_max_addresses p')"
    using make_room_policy_ok [OF assms, of t] make_room_frame [of p t] r assms by (auto split: if_splits)
  then have "policy_ok p' \<and> (r \<longrightarrow> policy_ok (p'\<lparr>cp_addresses := bm_insert (q, a) e (cp_addresses p')\<rparr>))" for e
    using policy_ok_insert by blast
  then show ?thesis
    using r policy_ok_remove_peer [of p' q]
      policy_ok_remove_peer [of "p'\<lparr>cp_addresses := bm_insert (q, a) e (cp_addresses p')\<rparr>" q for e]
    by (simp add: policy_record_success_def Let_def)
qed

lemma make_room_for_peer_ok:
  assumes "policy_ok p"
  shows "policy_ok (snd (make_room_for_peer p t))
    \<and> (fst (make_room_for_peer p t) \<longrightarrow> length (cp_peers (snd (make_room_for_peer p t))) < cp_max_peers p)
    \<and> cp_max_peers (snd (make_room_for_peer p t)) = cp_max_peers p"
proof -
  let ?v = "min_by_key (\<lambda>(_, b). pb_last_touched_ms b)
    (filter (\<lambda>(_, b). \<not> backoff_is_punitive_at b t) (cp_peers p))"
  have "fst e \<in> fst ` set (cp_peers p)" if "?v = Some e" for e
    using min_by_key_Some [OF that] by auto
  then have "length (bm_remove (fst e) (cp_peers p)) < length (cp_peers p)" if "?v = Some e" for e
    using that by (simp add: length_bm_remove_less)
  then show ?thesis
    using assms policy_ok_remove_peer [OF assms]
    by (auto simp: make_room_for_peer_def policy_ok_def split: option.splits dest: order_less_le_trans)
qed

lemma record_address_failure_ok:
  assumes "policy_ok p"
  shows "policy_ok (snd (record_address_failure p q a t b))"
proof -
  let ?p = "score_address_failure p q a t"
  obtain r p' where r: "(if bm_has (cp_peers ?p) q then (True, ?p) else make_room_for_peer ?p t) = (r, p')"
    by (cases "if bm_has (cp_peers ?p) q then (True, ?p) else make_room_for_peer ?p t")
  have ok: "policy_ok ?p" by (rule score_ok [OF assms])
  have "policy_ok p' \<and> (r \<longrightarrow> bm_has (cp_peers p') q \<or> length (cp_peers p') < cp_max_peers p')"
    using make_room_for_peer_ok [OF ok, of t] r ok by (auto split: if_splits)
  then have "policy_ok p' \<and> (r \<longrightarrow> policy_ok (p'\<lparr>cp_peers := bm_insert q x (cp_peers p')\<rparr>))" for x
    by (auto intro!: policy_ok_peers simp: policy_ok_def length_bm_insert)
  then show ?thesis using ok r by (simp add: record_address_failure_def Let_def)
qed

lemma in_book_remove:
  "in_book (book_remove q a book) q' a' \<longleftrightarrow> in_book book q' a' \<and> (q', a') \<noteq> (q, a)"
  by (auto simp: in_book_def book_remove_def Let_def split: option.splits)
    (metis Diff_iff empty_iff list.set(1) set_bs_remove singletonD)+

lemma in_book_add: "in_book (book_add q a book) q' a' \<longleftrightarrow> in_book book q' a' \<or> (q', a') = (q, a)"
  by (auto simp: in_book_def book_add_def split: option.splits)

definition book_ok :: "address_book \<Rightarrow> bool" where
  "book_ok book \<longleftrightarrow> bm_ok book \<and> (\<forall>q known. bm_get book q = Some known \<longrightarrow> bs_ok known \<and> known \<noteq> [])"

lemma book_remove_ok: "book_ok book \<Longrightarrow> book_ok (book_remove q a book)"
  by (auto simp: book_ok_def book_remove_def Let_def split: option.splits if_splits)

lemma book_add_ok: "book_ok book \<Longrightarrow> book_ok (book_add q a book)"
  by (auto simp: book_ok_def book_add_def split: option.splits if_splits)
    (metis insert_not_empty list.set(1) set_bs_insert)+

lemma policy_ok_iff:
  "policy_ok p \<longleftrightarrow> bm_ok (cp_addresses p) \<and> book_ok (cp_book p) \<and> bm_ok (cp_peers p)
     \<and> card (outside_keys p) \<le> cp_max_addresses p \<and> length (cp_peers p) \<le> cp_max_peers p"
  by (auto simp: policy_ok_def book_ok_def)

lemma policy_ok_book:
  "policy_ok p \<Longrightarrow> book_ok b \<Longrightarrow> card (outside_keys (p\<lparr>cp_book := b\<rparr>)) \<le> cp_max_addresses p
     \<Longrightarrow> policy_ok (p\<lparr>cp_book := b\<rparr>)"
  by (simp add: policy_ok_iff)

lemma outside_book_remove:
  "outside_keys (p\<lparr>cp_book := book_remove q a (cp_book p)\<rparr>)
     = outside_keys p \<union> (if bm_has (cp_addresses p) (q, a) then {(q, a)} else {})"
  by (auto simp: outside_keys_def in_book_remove)

lemma outside_book_add:
  "outside_keys (p\<lparr>cp_book := book_add q a (cp_book p)\<rparr>) = outside_keys p - {(q, a)}"
  by (auto simp: outside_keys_def in_book_add)

lemma remember_ok: "policy_ok p \<Longrightarrow> policy_ok (p\<lparr>cp_book := book_add q a (cp_book p)\<rparr>)"
  using card_Diff1_le [of "outside_keys p" "(q, a)"]
  by (intro policy_ok_book) (auto simp: policy_ok_iff book_add_ok outside_book_add)

lemma release_from_book_ok:
  assumes "policy_ok p"
  shows "policy_ok (snd (release_from_book p q a t))"
proof (cases "\<not> in_book (cp_book p) q a \<or> record_of p (q, a) = None")
  case True
  then show ?thesis
    using assms
    by (auto simp: release_from_book_def outside_book_remove bm_has_def policy_ok_iff book_remove_ok
        intro!: policy_ok_book)
next
  case False
  obtain r p' where r: "make_room_for_address p t = (r, p')" by (cases "make_room_for_address p t")
  have ok: "policy_ok p'" and room: "r \<Longrightarrow> card (outside_keys p') < cp_max_addresses p'" and
    frame: "cp_book p' = cp_book p" "cp_max_addresses p' = cp_max_addresses p"
    using make_room_policy_ok [OF assms, of t] make_room_frame [of p t] r by simp_all
  have "policy_ok (p'\<lparr>cp_book := book_remove q a (cp_book p')\<rparr>)" if r
    using that ok room card_insert_le_m1 [of "cp_max_addresses p'" "outside_keys p'" "(q, a)"]
    by (intro policy_ok_book) (auto simp: outside_book_remove policy_ok_iff book_remove_ok)
  moreover let ?p = "p'\<lparr>cp_addresses := bm_remove (q, a) (cp_addresses p')\<rparr>"
  have "policy_ok ?p" using ok by (intro policy_ok_shrink) (auto simp: policy_ok_iff)
  then have "policy_ok (?p\<lparr>cp_book := book_remove q a (cp_book ?p)\<rparr>)"
    by (intro policy_ok_book) (auto simp only: outside_book_remove, auto simp: policy_ok_iff book_remove_ok)
  ultimately show ?thesis
    using False r ok by (auto simp: release_from_book_def Let_def)
qed

lemma lift_ok: "policy_ok p \<Longrightarrow> policy_ok (snd (lift_peer_backoff p q t))"
  by (auto simp: lift_peer_backoff_def policy_ok_def length_bm_insert bm_has_def intro!: policy_ok_peers
      split: option.splits)

lemma clear_ok: "policy_ok p \<Longrightarrow> policy_ok (snd (clear_peer_backoff p q))"
  by (simp add: clear_peer_backoff_def policy_ok_remove_peer)

section \<open>What an operation may forget\<close>

definition quarantine_of :: "connection_policy \<Rightarrow> address_key \<Rightarrow> nat option" where
  "quarantine_of p k = (case record_of p k of None \<Rightarrow> None | Some s \<Rightarrow> as_quarantined_until_ms s)"

definition live_at :: "connection_policy \<Rightarrow> address_key \<Rightarrow> nat \<Rightarrow> bool" where
  "live_at p k t = (case quarantine_of p k of None \<Rightarrow> False | Some until \<Rightarrow> t < until)"

lemma live_at_record: "live_at p k t \<longleftrightarrow> (\<exists>s. record_of p k = Some s \<and> is_punitive_at s t)"
  by (auto simp: live_at_def quarantine_of_def is_punitive_at_def split: option.splits)

lemma quarantined_keys_live: "quarantined_keys p t = {k. live_at p k t \<and> \<not> booked p k}"
  by (auto simp: quarantined_keys_def live_at_record)

lemma not_dialable_live: "\<not> is_address_dialable p q a t \<longleftrightarrow> live_at p (q, a) t"
  by (auto simp: is_address_dialable_def live_at_record dialable_iff split: option.splits)

text \<open>
  From \<open>p\<close> to \<open>p'\<close> only records were lost that suppress nothing at time \<open>t\<close> and
  that the book does not hold.
\<close>

definition keeps :: "connection_policy \<Rightarrow> nat \<Rightarrow> connection_policy \<Rightarrow> bool" where
  "keeps p t p' \<longleftrightarrow> cp_book p' = cp_book p
     \<and> (\<forall>k. record_of p' k = record_of p k \<or> record_of p' k = None \<and> \<not> booked p k \<and> \<not> live_at p k t)"

lemma keeps_refl: "keeps p t p"
  by (simp add: keeps_def)

lemma keeps_trans: "keeps p t p' \<Longrightarrow> keeps p' t p'' \<Longrightarrow> keeps p t p''"
  unfolding keeps_def live_at_record by (metis (no_types))

lemma keeps_make_room: "bm_ok (cp_addresses p) \<Longrightarrow> keeps p t (snd (make_room_for_address p t))"
  by (erule make_room_cases [where t = t]) (auto simp: keeps_def live_at_record)

lemma keeps_prune: "bm_ok (cp_addresses p) \<Longrightarrow> keeps p t (snd (prune p t))"
  by (auto simp: keeps_def live_at_record prune_def Let_def bm_get_retain split: option.splits)

lemma keeps_room:
  assumes "bm_ok (cp_addresses p)"
  shows "keeps p t (snd (room_for_failure p k t))"
proof -
  have "bm_ok (cp_addresses (snd (prune p t)))" using assms by (simp add: prune_def Let_def)
  then show ?thesis
    using keeps_trans [OF keeps_prune [OF assms] keeps_make_room] keeps_refl by (simp add: room_for_failure_def)
qed

lemma keepsD:
  "keeps p t p' \<Longrightarrow> record_of p' k = record_of p k \<or> record_of p' k = None \<and> \<not> booked p k \<and> \<not> live_at p k t"
  by (simp only: keeps_def)

lemma keeps_book: "keeps p t p' \<Longrightarrow> cp_book p' = cp_book p"
  by (simp add: keeps_def)

lemma keeps_booked: "keeps p t p' \<Longrightarrow> booked p k \<Longrightarrow> record_of p' k = record_of p k"
  using keepsD by blast

lemma keeps_none: "keeps p t p' \<Longrightarrow> record_of p k = None \<Longrightarrow> record_of p' k = None"
  using keepsD by metis

lemma keeps_quarantine:
  "keeps p t p' \<Longrightarrow> quarantine_of p' k = quarantine_of p k \<or> quarantine_of p' k = None \<and> \<not> live_at p k t"
  using keepsD [of p t p' k] by (auto simp: quarantine_of_def)

lemma entry_or_default_quarantine: "as_quarantined_until_ms (entry_or_default p k) = quarantine_of p k"
  by (simp add: entry_or_default_def quarantine_of_def address_state_default_def split: option.splits)

text \<open>
  Per outcome: quarantines change only at the outcome's own key, and records the book holds
  only there.
\<close>

lemma score_keeps:
  assumes "bm_ok (cp_addresses p)"
  shows "quarantine_of (score_address_failure p q a t) k = quarantine_of p k
      \<or> quarantine_of (score_address_failure p q a t) k = None \<and> \<not> live_at p k t"
    and "cp_book (score_address_failure p q a t) = cp_book p"
    and "booked p k \<Longrightarrow> k \<noteq> (q, a) \<Longrightarrow> record_of (score_address_failure p q a t) k = record_of p k"
proof -
  obtain r p1 where r: "room_for_failure p (q, a) t = (r, p1)" by (cases "room_for_failure p (q, a) t")
  have k: "keeps p t p1" using keeps_room [OF assms, of t "(q, a)"] r by simp
  have "quarantine_of (score_address_failure p q a t) k = quarantine_of p1 k"
    using r by (simp add: score_address_failure_def Let_def quarantine_of_def entry_or_default_quarantine)
  then show "quarantine_of (score_address_failure p q a t) k = quarantine_of p k
      \<or> quarantine_of (score_address_failure p q a t) k = None \<and> \<not> live_at p k t"
    using keeps_quarantine [OF k, of k] by simp
  show "cp_book (score_address_failure p q a t) = cp_book p"
    using keeps_book [OF k] r by (simp add: score_address_failure_def Let_def)
  show "booked p k \<Longrightarrow> k \<noteq> (q, a) \<Longrightarrow> record_of (score_address_failure p q a t) k = record_of p k"
    using keeps_booked [OF k, of k] r by (simp add: score_address_failure_def Let_def)
qed

lemma mismatch_keeps:
  assumes "bm_ok (cp_addresses p)"
  shows "k \<noteq> (q, a) \<Longrightarrow> quarantine_of (snd (policy_record_mismatch p q a t)) k = quarantine_of p k
      \<or> quarantine_of (snd (policy_record_mismatch p q a t)) k = None \<and> \<not> live_at p k t"
    and "cp_book (snd (policy_record_mismatch p q a t)) = cp_book p"
    and "booked p k \<Longrightarrow> k \<noteq> (q, a) \<Longrightarrow> record_of (snd (policy_record_mismatch p q a t)) k = record_of p k"
    and "fst (policy_record_mismatch p q a t) \<Longrightarrow>
      quarantine_of (snd (policy_record_mismatch p q a t)) (q, a)
        = Some (sat_add64 t IDENTITY_MISMATCH_QUARANTINE_MS)"
    and "\<not> fst (policy_record_mismatch p q a t) \<Longrightarrow>
      quarantine_of (snd (policy_record_mismatch p q a t)) (q, a) = None"
proof -
  obtain r p1 where r: "room_for_failure p (q, a) t = (r, p1)" by (cases "room_for_failure p (q, a) t")
  have k: "keeps p t p1" using keeps_room [OF assms, of t "(q, a)"] r by simp
  show "k \<noteq> (q, a) \<Longrightarrow> quarantine_of (snd (policy_record_mismatch p q a t)) k = quarantine_of p k
      \<or> quarantine_of (snd (policy_record_mismatch p q a t)) k = None \<and> \<not> live_at p k t"
    using keeps_quarantine [OF k, of k] r by (simp add: policy_record_mismatch_def Let_def quarantine_of_def)
  show "cp_book (snd (policy_record_mismatch p q a t)) = cp_book p"
    using keeps_book [OF k] r by (simp add: policy_record_mismatch_def Let_def)
  show "booked p k \<Longrightarrow> k \<noteq> (q, a) \<Longrightarrow> record_of (snd (policy_record_mismatch p q a t)) k = record_of p k"
    using keeps_booked [OF k, of k] r by (simp add: policy_record_mismatch_def Let_def)
  show "fst (policy_record_mismatch p q a t) \<Longrightarrow>
      quarantine_of (snd (policy_record_mismatch p q a t)) (q, a)
        = Some (sat_add64 t IDENTITY_MISMATCH_QUARANTINE_MS)"
    using r by (simp add: policy_record_mismatch_def Let_def quarantine_of_def split: if_splits)
  show "\<not> fst (policy_record_mismatch p q a t) \<Longrightarrow>
      quarantine_of (snd (policy_record_mismatch p q a t)) (q, a) = None"
  proof -
    assume no: "\<not> fst (policy_record_mismatch p q a t)"
    then have "\<not> r" using r by (simp add: policy_record_mismatch_def Let_def split: if_splits)
    then have "record_of p (q, a) = None" using r by (auto simp: room_for_failure_def bm_has_def split: if_splits)
    then have "record_of p1 (q, a) = None" by (rule keeps_none [OF k])
    with \<open>\<not> r\<close> r show ?thesis by (simp add: policy_record_mismatch_def Let_def quarantine_of_def)
  qed
qed

lemma success_keeps:
  assumes "bm_ok (cp_addresses p)"
  shows "k \<noteq> (q, a) \<Longrightarrow> quarantine_of (policy_record_success p q a t) k = quarantine_of p k
      \<or> quarantine_of (policy_record_success p q a t) k = None \<and> \<not> live_at p k t"
    and "quarantine_of (policy_record_success p q a t) (q, a) = None"
    and "cp_book (policy_record_success p q a t) = cp_book p"
    and "booked p k \<Longrightarrow> k \<noteq> (q, a) \<Longrightarrow> record_of (policy_record_success p q a t) k = record_of p k"
proof -
  let ?r = "if bm_has (cp_addresses p) (q, a) \<or> in_book (cp_book p) q a then (True, p)
      else make_room_for_address p t"
  obtain r p1 where r: "?r = (r, p1)" by (cases ?r)
  have k: "keeps p t p1"
    using keeps_make_room [OF assms, of t] keeps_refl [of p t] r by (simp split: if_splits)
  show "k \<noteq> (q, a) \<Longrightarrow> quarantine_of (policy_record_success p q a t) k = quarantine_of p k
      \<or> quarantine_of (policy_record_success p q a t) k = None \<and> \<not> live_at p k t"
    using keeps_quarantine [OF k, of k] r by (simp add: policy_record_success_def Let_def quarantine_of_def)
  show "quarantine_of (policy_record_success p q a t) (q, a) = None"
  proof (cases r)
    case True
    with r show ?thesis by (simp add: policy_record_success_def Let_def quarantine_of_def)
  next
    case False
    then have "record_of p (q, a) = None" using r by (auto simp: bm_has_def split: if_splits)
    then have "record_of p1 (q, a) = None" by (rule keeps_none [OF k])
    with False r show ?thesis by (simp add: policy_record_success_def Let_def quarantine_of_def)
  qed
  show "cp_book (policy_record_success p q a t) = cp_book p"
    using keeps_book [OF k] r by (simp add: policy_record_success_def Let_def)
  show "booked p k \<Longrightarrow> k \<noteq> (q, a) \<Longrightarrow> record_of (policy_record_success p q a t) k = record_of p k"
    using keeps_booked [OF k, of k] r by (simp add: policy_record_success_def Let_def)
qed

lemma make_room_for_peer_frame:
  "cp_addresses (snd (make_room_for_peer p t)) = cp_addresses p"
  "cp_book (snd (make_room_for_peer p t)) = cp_book p"
  by (simp_all add: make_room_for_peer_def case_prod_beta split: option.splits)

lemma failure_keeps:
  "cp_addresses (snd (record_address_failure p q a t b)) = cp_addresses (score_address_failure p q a t)"
  "cp_book (snd (record_address_failure p q a t b)) = cp_book (score_address_failure p q a t)"
  by (simp_all add: record_address_failure_def Let_def make_room_for_peer_frame case_prod_beta)

lemma release_keeps:
  assumes "bm_ok (cp_addresses p)"
  shows "quarantine_of (snd (release_from_book p q a t)) k = quarantine_of p k
      \<or> quarantine_of (snd (release_from_book p q a t)) k = None \<and> \<not> live_at p k t"
    and "booked (snd (release_from_book p q a t)) k \<longleftrightarrow>
      booked p k \<and> (k \<noteq> (q, a) \<or> \<not> fst (release_from_book p q a t))"
    and "booked p k \<Longrightarrow> k \<noteq> (q, a) \<Longrightarrow> record_of (snd (release_from_book p q a t)) k = record_of p k"
proof -
  obtain r p1 where r: "make_room_for_address p t = (r, p1)" by (cases "make_room_for_address p t")
  have k: "keeps p t p1" using keeps_make_room [OF assms, of t] r by simp
  note book = keeps_book [OF k]
  show "quarantine_of (snd (release_from_book p q a t)) k = quarantine_of p k
      \<or> quarantine_of (snd (release_from_book p q a t)) k = None \<and> \<not> live_at p k t"
    using keeps_quarantine [OF k, of k] r
    by (auto simp: release_from_book_def Let_def quarantine_of_def live_at_record split: option.splits)
  show "booked (snd (release_from_book p q a t)) k \<longleftrightarrow>
      booked p k \<and> (k \<noteq> (q, a) \<or> \<not> fst (release_from_book p q a t))"
    using book r by (cases k) (auto simp: release_from_book_def Let_def in_book_remove split: option.splits)
  show "booked p k \<Longrightarrow> k \<noteq> (q, a) \<Longrightarrow> record_of (snd (release_from_book p q a t)) k = record_of p k"
    using keeps_booked [OF k, of k] r by (auto simp: release_from_book_def Let_def split: option.splits)
qed

lemma release_live:
  assumes "policy_ok p" "live_at p (q, a) t" "fst (release_from_book p q a t)" "in_book (cp_book p) q a"
  shows "card (quarantined_keys p t) < cp_max_addresses p"
proof -
  obtain s where s: "record_of p (q, a) = Some s" "is_punitive_at s t" using assms(2) by (auto simp: live_at_record)
  obtain r p1 where r: "make_room_for_address p t = (r, p1)" by (cases "make_room_for_address p t")
  have "r" using assms(3,4) s r by (auto simp: release_from_book_def Let_def split: if_splits)
  have "bm_ok (cp_addresses p)" using assms(1) by (simp add: policy_ok_def)
  then show ?thesis
  proof (cases rule: make_room_cases [where t = t])
    case room
    then show ?thesis using card_mono [OF finite_outside quarantined_outside, of p t] by simp
  next
    case (evict k s)
    then have "k \<in> outside_keys p" "k \<notin> quarantined_keys p t"
      by (auto simp: outside_keys_def bm_has_def quarantined_keys_def)
    then have "quarantined_keys p t \<subset> outside_keys p" using quarantined_outside by blast
    then have "card (quarantined_keys p t) < card (outside_keys p)" by (simp add: psubset_card_mono)
    then show ?thesis using assms(1) by (simp add: policy_ok_def)
  next
    case full
    then show ?thesis using r \<open>r\<close> by simp
  qed
qed

section \<open>Policy under any sequence of outcomes\<close>

text \<open>One change of the policy, by the connection manager that owns it.\<close>

datatype policy_op =
    PoSuccess transport_identity address nat
  | PoFailure transport_identity address nat nat
  | PoScore transport_identity address nat
  | PoMismatch transport_identity address nat
  | PoRelease transport_identity address nat
  | PoRemember transport_identity address
  | PoPrune nat
  | PoClear transport_identity
  | PoLift transport_identity nat

fun policy_step :: "connection_policy \<Rightarrow> policy_op \<Rightarrow> connection_policy" where
  "policy_step p (PoSuccess q a t) = policy_record_success p q a t"
| "policy_step p (PoFailure q a t b) = snd (record_address_failure p q a t b)"
| "policy_step p (PoScore q a t) = score_address_failure p q a t"
| "policy_step p (PoMismatch q a t) = snd (policy_record_mismatch p q a t)"
| "policy_step p (PoRelease q a t) = snd (release_from_book p q a t)"
| "policy_step p (PoRemember q a) = p\<lparr>cp_book := book_add q a (cp_book p)\<rparr>"
| "policy_step p (PoPrune t) = snd (prune p t)"
| "policy_step p (PoClear q) = snd (clear_peer_backoff p q)"
| "policy_step p (PoLift q t) = snd (lift_peer_backoff p q t)"

lemma policy_step_ok: "policy_ok p \<Longrightarrow> policy_ok (policy_step p op)"
  by (cases op)
    (simp_all add: success_ok record_address_failure_ok score_ok mismatch_ok release_from_book_ok remember_ok prune_ok
      clear_ok lift_ok)

interpretation policy_calls: stepwise policy_step policy_ok
  by unfold_locales (rule policy_step_ok)

lemma policy_new_ok: "policy_ok (policy_new m n)"
  by (simp add: policy_new_def policy_default_def policy_ok_def outside_keys_def bm_has_def)

text \<open>The time an operation is given, where it is given one, and the key it reports on.\<close>

fun policy_op_time :: "policy_op \<Rightarrow> nat option" where
  "policy_op_time (PoSuccess _ _ t) = Some t"
| "policy_op_time (PoFailure _ _ t _) = Some t"
| "policy_op_time (PoScore _ _ t) = Some t"
| "policy_op_time (PoMismatch _ _ t) = Some t"
| "policy_op_time (PoRelease _ _ t) = Some t"
| "policy_op_time (PoPrune t) = Some t"
| "policy_op_time (PoLift _ t) = Some t"
| "policy_op_time _ = None"

fun policy_op_key :: "policy_op \<Rightarrow> address_key option" where
  "policy_op_key (PoSuccess q a _) = Some (q, a)"
| "policy_op_key (PoFailure q a _ _) = Some (q, a)"
| "policy_op_key (PoScore q a _) = Some (q, a)"
| "policy_op_key (PoMismatch q a _) = Some (q, a)"
| "policy_op_key (PoRelease q a _) = Some (q, a)"
| "policy_op_key _ = None"

text \<open>
  The calls made while a quarantine of \<open>k\<close> set at \<open>from\<close> lasts: none is a success of
  \<open>k\<close>, and each is given a time of that interval.
\<close>

definition within :: "address_key \<Rightarrow> nat \<Rightarrow> nat \<Rightarrow> policy_op \<Rightarrow> bool" where
  "within k from until op \<longleftrightarrow>
     (case policy_op_time op of None \<Rightarrow> True | Some t \<Rightarrow> from \<le> t \<and> t < until)
     \<and> (case op of PoSuccess q a _ \<Rightarrow> (q, a) \<noteq> k | _ \<Rightarrow> True)"

definition held :: "connection_policy \<Rightarrow> address_key \<Rightarrow> nat \<Rightarrow> bool" where
  "held p k until = (case quarantine_of p k of None \<Rightarrow> False | Some u \<Rightarrow> until \<le> u)"

lemma held_live: "held p k until \<Longrightarrow> t < until \<Longrightarrow> live_at p k t"
  by (auto simp: held_def live_at_def split: option.splits)

lemma held_keep:
  assumes "held p k until" "t < until"
    "quarantine_of p' k = quarantine_of p k \<or> quarantine_of p' k = None \<and> \<not> live_at p k t"
  shows "held p' k until"
  using assms held_live [OF assms(1,2)] by (auto simp: held_def)

lemma policy_step_held:
  assumes "policy_ok p" "held p k until" "within k from until op" "until \<le> sat_add64 from IDENTITY_MISMATCH_QUARANTINE_MS"
  shows "held (policy_step p op) k until"
proof -
  have ok: "bm_ok (cp_addresses p)" using assms(1) by (simp add: policy_ok_def)
  show ?thesis
  proof (cases op)
    case (PoSuccess q a t)
    then show ?thesis
      using held_keep [OF assms(2), of t "policy_record_success p q a t"] success_keeps(1) [OF ok, of k q a t] assms(3)
      by (auto simp: within_def)
  next
    case (PoFailure q a t b)
    have "held (score_address_failure p q a t) k until"
      using PoFailure held_keep [OF assms(2), of t "score_address_failure p q a t"] score_keeps(1) [OF ok, of q a t k]
        assms(3)
      by (auto simp: within_def)
    then show ?thesis using PoFailure by (simp add: held_def quarantine_of_def failure_keeps)
  next
    case (PoScore q a t)
    then show ?thesis
      using held_keep [OF assms(2), of t "score_address_failure p q a t"] score_keeps(1) [OF ok, of q a t k] assms(3)
      by (auto simp: within_def)
  next
    case (PoMismatch q a t)
    show ?thesis
    proof (cases "k = (q, a)")
      case True
      have "record_of p (q, a) \<noteq> None" using assms(2) True by (auto simp: held_def quarantine_of_def split: option.splits)
      then have "fst (policy_record_mismatch p q a t)"
        by (auto simp: policy_record_mismatch_def Let_def room_for_failure_def bm_has_def)
      then have "quarantine_of (policy_step p op) k = Some (sat_add64 t IDENTITY_MISMATCH_QUARANTINE_MS)"
        using True PoMismatch mismatch_keeps(4) [OF ok] by simp
      moreover have "sat_add64 from IDENTITY_MISMATCH_QUARANTINE_MS \<le> sat_add64 t IDENTITY_MISMATCH_QUARANTINE_MS"
        using assms(3) PoMismatch by (auto simp: within_def sat_add64_def)
      ultimately show ?thesis using assms(4) by (simp add: held_def)
    next
      case False
      then show ?thesis
        using PoMismatch held_keep [OF assms(2), of t "snd (policy_record_mismatch p q a t)"]
          mismatch_keeps(1) [OF ok, of k q a t] assms(3)
        by (auto simp: within_def)
    qed
  next
    case (PoRelease q a t)
    then show ?thesis
      using held_keep [OF assms(2), of t "snd (release_from_book p q a t)"] release_keeps(1) [OF ok, of q a t k] assms(3)
      by (auto simp: within_def)
  next
    case (PoPrune t)
    then show ?thesis
      using held_keep [OF assms(2), of t "snd (prune p t)"] keeps_quarantine [OF keeps_prune [OF ok], of t k] assms(3)
      by (auto simp: within_def)
  qed (use assms(2) in \<open>auto simp: held_def quarantine_of_def clear_peer_backoff_def lift_peer_backoff_def
      split: option.splits\<close>)
qed

lemma policy_run_held:
  assumes "policy_ok p" "held p k until" "list_all (within k from until) ops"
    "until \<le> sat_add64 from IDENTITY_MISMATCH_QUARANTINE_MS"
  shows "held (foldl policy_step p ops) k until"
  using assms
proof (induction ops arbitrary: p)
  case (Cons op ops)
  then show ?case
    using policy_step_held [OF Cons.prems(1,2), of "from" op] policy_step_ok by simp
qed simp

lemma live_refuses:
  assumes "live_at p (q, a) t" "dq_peer r = Some q" "dq_address r = a"
  shows "policy_admit p r class t \<noteq> Ok ()"
proof -
  have "quarantine_denies p q a t"
    using assms(1) by (auto simp: quarantine_denies_def live_at_record dialable_iff)
  with assms(2,3) show ?thesis by (simp add: policy_admit_def split: option.splits)
qed

text \<open>A peer is held off when its own backoff is in force.\<close>

definition held_off :: "connection_policy \<Rightarrow> transport_identity \<Rightarrow> nat \<Rightarrow> bool" where
  "held_off p q t = (case policy_peer p q of None \<Rightarrow> False | Some b \<Rightarrow> backoff_is_punitive_at b t)"

text \<open>A route that works: in the book, authenticated once, and not quarantined.\<close>

definition proven :: "connection_policy \<Rightarrow> transport_identity \<Rightarrow> address \<Rightarrow> bool" where
  "proven p q g \<longleftrightarrow> in_book (cp_book p) q g
     \<and> (\<exists>s. record_of p (q, g) = Some s \<and> is_known_good s \<and> as_quarantined_until_ms s = None)"

definition peers_shrink :: "connection_policy \<Rightarrow> connection_policy \<Rightarrow> transport_identity \<Rightarrow> bool" where
  "peers_shrink p p' q \<longleftrightarrow> bm_get (cp_peers p') q = bm_get (cp_peers p) q \<or> bm_get (cp_peers p') q = None"

lemma room_peers:
  assumes "policy_ok p"
  shows "peers_shrink p (snd (room_for_failure p k t)) q"
  using assms
  by (auto simp: peers_shrink_def room_for_failure_def make_room_frame prune_def Let_def policy_ok_def bm_get_retain
      split: option.splits)

lemma score_peers: "policy_ok p \<Longrightarrow> peers_shrink p (score_address_failure p q' a t) q"
  using room_peers [of p "(q', a)" t q] by (simp add: peers_shrink_def score_address_failure_def Let_def case_prod_beta)

lemma mismatch_peers: "policy_ok p \<Longrightarrow> peers_shrink p (snd (policy_record_mismatch p q' a t)) q"
  using room_peers [of p "(q', a)" t q] by (simp add: peers_shrink_def policy_record_mismatch_def Let_def case_prod_beta)

lemma success_peers: "peers_shrink p (policy_record_success p q' a t) q"
  by (simp add: peers_shrink_def policy_record_success_def Let_def case_prod_beta make_room_frame)

lemma prune_peers: "policy_ok p \<Longrightarrow> peers_shrink p (snd (prune p t)) q"
  by (auto simp: peers_shrink_def prune_def Let_def policy_ok_def bm_get_retain split: option.splits)

lemma release_peers: "peers_shrink p (snd (release_from_book p q' a t)) q"
  by (auto simp: peers_shrink_def release_from_book_def Let_def case_prod_beta make_room_frame split: option.splits)

lemma make_room_for_peer_peers: "peers_shrink p (snd (make_room_for_peer p t)) q"
  by (auto simp: peers_shrink_def make_room_for_peer_def split: option.splits)

lemma shrink_held_off: "peers_shrink p p' q \<Longrightarrow> held_off p' q t \<Longrightarrow> held_off p q t"
  by (auto simp: peers_shrink_def held_off_def policy_peer_def)

lemma failure_peers:
  assumes "policy_ok p" "q' \<noteq> q \<or> proven p q g \<and> a \<noteq> g"
  shows "peers_shrink p (snd (record_address_failure p q' a t b)) q"
proof -
  let ?p = "score_address_failure p q' a t"
  have sc: "peers_shrink p ?p q" by (rule score_peers [OF assms(1)])
  show ?thesis
  proof (cases "q' = q")
    case True
    with assms(2) have pr: "proven p q g" and "a \<noteq> g" by auto
    have "record_of ?p (q, g) = record_of p (q, g)"
      using score_keeps(3) [of p "(q, g)" q' a t] assms(1) pr \<open>a \<noteq> g\<close> by (simp add: policy_ok_def proven_def)
    moreover obtain s where "record_of p (q, g) = Some s" "is_known_good s" "as_quarantined_until_ms s = None"
      using pr by (auto simp: proven_def)
    ultimately have "((q, g), s) \<in> set (cp_addresses ?p)" "is_known_good s" "is_dialable_at s t"
      by (auto simp: is_dialable_at_def intro: map_of_SomeD)
    then have "alternative_exists ?p q' a t"
      using True \<open>a \<noteq> g\<close> by (force simp: alternative_exists_def list_ex_iff)
    with sc show ?thesis by (simp add: record_address_failure_def)
  next
    case False
    then show ?thesis
      using sc make_room_for_peer_peers [of ?p t q]
      by (auto simp: record_address_failure_def Let_def case_prod_beta peers_shrink_def)
  qed
qed

lemma policy_step_shield:
  assumes "policy_ok p" "proven p q g" "policy_op_key op \<noteq> Some (q, g)"
  shows "proven (policy_step p op) q g \<and> (\<forall>t. held_off (policy_step p op) q t \<longrightarrow> held_off p q t)"
proof -
  have ok: "bm_ok (cp_addresses p)" using assms(1) by (simp add: policy_ok_def)
  have b: "booked p (q, g)" using assms(2) by (simp add: proven_def)
  have prov: "proven p' q g" if "booked p' (q, g)" "record_of p' (q, g) = record_of p (q, g)" for p'
    using that assms(2) by (simp add: proven_def)
  show ?thesis
  proof (cases op)
    case (PoSuccess q' a t)
    then show ?thesis
      using assms(3) b success_keeps(3) [OF ok, of q' a t] success_keeps(4) [OF ok, of "(q, g)" q' a t]
        shrink_held_off [OF success_peers] by (auto intro!: prov)
  next
    case (PoFailure q' a t d)
    have "peers_shrink p (policy_step p op) q"
      using PoFailure failure_peers [OF assms(1)] assms(2,3) by (cases "q' = q") auto
    then show ?thesis
      using assms(3) b PoFailure score_keeps(2) [OF ok, of q' a t] score_keeps(3) [OF ok, of "(q, g)" q' a t]
        shrink_held_off by (auto simp: failure_keeps intro!: prov)
  next
    case (PoScore q' a t)
    then show ?thesis
      using assms(3) b score_keeps(2) [OF ok, of q' a t] score_keeps(3) [OF ok, of "(q, g)" q' a t]
        shrink_held_off [OF score_peers [OF assms(1)]] by (auto intro!: prov)
  next
    case (PoMismatch q' a t)
    then show ?thesis
      using assms(3) b mismatch_keeps(2) [OF ok, of q' a t] mismatch_keeps(3) [OF ok, of "(q, g)" q' a t]
        shrink_held_off [OF mismatch_peers [OF assms(1)]] by (auto intro!: prov)
  next
    case (PoRelease q' a t)
    then show ?thesis
      using assms(3) b release_keeps(2) [OF ok, of q' a t "(q, g)"] release_keeps(3) [OF ok, of "(q, g)" q' a t]
        shrink_held_off [OF release_peers] by (auto intro!: prov)
  next
    case (PoRemember q' a)
    then show ?thesis using b by (auto simp: in_book_add held_off_def policy_peer_def intro!: prov)
  next
    case (PoPrune t)
    then show ?thesis
      using b keeps_booked [OF keeps_prune [OF ok]] shrink_held_off [OF prune_peers [OF assms(1)]]
      by (auto intro!: prov)
  next
    case (PoClear q')
    then have "proven (policy_step p op) q g" using b by (intro prov) (simp_all add: clear_peer_backoff_def)
    with PoClear show ?thesis by (auto simp: clear_peer_backoff_def held_off_def policy_peer_def)
  next
    case (PoLift q' t)
    then have "proven (policy_step p op) q g"
      using b by (intro prov) (simp_all add: lift_peer_backoff_def split: option.splits)
    with PoLift show ?thesis
      by (auto simp: lift_peer_backoff_def held_off_def policy_peer_def backoff_is_punitive_at_def is_clear_at_def
          split: option.splits if_splits)
  qed
qed

text \<open>The configured limits are nobody's to change.\<close>

definition policy_limits :: "connection_policy \<Rightarrow> nat \<times> nat \<times> nat \<times> nat \<times> nat \<times> nat \<times> nat \<times> bool" where
  "policy_limits p =
    (cp_max_addresses p, cp_max_peers p, cp_idle_ttl_ms p, cp_max_pending_dials p, cp_max_connections p,
     cp_max_connected_peers p, cp_max_connections_per_peer p, cp_shutting_down p)"

lemma make_room_limits [simp]:
  "policy_limits (snd (make_room_for_address p t)) = policy_limits p"
  "policy_limits (snd (make_room_for_peer p t)) = policy_limits p"
  "policy_limits (snd (room_for_failure p k t)) = policy_limits p"
  "policy_limits (snd (prune p t)) = policy_limits p"
proof -
  show a: "policy_limits (snd (make_room_for_address p t)) = policy_limits p" for p
    by (auto simp: make_room_for_address_def policy_limits_def split: option.splits)
  show b: "policy_limits (snd (prune p t)) = policy_limits p" by (simp add: prune_def Let_def policy_limits_def)
  show "policy_limits (snd (make_room_for_peer p t)) = policy_limits p"
    by (auto simp: make_room_for_peer_def policy_limits_def split: option.splits)
  show "policy_limits (snd (room_for_failure p k t)) = policy_limits p"
    by (simp add: room_for_failure_def a b)
qed

lemma limits_update [simp]:
  "policy_limits (p\<lparr>cp_addresses := m\<rparr>) = policy_limits p" "policy_limits (p\<lparr>cp_book := bk\<rparr>) = policy_limits p"
  "policy_limits (p\<lparr>cp_peers := ps\<rparr>) = policy_limits p"
  by (simp_all add: policy_limits_def)

lemma outcome_limits [simp]:
  "policy_limits (policy_record_success p q a t) = policy_limits p"
  "policy_limits (score_address_failure p q a t) = policy_limits p"
  "policy_limits (snd (policy_record_mismatch p q a t)) = policy_limits p"
  "policy_limits (snd (release_from_book p q a t)) = policy_limits p"
  "policy_limits (snd (clear_peer_backoff p q)) = policy_limits p"
  "policy_limits (snd (lift_peer_backoff p q t)) = policy_limits p"
  by (simp_all add: policy_record_success_def score_address_failure_def policy_record_mismatch_def
      release_from_book_def clear_peer_backoff_def lift_peer_backoff_def Let_def case_prod_beta split: option.splits)

lemma failure_limits [simp]: "policy_limits (snd (record_address_failure p q a t b)) = policy_limits p"
  by (simp add: record_address_failure_def Let_def case_prod_beta)

lemma policy_step_limits: "policy_limits (policy_step p op) = policy_limits p"
  by (cases op) simp_all

lemma policy_run_limits: "policy_limits (foldl policy_step p ops) = policy_limits p"
  by (induction ops arbitrary: p) (simp_all add: policy_step_limits)

section \<open>Reading the policy\<close>

lemma earliest_release_Some:
  "earliest_release p q t e known = Some u \<longleftrightarrow>
     (\<forall>a \<in> set known. live_at p (q, a) t) \<and> (known \<noteq> [] \<or> e \<noteq> None)
     \<and> u = Min (set_option e \<union> (\<lambda>a. the (quarantine_of p (q, a))) ` set known)"
proof (induction p q t e known arbitrary: u rule: earliest_release.induct)
  case (1 p q t e)
  then show ?case by (cases e) auto
next
  case (2 p q t e a known)
  show ?case
  proof (cases "live_at p (q, a) t")
    case True
    then obtain s v where s: "record_of p (q, a) = Some s" "as_quarantined_until_ms s = Some v" "t < v"
      by (auto simp: live_at_record is_punitive_at_def split: option.splits)
    have q: "quarantine_of p (q, a) = Some v" using s by (simp add: quarantine_of_def)
    let ?e = "Some (case e of None \<Rightarrow> v | Some x \<Rightarrow> min x v)"
    let ?S = "(\<lambda>a. the (quarantine_of p (q, a))) ` set known"
    have "Min (insert (case e of None \<Rightarrow> v | Some x \<Rightarrow> min x v) ?S) = Min (set_option e \<union> insert v ?S)"
      by (cases e; cases "?S = {}") (simp_all add: min.assoc)
    then show ?thesis using 2 [OF s(1,2)] s True q by (simp add: insert_commute)
  next
    case False
    then show ?thesis
      by (auto simp: live_at_record is_punitive_at_def split: option.splits)
  qed
qed

text \<open>A peer is reported quarantined exactly when every address of its book is, until the first release.\<close>

lemma quarantined_until_Some:
  assumes "policy_ok p"
  shows "quarantined_until p q t = Some u \<longleftrightarrow>
    (\<exists>known. bm_get (cp_book p) q = Some known \<and> (\<forall>a \<in> set known. live_at p (q, a) t)
       \<and> u = Min ((\<lambda>a. the (quarantine_of p (q, a))) ` set known))"
  using assms by (auto simp: quarantined_until_def earliest_release_Some policy_ok_def split: option.splits)

text \<open>Dial candidates: exactly the dialable ones, best rank first.\<close>

lemma preferred_addresses_spec:
  "set (preferred_addresses p q xs t) = {a \<in> set xs. is_address_dialable p q a t}"
  "sorted (map (dial_rank p q) (preferred_addresses p q xs t))"
  by (auto simp: preferred_addresses_def)

text \<open>A failure finds room as long as some record outside the book is not a live quarantine.\<close>

lemma keeps_quarantined: "keeps p t p' \<Longrightarrow> t \<le> u \<Longrightarrow> quarantined_keys p' u \<subseteq> quarantined_keys p u"
  using keeps_quarantine keeps_book unfolding quarantined_keys_live live_at_def
  by (fastforce split: option.splits)

lemma room_if_unquarantined:
  assumes "policy_ok p" "card (quarantined_keys p t) < cp_max_addresses p"
  shows "fst (room_for_failure p k t)"
proof -
  let ?p = "snd (prune p t)"
  have ok: "bm_ok (cp_addresses p)" "bm_ok (cp_addresses ?p)"
    using assms(1) prune_ok [OF assms(1), of t] by (simp_all add: policy_ok_def)
  have "card (quarantined_keys ?p t) < cp_max_addresses ?p"
    using card_mono [OF finite_quarantined keeps_quarantined [OF keeps_prune [OF ok(1)] order_refl]] assms(2)
    by (metis le_less_trans prune_frame(2))
  with ok(2) show ?thesis
    by (cases rule: make_room_cases [of ?p t]) (auto simp: room_for_failure_def)
qed

lemma mismatch_recorded_iff: "fst (policy_record_mismatch p q a t) \<longleftrightarrow> fst (room_for_failure p (q, a) t)"
  by (simp add: policy_record_mismatch_def Let_def case_prod_beta)

text \<open>An admitted dial is one whose outcome can be recorded.\<close>

lemma admitted_recordable:
  assumes "policy_ok p" "policy_admit p r class t = Ok ()" "dq_peer r = Some q"
  shows "fst (policy_record_mismatch p q (dq_address r) t)"
proof -
  let ?k = "(q, dq_address r)"
  have ok: "bm_ok (cp_addresses p)" using assms(1) by (simp add: policy_ok_def)
  have "\<not> state_full p q (dq_address r) t"
    using assms(2,3) by (auto simp: policy_admit_def split: option.splits if_splits)
  then consider "bm_has (cp_addresses p) ?k \<or> booked p ?k"
    | "card (outside_keys p) < cp_max_addresses p"
    | k s where "(k, s) \<in> set (outside_entries p)" "\<not> is_punitive_at s t"
    using ok by (force simp: state_full_def length_outside_entries list_ex_iff)
  then show ?thesis
  proof cases
    case 1
    then show ?thesis by (auto simp: mismatch_recorded_iff room_for_failure_def)
  next
    case 2
    then show ?thesis
      using room_if_unquarantined [OF assms(1)] card_mono [OF finite_outside quarantined_outside, of p t]
      by (simp add: mismatch_recorded_iff)
  next
    case (3 k s)
    then have "k \<in> outside_keys p" "k \<notin> quarantined_keys p t"
      using ok by (auto simp: in_outside_entries outside_keys_def bm_has_def quarantined_keys_def)
    then have "quarantined_keys p t \<subset> outside_keys p" using quarantined_outside by blast
    then have "card (quarantined_keys p t) < card (outside_keys p)" by (simp add: psubset_card_mono)
    then show ?thesis
      using room_if_unquarantined [OF assms(1)] assms(1) by (simp add: mismatch_recorded_iff policy_ok_def)
  qed
qed

section \<open>Properties\<close>


text \<open>C34. Bad addresses cannot suppress a peer.  While a route of a peer is in the book and proven,
  no sequence of outcomes of other addresses, however many failures and mismatches it holds, puts
  the peer itself into backoff.\<close>

theorem known_good_shields_peer:
  assumes "policy_ok p" "proven p q g" "list_all (\<lambda>op. policy_op_key op \<noteq> Some (q, g)) ops" "\<not> held_off p q t"
  shows "proven (foldl policy_step p ops) q g \<and> \<not> held_off (foldl policy_step p ops) q t"
  using assms
proof (induction ops arbitrary: p)
  case (Cons op ops)
  then show ?case using policy_step_shield [of p q g op] policy_step_ok [of p op] by auto
qed simp

text \<open>The tables are bounded: after any sequence of changes a fresh policy holds at most its
  configured number of address records outside the book and of peer backoffs.\<close>

theorem policy_tables_bounded:
  "length (outside_entries (foldl policy_step (policy_new m n) ops)) \<le> DEFAULT_MAX_ADDRESS_ENTRIES
   \<and> length (cp_peers (foldl policy_step (policy_new m n) ops)) \<le> DEFAULT_MAX_PEER_ENTRIES"
proof -
  let ?p = "foldl policy_step (policy_new m n) ops"
  have "policy_ok ?p" by (rule policy_calls.inv_run [OF policy_new_ok])
  moreover have "cp_max_addresses ?p = DEFAULT_MAX_ADDRESS_ENTRIES" "cp_max_peers ?p = DEFAULT_MAX_PEER_ENTRIES"
    using policy_run_limits [of "policy_new m n" ops]
    by (simp_all add: policy_limits_def policy_new_def policy_default_def)
  ultimately show ?thesis by (simp add: policy_ok_def length_outside_entries)
qed

section \<open>Witnesses\<close>

definition dial_peer :: transport_identity where "dial_peer = TransportIdentity [3]"

definition sample_outcomes :: "policy_op list" where
  "sample_outcomes =
    [PoRemember dial_peer [1], PoSuccess dial_peer [2] 20, PoFailure dial_peer [1] 30 30000,
     PoMismatch (TransportIdentity [4]) [1] 40, PoRelease dial_peer [1] 50, PoPrune 60, PoClear dial_peer]"


definition sample_policy :: connection_policy where
  "sample_policy = foldl policy_step (policy_new 4 4) [PoRemember dial_peer [7], PoSuccess dial_peer [7] 5]"

theorem known_good_shields_peer_witness:
  "\<not> held_off (foldl policy_step sample_policy [PoFailure dial_peer [1] 10 30000, PoMismatch dial_peer [2] 20])
     dial_peer 30"
proof -
  have "policy_ok sample_policy" unfolding sample_policy_def by (rule policy_calls.inv_run [OF policy_new_ok])
  moreover have "in_book (cp_book sample_policy) dial_peer [7]" by code_simp
  moreover have "record_of sample_policy (dial_peer, [7]) =
      Some \<lparr>as_consecutive_failures = 0, as_last_touched_ms = 5, as_last_success_ms = Some 5,
            as_quarantined_until_ms = None\<rparr>"
    by code_simp
  ultimately have "policy_ok sample_policy" "proven sample_policy dial_peer [7]"
    by (simp_all add: proven_def is_known_good_def)
  moreover have "list_all (\<lambda>op. policy_op_key op \<noteq> Some (dial_peer, [7]))
      [PoFailure dial_peer [1] 10 30000, PoMismatch dial_peer [2] 20]" by code_simp
  moreover have "\<not> held_off sample_policy dial_peer 30" by code_simp
  ultimately show ?thesis by (rule known_good_shields_peer [THEN conjunct2])
qed

end
