(* ===== verification/Connection_Manager.thy ===== *)
theory Connection_Manager
  imports Connection_Policy "HOL-Library.Option_ord"
begin

text \<open>
  The root connection funnel, \<open>crates/transport/runtime/src/connection_manager.rs\<close>: who may
  dial, when, and how it is counted.  The manager owns the policy and publishes immutable
  snapshots of it; an admission decides on a snapshot, reserves against the live counters and
  checks once more that the snapshot is the published one.  The atomics a manager shares with
  its snapshots and tickets (pending dials, outcome room, connections, draining) are fields of
  the manager's state, and each of their read-modify-write operations is one step.  A ticket or
  slot is a value: dropping it is the operation \<open>drop_ticket\<close> or \<open>drop_slot\<close>.
\<close>

section \<open>Trust sources\<close>

record trust_sources =
  tso_peers :: peer_trust_policy
  tso_infrastructure :: infrastructure_set
  tso_local_peer :: "transport_identity option"

definition trust_sources_new :: "peer_trust_policy \<Rightarrow> infrastructure_set \<Rightarrow> trust_sources" where
  "trust_sources_new peers infrastructure =
    \<lparr>tso_peers = peers, tso_infrastructure = infrastructure, tso_local_peer = None\<rparr>"

definition trust_sources_default :: trust_sources where
  "trust_sources_default = trust_sources_new trust_default \<lparr>is_allowed_peers = []\<rparr>"

definition trust_classify :: "trust_sources \<Rightarrow> transport_identity \<Rightarrow> connection_class" where
  "trust_classify t peer =
    (if tso_local_peer t = Some peer then Unauthorized
     else if is_allowed (decide (tso_peers t) peer) then DataPlaneTrusted
     else if permits_control_connection (tso_infrastructure t) peer then ConnectivityInfrastructureOnly
     else Unauthorized)"

section \<open>State\<close>

record policy_snapshot =
  ps_policy :: connection_policy
  ps_trust :: trust_sources
  ps_revision :: nat
  ps_max_pending_dials :: nat
  ps_max_connections :: nat

record dial_ticket =
  tk_issuer :: nat
  tk_peer :: "transport_identity option"
  tk_address :: address
  tk_origin :: dial_origin
  tk_outcome_reserved :: bool
  tk_settled :: bool
  tk_connection_kept :: bool
  tk_admitted_at_ms :: nat

record retry =
  rt_due_at_ms :: nat
  rt_attempts :: nat
  rt_claimed :: bool
  rt_waits_on :: "transport_identity option"

record retry_scheduled =
  rs_attempt :: nat
  rs_delay_ms :: nat
  rs_peer_backoff :: bool

datatype gate_note =
    GnRetryScheduled transport_identity dial_origin retry_scheduled
  | GnAddressQuarantined transport_identity nat

record connection_manager =
  cm_id :: nat
  cm_policy :: connection_policy
  cm_trust :: trust_sources
  cm_revision :: nat
  cm_pending :: nat
  cm_max_pending_dials :: nat
  cm_outcomes :: nat
  cm_outcomes_to_return :: nat
  cm_connections :: nat
  cm_max_connections :: nat
  cm_shutting_down :: bool
  cm_local_peer :: "transport_identity option"
  cm_retries :: "(transport_identity, retry) bmap"
  cm_network_lifts :: "(transport_identity, nat) bmap"
  cm_retired :: "transport_identity list"
  cm_notes :: "gate_note list"
  cm_notes_dropped :: nat
  cm_clock_ms :: nat
  cm_max_addresses_per_peer :: nat
  cm_max_retry_entries :: nat
  cm_published :: policy_snapshot
  cm_alive :: bool

definition ADMIT_RELOAD_ATTEMPTS :: nat where "ADMIT_RELOAD_ATTEMPTS = 3"
definition DEFAULT_MAX_RETRY_ENTRIES :: nat where "DEFAULT_MAX_RETRY_ENTRIES = 1024"
definition DEFAULT_MAX_ADDRESSES_PER_PEER :: nat where "DEFAULT_MAX_ADDRESSES_PER_PEER = 8"
definition MAX_ADDRESSES_PER_PEER :: nat where "MAX_ADDRESSES_PER_PEER = 32"
definition MAX_RETIRED_BOOK_PEERS :: nat where "MAX_RETIRED_BOOK_PEERS = 256"
definition MAX_GATE_NOTES :: nat where "MAX_GATE_NOTES = 64"
definition RETRY_BASE_MS :: nat where "RETRY_BASE_MS = 30000"
definition RETRY_CEILING_MS :: nat where "RETRY_CEILING_MS = 5 * 60 * 1000"

definition retry_backoff_ms :: "nat \<Rightarrow> nat" where
  "retry_backoff_ms attempts =
    (let shifted = sat_mul64 RETRY_BASE_MS (2 ^ (if attempts < 8 then attempts else 8))
     in if shifted < RETRY_CEILING_MS then shifted else RETRY_CEILING_MS)"

definition manager_new :: "nat \<Rightarrow> connection_policy \<Rightarrow> nat \<Rightarrow> connection_manager" where
  "manager_new i policy max_pending_dials =
    \<lparr>cm_id = i, cm_policy = policy, cm_trust = trust_sources_default, cm_revision = 0, cm_pending = 0,
     cm_max_pending_dials = max_pending_dials, cm_outcomes = 0, cm_outcomes_to_return = 0, cm_connections = 0,
     cm_max_connections = cp_max_connections policy, cm_shutting_down = False, cm_local_peer = None,
     cm_retries = [], cm_network_lifts = [], cm_retired = [], cm_notes = [], cm_notes_dropped = 0, cm_clock_ms = 0,
     cm_max_addresses_per_peer = DEFAULT_MAX_ADDRESSES_PER_PEER, cm_max_retry_entries = DEFAULT_MAX_RETRY_ENTRIES,
     cm_published =
       \<lparr>ps_policy = policy, ps_trust = trust_sources_default, ps_revision = 0,
        ps_max_pending_dials = max_pending_dials, ps_max_connections = cp_max_connections policy\<rparr>,
     cm_alive = True\<rparr>"

definition set_max_addresses_per_peer :: "connection_manager \<Rightarrow> nat \<Rightarrow> connection_manager" where
  "set_max_addresses_per_peer m limit =
    m\<lparr>cm_max_addresses_per_peer := min (max limit 1) MAX_ADDRESSES_PER_PEER\<rparr>"

definition publish :: "connection_manager \<Rightarrow> connection_manager" where
  "publish m =
    (let revision = sat_add64 (cm_revision m) 1;
         next_snapshot = \<lparr>ps_policy = cm_policy m, ps_trust = cm_trust m, ps_revision = revision,
           ps_max_pending_dials = cm_max_pending_dials m, ps_max_connections = cm_max_connections m\<rparr>
     in m\<lparr>cm_revision := revision, cm_published := next_snapshot,
          cm_outcomes := cm_outcomes m - cm_outcomes_to_return m, cm_outcomes_to_return := 0\<rparr>)"

definition observe :: "connection_manager \<Rightarrow> nat \<Rightarrow> connection_manager" where
  "observe m now_ms = m\<lparr>cm_clock_ms := max (cm_clock_ms m) now_ms\<rparr>"

definition manager_classify :: "connection_manager \<Rightarrow> transport_identity \<Rightarrow> connection_class" where
  "manager_classify m peer = trust_classify (cm_trust m) peer"

section \<open>Admission\<close>

definition reserve :: "nat \<Rightarrow> nat \<Rightarrow> unit + nat" where
  "reserve counter ceiling = (if counter \<ge> ceiling then Err () else Ok (counter + 1))"

definition drop_ticket :: "dial_ticket \<Rightarrow> connection_manager \<Rightarrow> connection_manager" where
  "drop_ticket t m =
    m\<lparr>cm_outcomes := cm_outcomes m - (if tk_outcome_reserved t then 1 else 0),
      cm_connections := cm_connections m - (if tk_connection_kept t then 0 else 1),
      cm_pending := cm_pending m - (if tk_settled t then 0 else 1)\<rparr>"

definition drop_slot :: "connection_manager \<Rightarrow> connection_manager" where
  "drop_slot m = m\<lparr>cm_connections := cm_connections m - 1\<rparr>"

definition is_current :: "policy_snapshot \<Rightarrow> connection_manager \<Rightarrow> bool" where
  "is_current snap m \<longleftrightarrow> cm_alive m \<and> ps_revision snap = ps_revision (cm_published m)"

definition request_class :: "policy_snapshot \<Rightarrow> dial_request \<Rightarrow> connection_class" where
  "request_class snap request =
    (case dq_peer request of Some peer \<Rightarrow> trust_classify (ps_trust snap) peer | None \<Rightarrow> Unauthorized)"

text \<open>The part of an admission that reads, up to the policy's answer.\<close>

definition admit_decide ::
  "policy_snapshot \<Rightarrow> connection_manager \<Rightarrow> dial_request \<Rightarrow> nat \<Rightarrow> dial_denial + unit" where
  "admit_decide snap m request now_ms =
    (if cm_shutting_down m then Err DnShuttingDown
     else if \<not> is_current snap m then Err DnPolicySuperseded
     else policy_admit (ps_policy snap) request (request_class snap request) now_ms)"

text \<open>The part that reserves; a refusal gives back what it took.\<close>

definition admit_reserve ::
  "policy_snapshot \<Rightarrow> dial_request \<Rightarrow> nat \<Rightarrow> connection_manager \<Rightarrow>
     (dial_denial + dial_ticket) \<times> connection_manager" where
  "admit_reserve snap request now_ms m =
    (case reserve (cm_pending m) (ps_max_pending_dials snap) of
       Inl _ \<Rightarrow> (Err DnTooManyPendingDials, m)
     | Inr pending \<Rightarrow>
         let m = m\<lparr>cm_pending := pending\<rparr>;
             ticket = \<lparr>tk_issuer = cm_id m, tk_peer = dq_peer request, tk_address = dq_address request,
               tk_origin = dq_origin request, tk_outcome_reserved = False, tk_settled = False,
               tk_connection_kept = False, tk_admitted_at_ms = now_ms\<rparr>
         in (case reserve (cm_connections m) (ps_max_connections snap) of
               Inl _ \<Rightarrow> (Err DnConnectionLimitReached, drop_ticket (ticket\<lparr>tk_connection_kept := True\<rparr>) m)
             | Inr connections \<Rightarrow>
                 let m = m\<lparr>cm_connections := connections\<rparr> in
                 if tk_peer ticket = None then (Ok ticket, m)
                 else
                   let room = cp_max_addresses (ps_policy snap) - live_quarantines (ps_policy snap) now_ms
                   in (case reserve (cm_outcomes m) room of
                         Inl _ \<Rightarrow> (Err DnPolicyStateFull, drop_ticket ticket m)
                       | Inr outcomes \<Rightarrow>
                           (Ok (ticket\<lparr>tk_outcome_reserved := True\<rparr>), m\<lparr>cm_outcomes := outcomes\<rparr>))))"

text \<open>The second look, once the slots are held.\<close>

definition admit_revalidate ::
  "policy_snapshot \<Rightarrow> dial_ticket \<Rightarrow> connection_manager \<Rightarrow>
     (dial_denial + dial_ticket) \<times> connection_manager" where
  "admit_revalidate snap ticket m =
    (if cm_shutting_down m \<or> \<not> is_current snap m then (Err DnPolicySuperseded, drop_ticket ticket m)
     else (Ok ticket, m))"

definition snapshot_admit ::
  "policy_snapshot \<Rightarrow> connection_manager \<Rightarrow> dial_request \<Rightarrow> nat \<Rightarrow>
     (dial_denial + dial_ticket) \<times> connection_manager" where
  "snapshot_admit snap m request now_ms =
    (case admit_decide snap m request now_ms of
       Inl denial \<Rightarrow> (Err denial, m)
     | Inr _ \<Rightarrow>
         (case admit_reserve snap request now_ms m of
            (Inl denial, m) \<Rightarrow> (Err denial, m)
          | (Inr ticket, m) \<Rightarrow> admit_revalidate snap ticket m))"

fun admit_attempts ::
  "nat \<Rightarrow> connection_manager \<Rightarrow> dial_request \<Rightarrow> nat \<Rightarrow>
     (dial_denial + dial_ticket) \<times> connection_manager" where
  "admit_attempts 0 m request now_ms = (Err DnPolicySuperseded, m)"
| "admit_attempts (Suc n) m request now_ms =
    (case snapshot_admit (cm_published m) m request now_ms of
       (Inl DnPolicySuperseded, m) \<Rightarrow> admit_attempts n m request now_ms
     | other \<Rightarrow> other)"

definition handle_admit ::
  "connection_manager \<Rightarrow> dial_request \<Rightarrow> nat \<Rightarrow> (dial_denial + dial_ticket) \<times> connection_manager" where
  "handle_admit m request now_ms = admit_attempts ADMIT_RELOAD_ATTEMPTS m request now_ms"

definition settled_at :: "dial_ticket \<Rightarrow> nat \<Rightarrow> nat" where
  "settled_at t now_ms = (if now_ms > tk_admitted_at_ms t then now_ms else tk_admitted_at_ms t)"

definition owns_scheduler_claim :: "dial_ticket \<Rightarrow> bool" where
  "owns_scheduler_claim t \<longleftrightarrow> tk_origin t = ConnectionManager"

definition rebind_address :: "dial_ticket \<Rightarrow> address \<Rightarrow> bool \<times> dial_ticket" where
  "rebind_address t address =
    (if tk_address t \<noteq> [] \<or> address = [] then (False, t) else (True, t\<lparr>tk_address := address\<rparr>))"

definition issued_here :: "connection_manager \<Rightarrow> dial_ticket \<Rightarrow> bool" where
  "issued_here m t \<longleftrightarrow> tk_issuer t = cm_id m"

text \<open>Settling ends the ticket: what it still holds goes back as it is dropped.\<close>

definition settle :: "connection_manager \<Rightarrow> dial_ticket \<Rightarrow> connection_manager" where
  "settle m t =
    (let m = m\<lparr>cm_pending := cm_pending m - 1\<rparr>;
         m = (if tk_outcome_reserved t then m\<lparr>cm_outcomes_to_return := cm_outcomes_to_return m + 1\<rparr> else m)
     in drop_ticket (t\<lparr>tk_settled := True, tk_outcome_reserved := False\<rparr>) m)"

text \<open>The slot kept is the connection the ticket reserved.\<close>

definition keep_connection :: "connection_manager \<Rightarrow> dial_ticket \<Rightarrow> connection_manager" where
  "keep_connection m t = settle m (t\<lparr>tk_connection_kept := True\<rparr>)"

section \<open>The address book\<close>

text \<open>\<open>std::cmp::Reverse\<close>: the same values in the opposite order.\<close>

datatype 'a reverse = Reverse (unreverse: 'a)

instantiation reverse :: (linorder) linorder
begin

definition less_eq_reverse :: "'a reverse \<Rightarrow> 'a reverse \<Rightarrow> bool" where
  "less_eq_reverse a b \<longleftrightarrow> unreverse b \<le> unreverse a"

definition less_reverse :: "'a reverse \<Rightarrow> 'a reverse \<Rightarrow> bool" where
  "less_reverse a b \<longleftrightarrow> unreverse b < unreverse a"

instance
  by standard (auto simp: less_eq_reverse_def less_reverse_def reverse.expand)

end

definition hand_over ::
  "connection_manager \<Rightarrow> transport_identity \<Rightarrow> address \<Rightarrow> nat \<Rightarrow> bool \<times> connection_manager" where
  "hand_over m peer address now_ms =
    (let p = cm_policy m;
         live = in_book (cp_book p) peer address
           \<and> (case policy_address p peer address of None \<Rightarrow> False | Some s \<Rightarrow> is_punitive_at s now_ms)
     in if \<not> live then
          let (left, p) = release_from_book p peer address now_ms in (left, m\<lparr>cm_policy := p\<rparr>)
        else
          let room = cp_max_addresses p - live_quarantines p now_ms
          in (case reserve (cm_outcomes m) room of
                Inl _ \<Rightarrow> (False, m)
              | Inr outcomes \<Rightarrow>
                  let (left, p) = release_from_book p peer address now_ms;
                      m = m\<lparr>cm_policy := p\<rparr>
                  in if \<not> left then (False, m)
                     else (True, publish (m\<lparr>cm_outcomes := outcomes,
                                            cm_outcomes_to_return := cm_outcomes_to_return m + 1\<rparr>))))"

definition hand_over_all ::
  "transport_identity \<Rightarrow> address list \<Rightarrow> nat \<Rightarrow> connection_manager \<Rightarrow> connection_manager" where
  "hand_over_all peer addresses now_ms m =
    foldl (\<lambda>m address. snd (hand_over m peer address now_ms)) m addresses"

text \<open>The loop over the retired peers past the bound: what is left of them, the stuck ones, the manager.\<close>

fun retire_loop ::
  "transport_identity list \<Rightarrow> connection_manager \<Rightarrow>
     transport_identity list \<times> transport_identity list \<times> connection_manager" where
  "retire_loop [] m = ([], [], m)"
| "retire_loop (oldest # retired) m =
    (if length (oldest # retired) > MAX_RETIRED_BOOK_PEERS then
       let addresses = (case bm_get (cp_book (cm_policy m)) oldest of None \<Rightarrow> [] | Some known \<Rightarrow> known);
           m = hand_over_all oldest addresses (cm_clock_ms m) m;
           stays = bm_has (cp_book (cm_policy m)) oldest;
           (retired, stuck, m) = retire_loop retired m
       in (retired, if stays then oldest # stuck else stuck, m)
     else (oldest # retired, [], m))"

definition retire_unclassified_book_peers :: "connection_manager \<Rightarrow> connection_manager" where
  "retire_unclassified_book_peers m =
    (let unclassified = (\<lambda>peer. trust_classify (cm_trust m) peer = Unauthorized);
         retired = filter unclassified (cm_retired m);
         newly = filter (\<lambda>peer. unclassified peer \<and> peer \<notin> set retired) (map fst (cp_book (cm_policy m)));
         (retired, stuck, m) = retire_loop (retired @ newly) m
     in m\<lparr>cm_retired := stuck @ retired\<rparr>)"

definition bind_local_peer :: "connection_manager \<Rightarrow> transport_identity \<Rightarrow> connection_manager" where
  "bind_local_peer m local =
    publish (m\<lparr>cm_local_peer := Some local, cm_trust := (cm_trust m)\<lparr>tso_local_peer := Some local\<rparr>\<rparr>)"

record revoked =
  rv_peer :: transport_identity
  rv_was :: connection_class
  rv_now :: connection_class

definition permits :: "connection_class \<Rightarrow> connection_class \<Rightarrow> bool" where
  "permits now was \<longleftrightarrow>
     was = Unauthorized \<or> now = DataPlaneTrusted
     \<or> was = ConnectivityInfrastructureOnly \<and> now = ConnectivityInfrastructureOnly"

definition set_trust ::
  "connection_manager \<Rightarrow> trust_sources \<Rightarrow> transport_identity list \<Rightarrow> revoked list \<times> connection_manager" where
  "set_trust m trust live =
    (let previous = cm_trust m;
         m = m\<lparr>cm_trust := trust\<lparr>tso_local_peer := cm_local_peer m\<rparr>\<rparr>;
         m = publish (retire_unclassified_book_peers m)
     in (List.map_filter
           (\<lambda>peer. let was = trust_classify previous peer; now = trust_classify (cm_trust m) peer
              in if was \<noteq> now \<and> \<not> permits now was
                 then Some \<lparr>rv_peer = peer, rv_was = was, rv_now = now\<rparr> else None) live, m))"

definition last_success :: "connection_policy \<Rightarrow> transport_identity \<Rightarrow> address \<Rightarrow> nat option" where
  "last_success p peer a = (case policy_address p peer a of None \<Rightarrow> None | Some s \<Rightarrow> as_last_success_ms s)"

definition failures_of :: "connection_policy \<Rightarrow> transport_identity \<Rightarrow> address \<Rightarrow> nat" where
  "failures_of p peer a = (case policy_address p peer a of None \<Rightarrow> 0 | Some s \<Rightarrow> as_consecutive_failures s)"

definition newest_proven :: "connection_policy \<Rightarrow> transport_identity \<Rightarrow> address list \<Rightarrow> address option" where
  "newest_proven p peer known =
    max_by_key (\<lambda>a. (last_success p peer a, Reverse a)) (filter (\<lambda>a. last_success p peer a \<noteq> None) known)"

definition book_victim ::
  "connection_policy \<Rightarrow> transport_identity \<Rightarrow> address list \<Rightarrow> nat \<Rightarrow> address option" where
  "book_victim p peer known now_ms =
    max_by_key (\<lambda>a. (\<not> is_address_dialable p peer a now_ms, Reverse (last_success p peer a), failures_of p peer a))
      (filter (\<lambda>a. \<not> is_address_dialable p peer a now_ms
          \<or> failures_of p peer a > 0 \<and> newest_proven p peer known \<noteq> Some a) known)"

text \<open>The route goes into the book, and an untried one makes an unclaimed retry due.\<close>

definition enter_book ::
  "connection_manager \<Rightarrow> transport_identity \<Rightarrow> address \<Rightarrow> nat \<Rightarrow> connection_manager" where
  "enter_book m peer address now_ms =
    (let untried = (policy_address (cm_policy m) peer address = None);
         m = m\<lparr>cm_policy := (cm_policy m)\<lparr>cp_book := book_add peer address (cp_book (cm_policy m))\<rparr>\<rparr>
     in (case bm_get (cm_retries m) peer of
           None \<Rightarrow> m
         | Some retry \<Rightarrow>
             if untried \<and> \<not> rt_claimed retry
             then m\<lparr>cm_retries := bm_insert peer (retry\<lparr>rt_due_at_ms := min (rt_due_at_ms retry) now_ms\<rparr>)
                      (cm_retries m)\<rparr>
             else m))"

definition learn_address ::
  "connection_manager \<Rightarrow> transport_identity \<Rightarrow> address \<Rightarrow> nat \<Rightarrow> bool \<times> connection_manager" where
  "learn_address m peer address now_ms =
    (let m = observe m now_ms in
     if manager_classify m peer = Unauthorized then (False, m)
     else
       (case bm_get (cp_book (cm_policy m)) peer of
          None \<Rightarrow> (True, enter_book m peer address now_ms)
        | Some known \<Rightarrow>
            if address \<in> set known then (True, m)
            else if length known \<ge> cm_max_addresses_per_peer m then
              (case book_victim (cm_policy m) peer known now_ms of
                 None \<Rightarrow> (False, m)
               | Some stale \<Rightarrow>
                   let (left, m) = hand_over m peer stale now_ms
                   in if \<not> left then (False, m) else (True, enter_book m peer address now_ms))
            else (True, enter_book m peer address now_ms)))"

definition dial_candidates :: "connection_manager \<Rightarrow> transport_identity \<Rightarrow> nat \<Rightarrow> address list" where
  "dial_candidates m peer now_ms =
    preferred_addresses (cm_policy m) peer
      (case bm_get (cp_book (cm_policy m)) peer of None \<Rightarrow> [] | Some known \<Rightarrow> known) now_ms"

section \<open>Retries and notes\<close>

definition retry_delay_ms :: "connection_manager \<Rightarrow> transport_identity \<Rightarrow> nat" where
  "retry_delay_ms m peer =
    retry_backoff_ms (case bm_get (cm_retries m) peer of None \<Rightarrow> 0 | Some r \<Rightarrow> rt_attempts r)"

definition schedule_retry ::
  "connection_manager \<Rightarrow> transport_identity \<Rightarrow> nat \<Rightarrow> nat \<Rightarrow> bool \<Rightarrow> nat \<times> connection_manager" where
  "schedule_retry m peer now_ms delay claimed =
    (let attempts = (case bm_get (cm_retries m) peer of None \<Rightarrow> 0 | Some r \<Rightarrow> rt_attempts r);
         retries = (if \<not> bm_has (cm_retries m) peer \<and> length (cm_retries m) \<ge> cm_max_retry_entries m then
                      (case max_by_key (\<lambda>(_, r). rt_due_at_ms r) (cm_retries m) of
                         None \<Rightarrow> cm_retries m
                       | Some (furthest, _) \<Rightarrow> bm_remove furthest (cm_retries m))
                    else cm_retries m);
         attempt = sat_add32 attempts 1
     in (attempt, m\<lparr>cm_retries := bm_insert peer
           \<lparr>rt_due_at_ms = sat_add64 now_ms delay, rt_attempts = attempt, rt_claimed = claimed,
            rt_waits_on = None\<rparr> retries\<rparr>))"

definition push_note :: "connection_manager \<Rightarrow> gate_note \<Rightarrow> connection_manager" where
  "push_note m n =
    (let m = (if length (cm_notes m) \<ge> MAX_GATE_NOTES
              then m\<lparr>cm_notes := tl (cm_notes m), cm_notes_dropped := sat_add64 (cm_notes_dropped m) 1\<rparr> else m)
     in m\<lparr>cm_notes := cm_notes m @ [n]\<rparr>)"

definition drain_notes :: "connection_manager \<Rightarrow> gate_note list \<times> connection_manager" where
  "drain_notes m = (cm_notes m, m\<lparr>cm_notes := []\<rparr>)"

definition claimed_by_another :: "connection_manager \<Rightarrow> dial_ticket \<Rightarrow> transport_identity \<Rightarrow> bool" where
  "claimed_by_another m t peer \<longleftrightarrow> \<not> owns_scheduler_claim t
     \<and> (case bm_get (cm_retries m) peer of None \<Rightarrow> False | Some r \<Rightarrow> rt_claimed r)"

definition clear_retry_claim :: "connection_manager \<Rightarrow> transport_identity \<Rightarrow> connection_manager" where
  "clear_retry_claim m peer = m\<lparr>cm_retries := bm_remove peer (cm_retries m)\<rparr>"

text \<open>\<open>retries.get_mut(peer)\<close>: change the entry of a peer in place, where there is one.\<close>

definition update_retry ::
  "(retry \<Rightarrow> retry) \<Rightarrow> connection_manager \<Rightarrow> transport_identity \<Rightarrow> connection_manager" where
  "update_retry f m peer =
    (case bm_get (cm_retries m) peer of
       None \<Rightarrow> m | Some r \<Rightarrow> m\<lparr>cm_retries := bm_insert peer (f r) (cm_retries m)\<rparr>)"

definition reclaim_retry :: "connection_manager \<Rightarrow> transport_identity \<Rightarrow> connection_manager" where
  "reclaim_retry m peer = update_retry (\<lambda>r. r\<lparr>rt_claimed := True\<rparr>) m peer"

definition release_retry_claim :: "connection_manager \<Rightarrow> transport_identity \<Rightarrow> connection_manager" where
  "release_retry_claim m peer = update_retry (\<lambda>r. r\<lparr>rt_claimed := False\<rparr>) m peer"

definition is_retry_due :: "connection_manager \<Rightarrow> transport_identity \<Rightarrow> nat \<Rightarrow> bool" where
  "is_retry_due m peer now_ms =
    (case bm_get (cm_retries m) peer of None \<Rightarrow> False | Some r \<Rightarrow> \<not> rt_claimed r \<and> now_ms \<ge> rt_due_at_ms r)"

definition take_due_retries ::
  "connection_manager \<Rightarrow> nat \<Rightarrow> nat \<Rightarrow> transport_identity list \<times> connection_manager" where
  "take_due_retries m now_ms limit =
    (let m = observe m now_ms;
         due = map (\<lambda>(p, r). (p, rt_due_at_ms r))
           (filter (\<lambda>(_, r). \<not> rt_claimed r \<and> now_ms \<ge> rt_due_at_ms r) (cm_retries m));
         due = take limit (sort_key snd due);
         m = foldl (\<lambda>m (peer, _). reclaim_retry m peer) m due
     in (map fst due, m))"

section \<open>Settlements\<close>

definition record_success :: "connection_manager \<Rightarrow> dial_ticket \<Rightarrow> nat \<Rightarrow> connection_manager" where
  "record_success m t now_ms =
    (let now_ms = settled_at t now_ms; m = observe m now_ms in
     if \<not> issued_here m t then m
     else
       let m = (case tk_peer t of
                  None \<Rightarrow> m
                | Some peer \<Rightarrow>
                    m\<lparr>cm_policy := policy_record_success (cm_policy m) peer (tk_address t) now_ms,
                      cm_retries := bm_remove peer (cm_retries m)\<rparr>)
       in publish (keep_connection m t))"

definition record_failure ::
  "connection_manager \<Rightarrow> dial_ticket \<Rightarrow> nat \<Rightarrow> retry_scheduled option \<times> connection_manager" where
  "record_failure m t now_ms =
    (let now_ms = settled_at t now_ms; m = observe m now_ms in
     if \<not> issued_here m t then (None, m)
     else if tk_address t = [] then (None, publish (settle m t))
     else if tk_origin t = DcutrHolePunch then (None, publish (settle m t))
     else
       (case tk_peer t of
          None \<Rightarrow> (None, publish (settle m t))
        | Some peer \<Rightarrow>
            let delay = retry_delay_ms m peer;
                (peer_backoff, p) = record_address_failure (cm_policy m) peer (tk_address t) now_ms delay;
                m = snd (learn_address (m\<lparr>cm_policy := p\<rparr>) peer (tk_address t) now_ms);
                (attempt, m) = schedule_retry m peer now_ms delay (claimed_by_another m t peer);
                retry = \<lparr>rs_attempt = attempt, rs_delay_ms = delay, rs_peer_backoff = peer_backoff\<rparr>;
                m = push_note m (GnRetryScheduled peer (tk_origin t) retry)
            in (Some retry, publish (settle m t))))"

definition record_relay_hop_unreached ::
  "connection_manager \<Rightarrow> dial_ticket \<Rightarrow> transport_identity \<Rightarrow> bool \<Rightarrow> nat \<Rightarrow>
     retry_scheduled option \<times> connection_manager" where
  "record_relay_hop_unreached m t relay relay_came_up now_ms =
    (let now_ms = settled_at t now_ms; m = observe m now_ms in
     if \<not> issued_here m t then (None, m)
     else
       (case tk_peer t of
          None \<Rightarrow> (None, publish (settle m t))
        | Some peer \<Rightarrow>
            let m = (if tk_address t = [] then m
                     else snd (learn_address
                       (m\<lparr>cm_policy := score_address_failure (cm_policy m) peer (tk_address t) now_ms\<rparr>)
                       peer (tk_address t) now_ms));
                delay = retry_delay_ms m peer;
                (attempt, m) = schedule_retry m peer now_ms delay (claimed_by_another m t peer);
                m = update_retry (\<lambda>r. if relay_came_up then r\<lparr>rt_due_at_ms := now_ms\<rparr>
                                      else r\<lparr>rt_waits_on := Some relay\<rparr>) m peer;
                retry = \<lparr>rs_attempt = attempt, rs_delay_ms = (if relay_came_up then 0 else delay),
                         rs_peer_backoff = False\<rparr>;
                m = push_note m (GnRetryScheduled peer (tk_origin t) retry)
            in (Some retry, publish (settle m t))))"

definition relay_reached :: "connection_manager \<Rightarrow> transport_identity \<Rightarrow> nat \<Rightarrow> connection_manager" where
  "relay_reached m relay now_ms =
    (let m = observe m now_ms in
     m\<lparr>cm_retries := bm_map_values
         (\<lambda>r. if \<not> rt_claimed r \<and> rt_waits_on r = Some relay
              then r\<lparr>rt_due_at_ms := min (rt_due_at_ms r) now_ms, rt_waits_on := None\<rparr> else r) (cm_retries m)\<rparr>)"

definition record_address_failure_unadmitted ::
  "connection_manager \<Rightarrow> transport_identity \<Rightarrow> address \<Rightarrow> nat \<Rightarrow> connection_manager" where
  "record_address_failure_unadmitted m peer address now_ms =
    (if address = [] then m
     else
       let delay = retry_delay_ms m peer;
           p = snd (record_address_failure (cm_policy m) peer address now_ms delay)
       in publish (snd (learn_address (m\<lparr>cm_policy := p\<rparr>) peer address now_ms)))"

definition record_permanent_address_failure_unadmitted ::
  "connection_manager \<Rightarrow> transport_identity \<Rightarrow> address \<Rightarrow> connection_manager" where
  "record_permanent_address_failure_unadmitted m peer address =
    (if address = [] then m else publish (snd (hand_over m peer address (cm_clock_ms m))))"

definition record_permanent_failure :: "connection_manager \<Rightarrow> dial_ticket \<Rightarrow> nat \<Rightarrow> connection_manager" where
  "record_permanent_failure m t now_ms =
    (let now_ms = settled_at t now_ms; m = observe m now_ms in
     if \<not> issued_here m t then m
     else
       let m = (case tk_peer t of
                  None \<Rightarrow> m
                | Some peer \<Rightarrow>
                    let m = snd (hand_over m peer (tk_address t) now_ms)
                    in if owns_scheduler_claim t then release_retry_claim m peer else m)
       in publish (settle m t))"

text \<open>A claimed retry ends with the dial: \<open>record_authorization_withdrawn\<close> and \<open>record_locally_refused\<close>.\<close>

definition record_authorization_withdrawn ::
  "connection_manager \<Rightarrow> dial_ticket \<Rightarrow> nat \<Rightarrow> connection_manager" where
  "record_authorization_withdrawn m t now_ms =
    (let m = observe m now_ms in
     if \<not> issued_here m t then m
     else
       let m = (case tk_peer t of
                  Some peer \<Rightarrow> if owns_scheduler_claim t then clear_retry_claim m peer else m
                | None \<Rightarrow> m)
       in publish (settle m t))"

definition record_locally_refused :: "connection_manager \<Rightarrow> dial_ticket \<Rightarrow> nat \<Rightarrow> connection_manager" where
  "record_locally_refused m t now_ms =
    (let m = observe m now_ms in
     if \<not> issued_here m t then m
     else
       let m = (case tk_peer t of
                  Some peer \<Rightarrow> if owns_scheduler_claim t then clear_retry_claim m peer else m
                | None \<Rightarrow> m)
       in publish (settle m t))"

definition record_identity_mismatch ::
  "connection_manager \<Rightarrow> dial_ticket \<Rightarrow> nat \<Rightarrow> bool \<times> connection_manager" where
  "record_identity_mismatch m t now_ms =
    (let now_ms = settled_at t now_ms; m = observe m now_ms in
     if \<not> issued_here m t then (False, m)
     else
       (case tk_peer t of
          None \<Rightarrow> (False, publish (settle m t))
        | Some peer \<Rightarrow>
            let (mismatched, p) = policy_record_mismatch (cm_policy m) peer (tk_address t) now_ms;
                m = m\<lparr>cm_policy := p\<rparr>;
                m = (if mismatched then push_note m (GnAddressQuarantined peer IDENTITY_MISMATCH_QUARANTINE_MS) else m);
                m = (if owns_scheduler_claim t then release_retry_claim m peer else m)
            in (mismatched, publish (settle m t))))"

section \<open>Inbound connections, authorization, draining\<close>

definition admit_inbound_connection :: "connection_manager \<Rightarrow> bool \<times> connection_manager" where
  "admit_inbound_connection m =
    (if cm_shutting_down m then (False, m)
     else
       (case reserve (cm_connections m) (cm_max_connections m) of
          Inl _ \<Rightarrow> (False, m)
        | Inr connections \<Rightarrow> (True, publish (m\<lparr>cm_connections := connections\<rparr>))))"

datatype retention_refusal = PerPeerLimitReached | ConnectedPeerLimitReached

definition admits_retention :: "connection_manager \<Rightarrow> nat \<Rightarrow> nat \<Rightarrow> retention_refusal + unit" where
  "admits_retention m held_for_peer connected_peers =
    (if held_for_peer \<ge> cp_max_connections_per_peer (cm_policy m) then Err PerPeerLimitReached
     else if held_for_peer = 0 \<and> connected_peers \<ge> cp_max_connected_peers (cm_policy m)
     then Err ConnectedPeerLimitReached
     else Ok ())"

definition record_inbound_retained ::
  "connection_manager \<Rightarrow> transport_identity \<Rightarrow> nat \<Rightarrow> bool \<times> connection_manager" where
  "record_inbound_retained m peer now_ms =
    (let m = observe m now_ms;
         (backoff, p) = clear_peer_backoff (cm_policy m) peer;
         retry = bm_has (cm_retries m) peer;
         m = m\<lparr>cm_policy := p, cm_retries := bm_remove peer (cm_retries m)\<rparr>
     in (backoff \<or> retry, if backoff \<or> retry then publish m else m))"

text \<open>One peer of the loop over those a network addition may lift; the count goes along.\<close>

definition lift_peer ::
  "nat \<Rightarrow> nat \<times> connection_manager \<Rightarrow> transport_identity \<Rightarrow> nat \<times> connection_manager" where
  "lift_peer now_ms st peer =
    (let (lifted, m) = st;
         (backoff, p) = lift_peer_backoff (cm_policy m) peer now_ms;
         m = m\<lparr>cm_policy := p\<rparr>;
         retry = (case bm_get (cm_retries m) peer of
                    None \<Rightarrow> False
                  | Some r \<Rightarrow> manager_classify m peer = DataPlaneTrusted \<and> \<not> rt_claimed r \<and> rt_due_at_ms r > now_ms);
         m = (if retry then update_retry (\<lambda>r. r\<lparr>rt_due_at_ms := now_ms\<rparr>) m peer else m)
     in if backoff \<or> retry
        then (lifted + 1, m\<lparr>cm_network_lifts := bm_insert peer now_ms (cm_network_lifts m)\<rparr>)
        else (lifted, m))"

definition network_added :: "connection_manager \<Rightarrow> nat \<Rightarrow> nat \<times> connection_manager" where
  "network_added m now_ms =
    (let m = observe m now_ms;
         m = m\<lparr>cm_network_lifts := bm_retain
               (\<lambda>peer at. now_ms - at < RETRY_BASE_MS \<and> manager_classify m peer \<noteq> Unauthorized)
               (cm_network_lifts m)\<rparr>;
         peers = bs_from_list (filter
               (\<lambda>p. manager_classify m p \<noteq> Unauthorized \<and> \<not> bm_has (cm_network_lifts m) p)
               (map fst (cm_retries m) @ backed_off_peers (cm_policy m)));
         (lifted, m) = foldl (lift_peer now_ms) (0, m) peers
     in (lifted, if lifted > 0 then publish m else m))"

definition holds_off :: "connection_manager \<Rightarrow> transport_identity \<Rightarrow> nat \<Rightarrow> bool" where
  "holds_off m peer now_ms =
    (case policy_peer (cm_policy m) peer of None \<Rightarrow> False | Some b \<Rightarrow> backoff_is_punitive_at b now_ms)"

definition record_connection_closed :: "connection_manager \<Rightarrow> connection_manager" where
  "record_connection_closed m = publish (drop_slot m)"

definition authorizes_for :: "connection_manager \<Rightarrow> connection_class \<Rightarrow> dial_origin \<Rightarrow> bool" where
  "authorizes_for m class origin =
    (if cm_shutting_down m then False
     else
       (case class of
          Unauthorized \<Rightarrow> False
        | DataPlaneTrusted \<Rightarrow> True
        | ConnectivityInfrastructureOnly \<Rightarrow> \<not> names_application_destination origin))"

definition authorizes :: "connection_manager \<Rightarrow> connection_class \<Rightarrow> bool" where
  "authorizes m class = authorizes_for m class Manual"

definition is_draining :: "connection_manager \<Rightarrow> bool" where
  "is_draining m = cm_shutting_down m"

definition is_local_peer :: "connection_manager \<Rightarrow> transport_identity \<Rightarrow> bool" where
  "is_local_peer m peer \<longleftrightarrow> cm_local_peer m = Some peer"

definition begin_shutdown :: "connection_manager \<Rightarrow> connection_manager" where
  "begin_shutdown m =
    publish (m\<lparr>cm_shutting_down := True, cm_policy := (cm_policy m)\<lparr>cp_shutting_down := True\<rparr>\<rparr>)"

text \<open>Dropping the manager drops its liveness token, and with it every snapshot's standing.\<close>

definition drop_manager :: "connection_manager \<Rightarrow> connection_manager" where
  "drop_manager m = m\<lparr>cm_alive := False\<rparr>"

record peer_gate_state =
  pg_backoff_until_ms :: "nat option"
  pg_quarantined_until_ms :: "nat option"
  pg_retry_due_at_ms :: "nat option"

definition peer_gate_state_of :: "connection_manager \<Rightarrow> transport_identity \<Rightarrow> nat \<Rightarrow> peer_gate_state" where
  "peer_gate_state_of m peer now_ms =
    \<lparr>pg_backoff_until_ms =
       (case policy_peer (cm_policy m) peer of
          None \<Rightarrow> None
        | Some b \<Rightarrow> (case pb_until_ms b of
            None \<Rightarrow> None | Some until \<Rightarrow> if now_ms < until then Some until else None)),
     pg_quarantined_until_ms = quarantined_until (cm_policy m) peer now_ms,
     pg_retry_due_at_ms = map_option rt_due_at_ms (bm_get (cm_retries m) peer)\<rparr>"

end
