(* ===== verification/Directory_Node.thy ===== *)
theory Directory_Node
  imports Direct_Node Directory_Codec Connection_Manager
begin

text \<open>
  The directory half of the Swarm task, \<open>crates/transport/libp2p/src/runtime/endpoints.rs\<close>, with
  the commands of \<open>runtime/commands.rs\<close> that touch it: answering directory queries, asking them,
  the requester's cache, and what a change of trust does to it.  The network is a parameter:
  whether it takes an answer, whether a peer's identity names a libp2p peer, and the request id
  it gives an outgoing query, if the peer is connected.
\<close>

section \<open>Definitions\<close>

definition MAX_OUTBOUND_DIRECTORY :: nat where "MAX_OUTBOUND_DIRECTORY = 64"
definition MAX_OUTBOUND_DIRECTORY_PER_PEER :: nat where "MAX_OUTBOUND_DIRECTORY_PER_PEER = 4"

definition admit_query_dispatch :: "transport_identity list \<Rightarrow> transport_identity \<Rightarrow> transport_error + unit" where
  "admit_query_dispatch in_flight peer =
    (let (total, for_peer) =
       foldl (\<lambda>(total, for_peer) held.
           (sat_add64 total 1, if held = peer then sat_add64 for_peer 1 else for_peer)) (0, 0) in_flight
     in if total \<ge> MAX_OUTBOUND_DIRECTORY \<or> for_peer \<ge> MAX_OUTBOUND_DIRECTORY_PER_PEER
        then Err TeOverloaded else Ok ())"

record directory_result =
  dr_endpoints :: "endpoint_id list"
  dr_fresh_for_ms :: nat
  dr_generated_at_ms :: nat
  dr_cached :: bool
  dr_noncanonical :: bool

text \<open>A caller's reply channel is a number; what was sent on it is part of the result of a step.\<close>

record pending_query =
  pq_peer :: transport_identity
  pq_reply :: nat

record directory_state =
  dis_cache :: directory_cache
  dis_budget :: directory_budget
  dis_advertised_ttl_ms :: nat
  dis_answering :: "nat bset"

definition directory_state_new :: "nat \<Rightarrow> nat \<Rightarrow> nat \<Rightarrow> directory_state" where
  "directory_state_new now_ms cache_peers local_cache_ttl_ms =
    \<lparr>dis_cache = directory_cache_new cache_peers local_cache_ttl_ms, dis_budget = budget_with_defaults now_ms,
     dis_advertised_ttl_ms = DEFAULT_ADVERTISED_TTL_MS, dis_answering = []\<rparr>"

definition set_budget_limits :: "directory_state \<Rightarrow> nat \<Rightarrow> nat \<Rightarrow> nat \<Rightarrow> directory_state" where
  "set_budget_limits d queries_per_min max_inflight now_ms =
    d\<lparr>dis_budget := snd (set_limits (dis_budget d) queries_per_min max_inflight now_ms)\<rparr>"

definition set_cache_ttl :: "directory_state \<Rightarrow> nat \<Rightarrow> directory_state" where
  "set_cache_ttl d local_ttl_ms = d\<lparr>dis_cache := set_local_ttl (dis_cache d) local_ttl_ms\<rparr>"

definition directory_answering :: "directory_state \<Rightarrow> nat" where
  "directory_answering d = length (dis_answering d)"

record endpoints_tick =
  et_now_ms :: nat
  et_wall_ms :: nat

definition build_answer ::
  "transport_identity \<Rightarrow> direct_state \<Rightarrow> directory_state \<Rightarrow> connection_manager \<Rightarrow> nat \<Rightarrow> nat \<Rightarrow>
     directory_response \<times> directory_state" where
  "build_answer querier direct d manager now_ms wall_ms =
    (let (charged, budget) = charge_rate (dis_budget d) querier now_ms;
         d = d\<lparr>dis_budget := budget\<rparr>
     in (case charged of
           Inl _ \<Rightarrow> (DirectoryRefused DrOverloaded, d)
         | Inr _ \<Rightarrow>
             if manager_classify manager querier \<noteq> DataPlaneTrusted then (DirectoryRefused DrUnauthorized, d)
             else if \<not> ds_directory_enabled direct \<or> is_draining manager then (DirectoryRefused DrUnavailable, d)
             else (DirectoryList \<lparr>ed_generated_at_ms = wall_ms, ed_ttl_ms = dis_advertised_ttl_ms d,
                     ed_endpoints = direct_advertised_for direct querier\<rparr>, d)))"

definition receive_directory ::
  "directory_response \<Rightarrow> transport_identity \<Rightarrow> directory_state \<Rightarrow> nat \<Rightarrow>
     (transport_error + directory_result) \<times> directory_state" where
  "receive_directory response peer d now_ms =
    (case response of
       DirectoryRefused reason \<Rightarrow>
         (Err (case reason of
                 DrOverloaded \<Rightarrow> TeOverloaded
               | DrUnauthorized \<Rightarrow> TeUnauthorizedPeer
               | DrUnavailable \<Rightarrow> TeRemoteEndpointUnavailable), d)
     | DirectoryList raw \<Rightarrow>
         (case validate_directory raw of
            Inl _ \<Rightarrow> (Err TeProtocolViolation, d)
          | Inr validated \<Rightarrow>
              let (entry, cache) = cache_insert (dis_cache d) peer validated now_ms
              in (Ok \<lparr>dr_endpoints = ce_endpoints entry, dr_fresh_for_ms = ce_fresh_until_ms entry - now_ms,
                      dr_generated_at_ms = ce_generated_at_ms entry, dr_cached = False,
                      dr_noncanonical = vd_noncanonical validated\<rparr>,
                  d\<lparr>dis_cache := cache\<rparr>)))"

fun directory_outbound_error :: "outbound_failure \<Rightarrow> transport_error" where
  "directory_outbound_error (FIo True) = TeProtocolViolation"
| "directory_outbound_error FUnsupportedProtocols = TeProtocolUnsupported"
| "directory_outbound_error FTimeout = TePeerUnreachable"
| "directory_outbound_error (FIo False) = TePeerUnreachable"
| "directory_outbound_error FDialFailure = TePeerUnreachable"
| "directory_outbound_error FConnectionClosed = TePeerUnreachable"

subsection \<open>Events\<close>

text \<open>A request carries the querier as \<open>to_transport_identity\<close> reads it.\<close>

datatype endpoints_event =
    EeRequest "transport_identity option" nat
  | EeResponse nat directory_response
  | EeOutboundFailure nat outbound_failure
  | EeInboundFailure nat
  | EeResponseSent nat

type_synonym query_reply = "nat \<times> (transport_error + directory_result)"
type_synonym pending_queries = "(nat, pending_query) bmap"

definition answer_left :: "nat \<Rightarrow> directory_state \<Rightarrow> directory_state" where
  "answer_left request_id d =
    (if request_id \<in> set (dis_answering d)
     then d\<lparr>dis_answering := bs_remove request_id (dis_answering d), dis_budget := end_exchange (dis_budget d)\<rparr>
     else d)"

definition handle_query ::
  "(nat \<Rightarrow> bool) \<Rightarrow> transport_identity option \<Rightarrow> nat \<Rightarrow> direct_state \<Rightarrow> connection_manager \<Rightarrow> endpoints_tick \<Rightarrow>
     directory_state \<Rightarrow> directory_response option \<times> directory_state" where
  "handle_query takes remote request_id direct manager tick d =
    (case remote of
       None \<Rightarrow> (None, d)
     | Some querier \<Rightarrow>
         (case budget_reserve (dis_budget d) of
            (Inl _, _) \<Rightarrow> (None, d)
          | (Inr _, budget) \<Rightarrow>
              let (response, d) = build_answer querier direct (d\<lparr>dis_budget := budget\<rparr>) manager
                    (et_now_ms tick) (et_wall_ms tick)
              in if takes request_id
                 then (Some response, d\<lparr>dis_answering := bs_insert request_id (dis_answering d)\<rparr>)
                 else (None, d\<lparr>dis_budget := end_exchange (dis_budget d)\<rparr>)))"

definition handle_directory_response ::
  "connection_manager \<Rightarrow> endpoints_tick \<Rightarrow> nat \<Rightarrow> directory_response \<Rightarrow> directory_state \<Rightarrow> pending_queries \<Rightarrow>
     query_reply option \<times> directory_state \<times> pending_queries" where
  "handle_directory_response manager tick request_id response d pending =
    (case bm_get pending request_id of
       None \<Rightarrow> (None, d, pending)
     | Some q \<Rightarrow>
         let pending = bm_remove request_id pending in
         if manager_classify manager (pq_peer q) \<noteq> DataPlaneTrusted
         then (Some (pq_reply q, Err TeUnauthorizedPeer), d, pending)
         else
           let (result, d) = receive_directory response (pq_peer q) d (et_now_ms tick)
           in (Some (pq_reply q, result), d, pending))"

definition handle_endpoints ::
  "(nat \<Rightarrow> bool) \<Rightarrow> endpoints_event \<Rightarrow> direct_state \<Rightarrow> connection_manager \<Rightarrow> endpoints_tick \<Rightarrow>
     directory_state \<Rightarrow> pending_queries \<Rightarrow>
     directory_response option \<times> query_reply option \<times> directory_state \<times> pending_queries" where
  "handle_endpoints takes event direct manager tick d pending =
    (case event of
       EeRequest remote request_id \<Rightarrow>
         let (response, d) = handle_query takes remote request_id direct manager tick d
         in (response, None, d, pending)
     | EeResponse request_id response \<Rightarrow>
         (None, handle_directory_response manager tick request_id response d pending)
     | EeOutboundFailure request_id error \<Rightarrow>
         (case bm_get pending request_id of
            None \<Rightarrow> (None, None, d, pending)
          | Some q \<Rightarrow>
              (None, Some (pq_reply q, Err (directory_outbound_error error)), d, bm_remove request_id pending))
     | EeInboundFailure request_id \<Rightarrow> (None, None, answer_left request_id d, pending)
     | EeResponseSent request_id \<Rightarrow> (None, None, answer_left request_id d, pending))"

subsection \<open>Commands\<close>

definition begin_query ::
  "(transport_identity \<Rightarrow> bool) \<Rightarrow> (transport_identity \<Rightarrow> nat option) \<Rightarrow> directory_state \<Rightarrow> connection_manager \<Rightarrow>
     transport_identity list \<Rightarrow> transport_identity \<Rightarrow> nat \<Rightarrow> nat \<Rightarrow> query_reply + nat \<times> pending_query" where
  "begin_query names_peer query_endpoints d manager in_flight peer now_ms reply =
    (if is_draining manager then Inl (reply, Err TeShuttingDown)
     else if manager_classify manager peer \<noteq> DataPlaneTrusted then Inl (reply, Err TeUnauthorizedPeer)
     else
       (case cache_get (dis_cache d) peer now_ms of
          Some entry \<Rightarrow>
            Inl (reply, Ok \<lparr>dr_endpoints = ce_endpoints entry, dr_fresh_for_ms = ce_fresh_until_ms entry - now_ms,
                            dr_generated_at_ms = ce_generated_at_ms entry, dr_cached = True,
                            dr_noncanonical = ce_noncanonical entry\<rparr>)
        | None \<Rightarrow>
            (case admit_query_dispatch in_flight peer of
               Inl refused \<Rightarrow> Inl (reply, Err refused)
             | Inr _ \<Rightarrow>
                 if \<not> names_peer peer then Inl (reply, Err TePeerUnknown)
                 else
                   (case query_endpoints peer of
                      Some request_id \<Rightarrow> Inr (request_id, \<lparr>pq_peer = peer, pq_reply = reply\<rparr>)
                    | None \<Rightarrow> Inl (reply, Err TePeerUnreachable)))))"

definition query_command ::
  "(transport_identity \<Rightarrow> bool) \<Rightarrow> (transport_identity \<Rightarrow> nat option) \<Rightarrow> directory_state \<Rightarrow> connection_manager \<Rightarrow>
     transport_identity \<Rightarrow> nat \<Rightarrow> nat \<Rightarrow> pending_queries \<Rightarrow> query_reply option \<times> pending_queries" where
  "query_command names_peer query_endpoints d manager peer now_ms reply pending =
    (case begin_query names_peer query_endpoints d manager (map (pq_peer \<circ> snd) pending) peer now_ms reply of
       Inl replied \<Rightarrow> (Some replied, pending)
     | Inr (request_id, q) \<Rightarrow> (None, bm_insert request_id q pending))"

definition configure_command ::
  "direct_endpoints \<Rightarrow> nat \<Rightarrow> direct_state \<Rightarrow> directory_state \<Rightarrow> direct_state \<times> directory_state" where
  "configure_command config now_ms direct d =
    (let direct = direct_configure direct config;
         d = set_budget_limits d (ds_directory_queries_per_min direct) (ds_directory_max_inflight direct) now_ms
     in (direct, set_cache_ttl d (ds_directory_cache_ttl_ms direct)))"

text \<open>The directory cache forgets whoever left the data plane.\<close>

definition forget_untrusted :: "connection_manager \<Rightarrow> directory_state \<Rightarrow> directory_state" where
  "forget_untrusted manager d =
    (let untrusted = filter (\<lambda>peer. manager_classify manager peer \<noteq> DataPlaneTrusted)
           (map fst (dca_entries (dis_cache d)))
     in d\<lparr>dis_cache := foldl (\<lambda>c peer. snd (cache_forget c peer)) (dis_cache d) untrusted\<rparr>)"

section \<open>The node\<close>

record directory_node =
  dd_direct :: direct_state
  dd_manager :: connection_manager
  dd_directory :: directory_state
  dd_pending :: pending_queries

definition trust_command ::
  "trust_sources \<Rightarrow> transport_identity list \<Rightarrow> directory_node \<Rightarrow> directory_node" where
  "trust_command trust live n =
    (let direct = adopt_trust (dd_direct n) (tso_peers trust);
         (_, manager) = set_trust (dd_manager n) trust live
     in n\<lparr>dd_direct := direct, dd_manager := manager, dd_directory := forget_untrusted manager (dd_directory n)\<rparr>)"

datatype directory_op =
    DoEvent "nat \<Rightarrow> bool" endpoints_event endpoints_tick
  | DoQuery "transport_identity \<Rightarrow> bool" "transport_identity \<Rightarrow> nat option" transport_identity nat nat
  | DoConfigure direct_endpoints nat
  | DoTrust trust_sources "transport_identity list"
  | DoShutdown

fun directory_step :: "directory_node \<Rightarrow> directory_op \<Rightarrow>
    (directory_response option \<times> query_reply option) \<times> directory_node" where
  "directory_step n (DoEvent takes event tick) =
    (let (response, reply, d, pending) =
           handle_endpoints takes event (dd_direct n) (dd_manager n) tick (dd_directory n) (dd_pending n)
     in ((response, reply), n\<lparr>dd_directory := d, dd_pending := pending\<rparr>))"
| "directory_step n (DoQuery names_peer query_endpoints peer now_ms reply) =
    (let (replied, pending) =
           query_command names_peer query_endpoints (dd_directory n) (dd_manager n) peer now_ms reply (dd_pending n)
     in ((None, replied), n\<lparr>dd_pending := pending\<rparr>))"
| "directory_step n (DoConfigure config now_ms) =
    (let (direct, d) = configure_command config now_ms (dd_direct n) (dd_directory n)
     in ((None, None), n\<lparr>dd_direct := direct, dd_directory := d\<rparr>))"
| "directory_step n (DoTrust trust live) = ((None, None), trust_command trust live n)"
| "directory_step n DoShutdown = ((None, None), n\<lparr>dd_manager := begin_shutdown (dd_manager n)\<rparr>)"

text \<open>The network numbers its exchanges without repetition.\<close>

fun ids_fresh :: "directory_node \<Rightarrow> directory_op \<Rightarrow> bool" where
  "ids_fresh n (DoEvent _ (EeRequest _ request_id) _) \<longleftrightarrow> request_id \<notin> set (dis_answering (dd_directory n))"
| "ids_fresh n (DoQuery _ query_endpoints peer _ _) \<longleftrightarrow>
    (case query_endpoints peer of None \<Rightarrow> True | Some request_id \<Rightarrow> \<not> bm_has (dd_pending n) request_id)"
| "ids_fresh _ _ \<longleftrightarrow> True"

fun directory_run :: "directory_node \<Rightarrow> directory_op list \<Rightarrow> query_reply list \<times> directory_node" where
  "directory_run n [] = ([], n)"
| "directory_run n (op # ops) =
    (let ((_, reply), n) = directory_step n op; (replies, n) = directory_run n ops
     in ((case reply of None \<Rightarrow> replies | Some r \<Rightarrow> r # replies), n))"

fun run_fresh :: "directory_node \<Rightarrow> directory_op list \<Rightarrow> bool" where
  "run_fresh n [] \<longleftrightarrow> True"
| "run_fresh n (op # ops) \<longleftrightarrow> ids_fresh n op \<and> run_fresh (snd (directory_step n op)) ops"

section \<open>Slots, pending queries and the cache\<close>

definition queries_to :: "pending_queries \<Rightarrow> transport_identity \<Rightarrow> nat" where
  "queries_to pending peer = length (filter (\<lambda>e. pq_peer (snd e) = peer) pending)"

definition slots_ok :: "directory_state \<Rightarrow> bool" where
  "slots_ok d \<longleftrightarrow> bs_ok (dis_answering d) \<and> db_inflight (dis_budget d) = length (dis_answering d)
     \<and> db_inflight (dis_budget d) \<le> MAX_INFLIGHT_CEILING \<and> db_max_inflight (dis_budget d) \<le> MAX_INFLIGHT_CEILING"

definition pending_ok :: "pending_queries \<Rightarrow> bool" where
  "pending_ok pending \<longleftrightarrow> bm_ok pending \<and> length pending \<le> MAX_OUTBOUND_DIRECTORY
     \<and> (\<forall>peer. queries_to pending peer \<le> MAX_OUTBOUND_DIRECTORY_PER_PEER)"

definition cache_trusted :: "connection_manager \<Rightarrow> directory_state \<Rightarrow> bool" where
  "cache_trusted manager d \<longleftrightarrow> directory_cache_ok (dis_cache d)
     \<and> (\<forall>p. bm_has (dca_entries (dis_cache d)) p \<longrightarrow> manager_classify manager p = DataPlaneTrusted)"

definition directory_ok :: "directory_node \<Rightarrow> bool" where
  "directory_ok n \<longleftrightarrow> slots_ok (dd_directory n) \<and> pending_ok (dd_pending n)
     \<and> cache_trusted (dd_manager n) (dd_directory n)"

lemma charge_rate_frame [simp]:
  "db_inflight (snd (charge_rate b q t)) = db_inflight b" "db_max_inflight (snd (charge_rate b q t)) = db_max_inflight b"
  by (simp_all add: charge_rate_def case_prod_beta Let_def)

lemma build_answer_state: "snd (build_answer q direct d m t w) = d\<lparr>dis_budget := snd (charge_rate (dis_budget d) q t)\<rparr>"
  by (simp add: build_answer_def case_prod_beta Let_def split: sum.split)

lemma end_exchange_fields [simp]:
  "db_inflight (end_exchange b) = db_inflight b - 1" "db_max_inflight (end_exchange b) = db_max_inflight b"
  by (simp_all add: end_exchange_def)

lemma length_bs_remove: "bs_ok s \<Longrightarrow> k \<in> set s \<Longrightarrow> length (bs_remove k s) = length s - 1"
  using distinct_card [of s] distinct_card [of "bs_remove k s"] bs_ok_distinct [of s] bs_ok_distinct [of "bs_remove k s"]
  by simp

lemma answer_left_slots: "slots_ok d \<Longrightarrow> slots_ok (answer_left i d)"
  using length_bs_remove_le [of i "dis_answering d"]
  by (auto simp: slots_ok_def answer_left_def length_bs_remove)

lemma handle_query_slots:
  assumes "slots_ok d" "i \<notin> set (dis_answering d)"
  shows "slots_ok (snd (handle_query takes remote i direct m tick d))"
    and "dis_cache (snd (handle_query takes remote i direct m tick d)) = dis_cache d"
  using assms
  by (auto simp: handle_query_def slots_ok_def budget_reserve_def case_prod_beta Let_def build_answer_state length_bs_insert
      split: option.split sum.split)

lemma dispatch_count:
  "a \<le> U64_MAX \<Longrightarrow> b \<le> U64_MAX \<Longrightarrow>
   foldl (\<lambda>(total, for_peer) held. (sat_add64 total 1, if held = peer then sat_add64 for_peer 1 else for_peer)) (a, b) xs
     = (min U64_MAX (a + length xs), min U64_MAX (b + length (filter (\<lambda>x. x = peer) xs)))"
proof (induction xs arbitrary: a b)
  case (Cons x xs)
  have "sat_add64 a 1 \<le> U64_MAX" "(if x = peer then sat_add64 b 1 else b) \<le> U64_MAX"
    using Cons.prems by (simp_all add: sat_add64_def)
  from Cons.IH [OF this] show ?case by (simp add: sat_add64_def min_def)
qed simp

lemma dispatch_total:
  assumes "admit_query_dispatch in_flight peer = Ok u"
  shows "length in_flight < MAX_OUTBOUND_DIRECTORY
    \<and> length (filter (\<lambda>x. x = peer) in_flight) < MAX_OUTBOUND_DIRECTORY_PER_PEER"
  using assms unfolding admit_query_dispatch_def dispatch_count [OF le0 le0]
  by (simp add: MAX_OUTBOUND_DIRECTORY_def MAX_OUTBOUND_DIRECTORY_PER_PEER_def
      U64_MAX_def split: if_splits)

lemma length_filter_insert:
  "\<not> bm_has m k \<Longrightarrow> length (filter P (bm_insert k v m)) = length (filter P m) + of_bool (P (k, v))"
  by (induction m) (auto simp: bm_has_keys)

lemma length_filter_remove: "length (filter P (bm_remove k m)) \<le> length (filter P m)"
  by (induction m) (auto simp: bm_remove_def)

lemma pending_ok_remove: "pending_ok pending \<Longrightarrow> pending_ok (bm_remove i pending)"
  unfolding pending_ok_def queries_to_def
  by (meson bm_ok_remove le_trans length_bm_remove_le length_filter_remove)

lemma query_command_pending:
  assumes "pending_ok pending" "\<forall>i. query peer = Some i \<longrightarrow> \<not> bm_has pending i"
  shows "pending_ok (snd (query_command names query d m peer now reply pending))"
proof (cases "begin_query names query d m (map (pq_peer \<circ> snd) pending) peer now reply")
  case (Inr b)
  then have b: "query peer = Some (fst b)" "snd b = \<lparr>pq_peer = peer, pq_reply = reply\<rparr>"
      "\<exists>u. admit_query_dispatch (map (pq_peer \<circ> snd) pending) peer = Ok u"
    by (auto simp: begin_query_def split: if_splits option.splits sum.splits)
  then have room: "length pending < MAX_OUTBOUND_DIRECTORY" "queries_to pending peer < MAX_OUTBOUND_DIRECTORY_PER_PEER"
    using dispatch_total [of "map (pq_peer \<circ> snd) pending" peer]
    by (auto simp: queries_to_def filter_map comp_def case_prod_beta)
  have fresh: "\<not> bm_has pending (fst b)" using assms(2) b(1) by simp
  have "queries_to (bm_insert (fst b) (snd b) pending) p = queries_to pending p + of_bool (p = peer)" for p
    using length_filter_insert [OF fresh, of "\<lambda>e. pq_peer (snd e) = p" "snd b"] b(2) by (auto simp: queries_to_def)
  then show ?thesis
    using assms(1) room fresh Inr by (auto simp: query_command_def pending_ok_def length_bm_insert case_prod_beta)
qed (use assms in \<open>simp add: query_command_def\<close>)

lemma cache_forget_all:
  assumes "directory_cache_ok c"
  shows "directory_cache_ok (foldl (\<lambda>c p. snd (cache_forget c p)) c ps)
    \<and> (\<forall>p. bm_get (dca_entries (foldl (\<lambda>c p. snd (cache_forget c p)) c ps)) p =
         (if p \<in> set ps then None else bm_get (dca_entries c) p))"
  using assms
proof (induction ps arbitrary: c)
  case (Cons p ps)
  from Cons.IH [OF cache_forget_ok [OF Cons.prems]] show ?case by (simp add: cache_forget_def)
qed simp

lemma forget_untrusted_trusted:
  assumes "directory_cache_ok (dis_cache d)"
  shows "cache_trusted m (forget_untrusted m d)" "slots_ok (forget_untrusted m d) = slots_ok d"
proof -
  show "cache_trusted m (forget_untrusted m d)"
    using cache_forget_all [OF assms]
    by (auto simp: cache_trusted_def forget_untrusted_def Let_def bm_has_def bm_get_key split: if_splits)
qed (simp add: forget_untrusted_def slots_ok_def Let_def)

lemma cache_insert_keeps:
  "directory_cache_ok c \<Longrightarrow> bm_has (dca_entries (snd (cache_insert c p v t))) q \<Longrightarrow> q = p \<or> bm_has (dca_entries c) q"
  using make_room_get [of c t q] by (auto simp: cache_insert_eq Let_def bm_has_def split: if_splits)

lemma receive_directory_cache:
  assumes "directory_cache_ok (dis_cache d)"
  shows "directory_cache_ok (dis_cache (snd (receive_directory r p d t)))"
    "bm_has (dca_entries (dis_cache (snd (receive_directory r p d t)))) q \<Longrightarrow> q = p \<or> bm_has (dca_entries (dis_cache d)) q"
    "slots_ok (snd (receive_directory r p d t)) = slots_ok d"
proof -
  have step: "dis_cache (snd (receive_directory (DirectoryList raw) p d t)) = cache_step (dis_cache d) (CaReceive p raw t)" for raw
    by (simp add: receive_directory_def case_prod_beta Let_def split: sum.split)
  show "directory_cache_ok (dis_cache (snd (receive_directory r p d t)))"
    using directory_calls.inv_step [OF assms, of "CaReceive p _ t"] assms step
    by (cases r) (simp_all add: receive_directory_def [of "DirectoryRefused _"])
  show "q = p \<or> bm_has (dca_entries (dis_cache d)) q" if "bm_has (dca_entries (dis_cache (snd (receive_directory r p d t)))) q"
  proof (cases r)
    case (DirectoryList raw)
    show ?thesis
    proof (cases "validate_directory raw")
      case (Inr v)
      then show ?thesis using that DirectoryList cache_insert_keeps [OF assms] by (simp add: step)
    qed (use that DirectoryList step in simp)
  qed (use that in \<open>simp add: receive_directory_def\<close>)
  show "slots_ok (snd (receive_directory r p d t)) = slots_ok d"
    by (auto simp: receive_directory_def slots_ok_def case_prod_beta Let_def split: directory_response.split sum.split)
qed

lemma trust_unchanged:
  "manager_classify (begin_shutdown m) p = manager_classify m p"
  by (simp add: begin_shutdown_def publish_def manager_classify_def Let_def)

lemma directory_step_ok:
  assumes "directory_ok n" "ids_fresh n op"
  shows "directory_ok (snd (directory_step n op))"
proof -
  have s: "slots_ok (dd_directory n)" and p: "pending_ok (dd_pending n)"
    and c: "cache_trusted (dd_manager n) (dd_directory n)" "directory_cache_ok (dis_cache (dd_directory n))"
    using assms(1) by (simp_all add: directory_ok_def cache_trusted_def)
  show ?thesis
  proof (cases op)
    case (DoEvent takes event tick)
    show ?thesis
    proof (cases event)
      case (EeRequest remote i)
      then show ?thesis using assms DoEvent handle_query_slots [OF s, of i takes remote "dd_direct n" "dd_manager n" tick]
        by (simp add: handle_endpoints_def directory_ok_def cache_trusted_def case_prod_beta Let_def)
    next
      case (EeResponse i r)
      show ?thesis
      proof (cases "bm_get (dd_pending n) i")
        case None
        then show ?thesis using assms(1) DoEvent EeResponse by (simp add: handle_endpoints_def handle_directory_response_def)
      next
        case (Some q)
        then show ?thesis
          using s c receive_directory_cache [OF c(2), of r "pq_peer q" "et_now_ms tick"] pending_ok_remove [OF p] DoEvent EeResponse
          by (auto simp: handle_endpoints_def handle_directory_response_def directory_ok_def cache_trusted_def Let_def case_prod_beta)
      qed
    next
      case (EeOutboundFailure i e)
      then show ?thesis using assms(1) DoEvent pending_ok_remove [OF p]
        by (simp add: handle_endpoints_def directory_ok_def split: option.split)
    qed (use assms(1) DoEvent answer_left_slots [OF s] in
        \<open>simp_all add: handle_endpoints_def directory_ok_def cache_trusted_def answer_left_def\<close>)
  next
    case (DoQuery names query peer now reply)
    then show ?thesis
      using assms query_command_pending [OF p, of query peer names "dd_directory n" "dd_manager n" now reply]
      by (simp add: directory_ok_def case_prod_beta Let_def split: option.splits)
  next
    case (DoConfigure config now)
    then show ?thesis
      using s p c set_local_ttl_ok [OF c(2)]
      by (auto simp: configure_command_def directory_ok_def set_budget_limits_def set_cache_ttl_def set_limits_def slots_ok_def
          cache_trusted_def set_local_ttl_def bm_has_def Let_def split: if_splits)
  next
    case (DoTrust trust live)
    then show ?thesis
      using s p forget_untrusted_trusted [OF c(2)] by (simp add: trust_command_def directory_ok_def case_prod_beta Let_def)
  next
    case DoShutdown
    then show ?thesis using assms(1) by (simp add: directory_ok_def cache_trusted_def trust_unchanged)
  qed
qed

lemma directory_run_ok: "directory_ok n \<Longrightarrow> run_fresh n ops \<Longrightarrow> directory_ok (snd (directory_run n ops))"
  by (induction ops arbitrary: n) (simp_all add: directory_step_ok case_prod_beta Let_def)

definition directory_node_new :: "direct_state \<Rightarrow> connection_manager \<Rightarrow> nat \<Rightarrow> nat \<Rightarrow> nat \<Rightarrow> directory_node" where
  "directory_node_new direct manager now_ms cache_peers ttl =
    \<lparr>dd_direct = direct, dd_manager = manager, dd_directory = directory_state_new now_ms cache_peers ttl, dd_pending = []\<rparr>"

lemma directory_node_new_ok: "directory_ok (directory_node_new direct m now k ttl)"
  using directory_cache_new_ok [of k ttl]
  by (simp add: directory_node_new_def directory_state_new_def directory_ok_def slots_ok_def pending_ok_def cache_trusted_def
      queries_to_def budget_with_defaults_def DEFAULT_MAX_INFLIGHT_def MAX_INFLIGHT_CEILING_def directory_cache_new_def bm_has_def bs_ok_def)

section \<open>Replies\<close>

definition waiting_on :: "pending_queries \<Rightarrow> nat \<Rightarrow> nat" where
  "waiting_on pending r = length (filter (\<lambda>e. pq_reply (snd e) = r) pending)"

fun asks_on :: "nat \<Rightarrow> directory_op \<Rightarrow> bool" where
  "asks_on r (DoQuery _ _ _ _ reply) \<longleftrightarrow> reply = r"
| "asks_on r _ \<longleftrightarrow> False"

abbreviation replied_on :: "nat \<Rightarrow> query_reply option \<Rightarrow> nat" where
  "replied_on r x \<equiv> (case x of None \<Rightarrow> 0 | Some y \<Rightarrow> of_bool (fst y = r))"

lemma length_filter_removed:
  "bm_ok m \<Longrightarrow> bm_get m i = Some q \<Longrightarrow> length (filter P m) = length (filter P (bm_remove i m)) + of_bool (P (i, q))"
proof (induction m)
  case (Cons e m)
  show ?case
  proof (cases "fst e = i")
    case True
    then have "bm_remove i m = m" using Cons.prems(1) by (cases e) (auto simp: bm_ok_Cons bm_remove_def intro!: filter_True)
    with True Cons.prems(2) show ?thesis by (cases e) (simp add: bm_remove_def)
  next
    case False
    with Cons show ?thesis by (cases e) (simp add: bm_ok_Cons bm_remove_def)
  qed
qed simp

lemma waiting_remove:
  "bm_ok pending \<Longrightarrow> bm_get pending i = Some q \<Longrightarrow>
     waiting_on pending r = waiting_on (bm_remove i pending) r + of_bool (pq_reply q = r)"
  using length_filter_removed [of pending i q "\<lambda>e. pq_reply (snd e) = r"] by (simp add: waiting_on_def)

lemma begin_query_Inr:
  "begin_query names query d m fl peer now reply = Inr b \<Longrightarrow> query peer = Some (fst b) \<and> pq_reply (snd b) = reply"
  by (auto simp: begin_query_def split: if_splits option.splits sum.splits)

lemma begin_query_Inl:
  "begin_query names query d m fl peer now reply = Inl x \<Longrightarrow> fst x = reply"
  by (auto simp: begin_query_def split: if_splits option.splits sum.splits)

lemma directory_step_replies:
  assumes "bm_ok (dd_pending n)" "ids_fresh n op"
  shows "replied_on r (snd (fst (directory_step n op))) + waiting_on (dd_pending (snd (directory_step n op))) r
    = waiting_on (dd_pending n) r + of_bool (asks_on r op)"
proof (cases op)
  case (DoEvent takes event tick)
  show ?thesis
  proof (cases event)
    case (EeResponse i x)
    then show ?thesis using DoEvent waiting_remove [OF assms(1), of i _ r]
      by (cases "bm_get (dd_pending n) i") (simp_all add: handle_endpoints_def handle_directory_response_def Let_def case_prod_beta)
  next
    case (EeOutboundFailure i e)
    then show ?thesis using DoEvent waiting_remove [OF assms(1), of i _ r]
      by (cases "bm_get (dd_pending n) i") (simp_all add: handle_endpoints_def)
  qed (simp_all add: DoEvent handle_endpoints_def case_prod_beta Let_def)
next
  case (DoQuery names query peer now reply)
  let ?b = "begin_query names query (dd_directory n) (dd_manager n) (map (pq_peer \<circ> snd) (dd_pending n)) peer now reply"
  show ?thesis
  proof (cases ?b)
    case (Inl x)
    then show ?thesis using DoQuery begin_query_Inl [OF Inl] by (simp add: query_command_def)
  next
    case (Inr b)
    have "\<not> bm_has (dd_pending n) (fst b)" using assms(2) DoQuery begin_query_Inr [OF Inr] by simp
    then show ?thesis
      using DoQuery Inr begin_query_Inr [OF Inr] length_filter_insert [of "dd_pending n" "fst b" "\<lambda>e. pq_reply (snd e) = r" "snd b"]
      by (simp add: query_command_def waiting_on_def case_prod_beta)
  qed
next
  case (DoTrust trust live)
  then show ?thesis by (simp add: trust_command_def case_prod_beta Let_def)
qed (simp_all add: case_prod_beta Let_def)

lemma directory_run_replies:
  "directory_ok n \<Longrightarrow> run_fresh n ops \<Longrightarrow>
   length (filter (\<lambda>x. fst x = r) (fst (directory_run n ops))) + waiting_on (dd_pending (snd (directory_run n ops))) r
     = waiting_on (dd_pending n) r + length (filter (asks_on r) ops)"
proof (induction ops arbitrary: n)
  case (Cons op ops)
  let ?s = "directory_step n op"
  have "bm_ok (dd_pending n)" using Cons.prems(1) by (simp add: directory_ok_def pending_ok_def)
  with Cons.prems have step: "replied_on r (snd (fst ?s)) + waiting_on (dd_pending (snd ?s)) r
      = waiting_on (dd_pending n) r + of_bool (asks_on r op)"
    by (intro directory_step_replies) simp_all
  have "directory_ok (snd ?s)" using directory_step_ok [OF Cons.prems(1)] Cons.prems(2) by simp
  from Cons.IH [OF this] Cons.prems(2) step show ?case
    by (cases "snd (fst ?s)") (auto simp: case_prod_beta Let_def split: if_splits)
qed simp

section \<open>Properties\<close>

text \<open>The directory keeps its books under every sequence of events and commands: an in-flight slot
  is taken for exactly the answers that are queued, within the ceiling of sixty-four; at most
  sixty-four queries are out, at most four to one peer; the cache is within its bound and holds
  only peers the trust in force admits to the data plane.
\<close>

theorem directory_node_bounded:
  assumes "run_fresh (directory_node_new direct m now k ttl) ops"
    "n = snd (directory_run (directory_node_new direct m now k ttl) ops)"
  shows "db_inflight (dis_budget (dd_directory n)) = directory_answering (dd_directory n)
    \<and> directory_answering (dd_directory n) \<le> MAX_INFLIGHT_CEILING
    \<and> length (dd_pending n) \<le> MAX_OUTBOUND_DIRECTORY
    \<and> queries_to (dd_pending n) peer \<le> MAX_OUTBOUND_DIRECTORY_PER_PEER
    \<and> length (dca_entries (dis_cache (dd_directory n))) \<le> dca_max_peers (dis_cache (dd_directory n))
    \<and> (bm_has (dca_entries (dis_cache (dd_directory n))) peer \<longrightarrow> manager_classify (dd_manager n) peer = DataPlaneTrusted)"
  using directory_run_ok [OF directory_node_new_ok assms(1)] unfolding assms(2) [symmetric]
  by (simp add: directory_ok_def slots_ok_def pending_ok_def cache_trusted_def directory_cache_ok_def directory_answering_def)

text \<open>C37. Every query is answered once: on every reply channel, the replies sent and the queries still
  out add up to the queries asked on it.
\<close>

theorem directory_query_answered_once:
  assumes "run_fresh (directory_node_new direct m now k ttl) ops"
  shows "length (filter (\<lambda>x. fst x = r) (fst (directory_run (directory_node_new direct m now k ttl) ops)))
    + waiting_on (dd_pending (snd (directory_run (directory_node_new direct m now k ttl) ops))) r
    = length (filter (asks_on r) ops)"
  using directory_run_replies [OF directory_node_new_ok assms, of r]
  by (simp add: directory_node_new_def waiting_on_def)


text \<open>No operation but the arrival of a response puts a peer into the cache.\<close>

fun receives :: "directory_op \<Rightarrow> bool" where
  "receives (DoEvent _ (EeResponse _ _) _) \<longleftrightarrow> True"
| "receives _ \<longleftrightarrow> False"

lemma uncached_stays:
  assumes "directory_ok n" "ids_fresh n op" "\<not> receives op" "\<not> bm_has (dca_entries (dis_cache (dd_directory n))) p"
  shows "\<not> bm_has (dca_entries (dis_cache (dd_directory (snd (directory_step n op))))) p"
proof (cases op)
  case (DoEvent takes event tick)
  then show ?thesis
    using assms handle_query_slots(2) [of "dd_directory n"]
    by (cases event) (auto simp: handle_endpoints_def directory_ok_def answer_left_def case_prod_beta Let_def split: option.split)
next
  case (DoTrust trust live)
  have "directory_cache_ok (dis_cache (dd_directory n))" using assms(1) by (simp add: directory_ok_def cache_trusted_def)
  from cache_forget_all [OF this] show ?thesis
    using assms(4) DoTrust by (simp add: trust_command_def forget_untrusted_def bm_has_def case_prod_beta Let_def)
qed (use assms in \<open>auto simp: configure_command_def set_cache_ttl_def set_budget_limits_def set_local_ttl_def bm_has_def
      case_prod_beta Let_def\<close>)

lemma uncached_run:
  "directory_ok n \<Longrightarrow> run_fresh n ops \<Longrightarrow> list_all (\<lambda>op. \<not> receives op) ops \<Longrightarrow>
   \<not> bm_has (dca_entries (dis_cache (dd_directory n))) p \<Longrightarrow>
   \<not> bm_has (dca_entries (dis_cache (dd_directory (snd (directory_run n ops))))) p"
proof (induction ops arbitrary: n)
  case (Cons op ops)
  then show ?case using uncached_stays [of n op p] directory_step_ok [of n op] by (simp add: case_prod_beta Let_def)
qed simp

text \<open>C35. A revocation outlives the cache: once a change of trust takes a peer off the data plane, a
  query to it is not answered with endpoints until a new answer from the network has come in,
  even after the peer is trusted again.
\<close>

theorem revoked_peer_not_served:
  assumes "run_fresh (directory_node_new direct m now k ttl) (ops @ DoTrust trust live # later)"
    "n = snd (directory_run (directory_node_new direct m now k ttl) ops)"
    "manager_classify (snd (set_trust (dd_manager n) trust live)) p \<noteq> DataPlaneTrusted"
    "list_all (\<lambda>op. \<not> receives op) later"
    "n' = snd (directory_run (snd (directory_step n (DoTrust trust live))) later)"
  shows "begin_query names query (dd_directory n') (dd_manager n') in_flight p t reply \<noteq> Inl (reply, Ok result)"
proof -
  have split: "run_fresh n0 (xs @ ys) \<longleftrightarrow> run_fresh n0 xs \<and> run_fresh (snd (directory_run n0 xs)) ys" for n0 xs ys
    by (induction xs arbitrary: n0) (simp_all add: case_prod_beta Let_def)
  let ?n = "snd (directory_step n (DoTrust trust live))"
  have f: "run_fresh (directory_node_new direct m now k ttl) ops" "run_fresh ?n later"
    using assms(1) unfolding split assms(2) by simp_all
  have ok: "directory_ok n" unfolding assms(2) by (rule directory_run_ok [OF directory_node_new_ok f(1)])
  have ok': "directory_ok ?n" by (rule directory_step_ok [OF ok]) simp
  then have "\<not> bm_has (dca_entries (dis_cache (dd_directory ?n))) p"
    using assms(3) by (auto simp: directory_ok_def cache_trusted_def trust_command_def case_prod_beta Let_def)
  from uncached_run [OF ok' f(2) assms(4) this] show ?thesis
    unfolding assms(5) [symmetric]
    by (auto simp: begin_query_def cache_get_def bm_has_def split: option.splits sum.splits)
qed

section \<open>Witnesses\<close>

definition queried_peer :: transport_identity where "queried_peer = TransportIdentity [5]"

definition queried_trust :: trust_sources where
  "queried_trust = trust_sources_new \<lparr>tp_allowed_peers = [queried_peer], tp_local_peer = None\<rparr> \<lparr>is_allowed_peers = []\<rparr>"

definition sample_directory_node :: directory_node where
  "sample_directory_node = directory_node_new (direct_state_new 0) (manager_new 1 (policy_new 4 4) 4) 0 4 1000"

definition sample_exchange :: "directory_op list" where
  "sample_exchange =
    [DoTrust queried_trust [], DoQuery (\<lambda>_. True) (\<lambda>_. Some 7) queried_peer 10 1,
     DoEvent (\<lambda>_. True) (EeResponse 7 (DirectoryList sample_directory)) \<lparr>et_now_ms = 20, et_wall_ms = 0\<rparr>,
     DoEvent (\<lambda>_. True) (EeRequest (Some queried_peer) 3) \<lparr>et_now_ms = 30, et_wall_ms = 0\<rparr>]"

theorem directory_node_bounded_witness:
  "db_inflight (dis_budget (dd_directory (snd (directory_run sample_directory_node sample_exchange)))) = 1"
proof -
  have "run_fresh sample_directory_node sample_exchange" by code_simp
  from directory_node_bounded [OF this [unfolded sample_directory_node_def] refl]
  have "db_inflight (dis_budget (dd_directory (snd (directory_run sample_directory_node sample_exchange))))
      = directory_answering (dd_directory (snd (directory_run sample_directory_node sample_exchange)))"
    unfolding sample_directory_node_def by blast
  moreover have "directory_answering (dd_directory (snd (directory_run sample_directory_node sample_exchange))) = 1" by code_simp
  ultimately show ?thesis by simp
qed

theorem directory_query_answered_once_witness:
  "length (filter (\<lambda>x. fst x = 1) (fst (directory_run sample_directory_node sample_exchange))) = 1"
proof -
  have f: "run_fresh sample_directory_node sample_exchange" by code_simp
  have w: "waiting_on (dd_pending (snd (directory_run sample_directory_node sample_exchange))) 1 = 0" by code_simp
  have l: "length (filter (asks_on 1) sample_exchange) = 1" by code_simp
  show ?thesis
    using directory_query_answered_once [OF f [unfolded sample_directory_node_def], of 1] w l
    unfolding sample_directory_node_def by linarith
qed


theorem revoked_peer_not_served_witness:
  "\<forall>result. begin_query (\<lambda>_. True) (\<lambda>_. Some 8)
     (dd_directory (snd (directory_run (snd (directory_step (snd (directory_run sample_directory_node sample_exchange))
        (DoTrust trust_sources_default []))) [DoTrust queried_trust []])))
     (dd_manager (snd (directory_run (snd (directory_step (snd (directory_run sample_directory_node sample_exchange))
        (DoTrust trust_sources_default []))) [DoTrust queried_trust []])))
     [] queried_peer 40 2 \<noteq> Inl (2, Ok result)"
proof -
  have "run_fresh sample_directory_node (sample_exchange @ DoTrust trust_sources_default [] # [DoTrust queried_trust []])" by code_simp
  moreover have "manager_classify (snd (set_trust (dd_manager (snd (directory_run sample_directory_node sample_exchange)))
      trust_sources_default [])) queried_peer \<noteq> DataPlaneTrusted" by code_simp
  moreover have "list_all (\<lambda>op. \<not> receives op) [DoTrust queried_trust []]" by simp
  ultimately show ?thesis
    unfolding sample_directory_node_def by (intro allI) (rule revoked_peer_not_served [OF _ refl _ _ refl])
qed

end
