(* ===== verification/Broadcast_Frame.thy ===== *)
theory Broadcast_Frame
  imports Wire
begin

text \<open>
  The broadcast envelope, \<open>crates/api/transport-api/src/broadcast_v1.rs\<close>:
  \<open>version:u8 || message_id:16 || sent_at_ms:u64be || u8-prefixed media type ||
  payload_len:u32be || payload\<close>.  It is a strict codec at every payload limit, it refuses any
  other version before reading a field, and it never exceeds the frame overhead that the
  transmit ceiling is sized from.
\<close>

section \<open>Definitions\<close>

definition VERSION :: byte where
  "VERSION = 1"

definition MAX_FRAME_OVERHEAD :: nat where
  "MAX_FRAME_OVERHEAD = 1 + 16 + 8 + 1 + MAX_MEDIA_TYPE_BYTES + 4"

datatype broadcast_frame_error =
    BTruncated string nat nat
  | BUnsupportedVersion byte
  | BDeclaredTooLong string nat nat
  | BPayloadTooLarge nat nat
  | BMedia payload_error
  | BTrailingBytes nat

definition broadcast_errors :: "broadcast_frame_error wire_errors" where
  "broadcast_errors =
    \<lparr>err_truncated = BTruncated, err_too_long = BDeclaredTooLong,
     err_payload_too_large = BPayloadTooLarge, err_media = BMedia, err_trailing = BTrailingBytes\<rparr>"

record broadcast_message =
  bm_message_id :: message_id
  bm_sent_at_ms :: u64
  bm_payload :: payload

definition broadcast_encode :: "broadcast_message \<Rightarrow> bytes" where
  "broadcast_encode m =
    (let media = (case payload_media (bm_payload m) of None \<Rightarrow> [] | Some t \<Rightarrow> media_str t);
         bs = payload_bytes (bm_payload m)
     in [VERSION]
        @ message_bytes (bm_message_id m)
        @ u64_be (bm_sent_at_ms m)
        @ put_u8_prefixed media
        @ u32_len_be (length bs)
        @ bs)"

definition broadcast_decode :: "bytes \<Rightarrow> nat \<Rightarrow> broadcast_frame_error + broadcast_message" where
  "broadcast_decode buffer limit =
    and_then (cur_take_u8 broadcast_errors ''version'' (cursor_new buffer)) (\<lambda>(version, c).
    if version \<noteq> VERSION then Err (BUnsupportedVersion version) else
    and_then (cur_take broadcast_errors ''message_id'' 16 c) (\<lambda>(mid, c).
    and_then (cur_take broadcast_errors ''sent_at_ms'' 8 c) (\<lambda>(ts, c).
    and_then (read_media broadcast_errors c) (\<lambda>(media, c).
    and_then (cur_take broadcast_errors ''payload_len'' 4 c) (\<lambda>(declared, c).
    and_then (read_payload broadcast_errors limit media (be_val declared) c) (\<lambda>(p, c).
      let extra = cur_remaining c in
      if extra > 0 then Err (BTrailingBytes extra)
      else Ok \<lparr>bm_message_id = MessageId mid, bm_sent_at_ms = u64_from_be ts, bm_payload = p\<rparr>))))))"

definition broadcast_ok :: "nat \<Rightarrow> broadcast_message \<Rightarrow> bool" where
  "broadcast_ok limit m \<longleftrightarrow> message_id_ok (bm_message_id m) \<and> payload_ok limit (bm_payload m)"

section \<open>The codec\<close>

lemma broadcast_encode_parts:
  "broadcast_encode m =
     VERSION # message_bytes (bm_message_id m) @ u64_be (bm_sent_at_ms m)
       @ media_wire (payload_media (bm_payload m))
       @ u32_len_be (length (payload_bytes (bm_payload m))) @ payload_bytes (bm_payload m)"
  by (simp add: broadcast_encode_def media_wire_def Let_def)

lemma broadcast_decode_encode:
  assumes "broadcast_ok limit m"
  shows "broadcast_decode (broadcast_encode m) limit = Inr m"
proof -
  let ?p = "bm_payload m" and ?ts = "u64_be (bm_sent_at_ms m)"
  let ?d = "u32_len_be (length (payload_bytes ?p))"
  obtain mid where mid: "bm_message_id m = MessageId mid" "length mid = 16"
    using assms
    by (cases "bm_message_id m") (auto simp: broadcast_ok_def message_id_ok_def MESSAGE_ID_LEN_def)
  have media: "pred_option media_ok (payload_media ?p)"
    and len: "length (payload_bytes ?p) \<le> min limit MAX_PAYLOAD_BYTES"
    using assms by (simp_all add: broadcast_ok_def payload_ok_def)
  obtain c0 where 0: "cur_take_u8 broadcast_errors ''version'' (cursor_new (broadcast_encode m))
      = Inr (VERSION, c0)"
    "cur_rest c0 = mid @ ?ts @ media_wire (payload_media ?p) @ ?d @ payload_bytes ?p @ []"
    by (rule cur_take_u8_app [of "cursor_new (broadcast_encode m)"])
      (auto simp: broadcast_encode_parts mid)
  obtain c1 where 1: "cur_take broadcast_errors ''message_id'' 16 c0 = Inr (mid, c1)"
    "cur_rest c1 = ?ts @ media_wire (payload_media ?p) @ ?d @ payload_bytes ?p @ []"
    by (rule cur_take_app [OF 0(2) mid(2)])
  obtain c2 where 2: "cur_take broadcast_errors ''sent_at_ms'' 8 c1 = Inr (?ts, c2)"
    "cur_rest c2 = media_wire (payload_media ?p) @ ?d @ payload_bytes ?p @ []"
    by (rule cur_take_app [OF 1(2) length_u64_be])
  obtain c3 where 3: "read_media broadcast_errors c2 = Inr (payload_media ?p, c3)"
    "cur_rest c3 = ?d @ payload_bytes ?p @ []"
    by (rule read_media_complete [OF media 2(2)])
  obtain c4 where 4: "cur_take broadcast_errors ''payload_len'' 4 c3 = Inr (?d, c4)"
    "cur_rest c4 = payload_bytes ?p @ []"
    by (rule cur_take_app [OF 3(2) length_u32_len_be])
  obtain c5 where 5: "cur_take broadcast_errors ''payload'' (length (payload_bytes ?p)) c4
      = Inr (payload_bytes ?p, c5)" "cur_rest c5 = []"
    by (rule cur_take_app [OF 4(2) refl])
  have "be_val ?d = length (payload_bytes ?p)"
    using len by (simp add: be_val_u32_len_be MAX_PAYLOAD_BYTES_def)
  moreover have "read_payload broadcast_errors limit (payload_media ?p) (length (payload_bytes ?p)) c4
      = Inr (?p, c5)"
    using 5 len by (simp add: read_payload_Inr)
  ultimately show ?thesis
    using 0 1 2 3 4 5 mid by (simp add: broadcast_decode_def cur_remaining_rest)
qed

lemma broadcast_decode_sound:
  assumes "broadcast_decode w limit = Inr m"
  shows "broadcast_encode m = w \<and> broadcast_ok limit m"
proof -
  from assms obtain mid ts media d c0 c1 c2 c3 c4 c5 where
    0: "w = VERSION # cur_rest c0"
    and 1: "length mid = 16" "cur_rest c0 = mid @ cur_rest c1"
    and 2: "length ts = 8" "cur_rest c1 = ts @ cur_rest c2"
    and 3: "read_media broadcast_errors c2 = Inr (media, c3)"
    and 4: "length d = 4" "cur_rest c3 = d @ cur_rest c4"
    and 5: "read_payload broadcast_errors limit media (be_val d) c4 = Inr (bm_payload m, c5)"
    and 6: "cur_rest c5 = []" "bm_message_id m = MessageId mid" "bm_sent_at_ms m = u64_from_be ts"
    by (auto simp: broadcast_decode_def and_then_eq_Inr Let_def cur_remaining_rest cur_take_Inr
        dest!: cur_take_u8_Inr split: if_splits)
  from 5 have p: "payload_media (bm_payload m) = media" "be_val d \<le> min limit MAX_PAYLOAD_BYTES"
    "length (payload_bytes (bm_payload m)) = be_val d" "cur_rest c4 = payload_bytes (bm_payload m)"
    by (auto simp: read_payload_Inr cur_take_Inr 6)
  show ?thesis
    using 0 1 2 4 6 p read_media_sound [OF 3]
    by (simp add: broadcast_encode_parts broadcast_ok_def payload_ok_def message_id_ok_def
        MESSAGE_ID_LEN_def u64_be_u64_from_be u32_len_be_be_val)
qed

interpretation broadcast: strict_codec broadcast_encode "\<lambda>w. broadcast_decode w limit" "broadcast_ok limit"
  for limit
  by unfold_locales (use broadcast_decode_encode broadcast_decode_sound in blast)+

section \<open>Properties\<close>

text \<open>The broadcast envelope is a strict codec at every payload limit, it fits the transmit
  ceiling (overhead plus payload ceiling), and a frame whose first byte is not the version is
  refused as such whatever follows.\<close>

theorem broadcast_frame_strict:
  "(broadcast_decode w limit = Ok m \<longleftrightarrow> broadcast_ok limit m \<and> broadcast_encode m = w)
   \<and> (broadcast_decode w limit = Ok m \<longrightarrow> length w \<le> MAX_FRAME_OVERHEAD + MAX_PAYLOAD_BYTES)
   \<and> (v \<noteq> VERSION \<longrightarrow> broadcast_decode (v # w) limit = Err (BUnsupportedVersion v))"
proof (intro conjI impI)
  show "(broadcast_decode w limit = Ok m) = (broadcast_ok limit m \<and> broadcast_encode m = w)"
    by (rule broadcast.accepted_iff)
next
  assume "broadcast_decode w limit = Ok m"
  then have "broadcast_ok limit m" "w = broadcast_encode m"
    by (simp_all add: broadcast.accepted_iff)
  then show "length w \<le> MAX_FRAME_OVERHEAD + MAX_PAYLOAD_BYTES"
    by (auto simp: broadcast_encode_parts MAX_FRAME_OVERHEAD_def broadcast_ok_def message_id_ok_def
        MESSAGE_ID_LEN_def payload_ok_def media_wire_def put_u8_prefixed_def media_ok_def
        split: option.splits)
next
  assume v: "v \<noteq> VERSION"
  obtain c where "cur_take_u8 broadcast_errors ''version'' (cursor_new (v # w)) = Inr (v, c)"
    by (rule cur_take_u8_app [of "cursor_new (v # w)" v w]) auto
  with v show "broadcast_decode (v # w) limit = Err (BUnsupportedVersion v)"
    by (simp add: broadcast_decode_def)
qed

theorem broadcast_frame_strict_witness:
  "(let m = \<lparr>bm_message_id = MessageId (replicate 16 7), bm_sent_at_ms = 5,
             bm_payload = \<lparr>payload_media = None, payload_bytes = [1, 2]\<rparr>\<rparr>;
        w = broadcast_encode m
    in broadcast_decode w 10 = Ok m \<and> length w \<le> MAX_FRAME_OVERHEAD + MAX_PAYLOAD_BYTES
       \<and> broadcast_decode (2 # w) 10 = Err (BUnsupportedVersion 2))"
proof -
  let ?m = "\<lparr>bm_message_id = MessageId (replicate 16 7), bm_sent_at_ms = 5,
             bm_payload = \<lparr>payload_media = None, payload_bytes = [1, 2]\<rparr>\<rparr>"
  have "broadcast_ok 10 ?m"
    by (simp add: broadcast_ok_def message_id_ok_def MESSAGE_ID_LEN_def payload_ok_def
        MAX_PAYLOAD_BYTES_def)
  moreover have "(2 :: byte) \<noteq> VERSION" by (simp add: VERSION_def)
  ultimately show ?thesis
    using broadcast_frame_strict [of "broadcast_encode ?m" 10 ?m 2] by (simp add: Let_def)
qed

end
