(* ===== verification/Broadcast_Inbound.thy ===== *)
theory Broadcast_Inbound
  imports Direct_Inbound Broadcast_Frame
begin

text \<open>
  Inbound broadcast admission, \<open>crates/transport/runtime/src/broadcast_inbound.rs\<close>: the verdict
  the mesh is told, and after it the gates, the duplicate cache and the fan-out to the sessions
  that joined.  A local publish enters at the duplicate cache, with its own session left out.
\<close>

section \<open>Definitions\<close>

datatype protocol_verdict = PvAccept broadcast_message | PvIgnore | PvReject

datatype broadcast_admission =
    BaDelivered "session list" "(session \<times> session_drop) list"
  | BaNobodyJoined
  | BaRefused refusal
  | BaDuplicate
  | BaConflict
  | BaUnfingerprintable

definition classify_broadcast ::
  "bytes \<Rightarrow> nat \<Rightarrow> transport_identity \<Rightarrow> peer_trust_policy \<Rightarrow> protocol_verdict" where
  "classify_broadcast raw limit source trust =
    (case broadcast_decode raw limit of
       Inl _ \<Rightarrow> PvReject
     | Inr frame \<Rightarrow> (case decide trust source of Denied _ \<Rightarrow> PvIgnore | Allowed \<Rightarrow> PvAccept frame))"

record broadcast_context =
  bx_prefix :: prefix_context
  bx_dedup :: dedup_cache
  bx_subs :: subscription_registry
  bx_queues :: session_queues

record local_context =
  lx_dedup :: dedup_cache
  lx_subs :: subscription_registry
  lx_queues :: session_queues

definition broadcast_fingerprint ::
  "(bytes \<Rightarrow> bytes) \<Rightarrow> broadcast_message \<Rightarrow> fingerprint_error + content_fingerprint" where
  "broadcast_fingerprint sha256 frame =
    direct_content_fingerprint_v1 sha256 (map_option media_str (payload_media (bm_payload frame)))
      (payload_bytes (bm_payload frame))"

definition broadcast_event_of ::
  "broadcast_message \<Rightarrow> channel_id \<Rightarrow> transport_identity \<Rightarrow> nat \<Rightarrow> broadcast_event" where
  "broadcast_event_of frame channel source wall_ms =
    \<lparr>bev_source_peer = source, bev_channel = channel, bev_message_id = bm_message_id frame,
     bev_payload = bm_payload frame, bev_received_at = wall_ms\<rparr>"

text \<open>The loop over the subscribers: who has it, who lost a copy, the queues.\<close>

fun fan_out ::
  "broadcast_event \<Rightarrow> session option \<Rightarrow> session list \<Rightarrow> session_queues \<Rightarrow>
     session list \<times> (session \<times> session_drop) list \<times> session_queues" where
  "fan_out event exclude [] queues = ([], [], queues)"
| "fan_out event exclude (session # rest) queues =
    (if Some session = exclude then fan_out event exclude rest queues
     else
       let (r, queues) = session_push queues session event;
           (sessions, dropped, queues) = fan_out event exclude rest queues
       in (case r of
             Inr Queued \<Rightarrow> (session # sessions, dropped, queues)
           | Inr (DroppedOldest bound) \<Rightarrow> (session # sessions, (session, SdFull bound) # dropped, queues)
           | Inl lost \<Rightarrow> (sessions, (session, lost) # dropped, queues)))"

definition admit_local_broadcast ::
  "(bytes \<Rightarrow> bytes) \<Rightarrow> broadcast_message \<Rightarrow> channel_id \<Rightarrow> transport_identity \<Rightarrow> clocks \<Rightarrow> session option \<Rightarrow>
     local_context \<Rightarrow> broadcast_admission \<times> local_context" where
  "admit_local_broadcast sha256 frame channel source clocks exclude ctx =
    (case broadcast_fingerprint sha256 frame of
       Inl _ \<Rightarrow> (BaUnfingerprintable, ctx)
     | Inr fingerprint \<Rightarrow>
         let key = KBroadcast source channel (bm_message_id frame);
             now = ck_monotonic_ms clocks;
             (admitted, dedup) = dedup_admit (lx_dedup ctx) key fingerprint now;
             ctx = ctx\<lparr>lx_dedup := dedup\<rparr>
         in (case admitted of
               DuplicateAccepted _ \<Rightarrow> (BaDuplicate, ctx)
             | AdmConflict \<Rightarrow> (BaConflict, ctx)
             | Fresh \<Rightarrow>
                 let recorded = ctx\<lparr>lx_dedup := record_accepted (lx_dedup ctx) key RouteBroadcast fingerprint now\<rparr>;
                     to = subscribers (lx_subs ctx) channel
                 in if to = [] then (BaNobodyJoined, recorded)
                    else
                      let (sessions, dropped, queues) =
                            fan_out (broadcast_event_of frame channel source (ck_wall_ms clocks)) exclude to (lx_queues ctx)
                      in (BaDelivered sessions dropped, recorded\<lparr>lx_queues := queues\<rparr>)))"

definition admit_broadcast ::
  "(bytes \<Rightarrow> bytes) \<Rightarrow> broadcast_message \<Rightarrow> channel_id \<Rightarrow> transport_identity \<Rightarrow> clocks \<Rightarrow>
     broadcast_context \<Rightarrow> broadcast_admission \<times> broadcast_context" where
  "admit_broadcast sha256 frame channel source clocks ctx =
    (let (gated, prefix) = admit_prefix source (ck_monotonic_ms clocks) (bx_prefix ctx);
         ctx = ctx\<lparr>bx_prefix := prefix\<rparr>
     in (case gated of
           Inl refusal \<Rightarrow> (BaRefused refusal, ctx)
         | Inr _ \<Rightarrow>
             let (admission, lx) = admit_local_broadcast sha256 frame channel source clocks None
                   \<lparr>lx_dedup = bx_dedup ctx, lx_subs = bx_subs ctx, lx_queues = bx_queues ctx\<rparr>
             in (admission, ctx\<lparr>bx_dedup := lx_dedup lx, bx_queues := lx_queues lx\<rparr>)))"

section \<open>Fan-out\<close>

lemma session_push_frame:
  "bm_has (snd (session_push qs s e)) k \<longleftrightarrow> bm_has qs k"
  "k \<noteq> s \<Longrightarrow> bm_get (snd (session_push qs s e)) k = bm_get qs k"
  "is_ok (fst (session_push qs s e)) \<longleftrightarrow> bm_has qs s"
  by (auto simp: session_push_def bm_has_def Let_def split: option.split)

lemma fan_out_step:
  assumes "Some s \<noteq> ex"
  shows "fst (fan_out e ex (s # ss) qs) =
      (if bm_has qs s then s # fst (fan_out e ex ss (snd (session_push qs s e)))
       else fst (fan_out e ex ss (snd (session_push qs s e))))"
    and "snd (snd (fan_out e ex (s # ss) qs)) = snd (snd (fan_out e ex ss (snd (session_push qs s e))))"
    and "fst (snd (fan_out e ex (s # ss) qs)) =
      (case fst (session_push qs s e) of
         Inr Queued \<Rightarrow> [] | Inr (DroppedOldest b) \<Rightarrow> [(s, SdFull b)] | Inl d \<Rightarrow> [(s, d)])
      @ fst (snd (fan_out e ex ss (snd (session_push qs s e))))"
  using assms session_push_frame(3) [of qs s e]
  by (auto simp: Let_def split: prod.split sum.split pushed.split)

lemma fan_out_skip: "Some s = ex \<Longrightarrow> fan_out e ex (s # ss) qs = fan_out e ex ss qs"
  by simp

declare fan_out.simps(2) [simp del]

text \<open>
  Every subscriber but the one left out whose queue is open gets the event, at the end of its
  queue; a full queue loses its oldest event for it; no other queue changes.
\<close>

definition reached :: "session option \<Rightarrow> session_queues \<Rightarrow> session \<Rightarrow> bool" where
  "reached ex qs s \<longleftrightarrow> ex \<noteq> Some s \<and> bm_has qs s"

lemma fan_out_sessions: "fst (fan_out e ex to qs) = filter (reached ex qs) to"
proof (induction to arbitrary: qs)
  case (Cons s ss)
  then show ?case
    by (cases "Some s = ex") (auto simp: fan_out_step fan_out_skip session_push_frame reached_def)
qed simp

lemma fan_out_has: "bm_has (snd (snd (fan_out e ex to qs))) k \<longleftrightarrow> bm_has qs k"
proof (induction to arbitrary: qs)
  case (Cons s ss)
  then show ?case by (cases "Some s = ex") (simp_all add: fan_out_step fan_out_skip session_push_frame)
qed simp

lemma fan_out_other:
  "k \<notin> set to \<or> ex = Some k \<Longrightarrow> bm_get (snd (snd (fan_out e ex to qs))) k = bm_get qs k"
proof (induction to arbitrary: qs)
  case (Cons s ss)
  then show ?case
    using session_push_frame(2) [of k s qs e]
    by (cases "Some s = ex"; cases "k = s") (auto simp: fan_out_step fan_out_skip)
qed simp

lemma fan_out_waiting:
  assumes "distinct to"
  shows "waiting (snd (snd (fan_out e ex to qs))) k =
    (if k \<in> set to \<and> reached ex qs k then drop (session_lost qs (k, e)) (waiting qs k) @ [e] else waiting qs k)"
  using assms
proof (induction to arbitrary: qs)
  case (Cons s ss)
  let ?qs = "snd (session_push qs s e)"
  have q: "snd (snd (fan_out e ex (s # ss) qs)) =
      (if Some s = ex then snd (snd (fan_out e ex ss qs)) else snd (snd (fan_out e ex ss ?qs)))"
    by (cases "Some s = ex") (simp_all add: fan_out_step fan_out_skip)
  show ?case
  proof (cases "k = s")
    case True
    with Cons.prems have "s \<notin> set ss" by simp
    then have w: "waiting (snd (snd (fan_out e ex ss q))) s = waiting q s" for q
      by (simp add: waiting_def fan_out_other)
    show ?thesis
      unfolding q True using w [of qs] w [of ?qs] by (auto simp: reached_def session_push_waiting session_push_frame)
  next
    case False
    have "reached ex ?qs k = reached ex qs k" by (simp add: reached_def session_push_frame)
    moreover have "waiting ?qs k = waiting qs k" "session_lost ?qs (k, e) = session_lost qs (k, e)"
      using False by (simp_all add: waiting_def session_lost_def session_push_frame)
    ultimately show ?thesis
      using False Cons.IH [of qs] Cons.IH [of ?qs] Cons.prems unfolding q by simp
  qed
qed simp

text \<open>Every subscriber that lost a copy is named, with the reason, and nobody else is.\<close>

definition loses :: "session option \<Rightarrow> session_queues \<Rightarrow> session \<Rightarrow> session_drop option" where
  "loses ex qs s =
    (if ex = Some s then None
     else case bm_get qs s of
            None \<Rightarrow> Some SdNotOpen
          | Some q \<Rightarrow> if length (q_events q) \<ge> q_bound q then Some (SdFull (q_bound q)) else None)"

lemma fan_out_dropped:
  assumes "distinct to"
  shows "(k, d) \<in> set (fst (snd (fan_out e ex to qs))) \<longleftrightarrow> k \<in> set to \<and> loses ex qs k = Some d"
  using assms
proof (induction to arbitrary: qs)
  case (Cons s ss)
  let ?qs = "snd (session_push qs s e)"
  have same: "k \<in> set ss \<Longrightarrow> loses ex ?qs k = loses ex qs k"
    using Cons.prems session_push_frame(2) [of k s qs e] by (cases "k = s") (auto simp: loses_def)
  show ?case
  proof (cases "Some s = ex")
    case True
    then show ?thesis using Cons by (auto simp: fan_out_skip loses_def)
  next
    case False
    have "(k, d) \<in> set (case fst (session_push qs s e) of
        Inr Queued \<Rightarrow> [] | Inr (DroppedOldest b) \<Rightarrow> [(s, SdFull b)] | Inl d \<Rightarrow> [(s, d)])
      \<longleftrightarrow> k = s \<and> loses ex qs s = Some d"
      using False by (auto simp: loses_def session_push_def Let_def split: option.split)
    then show ?thesis
      using Cons.IH [of ?qs] Cons.prems same unfolding fan_out_step(3) [OF False] by auto
  qed
qed simp

section \<open>Admission\<close>

lemma registry_subscribers_distinct: "registry_ok r \<Longrightarrow> distinct (subscribers r c)"
  by (auto simp: registry_ok_def subscribers_def bs_ok_distinct split: option.split)

abbreviation broadcast_key :: "transport_identity \<Rightarrow> channel_id \<Rightarrow> broadcast_message \<Rightarrow> dedup_key" where
  "broadcast_key source channel frame \<equiv> KBroadcast source channel (bm_message_id frame)"

text \<open>An admission is fresh when its message went past the cache: queued for whoever joined, or for nobody.\<close>

fun fresh :: "broadcast_admission \<Rightarrow> bool" where
  "fresh (BaDelivered _ _) = True"
| "fresh BaNobodyJoined = True"
| "fresh _ = False"

lemma admit_local_subs: "lx_subs (snd (admit_local_broadcast sha f c p k ex ctx)) = lx_subs ctx"
  by (simp add: admit_local_broadcast_def Let_def split: sum.split prod.split admission.split)

lemma admit_local_queues:
  "lx_queues (snd (admit_local_broadcast sha f c p k ex ctx)) =
    (case fst (admit_local_broadcast sha f c p k ex ctx) of
       BaDelivered _ _ \<Rightarrow>
         snd (snd (fan_out (broadcast_event_of f c p (ck_wall_ms k)) ex (subscribers (lx_subs ctx) c) (lx_queues ctx)))
     | _ \<Rightarrow> lx_queues ctx)"
  by (simp add: admit_local_broadcast_def Let_def split: sum.split prod.split admission.split)

lemma admit_local_result:
  "fst (admit_local_broadcast sha f c p k ex ctx) = BaDelivered sessions dropped \<Longrightarrow>
     sessions = fst (fan_out (broadcast_event_of f c p (ck_wall_ms k)) ex (subscribers (lx_subs ctx) c) (lx_queues ctx))
   \<and> dropped = fst (snd (fan_out (broadcast_event_of f c p (ck_wall_ms k)) ex (subscribers (lx_subs ctx) c) (lx_queues ctx)))"
  by (auto simp: admit_local_broadcast_def Let_def split: sum.splits prod.splits admission.splits if_splits)

lemma admit_local_dedup:
  obtains ops where "lx_dedup (snd (admit_local_broadcast sha f c p k ex ctx)) = foldl dedup_step (lx_dedup ctx) ops"
    "length ops \<le> 2" "list_all (\<lambda>op. op_time op = ck_monotonic_ms k) ops"
proof -
  let ?key = "broadcast_key p c f" and ?now = "ck_monotonic_ms k"
  show ?thesis
  proof (cases "broadcast_fingerprint sha f")
    case (Inl e)
    then show ?thesis using that [of "[]"] by (simp add: admit_local_broadcast_def)
  next
    case (Inr fp)
    let ?adm = "dedup_admit (lx_dedup ctx) ?key fp ?now"
    have "lx_dedup (snd (admit_local_broadcast sha f c p k ex ctx)) =
        (if fst ?adm = Fresh then record_accepted (snd ?adm) ?key RouteBroadcast fp ?now else snd ?adm)"
      by (cases "fst ?adm") (simp_all add: admit_local_broadcast_def Inr Let_def case_prod_beta)
    then show ?thesis
      using that [of "[OpAdmit ?key fp ?now]"] that [of "[OpAdmit ?key fp ?now, OpRecord ?key RouteBroadcast fp ?now]"]
      by (cases "fst ?adm = Fresh") simp_all
  qed
qed

lemma admit_local_fresh:
  assumes "fresh (fst (admit_local_broadcast sha f c p k ex ctx))" "dedup_ok (lx_dedup ctx)"
  obtains fp where "broadcast_fingerprint sha f = Inr fp"
    "holds 0 (lx_dedup (snd (admit_local_broadcast sha f c p k ex ctx))) (broadcast_key p c f)
      \<lparr>ar_route = RouteBroadcast, ar_fingerprint = fp, ar_stored_at_ms = ck_monotonic_ms k\<rparr>"
proof -
  let ?now = "ck_monotonic_ms k" and ?key = "broadcast_key p c f"
  obtain fp where fp: "broadcast_fingerprint sha f = Inr fp"
    using assms(1) by (auto simp: admit_local_broadcast_def split: sum.splits)
  let ?c = "snd (dedup_admit (lx_dedup ctx) ?key fp ?now)"
  have adm: "fst (dedup_admit (lx_dedup ctx) ?key fp ?now) = Fresh"
    and c': "lx_dedup (snd (admit_local_broadcast sha f c p k ex ctx)) = record_accepted ?c ?key RouteBroadcast fp ?now"
    using assms(1)
    by (auto simp: admit_local_broadcast_def fp Let_def split: prod.splits admission.splits if_splits)
  from adm have "bm_get (dc_entries (dedup_expire (lx_dedup ctx) ?now)) ?key = None"
    and c: "?c = dedup_expire (lx_dedup ctx) ?now"
    by (auto simp: dedup_admit_def Let_def split: option.splits if_splits)
  then have "fst (dedup_admit ?c ?key fp ?now) = Fresh"
    using assms(2) by (simp add: dedup_admit_def dedup_expire_get dedup_expire_ok)
  then show ?thesis
    using that [OF fp] record_accepted_holds c' c assms(2) by (metis dedup_expire_ok)
qed

lemma admit_local_repeated:
  assumes "holds n (lx_dedup ctx) (broadcast_key p c f) r" "ck_monotonic_ms k - ar_stored_at_ms r < dc_ttl_ms (lx_dedup ctx)"
  shows "fst (admit_local_broadcast sha f c p k ex ctx) =
    (case broadcast_fingerprint sha f of
       Inl _ \<Rightarrow> BaUnfingerprintable
     | Inr fp \<Rightarrow> if fp = ar_fingerprint r then BaDuplicate else BaConflict)"
proof (cases "broadcast_fingerprint sha f")
  case (Inr fp)
  then show ?thesis
    using dedup_admit_holds [OF assms, of fp]
    by (simp add: admit_local_broadcast_def Let_def case_prod_beta)
qed (simp add: admit_local_broadcast_def)

text \<open>
  What the fan-out of one admitted broadcast does, whoever publishes: exactly the sessions that
  joined the channel and have a queue get the event, at the end of it and at the cost of the
  oldest event when the queue is full; the publisher's own session does not; every copy lost is
  reported with its reason; and any other outcome leaves every queue as it was.
\<close>

lemma broadcast_fan_out:
  assumes "registry_ok (lx_subs ctx)" and "admit_local_broadcast sha f c p k ex ctx = (a, ctx')"
  shows "case a of
      BaDelivered sessions dropped \<Rightarrow>
        (let qs = lx_queues ctx; event = broadcast_event_of f c p (ck_wall_ms k) in
         set sessions = {s. may_publish (lx_subs ctx) c s \<and> ex \<noteq> Some s \<and> bm_has qs s}
         \<and> (\<forall>s. waiting (lx_queues ctx') s =
              (if s \<in> set sessions then drop (session_lost qs (s, event)) (waiting qs s) @ [event] else waiting qs s))
         \<and> set dropped = {(s, d). may_publish (lx_subs ctx) c s \<and> loses ex qs s = Some d})
    | _ \<Rightarrow> lx_queues ctx' = lx_queues ctx"
proof -
  let ?to = "subscribers (lx_subs ctx) c" and ?e = "broadcast_event_of f c p (ck_wall_ms k)"
  have d: "distinct ?to" by (rule registry_subscribers_distinct [OF assms(1)])
  have q: "lx_queues ctx' = (case a of BaDelivered _ _ \<Rightarrow> snd (snd (fan_out ?e ex ?to (lx_queues ctx))) | _ \<Rightarrow> lx_queues ctx)"
    using admit_local_queues [of sha f c p k ex ctx] assms(2) by simp
  show ?thesis
  proof (cases a)
    case (BaDelivered sessions dropped)
    then have s: "sessions = filter (reached ex (lx_queues ctx)) ?to"
      and l: "dropped = fst (snd (fan_out ?e ex ?to (lx_queues ctx)))"
      using admit_local_result [of sha f c p k ex ctx sessions dropped] assms(2) by (simp_all add: fan_out_sessions)
    have "set sessions = {s. may_publish (lx_subs ctx) c s \<and> ex \<noteq> Some s \<and> bm_has (lx_queues ctx) s}"
      by (auto simp: s set_subscribers reached_def)
    moreover have "waiting (lx_queues ctx') s = (if s \<in> set sessions
        then drop (session_lost (lx_queues ctx) (s, ?e)) (waiting (lx_queues ctx) s) @ [?e]
        else waiting (lx_queues ctx) s)" for s
      using fan_out_waiting [OF d, of ?e ex "lx_queues ctx" s] BaDelivered by (simp add: q s)
    moreover have "set dropped = {(s, d). may_publish (lx_subs ctx) c s \<and> loses ex (lx_queues ctx) s = Some d}"
      using fan_out_dropped [OF d, of _ _ ?e ex "lx_queues ctx"] by (auto simp: l set_subscribers)
    ultimately show ?thesis by (simp add: BaDelivered Let_def)
  qed (simp_all add: q)
qed

section \<open>Admission from the network\<close>

lemma admit_broadcast_parts:
  "admit_broadcast sha f c p k ctx =
    (let pre = admit_prefix p (ck_monotonic_ms k) (bx_prefix ctx);
         loc = admit_local_broadcast sha f c p k None
           \<lparr>lx_dedup = bx_dedup ctx, lx_subs = bx_subs ctx, lx_queues = bx_queues ctx\<rparr>
     in case fst pre of
          Inl refusal \<Rightarrow> (BaRefused refusal, ctx\<lparr>bx_prefix := snd pre\<rparr>)
        | Inr _ \<Rightarrow> (fst loc, ctx\<lparr>bx_prefix := snd pre, bx_dedup := lx_dedup (snd loc), bx_queues := lx_queues (snd loc)\<rparr>))"
  by (simp add: admit_broadcast_def Let_def case_prod_beta split: sum.split)

lemma fresh_local:
  "fresh (fst (admit_local_broadcast sha f c p k ex ctx)) \<longleftrightarrow>
    (\<exists>fp. broadcast_fingerprint sha f = Inr fp
       \<and> fst (dedup_admit (lx_dedup ctx) (broadcast_key p c f) fp (ck_monotonic_ms k)) = Fresh)"
  by (auto simp: admit_local_broadcast_def Let_def case_prod_beta split: sum.split admission.split)

text \<open>C14. A broadcast from the network is let past the cache exactly when its publisher is trusted, the node
  is not draining, the rate limit grants it, it can be fingerprinted and the cache does not know it.
  Then it stands at the end of the queue of every session that joined its channel and has a
  queue, at the cost of the oldest event of a full queue, each loss reported with its reason; in
  every other case, and for every other session, no queue changes.
\<close>

theorem broadcast_reaches_joined:
  assumes "registry_ok (bx_subs ctx)" and "admit_broadcast sha f c p k ctx = (a, ctx')"
  shows "(let pre = bx_prefix ctx; qs = bx_queues ctx; event = broadcast_event_of f c p (ck_wall_ms k);
      admitted = (decide (pc_trust pre) p = Allowed \<and> \<not> pc_draining pre
        \<and> is_ok (fst (limiter_admit (pc_ingress pre) p (ck_monotonic_ms k)))
        \<and> (\<exists>fp. broadcast_fingerprint sha f = Inr fp
            \<and> fst (dedup_admit (bx_dedup ctx) (broadcast_key p c f) fp (ck_monotonic_ms k)) = Fresh))
    in (fresh a \<longleftrightarrow> admitted)
     \<and> (\<forall>s. waiting (bx_queues ctx') s =
          (if admitted \<and> may_publish (bx_subs ctx) c s \<and> bm_has qs s
           then drop (session_lost qs (s, event)) (waiting qs s) @ [event] else waiting qs s))
     \<and> (\<forall>sessions dropped. a = BaDelivered sessions dropped \<longrightarrow>
          set sessions = {s. may_publish (bx_subs ctx) c s \<and> bm_has qs s}
        \<and> set dropped = {(s, d). may_publish (bx_subs ctx) c s \<and> loses None qs s = Some d}))"
proof -
  let ?pre = "admit_prefix p (ck_monotonic_ms k) (bx_prefix ctx)"
  let ?ctx = "\<lparr>lx_dedup = bx_dedup ctx, lx_subs = bx_subs ctx, lx_queues = bx_queues ctx\<rparr>"
  let ?l = "admit_local_broadcast sha f c p k None ?ctx"
  let ?adm = "\<exists>fp. broadcast_fingerprint sha f = Inr fp
    \<and> fst (dedup_admit (bx_dedup ctx) (broadcast_key p c f) fp (ck_monotonic_ms k)) = Fresh"
  have gate: "is_ok (fst ?pre) \<longleftrightarrow> decide (pc_trust (bx_prefix ctx)) p = Allowed \<and> \<not> pc_draining (bx_prefix ctx)
      \<and> is_ok (fst (limiter_admit (pc_ingress (bx_prefix ctx)) p (ck_monotonic_ms k)))"
    by (simp add: admit_prefix_cases)
  show ?thesis
  proof (cases "is_ok (fst ?pre)")
    case False
    then have "\<not> fresh a" "bx_queues ctx' = bx_queues ctx" "a \<noteq> BaDelivered x y" for x y
      using assms(2) by (auto simp: admit_broadcast_parts Let_def split: sum.splits)
    with False gate show ?thesis by (auto simp: Let_def)
  next
    case True
    then have a: "a = fst ?l" "bx_queues ctx' = lx_queues (snd ?l)"
      using assms(2) by (auto simp: admit_broadcast_parts Let_def is_ok_def split: sum.splits)
    have fr: "fresh a \<longleftrightarrow> ?adm" unfolding a(1) fresh_local by simp
    have ok: "registry_ok (lx_subs ?ctx)" using assms(1) by simp
    note fan = broadcast_fan_out [OF ok surjective_pairing, where sha = sha and f = f and c = c and p = p and k = k and ex = None]
    show ?thesis
    proof (cases a)
      case (BaDelivered sessions dropped)
      then show ?thesis using True gate fr fan a by (auto simp: Let_def)
    next
      case BaNobodyJoined
      then have "subscribers (bx_subs ctx) c = []"
        unfolding a(1)
        by (auto simp: admit_local_broadcast_def Let_def case_prod_beta split: sum.splits admission.splits if_splits)
      then have "\<not> may_publish (bx_subs ctx) c s" for s using set_subscribers [of "bx_subs ctx" c] by auto
      then show ?thesis using True gate fr fan a BaNobodyJoined by (auto simp: Let_def)
    qed (use True gate fr fan a in \<open>auto simp: Let_def\<close>)
  qed
qed

definition sample_envelope :: broadcast_message where
  "sample_envelope = \<lparr>bm_message_id = MessageId [7], bm_sent_at_ms = 5, bm_payload = \<lparr>payload_media = None, payload_bytes = [1, 2]\<rparr>\<rparr>"

definition sample_broadcast_context :: broadcast_context where
  "sample_broadcast_context =
    \<lparr>bx_prefix = \<lparr>pc_trust = \<lparr>tp_allowed_peers = [sample_peer], tp_local_peer = None\<rparr>,
       pc_ingress = limiter_new 60 2 60 2 0, pc_draining = False\<rparr>,
     bx_dedup = dedup_new 4 1000,
     bx_subs = foldl registry_step registry_default [RJoin (ChannelId [2]) [1], RJoin (ChannelId [2]) [2], RJoin (ChannelId [3]) [3]],
     bx_queues = foldl (\<lambda>qs s. queues_open qs s 1) [] [[1], [2], [3]]\<rparr>"


theorem broadcast_reaches_joined_witness:
  "(let r = admit_broadcast (\<lambda>_. []) sample_envelope (ChannelId [2]) sample_peer
        \<lparr>ck_monotonic_ms = 10, ck_wall_ms = 20\<rparr> sample_broadcast_context
    in fresh (fst r) \<and> waiting (bx_queues (snd r)) [2] = [broadcast_event_of sample_envelope (ChannelId [2]) sample_peer 20]
     \<and> waiting (bx_queues (snd r)) [3] = [])"
proof -
  let ?ctx = sample_broadcast_context and ?c = "ChannelId [2]" and ?k = "\<lparr>ck_monotonic_ms = 10, ck_wall_ms = 20\<rparr>"
  let ?r = "admit_broadcast (\<lambda>_. []) sample_envelope ?c sample_peer ?k ?ctx"
  have ok: "registry_ok (bx_subs ?ctx)"
    by (simp only: sample_broadcast_context_def broadcast_context.simps registry.inv_run registry_default_ok)
  have "fresh (fst ?r)" "may_publish (bx_subs ?ctx) ?c [2]" "\<not> may_publish (bx_subs ?ctx) ?c [3]"
    "bm_has (bx_queues ?ctx) [2]" "waiting (bx_queues ?ctx) [2] = []" "waiting (bx_queues ?ctx) [3] = []"
    by code_simp+
  then show ?thesis
    using broadcast_reaches_joined [OF ok surjective_pairing, where sha = "\<lambda>_. []" and f = sample_envelope
        and c = ?c and p = sample_peer and k = ?k]
    unfolding Let_def by simp
qed

end
