(* ===== verification/Broadcast_Node.thy ===== *)
theory Broadcast_Node
  imports Broadcast_Inbound Direct_Node Connection_Manager
begin

text \<open>
  The broadcast node, \<open>crates/transport/libp2p/src/runtime/broadcast.rs\<close> and the broadcast arms of
  \<open>commands.rs\<close>: the state that ties topics to channels, the handling of one backend event, and
  the commands that configure, join, leave, publish and drain.  The backend itself is a
  parameter: its subscribe, unsubscribe and publish calls act on a state \<open>'m\<close> of its own.
\<close>

section \<open>The backend\<close>

datatype publish_error =
    PeNoPeersSubscribedToTopic
  | PeDuplicate
  | PeMessageTooLarge
  | PeAllQueuesFull
  | PeSigningError
  | PeTransformFailed

datatype message_acceptance = MaAccept | MaIgnore | MaReject

record 'm gossip_backend =
  gb_subscribe :: "'m \<Rightarrow> bytes \<Rightarrow> bool \<times> 'm"
  gb_unsubscribe :: "'m \<Rightarrow> bytes \<Rightarrow> 'm"
  gb_publish :: "'m \<Rightarrow> bytes \<Rightarrow> bytes \<Rightarrow> (publish_error + unit) \<times> 'm"

record gossip_message =
  gm_source :: "bytes option"
  gm_topic :: bytes
  gm_data :: bytes

datatype gossip_event =
    GeMessage bytes bytes gossip_message
  | GeSubscribed bytes bytes
  | GeUnsubscribed bytes bytes
  | GeNotSupported
  | GeSlowPeer

section \<open>State\<close>

record broadcast_state =
  bst_trust :: peer_trust_policy
  bst_ingress :: ingress_limiter
  bst_dedup :: dedup_cache
  bst_subs :: subscription_registry
  bst_queues :: session_queues
  bst_channels :: "(bytes, channel_id) bmap"
  bst_queue_bound :: nat

definition broadcast_state_new :: "trust_sources \<Rightarrow> broadcast_state" where
  "broadcast_state_new sources =
    \<lparr>bst_trust = tso_peers sources, bst_ingress = limiter_with_defaults 0, bst_dedup = dedup_default,
     bst_subs = registry_default, bst_queues = [], bst_channels = [],
     bst_queue_bound = DEFAULT_EVENT_QUEUE\<rparr>"

definition broadcast_adopt_trust :: "broadcast_state \<Rightarrow> trust_sources \<Rightarrow> broadcast_state" where
  "broadcast_adopt_trust st sources = st\<lparr>bst_trust := tso_peers sources\<rparr>"

definition channel_of :: "broadcast_state \<Rightarrow> bytes \<Rightarrow> channel_id option" where
  "channel_of st topic = bm_get (bst_channels st) topic"

abbreviation wire_of :: "(bytes \<Rightarrow> bytes) \<Rightarrow> channel_id \<Rightarrow> bytes" where
  "wire_of sha256 channel \<equiv> wire_string (topic_key_v1 sha256 channel)"

definition remember :: "(bytes \<Rightarrow> bytes) \<Rightarrow> broadcast_state \<Rightarrow> channel_id \<Rightarrow> bytes \<times> broadcast_state" where
  "remember sha256 st channel =
    (let wire = wire_string (topic_key_v1 sha256 channel)
     in (wire, st\<lparr>bst_channels := bm_insert wire channel (bst_channels st)\<rparr>))"

definition forget_channel :: "(bytes \<Rightarrow> bytes) \<Rightarrow> broadcast_state \<Rightarrow> channel_id \<Rightarrow> bytes \<times> broadcast_state" where
  "forget_channel sha256 st channel =
    (let wire = wire_string (topic_key_v1 sha256 channel)
     in (wire, st\<lparr>bst_channels := bm_remove wire (bst_channels st)\<rparr>))"

definition forget_if_unheld :: "(bytes \<Rightarrow> bytes) \<Rightarrow> broadcast_state \<Rightarrow> channel_id \<Rightarrow> broadcast_state" where
  "forget_if_unheld sha256 st channel =
    (if subscribers (bst_subs st) channel = [] then snd (forget_channel sha256 st channel) else st)"

record broadcast_channels =
  bch_desired :: "channel_id list"
  bch_queue_bound :: nat
  bch_max_subscriptions :: nat

section \<open>Inbound\<close>

record broadcast_tick =
  bt_now_ms :: nat
  bt_wall_ms :: nat
  bt_max_payload_bytes :: nat
  bt_draining :: bool
  bt_may_buffer_delivery :: bool
  bt_event_capacity :: nat

datatype broadcast_notice =
    BnPeerSubscribed transport_identity channel_id
  | BnPeerUnsubscribed transport_identity channel_id
  | BnDropped channel_id transport_identity nat
  | BnDelivered channel_id transport_identity session
  | BnUnreachable channel_id

definition may_buffer_delivery :: "nat \<Rightarrow> nat \<Rightarrow> bool" where
  "may_buffer_delivery buffered event_capacity \<longleftrightarrow> buffered < event_capacity"

definition to_transport_identity :: "(bytes \<Rightarrow> bytes option) \<Rightarrow> bytes \<Rightarrow> transport_identity option" where
  "to_transport_identity base58 peer = (case peer_parse base58 peer of Inl _ \<Rightarrow> None | Inr p \<Rightarrow> Some p)"

definition announce_subscription ::
  "(transport_identity \<Rightarrow> channel_id \<Rightarrow> broadcast_notice) \<Rightarrow> (bytes \<Rightarrow> bytes option) \<Rightarrow> broadcast_state \<Rightarrow> broadcast_tick \<Rightarrow>
     bytes \<Rightarrow> bytes \<Rightarrow> broadcast_notice list \<Rightarrow> broadcast_notice list" where
  "announce_subscription notice base58 st tick peer topic outbox =
    (case (channel_of st topic, to_transport_identity base58 peer) of
       (Some channel, Some p) \<Rightarrow>
         if bt_may_buffer_delivery tick then outbox @ [notice p channel] else outbox
     | _ \<Rightarrow> outbox)"

definition announce_dropped ::
  "channel_id \<Rightarrow> transport_identity \<Rightarrow> (session \<times> session_drop) list \<Rightarrow> nat \<Rightarrow> broadcast_notice list \<Rightarrow>
     broadcast_notice list" where
  "announce_dropped channel source dropped cap outbox =
    (if dropped \<noteq> [] \<and> may_buffer_delivery (length outbox) cap
     then outbox @ [BnDropped channel source (length dropped)] else outbox)"

fun announce_delivered ::
  "channel_id \<Rightarrow> transport_identity \<Rightarrow> session list \<Rightarrow> nat \<Rightarrow> broadcast_notice list \<Rightarrow> broadcast_notice list" where
  "announce_delivered channel source [] cap outbox = outbox"
| "announce_delivered channel source (session # rest) cap outbox =
    (if \<not> may_buffer_delivery (length outbox) cap then outbox
     else announce_delivered channel source rest cap (outbox @ [BnDelivered channel source session]))"

fun acceptance_of :: "protocol_verdict \<Rightarrow> message_acceptance" where
  "acceptance_of (PvAccept _) = MaAccept"
| "acceptance_of PvIgnore = MaIgnore"
| "acceptance_of PvReject = MaReject"

text \<open>The admission of an accepted frame with the state it borrows, and what is announced of it.\<close>

definition admit_into_state ::
  "(bytes \<Rightarrow> bytes) \<Rightarrow> broadcast_message \<Rightarrow> channel_id \<Rightarrow> transport_identity \<Rightarrow> broadcast_tick \<Rightarrow> broadcast_state \<Rightarrow>
     broadcast_admission \<times> broadcast_state" where
  "admit_into_state sha256 frame channel source tick st =
    (let (admission, ctx) = admit_broadcast sha256 frame channel source
           \<lparr>ck_monotonic_ms = bt_now_ms tick, ck_wall_ms = bt_wall_ms tick\<rparr>
           \<lparr>bx_prefix = \<lparr>pc_trust = bst_trust st, pc_ingress = bst_ingress st, pc_draining = bt_draining tick\<rparr>,
            bx_dedup = bst_dedup st, bx_subs = bst_subs st, bx_queues = bst_queues st\<rparr>
     in (admission, st\<lparr>bst_ingress := pc_ingress (bx_prefix ctx), bst_dedup := bx_dedup ctx,
           bst_queues := bx_queues ctx\<rparr>))"

fun announce_admission ::
  "channel_id \<Rightarrow> transport_identity \<Rightarrow> nat \<Rightarrow> broadcast_admission \<Rightarrow> broadcast_notice list \<Rightarrow> broadcast_notice list" where
  "announce_admission channel source cap (BaDelivered sessions dropped) outbox =
    announce_delivered channel source sessions cap (announce_dropped channel source dropped cap outbox)"
| "announce_admission channel source cap _ outbox = outbox"

text \<open>
  One backend event: what is reported to the mesh, if anything, and the state and the outbox
  after it.
\<close>

type_synonym validation_report = "bytes \<times> bytes \<times> message_acceptance"

fun handle_broadcast ::
  "(bytes \<Rightarrow> bytes) \<Rightarrow> (bytes \<Rightarrow> bytes option) \<Rightarrow> gossip_event \<Rightarrow> broadcast_tick \<Rightarrow>
     broadcast_state \<Rightarrow> broadcast_notice list \<Rightarrow>
     validation_report list \<times> broadcast_state \<times> broadcast_notice list" where
  "handle_broadcast sha256 base58 (GeSubscribed peer topic) tick st outbox =
    ([], st, announce_subscription BnPeerSubscribed base58 st tick peer topic outbox)"
| "handle_broadcast sha256 base58 (GeUnsubscribed peer topic) tick st outbox =
    ([], st, announce_subscription BnPeerUnsubscribed base58 st tick peer topic outbox)"
| "handle_broadcast sha256 base58 GeNotSupported tick st outbox = ([], st, outbox)"
| "handle_broadcast sha256 base58 GeSlowPeer tick st outbox = ([], st, outbox)"
| "handle_broadcast sha256 base58 (GeMessage propagation_source message_id message) tick st outbox =
    (case gm_source message of
       None \<Rightarrow> ([(message_id, propagation_source, MaReject)], st, outbox)
     | Some publisher \<Rightarrow>
         (case to_transport_identity base58 publisher of
            None \<Rightarrow> ([(message_id, propagation_source, MaReject)], st, outbox)
          | Some source \<Rightarrow>
              let verdict = classify_broadcast (gm_data message) (bt_max_payload_bytes tick) source (bst_trust st);
                  report = [(message_id, propagation_source, acceptance_of verdict)]
              in (case verdict of
                    PvAccept frame \<Rightarrow>
                      (case channel_of st (gm_topic message) of
                         None \<Rightarrow> (report, st, outbox)
                       | Some channel \<Rightarrow>
                           let (admission, st) = admit_into_state sha256 frame channel source tick st
                           in (report, st,
                               announce_admission channel source (bt_event_capacity tick) admission outbox))
                  | _ \<Rightarrow> (report, st, outbox))))"

fun publish_error_of :: "publish_error \<Rightarrow> transport_error option" where
  "publish_error_of PeNoPeersSubscribedToTopic = None"
| "publish_error_of PeDuplicate = None"
| "publish_error_of PeMessageTooLarge = Some TePayloadTooLarge"
| "publish_error_of PeAllQueuesFull = Some TeOverloaded"
| "publish_error_of PeSigningError = Some TeInternal"
| "publish_error_of PeTransformFailed = Some TeInternal"

section \<open>Commands\<close>

text \<open>Every requested channel is tried; the callback says whether it is now held.\<close>

fun apply_desired ::
  "channel_id list \<Rightarrow> (channel_id \<Rightarrow> 's \<Rightarrow> bool \<times> 's) \<Rightarrow> 's \<Rightarrow> channel_id bset \<times> channel_id list \<times> 's" where
  "apply_desired [] subscribe s = ([], [], s)"
| "apply_desired (channel # rest) subscribe s =
    (let (held, s) = subscribe channel s;
         (applied, refused, s) = apply_desired rest subscribe s
     in if held then (bs_insert channel applied, refused, s) else (applied, channel # refused, s))"

definition subscribe_desired ::
  "(bytes \<Rightarrow> bytes) \<Rightarrow> 'm gossip_backend \<Rightarrow> channel_id \<Rightarrow> broadcast_state \<times> 'm \<Rightarrow> bool \<times> broadcast_state \<times> 'm" where
  "subscribe_desired sha256 backend channel s =
    (let (topic, st) = remember sha256 (fst s) channel;
         (took, mesh) = gb_subscribe backend (snd s) topic
     in if \<not> took then (False, forget_if_unheld sha256 st channel, mesh) else (True, st, mesh))"

definition drop_unheld ::
  "(bytes \<Rightarrow> bytes) \<Rightarrow> 'm gossip_backend \<Rightarrow> channel_id \<Rightarrow> broadcast_state \<times> 'm \<Rightarrow> broadcast_state \<times> 'm" where
  "drop_unheld sha256 backend channel s =
    (if \<not> backend_should_subscribe (bst_subs (fst s)) channel
     then let (topic, st) = forget_channel sha256 (fst s) channel in (st, gb_unsubscribe backend (snd s) topic)
     else s)"

datatype configure_failure = CfDenied subscription_denial | CfMeshRefused "bytes list"

definition configure_broadcast ::
  "(bytes \<Rightarrow> bytes) \<Rightarrow> 'm gossip_backend \<Rightarrow> broadcast_channels \<Rightarrow> broadcast_state \<Rightarrow> 'm \<Rightarrow>
     (configure_failure + unit) \<times> broadcast_state \<times> 'm" where
  "configure_broadcast sha256 backend config st mesh =
    (let (result, subs) = configure (bst_subs st) (bs_from_list (bch_desired config)) (bch_max_subscriptions config);
         st = st\<lparr>bst_subs := subs\<rparr>
     in (case result of
           Inl denial \<Rightarrow> (Err (CfDenied denial), st, mesh)
         | Inr _ \<Rightarrow>
             let st = st\<lparr>bst_queue_bound := bch_queue_bound config,
                         bst_queues := session_set_bound (bst_queues st) (bch_queue_bound config)\<rparr>;
                 (applied, refused, st, mesh) =
                   apply_desired (bch_desired config) (subscribe_desired sha256 backend) (st, mesh);
                 st = (if refused \<noteq> [] then st\<lparr>bst_subs := snd (set_desired (bst_subs st) applied)\<rparr> else st);
                 held = map snd (bst_channels st);
                 (st, mesh) = foldl (\<lambda>s channel. drop_unheld sha256 backend channel s) (st, mesh) held
             in (if refused = [] then Ok ()
                 else Err (CfMeshRefused (bs_from_list (map channel_str refused))), st, mesh)))"

definition join_command ::
  "(bytes \<Rightarrow> bytes) \<Rightarrow> 'm gossip_backend \<Rightarrow> channel_id \<Rightarrow> session \<Rightarrow> broadcast_state \<Rightarrow> 'm \<Rightarrow>
     (transport_error + unit) \<times> broadcast_state \<times> 'm" where
  "join_command sha256 backend channel session st mesh =
    (let (result, subs) = join (bst_subs st) channel session;
         st = st\<lparr>bst_subs := subs\<rparr>
     in (case result of
           Inl _ \<Rightarrow> (Err TeOverloaded, st, mesh)
         | Inr _ \<Rightarrow>
             let (topic, st) = remember sha256 st channel;
                 (took, mesh) = gb_subscribe backend mesh topic
             in if \<not> took
                then
                  let st = st\<lparr>bst_subs := leave (bst_subs st) channel session\<rparr>;
                      st = (if \<not> backend_should_subscribe (bst_subs st) channel
                            then snd (forget_channel sha256 st channel) else st)
                  in (Err TeOverloaded, st, mesh)
                else
                  let st = (if \<not> queues_is_open (bst_queues st) session
                            then st\<lparr>bst_queues := queues_open (bst_queues st) session (bst_queue_bound st)\<rparr> else st)
                  in (Ok (), st, mesh)))"

definition leave_command ::
  "(bytes \<Rightarrow> bytes) \<Rightarrow> 'm gossip_backend \<Rightarrow> channel_id \<Rightarrow> session \<Rightarrow> broadcast_state \<Rightarrow> 'm \<Rightarrow> broadcast_state \<times> 'm" where
  "leave_command sha256 backend channel session st mesh =
    (let st = st\<lparr>bst_subs := leave (bst_subs st) channel session\<rparr>;
         st = (if \<not> holds_any (bst_subs st) session
               then st\<lparr>bst_queues := snd (queues_close (bst_queues st) session)\<rparr> else st)
     in if \<not> backend_should_subscribe (bst_subs st) channel
        then let (topic, st) = forget_channel sha256 st channel in (st, gb_unsubscribe backend mesh topic)
        else (st, mesh))"

record local_outcome =
  lo_sessions :: "session list"
  lo_source_peer :: transport_identity

definition deliver_locally ::
  "(bytes \<Rightarrow> bytes) \<Rightarrow> connection_manager \<Rightarrow> channel_id \<Rightarrow> session \<Rightarrow> broadcast_message \<Rightarrow> clocks \<Rightarrow> nat \<Rightarrow>
     broadcast_state \<Rightarrow> broadcast_notice list \<Rightarrow> local_outcome option \<times> broadcast_state \<times> broadcast_notice list" where
  "deliver_locally sha256 manager channel publisher_session frame clocks cap st outbox =
    (case cm_local_peer manager of
       None \<Rightarrow> (None, st, outbox)
     | Some source \<Rightarrow>
         let (admission, ctx) = admit_local_broadcast sha256 frame channel source clocks (Some publisher_session)
               \<lparr>lx_dedup = bst_dedup st, lx_subs = bst_subs st, lx_queues = bst_queues st\<rparr>;
             st = st\<lparr>bst_dedup := lx_dedup ctx, bst_queues := lx_queues ctx\<rparr>
         in (case admission of
               BaDelivered sessions dropped \<Rightarrow>
                 (Some \<lparr>lo_sessions = sessions, lo_source_peer = source\<rparr>, st,
                  announce_dropped channel source dropped cap outbox)
             | _ \<Rightarrow> (None, st, outbox)))"

definition publish_answer :: "publish_error + unit \<Rightarrow> transport_error + unit" where
  "publish_answer published =
    (case published of
       Inr _ \<Rightarrow> Ok ()
     | Inl e \<Rightarrow> (case publish_error_of e of None \<Rightarrow> Ok () | Some e \<Rightarrow> Err e))"

definition announce_published ::
  "channel_id \<Rightarrow> bool \<Rightarrow> local_outcome option \<Rightarrow> nat \<Rightarrow> broadcast_notice list \<Rightarrow> broadcast_notice list" where
  "announce_published channel unreachable outcome cap outbox =
    (let outbox = (if unreachable \<and> may_buffer_delivery (length outbox) cap
                   then outbox @ [BnUnreachable channel] else outbox)
     in (case outcome of
           None \<Rightarrow> outbox
         | Some local \<Rightarrow> announce_delivered channel (lo_source_peer local) (lo_sessions local) cap outbox))"

definition publish_command ::
  "(bytes \<Rightarrow> bytes) \<Rightarrow> 'm gossip_backend \<Rightarrow> connection_manager \<Rightarrow> nat \<Rightarrow> nat \<Rightarrow> clocks \<Rightarrow>
     channel_id \<Rightarrow> session \<Rightarrow> broadcast_message \<Rightarrow> broadcast_state \<Rightarrow> 'm \<Rightarrow> broadcast_notice list \<Rightarrow>
     (transport_error + unit) \<times> broadcast_state \<times> 'm \<times> broadcast_notice list" where
  "publish_command sha256 backend manager effective_payload cap clocks channel session frame st mesh outbox =
    (if \<not> may_publish (bst_subs st) channel session then (Err TeChannelNotJoined, st, mesh, outbox)
     else if length (payload_bytes (bm_payload frame)) > effective_payload
     then (Err TePayloadTooLarge, st, mesh, outbox)
     else if is_draining manager then (Err TeShuttingDown, st, mesh, outbox)
     else
       let (topic, st) = remember sha256 st channel;
           (published, mesh) = gb_publish backend mesh topic (broadcast_encode frame);
           unreachable = (published = Inl PeNoPeersSubscribedToTopic);
           answer = publish_answer published;
           (outcome, st, outbox) =
             (if is_ok answer then deliver_locally sha256 manager channel session frame clocks cap st outbox
              else (None, st, outbox))
       in (answer, st, mesh, announce_published channel unreachable outcome cap outbox))"

definition drain_session :: "session \<Rightarrow> nat \<Rightarrow> broadcast_state \<Rightarrow> broadcast_event list \<times> broadcast_state" where
  "drain_session session mx st =
    (let (events, queues) = queues_drain_up_to (bst_queues st) session mx
     in (events, st\<lparr>bst_queues := queues\<rparr>))"

section \<open>The node\<close>

record 'm broadcast_env =
  be_sha256 :: "bytes \<Rightarrow> bytes"
  be_base58 :: "bytes \<Rightarrow> bytes option"
  be_backend :: "'m gossip_backend"
  be_max_payload :: nat
  be_event_capacity :: nat

record 'm broadcast_node =
  bn_state :: broadcast_state
  bn_mesh :: 'm
  bn_outbox :: "broadcast_notice list"
  bn_told :: "validation_report list"

datatype broadcast_op =
    BoEvent gossip_event clocks bool
  | BoConfigure broadcast_channels
  | BoJoin channel_id session
  | BoLeave channel_id session
  | BoPublish connection_manager clocks channel_id session broadcast_message
  | BoDrain session nat
  | BoTrust trust_sources
  | BoTake nat

definition broadcast_tick_of :: "'m broadcast_env \<Rightarrow> clocks \<Rightarrow> bool \<Rightarrow> broadcast_notice list \<Rightarrow> broadcast_tick" where
  "broadcast_tick_of env clocks draining outbox =
    \<lparr>bt_now_ms = ck_monotonic_ms clocks, bt_wall_ms = ck_wall_ms clocks,
     bt_max_payload_bytes = be_max_payload env, bt_draining = draining,
     bt_may_buffer_delivery = may_buffer_delivery (length outbox) (be_event_capacity env),
     bt_event_capacity = be_event_capacity env\<rparr>"

fun broadcast_step :: "'m broadcast_env \<Rightarrow> 'm broadcast_node \<Rightarrow> broadcast_op \<Rightarrow> 'm broadcast_node" where
  "broadcast_step env n (BoEvent event clocks draining) =
    (let (reports, st, outbox) = handle_broadcast (be_sha256 env) (be_base58 env) event
           (broadcast_tick_of env clocks draining (bn_outbox n)) (bn_state n) (bn_outbox n)
     in n\<lparr>bn_state := st, bn_outbox := outbox, bn_told := bn_told n @ reports\<rparr>)"
| "broadcast_step env n (BoConfigure config) =
    (let (_, st, mesh) = configure_broadcast (be_sha256 env) (be_backend env) config (bn_state n) (bn_mesh n)
     in n\<lparr>bn_state := st, bn_mesh := mesh\<rparr>)"
| "broadcast_step env n (BoJoin channel session) =
    (let (_, st, mesh) = join_command (be_sha256 env) (be_backend env) channel session (bn_state n) (bn_mesh n)
     in n\<lparr>bn_state := st, bn_mesh := mesh\<rparr>)"
| "broadcast_step env n (BoLeave channel session) =
    (let (st, mesh) = leave_command (be_sha256 env) (be_backend env) channel session (bn_state n) (bn_mesh n)
     in n\<lparr>bn_state := st, bn_mesh := mesh\<rparr>)"
| "broadcast_step env n (BoPublish manager clocks channel session frame) =
    (let (_, st, mesh, outbox) = publish_command (be_sha256 env) (be_backend env) manager (be_max_payload env)
           (be_event_capacity env) clocks channel session frame (bn_state n) (bn_mesh n) (bn_outbox n)
     in n\<lparr>bn_state := st, bn_mesh := mesh, bn_outbox := outbox\<rparr>)"
| "broadcast_step env n (BoDrain session mx) = n\<lparr>bn_state := snd (drain_session session mx (bn_state n))\<rparr>"
| "broadcast_step env n (BoTrust sources) = n\<lparr>bn_state := broadcast_adopt_trust (bn_state n) sources\<rparr>"
| "broadcast_step env n (BoTake k) = n\<lparr>bn_outbox := drop k (bn_outbox n)\<rparr>"

definition broadcast_node_new :: "trust_sources \<Rightarrow> 'm \<Rightarrow> 'm broadcast_node" where
  "broadcast_node_new sources mesh =
    \<lparr>bn_state = broadcast_state_new sources, bn_mesh = mesh, bn_outbox = [], bn_told = []\<rparr>"

section \<open>The outbox\<close>

lemma announce_delivered_length:
  "length (announce_delivered c p ss cap outbox) \<le> max (length outbox) cap"
proof (induction ss arbitrary: outbox)
  case (Cons s ss)
  show ?case using Cons [of "outbox @ [BnDelivered c p s]"] by (auto simp: may_buffer_delivery_def)
qed simp

lemma announce_dropped_length: "length (announce_dropped c p ds cap outbox) \<le> max (length outbox) cap"
  by (simp add: announce_dropped_def may_buffer_delivery_def)

lemma announce_admission_length: "length (announce_admission c p cap a outbox) \<le> max (length outbox) cap"
proof (cases a)
  case (BaDelivered ss ds)
  then show ?thesis
    using announce_delivered_length [of c p ss cap "announce_dropped c p ds cap outbox"]
      announce_dropped_length [of c p ds cap outbox] by simp
qed simp_all

lemma announce_subscription_length:
  "length (announce_subscription f b58 st (broadcast_tick_of env ck dr outbox) peer topic outbox)
    \<le> max (length outbox) (be_event_capacity env)"
  by (simp add: announce_subscription_def broadcast_tick_of_def may_buffer_delivery_def split: option.split)

lemma handle_broadcast_length:
  "length (snd (snd (handle_broadcast sha b58 event (broadcast_tick_of env ck dr outbox) st outbox)))
    \<le> max (length outbox) (be_event_capacity env)"
proof (cases event)
  case (GeMessage ps mid m)
  then show ?thesis
    using announce_admission_length
    by (simp add: Let_def broadcast_tick_of_def case_prod_beta split: option.split protocol_verdict.split)
qed (simp_all add: announce_subscription_length)

lemma deliver_locally_length:
  "length (snd (snd (deliver_locally sha m c s f ck cap st outbox))) \<le> max (length outbox) cap"
  using announce_dropped_length
  by (simp add: deliver_locally_def Let_def case_prod_beta split: option.split broadcast_admission.split)

lemma announce_published_length:
  "length (announce_published c u r cap outbox) \<le> max (length outbox) cap"
proof -
  let ?o = "if u \<and> may_buffer_delivery (length outbox) cap then outbox @ [BnUnreachable c] else outbox"
  have o: "length ?o \<le> max (length outbox) cap" by (simp add: may_buffer_delivery_def)
  have "length (announce_delivered c p ss cap ?o) \<le> max (length outbox) cap" for p ss
    using announce_delivered_length [of c p ss cap ?o] o by linarith
  with o show ?thesis unfolding announce_published_def Let_def by (cases r) simp_all
qed

lemma publish_command_length:
  "length (snd (snd (snd (publish_command sha b m mx cap ck c s f st mesh outbox)))) \<le> max (length outbox) cap"
proof -
  have "length (announce_published c u r cap (snd (snd (deliver_locally sha m c s f ck cap st outbox))))
      \<le> max (length outbox) cap" for u r st
    using announce_published_length [of c u r cap "snd (snd (deliver_locally sha m c s f ck cap st outbox))"]
      deliver_locally_length [of sha m c s f ck cap st outbox] by linarith
  then show ?thesis
    by (simp add: publish_command_def Let_def case_prod_beta announce_published_length)
qed

lemma broadcast_step_outbox:
  "length (bn_outbox n) \<le> be_event_capacity env \<Longrightarrow> length (bn_outbox (broadcast_step env n op)) \<le> be_event_capacity env"
  using handle_broadcast_length [of "be_sha256 env" "be_base58 env" _ env _ _ "bn_outbox n" "bn_state n"]
    publish_command_length [of "be_sha256 env" "be_backend env" _ "be_max_payload env" "be_event_capacity env"
      _ _ _ _ "bn_state n" "bn_mesh n" "bn_outbox n"]
  by (cases op) (auto simp: case_prod_beta Let_def max_def split: if_splits)

section \<open>What the mesh holds\<close>

text \<open>
  What the backend documents of itself: its subscription filter decides by the topic alone, an
  accepted topic is subscribed, a refused one changes nothing, publishing subscribes to nothing.
\<close>

definition mesh_laws :: "'m gossip_backend \<Rightarrow> ('m \<Rightarrow> bytes set) \<Rightarrow> (bytes \<Rightarrow> bool) \<Rightarrow> bool" where
  "mesh_laws b topics accepts \<longleftrightarrow>
     (\<forall>m t. fst (gb_subscribe b m t) = accepts t
        \<and> topics (snd (gb_subscribe b m t)) = (if accepts t then insert t (topics m) else topics m)
        \<and> topics (gb_unsubscribe b m t) = topics m - {t}
        \<and> (\<forall>d. topics (snd (gb_publish b m t d)) = topics m))"

definition mapping_ok :: "(bytes \<Rightarrow> bytes) \<Rightarrow> channel_id set \<Rightarrow> broadcast_state \<Rightarrow> bytes set \<Rightarrow> bool" where
  "mapping_ok sha H st topics \<longleftrightarrow>
     bm_ok (bst_channels st)
   \<and> (\<forall>w c. bm_get (bst_channels st) w = Some c \<longleftrightarrow> c \<in> H \<and> w = wire_of sha c)
   \<and> topics = wire_of sha ` H"

definition held_channels :: "subscription_registry \<Rightarrow> channel_id set" where
  "held_channels r = {c. backend_should_subscribe r c}"

definition broadcast_inv ::
  "(bytes \<Rightarrow> bytes) \<Rightarrow> (bytes \<Rightarrow> bool) \<Rightarrow> channel_id set \<Rightarrow> broadcast_state \<Rightarrow> bytes set \<Rightarrow> bool" where
  "broadcast_inv sha accepts C st topics \<longleftrightarrow>
     registry_ok (bst_subs st)
   \<and> mapping_ok sha (held_channels (bst_subs st)) st topics
   \<and> held_channels (bst_subs st) \<subseteq> {c \<in> C. accepts (wire_of sha c)}
   \<and> (\<forall>s. bm_has (bst_queues st) s \<longleftrightarrow> holds_any (bst_subs st) s)"

lemma holds_any_may_publish: "registry_ok r \<Longrightarrow> holds_any r s \<longleftrightarrow> (\<exists>c. may_publish r c s)"
  by (force simp: holds_any_def may_publish_def list_ex_iff registry_ok_def bm_get_in_set split: option.splits)

lemma held_leave:
  "held_channels (leave r c s) =
    (if backend_should_subscribe (leave r c s) c then held_channels r else held_channels r - {c})"
  by (auto simp: held_channels_def backend_should_subscribe_def leave_def Let_def bm_has_def split: option.splits)

lemma held_join:
  "held_channels (snd (join r c s)) = (if is_ok (fst (join r c s)) then insert c (held_channels r) else held_channels r)"
  by (auto simp: held_channels_def backend_should_subscribe_def join_def Let_def bm_has_def split: option.splits)

lemma held_publish: "may_publish r c s \<Longrightarrow> c \<in> held_channels r"
  by (auto simp: held_channels_def may_publish_def backend_should_subscribe_def bm_has_def split: option.splits)

lemma held_channels_eq:
  assumes "registry_ok r"
  shows "held_channels r = {c. \<exists>s. may_publish r c s} \<union> set (sr_desired r)"
proof -
  have "bm_has (sr_joins r) c \<longleftrightarrow> (\<exists>s. may_publish r c s)" for c
  proof (cases "bm_get (sr_joins r) c")
    case (Some x)
    then have "hd x \<in> set x" using assms by (simp add: registry_ok_def)
    with Some show ?thesis by (auto simp: may_publish_def bm_has_def)
  qed (simp add: may_publish_def bm_has_def)
  then show ?thesis by (auto simp: held_channels_def backend_should_subscribe_def)
qed

lemma join_err: "\<not> is_ok (fst (join r c s)) \<Longrightarrow> snd (join r c s) = r"
  by (auto simp: join_def Let_def split: option.splits if_splits)

text \<open>Remembering and forgetting keep the mapping in step with the subscriptions.\<close>

lemma mapping_remember:
  assumes "mapping_ok sha H st topics" "inj_on (wire_of sha) C" "insert c H \<subseteq> C"
  shows "mapping_ok sha (insert c H) (snd (remember sha st c)) (insert (wire_of sha c) topics)"
proof -
  have "x = c" if "x \<in> H" "wire_of sha x = wire_of sha c" for x
    using inj_onD [OF assms(2) that(2)] that(1) assms(3) by blast
  then show ?thesis
    using assms(1) unfolding mapping_ok_def remember_def Let_def by auto
qed

lemma mapping_forget:
  assumes "mapping_ok sha H st topics" "inj_on (wire_of sha) C" "insert c H \<subseteq> C"
  shows "mapping_ok sha (H - {c}) (snd (forget_channel sha st c)) (topics - {wire_of sha c})"
proof -
  have "x = c" if "x \<in> H" "wire_of sha x = wire_of sha c" for x
    using inj_onD [OF assms(2) that(2)] that(1) assms(3) by blast
  then show ?thesis
    using assms(1) unfolding mapping_ok_def forget_channel_def Let_def by auto
qed

lemma mapping_undo:
  assumes "mapping_ok sha H st topics" "inj_on (wire_of sha) C" "insert c H \<subseteq> C" "c \<notin> H"
  shows "mapping_ok sha H (snd (forget_channel sha (snd (remember sha st c)) c)) topics"
proof -
  have "wire_of sha x \<noteq> wire_of sha c" if "x \<in> H" for x
  proof
    assume "wire_of sha x = wire_of sha c"
    from inj_onD [OF assms(2) this] that assms(3) have "x = c" by blast
    with that assms(4) show False by blast
  qed
  then have "wire_of sha c \<noteq> wire_of sha x" if "x \<in> H" for x using that by force
  then show ?thesis
    using assms(1) unfolding mapping_ok_def forget_channel_def remember_def Let_def by auto
qed

lemma remember_simps [simp]:
  "fst (remember sha st c) = wire_of sha c" "bst_subs (snd (remember sha st c)) = bst_subs st"
  "bst_queues (snd (remember sha st c)) = bst_queues st" "bst_queue_bound (snd (remember sha st c)) = bst_queue_bound st"
  "fst (forget_channel sha st c) = wire_of sha c" "bst_subs (snd (forget_channel sha st c)) = bst_subs st"
  "bst_queues (snd (forget_channel sha st c)) = bst_queues st"
  by (simp_all add: remember_def forget_channel_def Let_def)

lemma mapping_frame [simp]:
  "mapping_ok sha H (st\<lparr>bst_subs := r\<rparr>) topics = mapping_ok sha H st topics"
  "mapping_ok sha H (st\<lparr>bst_queues := q\<rparr>) topics = mapping_ok sha H st topics"
  "mapping_ok sha H (st\<lparr>bst_queue_bound := b\<rparr>) topics = mapping_ok sha H st topics"
  "mapping_ok sha H (st\<lparr>bst_dedup := d\<rparr>) topics = mapping_ok sha H st topics"
  "mapping_ok sha H (st\<lparr>bst_ingress := l\<rparr>) topics = mapping_ok sha H st topics"
  "mapping_ok sha H (st\<lparr>bst_trust := t\<rparr>) topics = mapping_ok sha H st topics"
  by (simp_all add: mapping_ok_def)

lemma mapping_remembered:
  "mapping_ok sha H st topics \<Longrightarrow> c \<in> H \<Longrightarrow> snd (remember sha st c) = st"
  by (simp add: remember_def Let_def mapping_ok_def bm_insert_same)

section \<open>Commands and the mesh\<close>

abbreviation node_inv :: "'m broadcast_env \<Rightarrow> ('m \<Rightarrow> bytes set) \<Rightarrow> (bytes \<Rightarrow> bool) \<Rightarrow> channel_id set \<Rightarrow> broadcast_state \<Rightarrow> 'm \<Rightarrow> bool" where
  "node_inv env topics accepts C st mesh \<equiv> broadcast_inv (be_sha256 env) accepts C st (topics mesh)"

lemma mesh_lawsD:
  assumes "mesh_laws b topics accepts"
  shows "fst (gb_subscribe b m t) = accepts t"
    "topics (snd (gb_subscribe b m t)) = (if accepts t then insert t (topics m) else topics m)"
    "topics (gb_unsubscribe b m t) = topics m - {t}" "topics (snd (gb_publish b m t d)) = topics m"
  using assms by (auto simp: mesh_laws_def)

lemma broadcast_invD:
  assumes "broadcast_inv sha accepts C st topics"
  shows "registry_ok (bst_subs st)" "mapping_ok sha (held_channels (bst_subs st)) st topics"
    "held_channels (bst_subs st) \<subseteq> C" "c \<in> held_channels (bst_subs st) \<Longrightarrow> accepts (wire_of sha c)"
    "bm_has (bst_queues st) s \<longleftrightarrow> holds_any (bst_subs st) s"
  using assms by (auto simp: broadcast_inv_def)

lemma holds_any_leave:
  "registry_ok r \<Longrightarrow> s' \<noteq> s \<Longrightarrow> holds_any (leave r c s) s' \<longleftrightarrow> holds_any r s'"
  by (auto simp: holds_any_may_publish leave_ok may_publish_leave)

lemma holds_any_leave_less: "registry_ok r \<Longrightarrow> holds_any (leave r c s) s' \<Longrightarrow> holds_any r s'"
  by (auto simp: holds_any_may_publish leave_ok may_publish_leave)

lemma holds_any_join:
  "registry_ok r \<Longrightarrow> holds_any (snd (join r c s)) s' \<longleftrightarrow> holds_any r s' \<or> (s' = s \<and> is_ok (fst (join r c s)))"
  by (auto simp: holds_any_may_publish join_ok may_publish_join)

lemma leave_keeps:
  assumes inv: "broadcast_inv sha accepts C st (topics mesh)" and laws: "mesh_laws b topics accepts"
    and inj: "inj_on (wire_of sha) C" and c: "c \<in> C"
    and r: "leave_command sha b c s st mesh = (st', mesh')"
  shows "broadcast_inv sha accepts C st' (topics mesh')"
proof -
  note i = broadcast_invD [OF inv]
  let ?subs = "leave (bst_subs st) c s"
  let ?st = "(let st = st\<lparr>bst_subs := ?subs\<rparr> in if \<not> holds_any ?subs s
      then st\<lparr>bst_queues := snd (queues_close (bst_queues st) s)\<rparr> else st)"
  have st: "bst_subs ?st = ?subs" "mapping_ok sha H ?st t = mapping_ok sha H st t" for H t
    by (simp_all add: Let_def)
  have q: "bm_has (bst_queues ?st) s' \<longleftrightarrow> holds_any ?subs s'" for s'
    using i(5) [of s'] holds_any_leave [OF i(1), of s' s c] holds_any_leave_less [OF i(1), of c s s']
    by (cases "s' = s") (auto simp: Let_def queues_close_def)
  have r': "(st', mesh') = (if \<not> backend_should_subscribe ?subs c
      then (snd (forget_channel sha ?st c), gb_unsubscribe b mesh (wire_of sha c)) else (?st, mesh))"
    using r by (auto simp: leave_command_def Let_def case_prod_beta split: if_splits)
  have sub: "held_channels ?subs \<subseteq> held_channels (bst_subs st)" by (auto simp: held_leave)
  have acc: "held_channels ?subs \<subseteq> {c \<in> C. accepts (wire_of sha c)}" using sub i(3,4) by blast
  show ?thesis
  proof (cases "backend_should_subscribe ?subs c")
    case True
    with r' have e: "st' = ?st" "mesh' = mesh" by simp_all
    show ?thesis
      unfolding broadcast_inv_def e using True i(2) acc q leave_ok [OF i(1)] st by (simp add: held_leave)
  next
    case False
    with r' have e: "st' = snd (forget_channel sha ?st c)" "mesh' = gb_unsubscribe b mesh (wire_of sha c)" by simp_all
    have "mapping_ok sha (held_channels (bst_subs st) - {c}) st' (topics mesh')"
      unfolding e mesh_lawsD [OF laws]
      by (rule mapping_forget [OF _ inj]) (use i(2,3) c st in auto)
    then show ?thesis
      unfolding broadcast_inv_def using False acc q leave_ok [OF i(1)] st by (simp add: held_leave e)
  qed
qed

lemma join_keeps:
  assumes inv: "broadcast_inv sha accepts C st (topics mesh)" and laws: "mesh_laws b topics accepts"
    and inj: "inj_on (wire_of sha) C" and c: "c \<in> C"
    and r: "join_command sha b c s st mesh = (res, st', mesh')"
  shows "broadcast_inv sha accepts C st' (topics mesh')"
proof (cases "is_ok (fst (join (bst_subs st) c s))")
  case False
  then have "st' = st" "mesh' = mesh"
    using r join_err [OF False]
    by (auto simp: join_command_def Let_def case_prod_beta is_ok_def split: sum.splits)
  with inv show ?thesis by simp
next
  case True
  note i = broadcast_invD [OF inv]
  let ?subs = "snd (join (bst_subs st) c s)" and ?w = "wire_of sha c"
  let ?st = "snd (remember sha (st\<lparr>bst_subs := ?subs\<rparr>) c)"
  have ok: "registry_ok ?subs" by (rule join_ok [OF i(1)])
  have cC: "insert c (held_channels (bst_subs st)) \<subseteq> C" using i(3) c by blast
  show ?thesis
  proof (cases "accepts ?w")
    case acc: True
    let ?st2 = "if \<not> queues_is_open (bst_queues st) s
      then ?st\<lparr>bst_queues := queues_open (bst_queues st) s (bst_queue_bound st)\<rparr> else ?st"
    have e: "st' = ?st2" "mesh' = snd (gb_subscribe b mesh ?w)"
      using r True mesh_lawsD(1) [OF laws, of mesh ?w] acc
      by (auto simp: join_command_def Let_def case_prod_beta is_ok_def split: sum.splits)
    have "mapping_ok sha (insert c (held_channels (bst_subs st))) st' (topics mesh')"
      using mapping_remember [of sha "held_channels (bst_subs st)" "st\<lparr>bst_subs := ?subs\<rparr>" "topics mesh" C c]
        i(2) inj cC acc by (simp add: e mesh_lawsD [OF laws])
    moreover have "bm_has (bst_queues st') s' \<longleftrightarrow> holds_any ?subs s'" for s'
      using i(5) [of s'] True holds_any_join [OF i(1), of c s s']
      by (auto simp: e queues_is_open_def queues_open_def)
    ultimately show ?thesis
      unfolding broadcast_inv_def using ok i(3,4) c acc True by (auto simp: e held_join)
  next
    case rej: False
    have new: "c \<notin> held_channels (bst_subs st)" using i(4) rej by blast
    have nm: "\<not> may_publish (bst_subs st) c s" using held_publish new by blast
    let ?undone = "leave ?subs c s"
    have mp: "may_publish ?undone = may_publish (bst_subs st)"
      using nm by (auto simp: fun_eq_iff may_publish_leave may_publish_join)
    have des: "sr_desired ?undone = sr_desired (bst_subs st)"
      by (auto simp: leave_def join_def Let_def split: option.splits)
    have okb: "registry_ok ?undone" by (rule leave_ok [OF ok])
    have hb: "held_channels ?undone = held_channels (bst_subs st)"
      by (simp add: held_channels_eq okb i(1) mp des)
    then have ns: "\<not> backend_should_subscribe ?undone c" using new by (auto simp: held_channels_def)
    have e: "st' = snd (forget_channel sha (?st\<lparr>bst_subs := ?undone\<rparr>) c)" "mesh' = snd (gb_subscribe b mesh ?w)"
      using r True mesh_lawsD(1) [OF laws, of mesh ?w] rej ns
      by (auto simp: join_command_def Let_def case_prod_beta is_ok_def split: sum.splits)
    have "mapping_ok sha (held_channels (bst_subs st)) (snd (forget_channel sha (snd (remember sha st c)) c)) (topics mesh)"
      by (rule mapping_undo [OF i(2) inj cC new])
    then have "mapping_ok sha (held_channels (bst_subs st)) st' (topics mesh')"
      using rej by (simp add: e mesh_lawsD [OF laws] mapping_ok_def forget_channel_def remember_def Let_def)
    moreover have "bm_has (bst_queues st') s' \<longleftrightarrow> holds_any ?undone s'" for s'
      using i(5) [of s'] by (simp add: e holds_any_may_publish [OF okb] holds_any_may_publish [OF i(1)] mp)
    ultimately show ?thesis
      unfolding broadcast_inv_def using okb hb i(3,4) by (auto simp: e)
  qed
qed

lemma broadcast_inv_frame:
  assumes "broadcast_inv sha accepts C st topics" "bst_subs st' = bst_subs st" "bst_channels st' = bst_channels st"
    "\<And>s. bm_has (bst_queues st') s = bm_has (bst_queues st) s"
  shows "broadcast_inv sha accepts C st' topics"
  using assms by (simp add: broadcast_inv_def mapping_ok_def)

lemma admit_local_has:
  "bm_has (lx_queues (snd (admit_local_broadcast sha f c p k ex ctx))) s = bm_has (lx_queues ctx) s"
  by (simp add: admit_local_queues fan_out_has split: broadcast_admission.split)

lemma admit_into_state_frame:
  "bst_subs (snd (admit_into_state sha f c p t st)) = bst_subs st"
  "bst_channels (snd (admit_into_state sha f c p t st)) = bst_channels st"
  "bst_trust (snd (admit_into_state sha f c p t st)) = bst_trust st"
  "bm_has (bst_queues (snd (admit_into_state sha f c p t st))) s = bm_has (bst_queues st) s"
  by (simp_all add: admit_into_state_def admit_broadcast_parts Let_def case_prod_beta admit_local_has split: sum.split)

lemma handle_broadcast_frame:
  "bst_subs (fst (snd (handle_broadcast sha b58 ev t st o1))) = bst_subs st"
  "bst_channels (fst (snd (handle_broadcast sha b58 ev t st o1))) = bst_channels st"
  "bst_trust (fst (snd (handle_broadcast sha b58 ev t st o1))) = bst_trust st"
  "bm_has (bst_queues (fst (snd (handle_broadcast sha b58 ev t st o1)))) s = bm_has (bst_queues st) s"
  by (cases ev; simp add: Let_def case_prod_beta admit_into_state_frame split: option.split protocol_verdict.split)+

lemma deliver_locally_frame:
  "bst_subs (fst (snd (deliver_locally sha m c s f k cap st o1))) = bst_subs st"
  "bst_channels (fst (snd (deliver_locally sha m c s f k cap st o1))) = bst_channels st"
  "bm_has (bst_queues (fst (snd (deliver_locally sha m c s f k cap st o1)))) s' = bm_has (bst_queues st) s'"
  by (simp_all add: deliver_locally_def Let_def case_prod_beta admit_local_has split: option.split broadcast_admission.split)

lemma publish_keeps:
  assumes inv: "broadcast_inv sha accepts C st (topics mesh)" and laws: "mesh_laws b topics accepts"
    and r: "publish_command sha b m mx cap k c s f st mesh o1 = (res, st', mesh', o2)"
  shows "broadcast_inv sha accepts C st' (topics mesh')"
proof (cases "may_publish (bst_subs st) c s")
  case True
  note i = broadcast_invD [OF inv]
  have "snd (remember sha st c) = st" by (rule mapping_remembered [OF i(2) held_publish [OF True]])
  then have "(st' = st \<or> st' = fst (snd (deliver_locally sha m c s f k cap st o1))) \<and> topics mesh' = topics mesh"
    using r mesh_lawsD(4) [OF laws]
    by (auto simp: publish_command_def Let_def case_prod_beta split: if_splits)
  then show ?thesis
    by (metis inv broadcast_inv_frame deliver_locally_frame)
qed (use r inv in \<open>simp add: publish_command_def\<close>)

section \<open>Reconfiguration\<close>

lemma forget_if_unheld_frame [simp]:
  "bst_subs (forget_if_unheld sha st c) = bst_subs st" "bst_queues (forget_if_unheld sha st c) = bst_queues st"
  by (simp_all add: forget_if_unheld_def)

lemma apply_desired_keeps:
  assumes laws: "mesh_laws b topics accepts" and inj: "inj_on (wire_of sha) C"
    and "mapping_ok sha H st (topics mesh)" "H \<union> set cs \<subseteq> C" "\<forall>c \<in> H. accepts (wire_of sha c)"
    and "\<forall>c. subscribers (bst_subs st) c \<noteq> [] \<longrightarrow> accepts (wire_of sha c)"
    and "apply_desired cs (subscribe_desired sha b) (st, mesh) = (applied, refused, st', mesh')"
  shows "mapping_ok sha (H \<union> {c \<in> set cs. accepts (wire_of sha c)}) st' (topics mesh')
   \<and> bst_subs st' = bst_subs st \<and> bst_queues st' = bst_queues st \<and> bs_ok applied
   \<and> set applied = {c \<in> set cs. accepts (wire_of sha c)} \<and> set refused = {c \<in> set cs. \<not> accepts (wire_of sha c)}"
  using assms(3-)
proof (induction cs arbitrary: H st mesh applied refused)
  case Nil
  then show ?case by simp
next
  case (Cons c cs)
  let ?w = "wire_of sha c"
  let ?s = "subscribe_desired sha b c (st, mesh)"
  obtain applied' refused' st2 mesh2 where r:
    "apply_desired cs (subscribe_desired sha b) (snd ?s) = (applied', refused', st2, mesh2)"
    by (metis prod_cases4)
  have step: "?s = (if accepts ?w then (True, snd (remember sha st c), snd (gb_subscribe b mesh ?w))
      else (False, forget_if_unheld sha (snd (remember sha st c)) c, snd (gb_subscribe b mesh ?w)))"
    using mesh_lawsD(1) [OF laws, of mesh ?w] by (simp add: subscribe_desired_def Let_def case_prod_beta)
  have cH: "insert c H \<subseteq> C" using Cons.prems(2) by simp
  show ?case
  proof (cases "accepts ?w")
    case True
    have m: "mapping_ok sha (insert c H) (snd (remember sha st c)) (topics (snd (gb_subscribe b mesh ?w)))"
      using mapping_remember [OF Cons.prems(1) inj cH] True by (simp add: mesh_lawsD [OF laws])
    have "applied = bs_insert c applied'" "refused = refused'" "st' = st2" "mesh' = mesh2"
      using Cons.prems(5) r True by (simp_all add: step)
    moreover note Cons.IH [OF m _ _ _ , of applied' refused']
    moreover have "H \<union> {d \<in> set (c # cs). accepts (wire_of sha d)} = insert c H \<union> {d \<in> set cs. accepts (wire_of sha d)}"
      using True by auto
    ultimately show ?thesis
      using Cons.prems(2-4) r True by (auto simp: step)
  next
    case False
    then have "c \<notin> H" "subscribers (bst_subs st) c = []" using Cons.prems(3,4) by auto
    then have m: "mapping_ok sha H (forget_if_unheld sha (snd (remember sha st c)) c) (topics (snd (gb_subscribe b mesh ?w)))"
      using mapping_undo [OF Cons.prems(1) inj cH] False by (simp add: mesh_lawsD [OF laws] forget_if_unheld_def)
    have "applied = applied'" "refused = c # refused'" "st' = st2" "mesh' = mesh2"
      using Cons.prems(5) r False by (simp_all add: step)
    moreover note Cons.IH [OF m _ _ _ , of applied' refused']
    moreover have "{d \<in> set (c # cs). accepts (wire_of sha d)} = {d \<in> set cs. accepts (wire_of sha d)}"
      using False by auto
    ultimately show ?thesis
      using Cons.prems(2-4) r False by (auto simp: step)
  qed
qed

lemma drop_unheld_keeps:
  assumes laws: "mesh_laws b topics accepts" and inj: "inj_on (wire_of sha) C"
    and "mapping_ok sha H st (topics mesh)" "H \<union> set cs \<subseteq> C"
    and "foldl (\<lambda>s c. drop_unheld sha b c s) (st, mesh) cs = (st', mesh')"
  shows "mapping_ok sha (H - (set cs - held_channels (bst_subs st))) st' (topics mesh')
    \<and> bst_subs st' = bst_subs st \<and> bst_queues st' = bst_queues st"
  using assms(3-)
proof (induction cs arbitrary: H st mesh)
  case Nil
  then show ?case by simp
next
  case (Cons c cs)
  show ?case
  proof (cases "c \<in> held_channels (bst_subs st)")
    case True
    then have "H - (set (c # cs) - held_channels (bst_subs st)) = H - (set cs - held_channels (bst_subs st))" by auto
    moreover have "drop_unheld sha b c (st, mesh) = (st, mesh)"
      using True by (simp add: drop_unheld_def held_channels_def)
    ultimately show ?thesis using Cons by simp
  next
    case False
    let ?st = "snd (forget_channel sha st c)" and ?mesh = "gb_unsubscribe b mesh (wire_of sha c)"
    have m: "mapping_ok sha (H - {c}) ?st (topics ?mesh)"
      unfolding mesh_lawsD(3) [OF laws] using Cons.prems by (intro mapping_forget [OF _ inj]) auto
    have "drop_unheld sha b c (st, mesh) = (?st, ?mesh)"
      using False by (simp add: drop_unheld_def held_channels_def Let_def case_prod_beta)
    moreover have "H - (set (c # cs) - held_channels (bst_subs st)) = (H - {c}) - (set cs - held_channels (bst_subs st))"
      using False by auto
    ultimately show ?thesis using Cons.IH [OF m] Cons.prems by auto
  qed
qed

lemma mapping_channels:
  assumes "mapping_ok sha H st topics"
  shows "set (map snd (bst_channels st)) = H"
proof -
  have ok: "bm_ok (bst_channels st)"
    and get: "bm_get (bst_channels st) w = Some c \<longleftrightarrow> c \<in> H \<and> w = wire_of sha c" for w c
    using assms by (auto simp: mapping_ok_def)
  have "c \<in> H" if "(w, c) \<in> set (bst_channels st)" for w c
    using that get [of w c] unfolding bm_get_in_set [OF ok] by blast
  moreover have "(wire_of sha c, c) \<in> set (bst_channels st)" if "c \<in> H" for c
    using that get [of "wire_of sha c" c] unfolding bm_get_in_set [OF ok] by blast
  ultimately show ?thesis by force
qed

lemma configure_parts:
  assumes "is_ok (fst (configure r d k))"
  shows "snd (configure r d k) = r\<lparr>sr_desired := d, sr_ceiling := k\<rparr>"
  using assms by (auto simp: configure_def set_desired_def Let_def split: if_splits)

lemma configure_keeps:
  assumes inv: "broadcast_inv sha accepts C st (topics mesh)" and laws: "mesh_laws b topics accepts"
    and inj: "inj_on (wire_of sha) C" and cs: "set (bch_desired cfg) \<subseteq> C"
    and r: "configure_broadcast sha b cfg st mesh = (res, st', mesh')"
  shows "broadcast_inv sha accepts C st' (topics mesh')"
proof (cases "is_ok (fst (configure (bst_subs st) (bs_from_list (bch_desired cfg)) (bch_max_subscriptions cfg)))")
  case False
  then have "st' = st" "mesh' = mesh"
    using r configure_err [OF False]
    by (auto simp: configure_broadcast_def Let_def case_prod_beta is_ok_def split: sum.splits)
  with inv show ?thesis by simp
next
  case True
  note i = broadcast_invD [OF inv]
  let ?des = "bch_desired cfg" and ?max = "bch_max_subscriptions cfg"
  let ?acc = "{c \<in> set ?des. accepts (wire_of sha c)}"
  define r1 where "r1 = snd (configure (bst_subs st) (bs_from_list ?des) ?max)"
  define st1 where "st1 = st\<lparr>bst_subs := r1, bst_queue_bound := bch_queue_bound cfg,
      bst_queues := session_set_bound (bst_queues st) (bch_queue_bound cfg)\<rparr>"
  obtain applied refused st2 mesh2 where
    a: "apply_desired ?des (subscribe_desired sha b) (st1, mesh) = (applied, refused, st2, mesh2)"
    by (metis prod_cases4)
  define st3 where "st3 = (if refused \<noteq> [] then st2\<lparr>bst_subs := snd (set_desired (bst_subs st2) applied)\<rparr> else st2)"
  have sweep: "foldl (\<lambda>s c. drop_unheld sha b c s) (st3, mesh2) (map snd (bst_channels st3)) = (st', mesh')"
    using r True a
    by (auto simp: configure_broadcast_def Let_def case_prod_beta is_ok_def r1_def st1_def st3_def split: sum.splits)
  have r1: "r1 = (bst_subs st)\<lparr>sr_desired := bs_from_list ?des, sr_ceiling := ?max\<rparr>"
    unfolding r1_def by (rule configure_parts [OF True])
  have ok1: "registry_ok r1" unfolding r1_def by (intro configure_ok i(1)) simp
  have mp1: "may_publish r1 = may_publish (bst_subs st)" by (simp add: r1_def may_publish_desired)
  let ?H = "held_channels (bst_subs st)"
  have ap: "mapping_ok sha (?H \<union> ?acc) st2 (topics mesh2)" "bst_subs st2 = r1"
    "bst_queues st2 = bst_queues st1" "bs_ok applied" "set applied = ?acc" "set refused = set ?des - ?acc"
  proof -
    have "\<forall>c. subscribers (bst_subs st1) c \<noteq> [] \<longrightarrow> accepts (wire_of sha c)"
    proof (intro allI impI)
      fix c assume "subscribers (bst_subs st1) c \<noteq> []"
      then have "hd (subscribers r1 c) \<in> set (subscribers r1 c)" by (simp add: st1_def)
      then have "c \<in> ?H" using held_publish mp1 by (auto simp: set_subscribers)
      then show "accepts (wire_of sha c)" by (rule i(4))
    qed
    then show "mapping_ok sha (?H \<union> ?acc) st2 (topics mesh2)" "bst_subs st2 = r1"
      "bst_queues st2 = bst_queues st1" "bs_ok applied" "set applied = ?acc" "set refused = set ?des - ?acc"
      using apply_desired_keeps [OF laws inj _ _ _ _ a, of ?H] i(2,3,4) cs by (auto simp: st1_def)
  qed
  have r3: "registry_ok (bst_subs st3)" "may_publish (bst_subs st3) = may_publish (bst_subs st)"
    "set (sr_desired (bst_subs st3)) = ?acc"
  proof -
    have "registry_ok (snd (set_desired r1 applied))" by (rule set_desired_ok [OF ok1 ap(4)])
    then show "registry_ok (bst_subs st3)" using ok1 by (simp add: st3_def ap(2))
    show "may_publish (bst_subs st3) = may_publish (bst_subs st)"
      by (simp add: st3_def ap(2) may_publish_desired mp1)
    have "fst (set_desired r1 applied) = Ok ()"
      using ap(5) by (intro narrowing_accepted [OF ok1 ap(4)]) (auto simp: r1)
    then have "sr_desired (snd (set_desired r1 applied)) = applied"
      by (auto simp: set_desired_def Let_def split: if_splits)
    moreover have "?acc = set ?des" if "refused = []" using ap(6) that by auto
    ultimately show "set (sr_desired (bst_subs st3)) = ?acc"
      using ap(5) by (simp add: st3_def ap(2) r1)
  qed
  have H3: "held_channels (bst_subs st3) \<subseteq> ?H \<union> ?acc"
    using r3 i(1) by (auto simp: held_channels_eq)
  have m3: "mapping_ok sha (?H \<union> ?acc) st3 (topics mesh2)" using ap(1) by (simp add: st3_def)
  have sub: "(?H \<union> ?acc) \<union> set (map snd (bst_channels st3)) \<subseteq> C"
    unfolding mapping_channels [OF m3] using i(3) cs by blast
  have "(?H \<union> ?acc) - (set (map snd (bst_channels st3)) - held_channels (bst_subs st3)) = held_channels (bst_subs st3)"
    unfolding mapping_channels [OF m3] using H3 by blast
  with drop_unheld_keeps [OF laws inj m3 sub sweep]
  have m': "mapping_ok sha (held_channels (bst_subs st3)) st' (topics mesh')" "bst_subs st' = bst_subs st3"
    "bst_queues st' = bst_queues st3" by simp_all
  have "bm_has (bst_queues st') s \<longleftrightarrow> holds_any (bst_subs st3) s" for s
  proof -
    have "bst_queues st' = bst_queues st1" using m'(3) ap(3) by (simp add: st3_def)
    moreover have "bm_has (bst_queues st1) s = bm_has (bst_queues st) s"
      by (simp add: st1_def session_set_bound_def bm_has_def)
    ultimately show ?thesis
      using i(5) [of s] by (simp add: holds_any_may_publish [OF r3(1)] holds_any_may_publish [OF i(1)] r3(2))
  qed
  moreover have "held_channels (bst_subs st3) \<subseteq> {c \<in> C. accepts (wire_of sha c)}"
    using H3 i(3,4) cs by blast
  ultimately show ?thesis
    unfolding broadcast_inv_def using m' r3(1) by simp
qed

section \<open>Every step\<close>

fun op_channels :: "broadcast_op \<Rightarrow> channel_id set" where
  "op_channels (BoConfigure cfg) = set (bch_desired cfg)"
| "op_channels (BoJoin c _) = {c}"
| "op_channels (BoLeave c _) = {c}"
| "op_channels _ = {}"

lemma drain_has:
  "bm_has (snd (queues_drain_up_to qs k n)) s = bm_has qs s"
  by (auto simp: queues_drain_up_to_def Let_def bm_has_def split: option.split)

lemma broadcast_step_keeps:
  assumes "node_inv env topics accepts C (bn_state n) (bn_mesh n)" and "mesh_laws (be_backend env) topics accepts"
    and "inj_on (wire_of (be_sha256 env)) C" and "op_channels op \<subseteq> C"
  shows "node_inv env topics accepts C (bn_state (broadcast_step env n op)) (bn_mesh (broadcast_step env n op))"
proof (cases op)
  case (BoEvent ev ck dr)
  show ?thesis
    unfolding BoEvent
    by (simp add: Let_def case_prod_beta)
      (rule broadcast_inv_frame [OF assms(1)]; simp add: handle_broadcast_frame)
next
  case (BoConfigure cfg)
  then show ?thesis
    using configure_keeps [OF assms(1,2,3), of cfg] assms(4) by (simp add: case_prod_beta prod_eq_iff)
next
  case (BoJoin c s)
  then show ?thesis using join_keeps [OF assms(1,2,3), of c s] assms(4) by (simp add: case_prod_beta prod_eq_iff)
next
  case (BoLeave c s)
  then show ?thesis using leave_keeps [OF assms(1,2,3), of c s] assms(4) by (simp add: case_prod_beta prod_eq_iff)
next
  case (BoPublish m ck c s f)
  then show ?thesis using publish_keeps [OF assms(1,2)] by (simp add: case_prod_beta prod_eq_iff)
next
  case (BoDrain s k)
  show ?thesis
    unfolding BoDrain
    by (simp add: drain_session_def case_prod_beta) (rule broadcast_inv_frame [OF assms(1)]; simp add: drain_has)
next
  case (BoTrust t)
  show ?thesis
    unfolding BoTrust by (simp add: broadcast_adopt_trust_def) (rule broadcast_inv_frame [OF assms(1)]; simp)
qed (use assms(1) in simp)

lemma broadcast_new_inv:
  assumes "topics mesh = {}"
  shows "node_inv env topics accepts C (bn_state (broadcast_node_new src mesh)) (bn_mesh (broadcast_node_new src mesh))"
proof -
  have "held_channels registry_default = {}" "\<not> holds_any registry_default s" for s
    by (simp_all add: held_channels_def backend_should_subscribe_def registry_default_def holds_any_def bm_has_def)
  with assms show ?thesis
    by (simp add: broadcast_inv_def broadcast_node_new_def broadcast_state_new_def registry_default_ok mapping_ok_def bm_has_def)
qed

lemma broadcast_run_keeps:
  assumes "mesh_laws (be_backend env) topics accepts" and "inj_on (wire_of (be_sha256 env)) C"
    and "\<Union> (op_channels ` set ops) \<subseteq> C"
    and "node_inv env topics accepts C (bn_state n) (bn_mesh n)"
  shows "node_inv env topics accepts C (bn_state (foldl (broadcast_step env) n ops)) (bn_mesh (foldl (broadcast_step env) n ops))"
  using assms(3,4)
proof (induction ops arbitrary: n)
  case (Cons op ops)
  then show ?case using broadcast_step_keeps [OF Cons.prems(2) assms(1,2), of op] by simp
qed simp

section \<open>What the duplicate cache remembers\<close>

fun op_at :: "broadcast_op \<Rightarrow> nat option" where
  "op_at (BoEvent _ ck _) = Some (ck_monotonic_ms ck)"
| "op_at (BoPublish _ ck _ _ _) = Some (ck_monotonic_ms ck)"
| "op_at _ = None"

definition within_ttl :: "nat \<Rightarrow> nat \<Rightarrow> nat option \<Rightarrow> bool" where
  "within_ttl t ttl at = (case at of None \<Rightarrow> True | Some now \<Rightarrow> now - t < ttl)"

text \<open>A step calls the cache at most twice, at its own time.\<close>

definition cached_by :: "nat option \<Rightarrow> dedup_cache \<Rightarrow> dedup_cache \<Rightarrow> bool" where
  "cached_by at c c' \<longleftrightarrow> (\<exists>ops. c' = foldl dedup_step c ops \<and> length ops \<le> 2 \<and> list_all (\<lambda>op. Some (op_time op) = at) ops)"

lemma cached_by_refl [simp]: "cached_by at c c"
  by (auto simp: cached_by_def intro: exI [of _ "[]"])

lemma admit_local_cached:
  "cached_by (Some (ck_monotonic_ms k)) (lx_dedup ctx) (lx_dedup (snd (admit_local_broadcast sha f c p k ex ctx)))"
  by (rule admit_local_dedup [of sha f c p k ex ctx]) (auto simp: cached_by_def list_all_iff)

lemma admit_into_state_cached:
  "cached_by (Some (bt_now_ms t)) (bst_dedup st) (bst_dedup (snd (admit_into_state sha f c p t st)))"
  using admit_local_cached [of "\<lparr>ck_monotonic_ms = bt_now_ms t, ck_wall_ms = bt_wall_ms t\<rparr>"
      "\<lparr>lx_dedup = bst_dedup st, lx_subs = bst_subs st, lx_queues = bst_queues st\<rparr>" sha f c p None]
  by (simp add: admit_into_state_def admit_broadcast_parts Let_def case_prod_beta split: sum.split)

lemma deliver_locally_cached:
  "cached_by (Some (ck_monotonic_ms k)) (bst_dedup st) (bst_dedup (fst (snd (deliver_locally sha m c s f k cap st o1))))"
proof (cases "cm_local_peer m")
  case (Some p)
  then show ?thesis
    using admit_local_cached [of k "\<lparr>lx_dedup = bst_dedup st, lx_subs = bst_subs st, lx_queues = bst_queues st\<rparr>" sha f c p "Some s"]
    by (simp add: deliver_locally_def Let_def case_prod_beta split: broadcast_admission.split)
qed (simp add: deliver_locally_def)

lemma apply_desired_dedup:
  "bst_dedup (fst (snd (snd (apply_desired cs (subscribe_desired sha b) s)))) = bst_dedup (fst s)"
  by (induction cs arbitrary: s)
    (simp_all add: Let_def case_prod_beta subscribe_desired_def remember_def forget_if_unheld_def forget_channel_def)

lemma sweep_dedup: "bst_dedup (fst (foldl (\<lambda>s c. drop_unheld sha b c s) s cs)) = bst_dedup (fst s)"
  by (induction cs arbitrary: s) (simp_all add: drop_unheld_def Let_def case_prod_beta forget_channel_def)

lemma broadcast_step_cached:
  "cached_by (op_at op) (bst_dedup (bn_state n)) (bst_dedup (bn_state (broadcast_step env n op)))"
proof (cases op)
  case (BoEvent ev ck dr)
  have "bt_now_ms (broadcast_tick_of env ck dr o1) = ck_monotonic_ms ck" for o1 by (simp add: broadcast_tick_of_def)
  then show ?thesis
    using BoEvent admit_into_state_cached [of "broadcast_tick_of env ck dr (bn_outbox n)"]
    by (cases ev) (simp_all add: Let_def case_prod_beta split: option.split protocol_verdict.split)
next
  case (BoConfigure cfg)
  then show ?thesis
    by (simp add: configure_broadcast_def Let_def case_prod_beta apply_desired_dedup sweep_dedup split: sum.split)
next
  case (BoJoin c s)
  then show ?thesis
    by (simp add: join_command_def Let_def case_prod_beta remember_def forget_channel_def split: sum.split)
next
  case (BoLeave c s)
  then show ?thesis by (simp add: leave_command_def Let_def case_prod_beta forget_channel_def)
next
  case (BoPublish m ck c s f)
  have "bst_dedup (snd (remember (be_sha256 env) (bn_state n) c)) = bst_dedup (bn_state n)" by (simp add: remember_def Let_def)
  then show ?thesis
    using BoPublish deliver_locally_cached [of ck "snd (remember (be_sha256 env) (bn_state n) c)"]
    by (simp add: publish_command_def Let_def case_prod_beta)
qed (simp_all add: drain_session_def case_prod_beta broadcast_adopt_trust_def)

lemma holds_cached:
  assumes "holds k c key r" "cached_by at c c'" "within_ttl (ar_stored_at_ms r) (dc_ttl_ms c) at" "k + 2 < dc_max_entries c"
  shows "holds (k + 2) c' key r" "dc_ttl_ms c' = dc_ttl_ms c" "dc_max_entries c' = dc_max_entries c"
proof -
  obtain ops where ops: "c' = foldl dedup_step c ops" "length ops \<le> 2" "list_all (\<lambda>op. Some (op_time op) = at) ops"
    using assms(2) by (auto simp: cached_by_def)
  then have "list_all (\<lambda>op. op_time op - ar_stored_at_ms r < dc_ttl_ms c) ops"
    using assms(3) by (auto simp: list_all_iff within_ttl_def)
  then have "holds (k + length ops) c' key r"
    unfolding ops(1) using assms(4) ops(2) by (intro holds_run [OF assms(1)]) simp_all
  then show "holds (k + 2) c' key r" using ops(2) by (auto simp: holds_def intro: recent_mono)
  have "dedup_ok c" using assms(1) by (simp add: holds_def)
  then show "dc_ttl_ms c' = dc_ttl_ms c" "dc_max_entries c' = dc_max_entries c"
    by (simp_all add: ops(1) dedup_run_bounds)
qed

lemma holds_broadcast_run:
  assumes "holds k (bst_dedup (bn_state n)) key r"
    and "list_all (\<lambda>op. within_ttl (ar_stored_at_ms r) (dc_ttl_ms (bst_dedup (bn_state n))) (op_at op)) ops"
    and "k + 2 * length ops < dc_max_entries (bst_dedup (bn_state n))"
  shows "(\<exists>j. holds j (bst_dedup (bn_state (foldl (broadcast_step env) n ops))) key r)
    \<and> dc_ttl_ms (bst_dedup (bn_state (foldl (broadcast_step env) n ops))) = dc_ttl_ms (bst_dedup (bn_state n))"
  using assms
proof (induction ops arbitrary: k n)
  case (Cons op ops)
  note h = holds_cached [OF Cons.prems(1) broadcast_step_cached [of op n env]]
  show ?case using Cons.IH [OF h(1)] Cons.prems h(2,3) by simp
qed auto

lemma broadcast_new_dedup:
  "dedup_ok (bst_dedup (bn_state (foldl (broadcast_step env) (broadcast_node_new src mesh) ops)))
   \<and> dc_ttl_ms (bst_dedup (bn_state (foldl (broadcast_step env) (broadcast_node_new src mesh) ops))) = DEFAULT_TTL_MS
   \<and> dc_max_entries (bst_dedup (bn_state (foldl (broadcast_step env) (broadcast_node_new src mesh) ops))) = DEFAULT_MAX_ENTRIES"
proof (induction ops rule: rev_induct)
  case Nil
  then show ?case
    by (simp add: broadcast_node_new_def broadcast_state_new_def dedup_default_def dedup_new_ok)
      (simp add: dedup_new_def DEFAULT_MAX_ENTRIES_def)
next
  case (snoc op ops)
  then show ?case
    using broadcast_step_cached [of op "foldl (broadcast_step env) (broadcast_node_new src mesh) ops" env]
    by (auto simp: cached_by_def dedup.inv_run dedup_run_bounds)
qed

end
