(* ===== verification/Connection_Accounts.thy ===== *)
theory Connection_Accounts
  imports Connection_Manager
begin

text \<open>
  What every call on the connection manager does to its counters and to what it publishes:
  the published snapshot only changes with its revision, the counters are exactly what is held,
  and the room a dial's outcome was promised stays there until it is settled.
\<close>

section \<open>Publication\<close>

definition manager_frame :: "connection_manager \<Rightarrow> nat \<times> nat \<times> nat \<times> nat \<times> bool" where
  "manager_frame m =
    (cm_id m, cm_max_pending_dials m, cm_max_connections m, cm_max_retry_entries m, cm_alive m)"

definition revision_ok :: "connection_manager \<Rightarrow> bool" where
  "revision_ok m \<longleftrightarrow> cm_revision m \<le> U64_MAX \<and> ps_revision (cm_published m) = cm_revision m"

text \<open>
  A call changes none of the fixed fields, and leaves the published snapshot alone unless it
  raises the revision (up to the width of the counter).
\<close>

definition advances :: "connection_manager \<Rightarrow> connection_manager \<Rightarrow> bool" where
  "advances m m' \<longleftrightarrow> manager_frame m' = manager_frame m
     \<and> (revision_ok m \<longrightarrow> revision_ok m' \<and> cm_revision m \<le> cm_revision m'
          \<and> (cm_revision m' = cm_revision m \<and> cm_revision m' < U64_MAX \<longrightarrow> cm_published m' = cm_published m))"

lemma advances_refl [simp]: "advances m m"
  by (simp add: advances_def)

lemma advances_trans: "advances a b \<Longrightarrow> advances b c \<Longrightarrow> advances a c"
  by (auto simp: advances_def)

lemma advances_quiet:
  "manager_frame m' = manager_frame m \<Longrightarrow> cm_revision m' = cm_revision m \<Longrightarrow> cm_published m' = cm_published m
     \<Longrightarrow> advances m m'"
  by (simp add: advances_def revision_ok_def)

lemma advances_publish [simp]: "advances m (publish m)"
  by (auto simp: advances_def manager_frame_def revision_ok_def publish_def Let_def sat_add64_def)

lemma advances_then_publish: "advances m m' \<Longrightarrow> advances m (publish m')"
  by (rule advances_trans [OF _ advances_publish])

lemma make_room_refused: "\<not> fst (make_room_for_address p t) \<Longrightarrow> snd (make_room_for_address p t) = p"
  by (auto simp: make_room_for_address_def split: option.splits if_splits)

lemma release_refused: "\<not> fst (release_from_book p q a t) \<Longrightarrow> snd (release_from_book p q a t) = p"
  using make_room_refused [of p t]
  by (auto simp: release_from_book_def Let_def case_prod_beta split: option.splits if_splits)

text \<open>Leaving the book: nothing live to hand over, no room for it, or moved and published.\<close>

lemma hand_over_cases:
  fixes m q a t
  defines "p \<equiv> cm_policy m" and "r \<equiv> release_from_book (cm_policy m) q a t"
  obtains (idle) "\<not> (booked p (q, a) \<and> live_at p (q, a) t)" "hand_over m q a t = (fst r, m\<lparr>cm_policy := snd r\<rparr>)"
  | (stays) "booked p (q, a)" "live_at p (q, a) t" "hand_over m q a t = (False, m)"
  | (moved) "booked p (q, a)" "live_at p (q, a) t" "cm_outcomes m < cp_max_addresses p - live_quarantines p t"
      "fst r"
      "hand_over m q a t = (True, publish (m\<lparr>cm_policy := snd r, cm_outcomes := cm_outcomes m + 1,
         cm_outcomes_to_return := cm_outcomes_to_return m + 1\<rparr>))"
proof -
  have live: "(in_book (cp_book p) q a \<and>
      (case policy_address p q a of None \<Rightarrow> False | Some s \<Rightarrow> is_punitive_at s t))
      \<longleftrightarrow> booked p (q, a) \<and> live_at p (q, a) t"
    by (auto simp: policy_address_def live_at_record split: option.splits)
  have same: "m\<lparr>cm_policy := cm_policy m\<rparr> = m" by (cases m) simp
  consider "\<not> (booked p (q, a) \<and> live_at p (q, a) t)"
    | "booked p (q, a)" "live_at p (q, a) t" "\<not> cm_outcomes m < cp_max_addresses p - live_quarantines p t"
    | "booked p (q, a)" "live_at p (q, a) t" "cm_outcomes m < cp_max_addresses p - live_quarantines p t" "fst r"
    | "booked p (q, a)" "live_at p (q, a) t" "cm_outcomes m < cp_max_addresses p - live_quarantines p t" "\<not> fst r"
    by blast
  then show thesis
  proof cases
    case 1
    then show thesis
      using idle live unfolding hand_over_def Let_def p_def r_def by (simp only: if_True simp_thms) (simp add: case_prod_beta)
  next
    case 2
    then show thesis
      using stays live unfolding hand_over_def Let_def p_def by (simp add: reserve_def)
  next
    case 3
    then show thesis
      using moved live unfolding hand_over_def Let_def p_def r_def by (simp add: reserve_def case_prod_beta)
  next
    case 4
    then show thesis
      using stays live release_refused [of p q a t] same unfolding hand_over_def Let_def p_def r_def
      by (simp add: reserve_def case_prod_beta)
  qed
qed

lemma advances_hand_over: "advances m (snd (hand_over m q a t))"
proof -
  have "advances m (publish (m\<lparr>cm_policy := p, cm_outcomes := n, cm_outcomes_to_return := k\<rparr>))" for p n k
    by (rule advances_then_publish, rule advances_quiet) (simp_all add: manager_frame_def)
  moreover have "advances m (m\<lparr>cm_policy := p\<rparr>)" for p
    by (rule advances_quiet) (simp_all add: manager_frame_def)
  ultimately show ?thesis by (cases rule: hand_over_cases [of m q a t]) simp_all
qed

lemma advances_hand_over_all: "advances m (hand_over_all q as t m)"
  unfolding hand_over_all_def
  by (induction as arbitrary: m) (auto intro: advances_trans [OF advances_hand_over])

lemma advances_retire_loop: "advances m (snd (snd (retire_loop xs m)))"
proof (induction xs m rule: retire_loop.induct)
  case (2 q xs m)
  then show ?case
    by (auto simp: Let_def case_prod_beta intro: advances_trans [OF advances_hand_over_all])
qed simp

lemma advances_observe [simp]: "advances m (observe m t)"
  by (rule advances_quiet) (simp_all add: observe_def manager_frame_def)

lemma advances_enter_book: "advances m (enter_book m q a t)"
  by (rule advances_quiet) (simp_all add: enter_book_def Let_def manager_frame_def split: option.splits)

lemma advances_learn: "advances m (snd (learn_address m q a t))"
  using advances_trans [OF advances_observe advances_enter_book]
    advances_trans [OF advances_observe advances_hand_over]
    advances_trans [OF advances_trans [OF advances_observe advances_hand_over] advances_enter_book]
  by (auto simp: learn_address_def Let_def case_prod_beta split: option.splits)

section \<open>Accounting\<close>

text \<open>
  The manager's counters against what is held: \<open>np\<close> pending dials, \<open>nc\<close> connections,
  \<open>no\<close> outcome units of which \<open>n\<close> count against the current table, and the room that
  leaves beside the quarantines live at the time \<open>T\<close> no clock has passed.
\<close>

definition accounts :: "nat \<Rightarrow> nat \<Rightarrow> nat \<Rightarrow> nat \<Rightarrow> nat \<Rightarrow> connection_manager \<Rightarrow> bool" where
  "accounts T np nc no n m \<longleftrightarrow>
     policy_ok (cm_policy m) \<and> cm_pending m = np \<and> cm_connections m = nc
     \<and> cm_outcomes m = no + cm_outcomes_to_return m \<and> n \<le> no
     \<and> n + card (quarantined_keys (cm_policy m) T) \<le> cp_max_addresses (cm_policy m) \<and> cm_clock_ms m \<le> T"

lemma accounts_frame [simp]:
  "accounts T np nc no n (m\<lparr>cm_retries := r\<rparr>) = accounts T np nc no n m"
  "accounts T np nc no n (m\<lparr>cm_notes := ns\<rparr>) = accounts T np nc no n m"
  "accounts T np nc no n (m\<lparr>cm_notes_dropped := d\<rparr>) = accounts T np nc no n m"
  "accounts T np nc no n (m\<lparr>cm_trust := tr\<rparr>) = accounts T np nc no n m"
  "accounts T np nc no n (m\<lparr>cm_local_peer := l\<rparr>) = accounts T np nc no n m"
  "accounts T np nc no n (m\<lparr>cm_retired := rs\<rparr>) = accounts T np nc no n m"
  "accounts T np nc no n (m\<lparr>cm_network_lifts := ls\<rparr>) = accounts T np nc no n m"
  "accounts T np nc no n (m\<lparr>cm_max_addresses_per_peer := l'\<rparr>) = accounts T np nc no n m"
  "accounts T np nc no n (m\<lparr>cm_shutting_down := sd\<rparr>) = accounts T np nc no n m"
  by (simp_all add: accounts_def)

lemma accounts_publish [simp]: "accounts T np nc no n m \<Longrightarrow> accounts T np nc no n (publish m)"
  by (simp add: accounts_def publish_def Let_def)

lemma accounts_observe [simp]: "accounts T np nc no n m \<Longrightarrow> t \<le> T \<Longrightarrow> accounts T np nc no n (observe m t)"
  by (simp add: accounts_def observe_def)

lemma accounts_policy:
  assumes "accounts T np nc no n m" "policy_ok p" "policy_limits p = policy_limits (cm_policy m)"
    "quarantined_keys p T \<subseteq> quarantined_keys (cm_policy m) T"
  shows "accounts T np nc no n (m\<lparr>cm_policy := p\<rparr>)"
  using assms card_mono [OF finite_quarantined assms(4)]
  by (auto simp: accounts_def policy_limits_def)

lemma live_antimono: "live_at p k t \<Longrightarrow> u \<le> t \<Longrightarrow> live_at p k u"
  by (auto simp: live_at_def split: option.splits)

lemma quarantined_sub:
  assumes "t \<le> T" "\<And>k. booked p' k = booked p k"
    "\<And>k. quarantine_of p' k = quarantine_of p k \<or> quarantine_of p' k = None"
  shows "quarantined_keys p' T \<subseteq> quarantined_keys p T"
proof
  fix k assume "k \<in> quarantined_keys p' T"
  then show "k \<in> quarantined_keys p T"
    using assms(2) [of k] assms(3) [of k] by (auto simp: quarantined_keys_live live_at_def)
qed

lemma score_quarantined:
  assumes "policy_ok p"
  shows "quarantined_keys (score_address_failure p q a t) T \<subseteq> quarantined_keys p T"
proof (rule quarantined_sub [of T])
  have ok: "bm_ok (cp_addresses p)" using assms by (simp add: policy_ok_def)
  show "quarantine_of (score_address_failure p q a t) k = quarantine_of p k
      \<or> quarantine_of (score_address_failure p q a t) k = None" for k
    using score_keeps(1) [OF ok, of q a t k] by (elim disjE) simp_all
  show "booked (score_address_failure p q a t) k = booked p k" for k
    using score_keeps(2) [OF ok] by simp
qed simp

lemma failure_quarantined:
  assumes "policy_ok p"
  shows "quarantined_keys (snd (record_address_failure p q a t b)) T \<subseteq> quarantined_keys p T"
proof -
  have "quarantined_keys (snd (record_address_failure p q a t b)) T = quarantined_keys (score_address_failure p q a t) T"
    by (simp add: quarantined_keys_def failure_keeps)
  with score_quarantined [OF assms] show ?thesis by simp
qed

lemma success_quarantined:
  assumes "policy_ok p"
  shows "quarantined_keys (policy_record_success p q a t) T \<subseteq> quarantined_keys p T"
proof (rule quarantined_sub [of T])
  have ok: "bm_ok (cp_addresses p)" using assms by (simp add: policy_ok_def)
  show "quarantine_of (policy_record_success p q a t) k = quarantine_of p k
      \<or> quarantine_of (policy_record_success p q a t) k = None" for k
    using success_keeps(1) [OF ok, of k q a t] success_keeps(2) [OF ok, of q a t] by (cases "k = (q, a)") auto
  show "booked (policy_record_success p q a t) k = booked p k" for k
    using success_keeps(3) [OF ok] by simp
qed simp

lemma mismatch_quarantined:
  assumes "policy_ok p"
  shows "quarantined_keys (snd (policy_record_mismatch p q a t)) T \<subseteq> insert (q, a) (quarantined_keys p T)"
proof
  have ok: "bm_ok (cp_addresses p)" using assms by (simp add: policy_ok_def)
  fix k assume "k \<in> quarantined_keys (snd (policy_record_mismatch p q a t)) T"
  then show "k \<in> insert (q, a) (quarantined_keys p T)"
    using mismatch_keeps(1) [OF ok, of k q a t] mismatch_keeps(2) [OF ok, of q a t]
    by (cases "k = (q, a)") (auto simp: quarantined_keys_live live_at_def)
qed

lemma release_quarantined:
  assumes "policy_ok p" "t \<le> T"
  shows "quarantined_keys (snd (release_from_book p q a t)) T
    \<subseteq> quarantined_keys p T \<union> (if booked p (q, a) \<and> live_at p (q, a) t then {(q, a)} else {})"
proof
  have ok: "bm_ok (cp_addresses p)" using assms by (simp add: policy_ok_def)
  fix k assume k: "k \<in> quarantined_keys (snd (release_from_book p q a t)) T"
  then have live: "live_at p k T"
    using release_keeps(1) [OF ok, of q a t k] by (auto simp: quarantined_keys_live live_at_def)
  have "\<not> booked (snd (release_from_book p q a t)) k" using k by (simp add: quarantined_keys_live)
  then have own: "\<not> booked p k \<or> k = (q, a)" unfolding release_keeps(2) [OF ok] by blast
  show "k \<in> quarantined_keys p T \<union> (if booked p (q, a) \<and> live_at p (q, a) t then {(q, a)} else {})"
  proof (cases "booked p k")
    case True
    with own have "k = (q, a)" by blast
    with True live_antimono [OF live assms(2)] show ?thesis by simp
  next
    case False
    with live show ?thesis by (simp add: quarantined_keys_live)
  qed
qed

lemma accounts_hand_over:
  assumes "accounts T np nc no n m" "t \<le> T"
  shows "accounts T np nc no n (snd (hand_over m q a t))"
proof -
  let ?p = "cm_policy m" and ?r = "release_from_book (cm_policy m) q a t"
  have ok: "policy_ok ?p" using assms(1) by (simp add: accounts_def)
  have ok': "policy_ok (snd ?r)" by (rule release_from_book_ok [OF ok])
  note q = release_quarantined [OF ok assms(2), of q a]
  show ?thesis
  proof (cases rule: hand_over_cases [of m q a t])
    case idle
    then have "quarantined_keys (snd ?r) T \<subseteq> quarantined_keys ?p T" using q by auto
    then have "accounts T np nc no n (m\<lparr>cm_policy := snd ?r\<rparr>)"
      by (intro accounts_policy [OF assms(1) ok']) simp_all
    with idle show ?thesis by simp
  next
    case stays
    with assms(1) show ?thesis by simp
  next
    case moved
    have "quarantined_keys (snd ?r) T \<subseteq> insert (q, a) (quarantined_keys ?p T)" using q by (auto split: if_splits)
    then have "card (quarantined_keys (snd ?r) T) \<le> card (insert (q, a) (quarantined_keys ?p T))"
      by (simp add: card_mono)
    also have "\<dots> \<le> Suc (card (quarantined_keys ?p T))" by (simp add: card_insert_if)
    also have "\<dots> \<le> Suc (live_quarantines ?p t)"
      using ok assms(2) by (simp add: live_quarantines_card policy_ok_def card_mono quarantined_antimono)
    finally have "n + card (quarantined_keys (snd ?r) T) \<le> cp_max_addresses ?p"
      using moved(3) assms(1) unfolding accounts_def by linarith
    moreover have "cp_max_addresses (snd ?r) = cp_max_addresses ?p"
      using outcome_limits(4) [of ?p q a t] by (simp add: policy_limits_def)
    ultimately have "accounts T np nc no n (m\<lparr>cm_policy := snd ?r, cm_outcomes := cm_outcomes m + 1,
         cm_outcomes_to_return := cm_outcomes_to_return m + 1\<rparr>)"
      using assms(1) ok' by (simp add: accounts_def)
    with moved show ?thesis by simp
  qed
qed

lemma accounts_hand_over_all:
  "accounts T np nc no n m \<Longrightarrow> t \<le> T \<Longrightarrow> accounts T np nc no n (hand_over_all q as t m)"
  unfolding hand_over_all_def by (induction as arbitrary: m) (simp_all add: accounts_hand_over)

lemma accounts_retire_loop:
  "accounts T np nc no n m \<Longrightarrow> accounts T np nc no n (snd (snd (retire_loop xs m)))"
proof (induction xs m rule: retire_loop.induct)
  case (2 q xs m)
  have "cm_clock_ms m \<le> T" using 2(2) by (simp add: accounts_def)
  with 2 show ?case by (simp add: Let_def case_prod_beta accounts_hand_over_all)
qed simp

lemma accounts_enter_book: "accounts T np nc no n m \<Longrightarrow> accounts T np nc no n (enter_book m q a t)"
proof -
  assume acc: "accounts T np nc no n m"
  let ?p = "(cm_policy m)\<lparr>cp_book := book_add q a (cp_book (cm_policy m))\<rparr>"
  have "quarantined_keys ?p T \<subseteq> quarantined_keys (cm_policy m) T"
    by (auto simp: quarantined_keys_def in_book_add)
  then have "accounts T np nc no n (m\<lparr>cm_policy := ?p\<rparr>)"
    using acc by (intro accounts_policy [OF acc]) (simp_all add: accounts_def remember_ok)
  then show ?thesis by (simp add: enter_book_def Let_def split: option.splits)
qed

lemma accounts_learn:
  "accounts T np nc no n m \<Longrightarrow> t \<le> T \<Longrightarrow> accounts T np nc no n (snd (learn_address m q a t))"
  by (simp add: learn_address_def Let_def case_prod_beta accounts_enter_book accounts_hand_over split: option.splits)

lemma accounts_schedule [simp]: "accounts T np nc no n (snd (schedule_retry m q t d c)) = accounts T np nc no n m"
  by (simp add: schedule_retry_def Let_def)

lemma accounts_note [simp]: "accounts T np nc no n (push_note m x) = accounts T np nc no n m"
  by (simp add: push_note_def Let_def)

lemma accounts_update_retry [simp]: "accounts T np nc no n (update_retry f m q) = accounts T np nc no n m"
  by (simp add: update_retry_def split: option.splits)

text \<open>A ticket that is held has its pending dial and its connection, and its outcome unit when it names a peer.\<close>

definition ticket_ok :: "connection_manager \<Rightarrow> dial_ticket \<Rightarrow> bool" where
  "ticket_ok m t \<longleftrightarrow> tk_issuer t = cm_id m \<and> \<not> tk_settled t \<and> \<not> tk_connection_kept t
     \<and> (tk_outcome_reserved t \<longleftrightarrow> tk_peer t \<noteq> None)"

abbreviation units :: "dial_ticket \<Rightarrow> nat" where
  "units t \<equiv> (if tk_outcome_reserved t then 1 else 0)"

lemma accounts_settle:
  "accounts T (Suc np) (Suc nc) (no + units t) n' m \<Longrightarrow> n \<le> n' \<Longrightarrow> n \<le> no \<Longrightarrow> \<not> tk_connection_kept t \<Longrightarrow>
     accounts T np nc no n (settle m t)"
  by (auto simp: accounts_def settle_def drop_ticket_def Let_def)

lemma accounts_keep:
  "accounts T (Suc np) nc (no + units t) n' m \<Longrightarrow> n \<le> n' \<Longrightarrow> n \<le> no \<Longrightarrow>
     accounts T np nc no n (keep_connection m t)"
  by (auto simp: accounts_def keep_connection_def settle_def drop_ticket_def Let_def)

lemma accounts_drop:
  "accounts T (Suc np) (Suc nc) (no + units t) n' m \<Longrightarrow> n \<le> n' \<Longrightarrow> n \<le> no \<Longrightarrow> \<not> tk_connection_kept t
     \<Longrightarrow> \<not> tk_settled t \<Longrightarrow> accounts T np nc no n (drop_ticket t m)"
  by (auto simp: accounts_def drop_ticket_def)

section \<open>Calls\<close>

definition authority :: "connection_manager \<Rightarrow> trust_sources \<times> transport_identity option \<times> bool" where
  "authority m = (cm_trust m, cm_local_peer m, cm_shutting_down m)"

lemma authority_update [simp]:
  "authority (m\<lparr>cm_policy := p\<rparr>) = authority m"
  "authority (m\<lparr>cm_retries := r\<rparr>) = authority m"
  "authority (m\<lparr>cm_network_lifts := l\<rparr>) = authority m"
  "authority (m\<lparr>cm_notes := ns\<rparr>) = authority m"
  "authority (m\<lparr>cm_notes_dropped := d\<rparr>) = authority m"
  "authority (m\<lparr>cm_retired := rs\<rparr>) = authority m"
  "authority (m\<lparr>cm_outcomes := no\<rparr>) = authority m"
  "authority (m\<lparr>cm_outcomes_to_return := k\<rparr>) = authority m"
  "authority (m\<lparr>cm_connections := nc\<rparr>) = authority m"
  "authority (m\<lparr>cm_pending := np\<rparr>) = authority m"
  "authority (m\<lparr>cm_max_addresses_per_peer := lim\<rparr>) = authority m"
  "authority (publish m) = authority m"
  "authority (observe m t) = authority m"
  by (simp_all add: authority_def publish_def observe_def Let_def)

lemma authority_hand_over [simp]: "authority (snd (hand_over m q a t)) = authority m"
  by (cases rule: hand_over_cases [of m q a t]) simp_all

lemma authority_hand_over_all [simp]: "authority (hand_over_all q as t m) = authority m"
  unfolding hand_over_all_def by (induction as arbitrary: m) simp_all

lemma authority_retire_loop [simp]: "authority (snd (snd (retire_loop xs m))) = authority m"
  by (induction xs m rule: retire_loop.induct) (simp_all add: Let_def case_prod_beta)

lemma authority_enter_book [simp]: "authority (enter_book m q a t) = authority m"
  by (simp add: enter_book_def Let_def split: option.splits)

lemma authority_learn [simp]: "authority (snd (learn_address m q a t)) = authority m"
  by (simp add: learn_address_def Let_def case_prod_beta split: option.splits)

lemma authority_book_keeping [simp]:
  "authority (snd (schedule_retry m q t d c)) = authority m"
  "authority (push_note m x) = authority m"
  "authority (update_retry f m q) = authority m"
  "authority (drop_ticket k m) = authority m"
  "authority (settle m k) = authority m"
  "authority (keep_connection m k) = authority m"
  by (simp_all add: schedule_retry_def push_note_def update_retry_def keep_connection_def settle_def drop_ticket_def
      Let_def split: option.splits)

lemma advances_book_keeping [simp]:
  "advances m (snd (schedule_retry m q t d c))"
  "advances m (push_note m x)"
  "advances m (update_retry f m q)"
  "advances m (drop_ticket k m)"
  "advances m (settle m k)"
  "advances m (keep_connection m k)"
  "advances m (m\<lparr>cm_policy := p\<rparr>)"
  "advances m (m\<lparr>cm_retries := r\<rparr>)"
  "advances m (m\<lparr>cm_network_lifts := l\<rparr>)"
  "advances m (m\<lparr>cm_notes := ns\<rparr>)"
  "advances m (m\<lparr>cm_retired := rs\<rparr>)"
  "advances m (m\<lparr>cm_max_addresses_per_peer := lim\<rparr>)"
  "advances m (m\<lparr>cm_connections := nc\<rparr>)"
  by (rule advances_quiet; simp add: manager_frame_def schedule_retry_def push_note_def update_retry_def
      keep_connection_def settle_def drop_ticket_def Let_def split: option.splits)+

text \<open>
  \<open>call T np nc no n m0 m\<close>: a call that started from \<open>m0\<close> has come to \<open>m\<close>, leaving
  the trust and the draining flag alone and the counters as given.
\<close>

definition call :: "nat \<Rightarrow> nat \<Rightarrow> nat \<Rightarrow> nat \<Rightarrow> nat \<Rightarrow> connection_manager \<Rightarrow> connection_manager \<Rightarrow> bool" where
  "call T np nc no n m0 m \<longleftrightarrow> accounts T np nc no n m \<and> advances m0 m \<and> authority m = authority m0"

lemma callI:
  "advances m0 m \<Longrightarrow> authority m = authority m0 \<Longrightarrow> accounts T np nc no n m \<Longrightarrow> call T np nc no n m0 m"
  by (simp add: call_def)

lemma call_step:
  "call T np nc no n m0 m \<Longrightarrow> advances m m' \<Longrightarrow> authority m' = authority m \<Longrightarrow>
     (accounts T np nc no n m \<Longrightarrow> accounts T np' nc' no' n' m') \<Longrightarrow> call T np' nc' no' n' m0 m'"
  unfolding call_def using advances_trans by auto

lemma call_refl: "accounts T np nc no n m \<Longrightarrow> call T np nc no n m m"
  by (simp add: call_def)

lemma call_ok: "call T np nc no n m0 m \<Longrightarrow> policy_ok (cm_policy m)"
  by (simp add: call_def accounts_def)

lemma call_clock: "call T np nc no n m0 m \<Longrightarrow> cm_clock_ms m \<le> T"
  by (simp add: call_def accounts_def)

lemma call_policy:
  "call T np nc no n m0 m \<Longrightarrow> policy_ok p \<Longrightarrow> policy_limits p = policy_limits (cm_policy m) \<Longrightarrow>
     quarantined_keys p T \<subseteq> quarantined_keys (cm_policy m) T \<Longrightarrow> call T np nc no n m0 (m\<lparr>cm_policy := p\<rparr>)"
  by (erule call_step) (simp_all add: accounts_policy)

lemma call_steps:
  assumes "call T np nc no n m0 m"
  shows "call T np nc no n m0 (m\<lparr>cm_retries := r\<rparr>)"
    and "call T np nc no n m0 (m\<lparr>cm_network_lifts := l\<rparr>)"
    and "call T np nc no n m0 (m\<lparr>cm_notes := ns\<rparr>)"
    and "call T np nc no n m0 (m\<lparr>cm_retired := rs\<rparr>)"
    and "call T np nc no n m0 (m\<lparr>cm_max_addresses_per_peer := lim\<rparr>)"
    and "call T np nc no n m0 (publish m)"
    and "call T np nc no n m0 (update_retry f m q)"
    and "call T np nc no n m0 (push_note m x)"
    and "call T np nc no n m0 (snd (schedule_retry m q d c cl))"
  by (rule call_step [OF assms]; simp)+

lemma call_timed:
  assumes "call T np nc no n m0 m" "t \<le> T"
  shows "call T np nc no n m0 (observe m t)"
    and "call T np nc no n m0 (snd (learn_address m q a t))"
    and "call T np nc no n m0 (snd (hand_over m q a t))"
    and "call T np nc no n m0 (hand_over_all q as t m)"
  using assms(2)
  by (auto intro!: call_step [OF assms(1)] advances_learn advances_hand_over advances_hand_over_all
      simp: accounts_learn accounts_hand_over accounts_hand_over_all)

lemma call_retire_loop:
  "call T np nc no n m0 m \<Longrightarrow> call T np nc no n m0 (snd (snd (retire_loop xs m)))"
  by (erule call_step) (simp_all add: advances_retire_loop accounts_retire_loop)

lemma call_outcomes:
  assumes "call T np nc no n m0 m"
  shows "call T np nc no n m0 (m\<lparr>cm_policy := policy_record_success (cm_policy m) q a t\<rparr>)"
    and "call T np nc no n m0 (m\<lparr>cm_policy := score_address_failure (cm_policy m) q a t\<rparr>)"
    and "call T np nc no n m0 (m\<lparr>cm_policy := snd (record_address_failure (cm_policy m) q a t b)\<rparr>)"
  by (rule call_policy [OF assms];
      simp add: call_ok [OF assms] success_ok score_ok record_address_failure_ok success_quarantined
        score_quarantined failure_quarantined)+

lemma call_settle:
  "call T (Suc np) (Suc nc) (no + units t) n' m0 m \<Longrightarrow> n \<le> n' \<Longrightarrow> n \<le> no \<Longrightarrow> \<not> tk_connection_kept t \<Longrightarrow>
     call T np nc no n m0 (settle m t)"
  by (erule call_step) (simp_all add: accounts_settle)

lemma call_keep:
  "call T (Suc np) nc (no + units t) n' m0 m \<Longrightarrow> n \<le> n' \<Longrightarrow> n \<le> no \<Longrightarrow>
     call T np nc no n m0 (keep_connection m t)"
  by (erule call_step) (simp_all add: accounts_keep)

section \<open>Settlements\<close>

text \<open>The manager before a ticket is settled, and what settling gives back.\<close>

definition ticket_held ::
  "nat \<Rightarrow> nat \<Rightarrow> nat \<Rightarrow> nat \<Rightarrow> nat \<Rightarrow> nat \<Rightarrow> nat \<Rightarrow> connection_manager \<Rightarrow> dial_ticket \<Rightarrow> bool" where
  "ticket_held T now np nc no n n' m t \<longleftrightarrow> accounts T (Suc np) (Suc nc) (no + units t) n' m \<and> ticket_ok m t
     \<and> n \<le> n' \<and> n \<le> no \<and> settled_at t now \<le> T"

lemma issued_observe [simp]: "issued_here (observe m t) = issued_here m"
  by (simp add: issued_here_def fun_eq_iff observe_def)

lemma holds_observe:
  assumes "ticket_held T now np nc no n n' m t"
  shows "call T (Suc np) (Suc nc) (no + units t) n' m (observe m (settled_at t now))" "issued_here m t"
    "call T (Suc np) (Suc nc) (no + units t) n' m (observe m now)"
    "n \<le> n'" "n \<le> no" "\<not> tk_connection_kept t" "settled_at t now \<le> T"
  using assms by (auto simp: ticket_held_def ticket_ok_def issued_here_def settled_at_def split: if_splits
      intro!: call_timed call_refl)

lemmas settle_intros = call_steps(6-9) call_settle call_timed(2,3) call_outcomes call_steps(1)

lemma call_record_failure:
  assumes "ticket_held T now np nc no n n' m t"
  shows "call T np nc no n m (snd (record_failure m t now))"
proof -
  note h = holds_observe [OF assms]
  show ?thesis
    unfolding record_failure_def Let_def issued_observe case_prod_beta if_P [OF h(2)]
    using h by (auto simp only: snd_conv intro!: settle_intros split: option.split if_split)
qed

lemma call_relay_hop_unreached:
  assumes "ticket_held T now np nc no n n' m t"
  shows "call T np nc no n m (snd (record_relay_hop_unreached m t relay up now))"
proof -
  note h = holds_observe [OF assms]
  show ?thesis
    unfolding record_relay_hop_unreached_def Let_def issued_observe case_prod_beta
    using h by (auto simp only: snd_conv intro!: settle_intros split: option.split if_split)
qed

lemma call_permanent_failure:
  assumes "ticket_held T now np nc no n n' m t"
  shows "call T np nc no n m (record_permanent_failure m t now)"
proof -
  note h = holds_observe [OF assms]
  show ?thesis
    unfolding record_permanent_failure_def Let_def issued_observe case_prod_beta release_retry_claim_def
    using h by (auto simp only: snd_conv intro!: settle_intros split: option.split if_split)
qed

lemma call_refusals:
  assumes "ticket_held T now np nc no n n' m t"
  shows "call T np nc no n m (record_authorization_withdrawn m t now)"
    and "call T np nc no n m (record_locally_refused m t now)"
proof -
  note h = holds_observe [OF assms]
  show "call T np nc no n m (record_authorization_withdrawn m t now)"
    unfolding record_authorization_withdrawn_def Let_def issued_observe clear_retry_claim_def
    using h by (auto simp only: snd_conv intro!: settle_intros split: option.split if_split)
  then show "call T np nc no n m (record_locally_refused m t now)"
    by (simp add: record_authorization_withdrawn_def record_locally_refused_def)
qed

lemma call_record_success:
  assumes "ticket_held T now np nc no n n' m t"
  shows "call T np (Suc nc) no n m (record_success m t now)"
proof -
  note h = holds_observe [OF assms]
  have "call T (Suc np) (Suc nc) (no + units t) n' m ((observe m (settled_at t now))\<lparr>
      cm_policy := policy_record_success (cm_policy (observe m (settled_at t now))) peer (tk_address t) (settled_at t now),
      cm_retries := bm_remove peer (cm_retries (observe m (settled_at t now)))\<rparr>)" for peer
    by (rule call_steps(1), rule call_outcomes(1), rule h(1))
  then show ?thesis
    unfolding record_success_def Let_def issued_observe
    using h by (auto simp only: snd_conv intro!: call_steps(6) call_keep split: option.split if_split)
qed

lemma quarantined_bound: "policy_ok p \<Longrightarrow> card (quarantined_keys p T) \<le> cp_max_addresses p"
  using card_mono [OF finite_outside quarantined_outside [of p T]] by (simp add: policy_ok_def)

text \<open>A mismatch turns the outcome unit of its own ticket into a quarantine.\<close>

lemma call_mismatch_recorded:
  assumes "ticket_held T now np nc no n n' m t" "n' = n + units t \<or> n = 0" "tk_peer t = Some q"
  defines "m1 \<equiv> observe m (settled_at t now)"
  defines "p \<equiv> snd (policy_record_mismatch (cm_policy m1) q (tk_address t) (settled_at t now))"
  shows "call T (Suc np) (Suc nc) (no + units t) n m (m1\<lparr>cm_policy := p\<rparr>)"
proof -
  note h = holds_observe [OF assms(1), folded m1_def]
  have unit: "units t = 1" using assms(1,3) by (simp add: ticket_held_def ticket_ok_def)
  show ?thesis
  proof (rule call_step [OF h(1)])
    assume acc: "accounts T (Suc np) (Suc nc) (no + units t) n' m1"
    then have ok: "policy_ok (cm_policy m1)" by (simp add: accounts_def)
    have max: "cp_max_addresses p = cp_max_addresses (cm_policy m1)"
      using outcome_limits(3) [of "cm_policy m1" q "tk_address t" "settled_at t now"] by (simp add: policy_limits_def p_def)
    have "card (quarantined_keys p T) \<le> card (insert (q, tk_address t) (quarantined_keys (cm_policy m1) T))"
      by (simp only: p_def card_mono mismatch_quarantined [OF ok] finite_insert finite_quarantined)
    also have "\<dots> \<le> Suc (card (quarantined_keys (cm_policy m1) T))" by (simp add: card_insert_if)
    finally have more: "card (quarantined_keys p T) \<le> Suc (card (quarantined_keys (cm_policy m1) T))" .
    have "n + card (quarantined_keys p T) \<le> cp_max_addresses p"
    proof (cases "n = 0")
      case True
      then show ?thesis using quarantined_bound [OF mismatch_ok [OF ok]] by (simp add: p_def)
    next
      case False
      with more acc unit assms(2) max show ?thesis unfolding accounts_def by linarith
    qed
    then show "accounts T (Suc np) (Suc nc) (no + units t) n (m1\<lparr>cm_policy := p\<rparr>)"
      using acc h(4,5) mismatch_ok [OF ok, of q "tk_address t" "settled_at t now"] by (simp add: accounts_def p_def)
  qed simp_all
qed

lemma call_identity_mismatch:
  assumes "ticket_held T now np nc no n n' m t" "n' = n + units t \<or> n = 0"
  shows "call T np nc no n m (snd (record_identity_mismatch m t now))"
proof (cases "tk_peer t")
  case None
  note h = holds_observe [OF assms(1)]
  then show ?thesis
    unfolding record_identity_mismatch_def Let_def issued_observe using None
    by (auto simp only: snd_conv option.case intro!: settle_intros split: if_split)
next
  case (Some q)
  note h = holds_observe [OF assms(1)] and recorded = call_mismatch_recorded [OF assms Some]
  show ?thesis
    unfolding record_identity_mismatch_def Let_def issued_observe case_prod_beta release_retry_claim_def
    using h Some recorded by (auto simp only: snd_conv option.case intro!: call_steps(6-8) call_settle split: if_split)
qed

section \<open>Calls that hold no ticket\<close>

lemma call_unadmitted:
  assumes "accounts T np nc no n m" "t \<le> T"
  shows "call T np nc no n m (record_address_failure_unadmitted m q a t)"
    and "call T np nc no n m (record_permanent_address_failure_unadmitted m q a)"
proof -
  note r = call_refl [OF assms(1)]
  show "call T np nc no n m (record_address_failure_unadmitted m q a t)"
    unfolding record_address_failure_unadmitted_def Let_def
    using r assms(2) by (auto intro!: call_steps(6) call_timed(2) call_outcomes(3))
  show "call T np nc no n m (record_permanent_address_failure_unadmitted m q a)"
    unfolding record_permanent_address_failure_unadmitted_def
    using r call_clock [OF r] by (auto intro!: call_steps(6) call_timed(3))
qed

lemma call_relay_reached:
  "accounts T np nc no n m \<Longrightarrow> t \<le> T \<Longrightarrow> call T np nc no n m (relay_reached m relay t)"
  unfolding relay_reached_def Let_def by (intro call_steps call_timed call_refl)

lemma call_reclaim: "call T np nc no n m0 m \<Longrightarrow> call T np nc no n m0 (foldl (\<lambda>m (peer, _). reclaim_retry m peer) m due)"
  by (induction due arbitrary: m) (auto simp: reclaim_retry_def call_steps)

lemma call_take_due:
  "accounts T np nc no n m \<Longrightarrow> t \<le> T \<Longrightarrow> call T np nc no n m (snd (take_due_retries m t limit))"
  unfolding take_due_retries_def Let_def snd_conv by (intro call_reclaim call_timed call_refl)

lemma quarantined_peers [simp]: "quarantined_keys (p\<lparr>cp_peers := ps\<rparr>) T = quarantined_keys p T"
  by (simp add: quarantined_keys_def)

lemma call_backoffs:
  assumes "call T np nc no n m0 m"
  shows "call T np nc no n m0 (m\<lparr>cm_policy := snd (clear_peer_backoff (cm_policy m) q)\<rparr>)"
    and "call T np nc no n m0 (m\<lparr>cm_policy := snd (lift_peer_backoff (cm_policy m) q t)\<rparr>)"
proof -
  note ok = call_ok [OF assms]
  have "quarantined_keys (snd (clear_peer_backoff (cm_policy m) q)) T = quarantined_keys (cm_policy m) T"
    "quarantined_keys (snd (lift_peer_backoff (cm_policy m) q t)) T = quarantined_keys (cm_policy m) T"
    by (simp_all add: clear_peer_backoff_def lift_peer_backoff_def split: option.splits)
  with clear_ok [OF ok, of q] lift_ok [OF ok, of q t]
  show "call T np nc no n m0 (m\<lparr>cm_policy := snd (clear_peer_backoff (cm_policy m) q)\<rparr>)"
    "call T np nc no n m0 (m\<lparr>cm_policy := snd (lift_peer_backoff (cm_policy m) q t)\<rparr>)"
    by (auto intro!: call_policy [OF assms])
qed

lemma call_inbound_retained:
  assumes "accounts T np nc no n m" "t \<le> T"
  shows "call T np nc no n m (snd (record_inbound_retained m q t))"
proof -
  have "call T np nc no n m ((observe m t)\<lparr>cm_policy := snd (clear_peer_backoff (cm_policy (observe m t)) q),
      cm_retries := bm_remove q (cm_retries (observe m t))\<rparr>)"
    using assms by (intro call_steps(1) call_backoffs call_timed(1) call_refl)
  then show ?thesis
    unfolding record_inbound_retained_def Let_def case_prod_beta by (auto simp only: snd_conv intro!: call_steps split: if_split)
qed

lemma call_lift_peer:
  assumes "call T np nc no n m0 (snd st)"
  shows "call T np nc no n m0 (snd (lift_peer t st q))"
  unfolding lift_peer_def Let_def case_prod_beta using assms
  by (auto simp only: snd_conv intro!: call_steps(2,7) call_backoffs split: if_split)

lemma call_lift_peers: "call T np nc no n m0 (snd st) \<Longrightarrow> call T np nc no n m0 (snd (foldl (lift_peer t) st ps))"
  by (induction ps arbitrary: st) (simp_all add: call_lift_peer)

lemma call_network_added:
  assumes "accounts T np nc no n m" "t \<le> T"
  shows "call T np nc no n m (snd (network_added m t))"
  unfolding network_added_def Let_def case_prod_beta using assms
  by (auto simp only: snd_conv intro!: call_steps(2,6) call_lift_peers call_timed(1) call_refl split: if_split)

section \<open>What is in force\<close>

text \<open>
  The policy a manager holds and the one it last published differ only in what learning a route
  does between: no quarantine is in force that was not published.
\<close>

definition fresher :: "nat \<Rightarrow> connection_policy \<Rightarrow> connection_policy \<Rightarrow> bool" where
  "fresher T p p0 \<longleftrightarrow> cp_max_addresses p = cp_max_addresses p0 \<and> quarantined_keys p T \<subseteq> quarantined_keys p0 T
     \<and> (\<forall>k t. live_at p k t \<longrightarrow> live_at p0 k t)"

definition in_force :: "nat \<Rightarrow> connection_manager \<Rightarrow> bool" where
  "in_force T m \<longleftrightarrow> cm_outcomes_to_return m = 0 \<and> ps_trust (cm_published m) = cm_trust m
     \<and> policy_ok (ps_policy (cm_published m)) \<and> ps_max_pending_dials (cm_published m) = cm_max_pending_dials m
     \<and> ps_max_connections (cm_published m) = cm_max_connections m
     \<and> fresher T (cm_policy m) (ps_policy (cm_published m))"

lemma fresher_refl [simp]: "fresher T p p"
  by (simp add: fresher_def)

lemma fresher_trans: "fresher T p p' \<Longrightarrow> fresher T p' p'' \<Longrightarrow> fresher T p p''"
  unfolding fresher_def by (metis (no_types) subset_trans)

lemma fresher_later: "fresher T p p0 \<Longrightarrow> T \<le> T' \<Longrightarrow> fresher T' p p0"
  using quarantined_antimono [of T T' p] unfolding fresher_def quarantined_keys_live by blast

lemma in_force_publish [simp]: "policy_ok (cm_policy m) \<Longrightarrow> in_force T (publish m)"
  by (simp add: in_force_def publish_def Let_def)

lemma in_force_quiet [simp]:
  "in_force T (m\<lparr>cm_retries := r\<rparr>) = in_force T m"
  "in_force T (m\<lparr>cm_network_lifts := l\<rparr>) = in_force T m"
  "in_force T (m\<lparr>cm_notes := ns\<rparr>) = in_force T m"
  "in_force T (m\<lparr>cm_retired := rs\<rparr>) = in_force T m"
  "in_force T (m\<lparr>cm_max_addresses_per_peer := lim\<rparr>) = in_force T m"
  "in_force T (update_retry f m q) = in_force T m"
  "in_force T (observe m t) = in_force T m"
  by (simp_all add: in_force_def observe_def update_retry_def split: option.splits)

lemma in_force_policy:
  "in_force T m \<Longrightarrow> fresher T p (cm_policy m) \<Longrightarrow> in_force T (m\<lparr>cm_policy := p\<rparr>)"
  by (auto simp: in_force_def intro: fresher_trans)

lemma fresher_release:
  assumes "policy_ok p" "t \<le> T" "\<not> (booked p (q, a) \<and> live_at p (q, a) t)"
  shows "fresher T (snd (release_from_book p q a t)) p"
proof -
  have ok: "bm_ok (cp_addresses p)" using assms by (simp add: policy_ok_def)
  have "live_at p k u" if "live_at (snd (release_from_book p q a t)) k u" for k u
    using that release_keeps(1) [OF ok, of q a t k] by (auto simp: live_at_def)
  moreover have "cp_max_addresses (snd (release_from_book p q a t)) = cp_max_addresses p"
    using outcome_limits(4) [of p q a t] by (simp add: policy_limits_def)
  ultimately show ?thesis
    using release_quarantined [OF assms(1,2), of q a] assms(3) by (auto simp: fresher_def)
qed

lemma in_force_hand_over:
  assumes "in_force T m" "policy_ok (cm_policy m)" "t \<le> T"
  shows "in_force T (snd (hand_over m q a t))"
  using assms release_from_book_ok [OF assms(2)]
  by (cases rule: hand_over_cases [of m q a t]) (simp_all add: in_force_policy fresher_release)

lemma in_force_enter_book: "in_force T m \<Longrightarrow> in_force T (enter_book m q a t)"
proof -
  let ?p = "(cm_policy m)\<lparr>cp_book := book_add q a (cp_book (cm_policy m))\<rparr>"
  have "fresher T ?p (cm_policy m)"
    by (auto simp: fresher_def quarantined_keys_def in_book_add live_at_def quarantine_of_def)
  moreover assume "in_force T m"
  ultimately have "in_force T (m\<lparr>cm_policy := ?p\<rparr>)" by (rule in_force_policy [rotated])
  then show ?thesis by (simp add: enter_book_def Let_def split: option.splits)
qed

lemma in_force_learn:
  assumes "in_force T m" "policy_ok (cm_policy m)" "t \<le> T"
  shows "in_force T (snd (learn_address m q a t))"
  using assms in_force_hand_over [of T "observe m t" t]
  by (auto simp: learn_address_def Let_def case_prod_beta in_force_enter_book observe_def [of m t, THEN arg_cong [of _ _ cm_policy]]
      split: option.splits)

end
