(* ===== verification/Connection_Funnel.thy ===== *)
theory Connection_Funnel
  imports Connection_Accounts
begin

text \<open>
  The funnel as a whole: admissions by several holders of snapshots, split where other calls may
  come between (the decision, the reservations, the second look), interleaved with every call on
  the manager.  The theorems are about every reachable state: the counters are exactly what is
  held, a granted dial was decided on the policy in force, and an admitted dial's outcome always
  finds room to be recorded.
\<close>

section \<open>Calls\<close>

datatype dial_outcome =
    OcSuccess | OcFailure | OcRelayHop transport_identity bool | OcPermanent | OcWithdrawn | OcRefused | OcMismatch

fun record_outcome :: "dial_outcome \<Rightarrow> connection_manager \<Rightarrow> dial_ticket \<Rightarrow> nat \<Rightarrow> connection_manager" where
  "record_outcome OcSuccess m t now = record_success m t now"
| "record_outcome OcFailure m t now = snd (record_failure m t now)"
| "record_outcome (OcRelayHop relay up) m t now = snd (record_relay_hop_unreached m t relay up now)"
| "record_outcome OcPermanent m t now = record_permanent_failure m t now"
| "record_outcome OcWithdrawn m t now = record_authorization_withdrawn m t now"
| "record_outcome OcRefused m t now = record_locally_refused m t now"
| "record_outcome OcMismatch m t now = snd (record_identity_mismatch m t now)"

datatype manager_call =
    McLearn transport_identity address nat
  | McFailure transport_identity address nat
  | McPermanent transport_identity address
  | McRelayReached transport_identity nat
  | McTakeDue nat nat
  | McClaim transport_identity
  | McReleaseClaim transport_identity
  | McClearClaim transport_identity
  | McRetained transport_identity nat
  | McNetworkAdded nat
  | McMaxAddresses nat
  | McDrainNotes

fun perform :: "connection_manager \<Rightarrow> manager_call \<Rightarrow> connection_manager" where
  "perform m (McLearn q a t) = snd (learn_address m q a t)"
| "perform m (McFailure q a t) = record_address_failure_unadmitted m q a t"
| "perform m (McPermanent q a) = record_permanent_address_failure_unadmitted m q a"
| "perform m (McRelayReached q t) = relay_reached m q t"
| "perform m (McTakeDue t limit) = snd (take_due_retries m t limit)"
| "perform m (McClaim q) = reclaim_retry m q"
| "perform m (McReleaseClaim q) = release_retry_claim m q"
| "perform m (McClearClaim q) = clear_retry_claim m q"
| "perform m (McRetained q t) = snd (record_inbound_retained m q t)"
| "perform m (McNetworkAdded t) = snd (network_added m t)"
| "perform m (McMaxAddresses limit) = set_max_addresses_per_peer m limit"
| "perform m McDrainNotes = snd (drain_notes m)"

fun call_time :: "manager_call \<Rightarrow> nat option" where
  "call_time (McLearn _ _ t) = Some t"
| "call_time (McFailure _ _ t) = Some t"
| "call_time (McRelayReached _ t) = Some t"
| "call_time (McTakeDue t _) = Some t"
| "call_time (McRetained _ t) = Some t"
| "call_time (McNetworkAdded t) = Some t"
| "call_time _ = None"

lemma call_record_outcome:
  assumes "ticket_held T now np nc no n n' m t" "n' = n + units t \<or> n = 0"
  shows "call T np (if oc = OcSuccess then Suc nc else nc) no n m (record_outcome oc m t now)"
  using call_record_success [OF assms(1)] call_record_failure [OF assms(1)] call_permanent_failure [OF assms(1)]
    call_relay_hop_unreached [OF assms(1)] call_refusals [OF assms(1)] call_identity_mismatch [OF assms]
  by (cases oc) simp_all

lemma record_outcome_publishes: "issued_here m t \<Longrightarrow> \<exists>x. record_outcome oc m t now = publish x"
  by (cases oc)
    (auto simp: record_success_def record_failure_def record_relay_hop_unreached_def record_permanent_failure_def
      record_authorization_withdrawn_def record_locally_refused_def record_identity_mismatch_def Let_def
      case_prod_beta split: option.split)

lemma observe_fields [simp]:
  "cm_policy (observe m t) = cm_policy m" "cm_retries (observe m t) = cm_retries m"
  by (simp_all add: observe_def)

lemma policy_publish [simp]: "cm_policy (publish m) = cm_policy m"
  by (simp add: publish_def Let_def)

lemma in_force_outcome:
  assumes "ticket_held T now np nc no n n' m t" "n' = n + units t \<or> n = 0"
  shows "in_force T (record_outcome oc m t now)"
proof -
  have "issued_here m t" using assms(1) by (simp add: ticket_held_def ticket_ok_def issued_here_def)
  then obtain x where "record_outcome oc m t now = publish x" using record_outcome_publishes by blast
  with call_ok [OF call_record_outcome [OF assms, of oc]] show ?thesis by simp
qed

lemma call_manager_call:
  assumes "accounts T np nc no n m" "\<forall>t. call_time c = Some t \<longrightarrow> t \<le> T"
  shows "call T np nc no n m (perform m c)"
proof -
  note r = call_refl [OF assms(1)]
  show ?thesis
    using assms(2) call_unadmitted(1) [OF assms(1)] call_unadmitted(2) [OF assms(1) le_refl] call_relay_reached [OF assms(1)] call_take_due [OF assms(1)]
      call_inbound_retained [OF assms(1)] call_network_added [OF assms(1)] call_timed(2) [OF r] call_steps [OF r]
    by (cases c) (simp_all add: reclaim_retry_def release_retry_claim_def clear_retry_claim_def
        set_max_addresses_per_peer_def drain_notes_def)
qed

lemma in_force_claim: "in_force T (reclaim_retry m q) = in_force T m"
  by (simp add: reclaim_retry_def)

lemma in_force_reclaim: "in_force T (foldl (\<lambda>m (peer, _). reclaim_retry m peer) m due) = in_force T m"
proof (induction due arbitrary: m)
  case (Cons d due)
  then show ?case by (simp only: foldl_Cons case_prod_beta in_force_claim)
qed simp

lemma fresher_peers [simp]: "fresher T (p\<lparr>cp_peers := ps\<rparr>) p"
proof -
  have "live_at (p\<lparr>cp_peers := ps\<rparr>) k t = live_at p k t" for k t
    by (simp add: live_at_def quarantine_of_def)
  then show ?thesis by (simp add: fresher_def)
qed

lemma in_force_lift_peers:
  "in_force T m \<Longrightarrow> in_force T (snd (foldl (lift_peer t) (k, m) ps))"
proof (induction ps arbitrary: k m)
  case (Cons q ps)
  have "in_force T (m\<lparr>cm_policy := snd (lift_peer_backoff (cm_policy m) q t)\<rparr>)"
    using Cons.prems by (rule in_force_policy) (simp add: lift_peer_backoff_def split: option.splits)
  then have "in_force T (snd (lift_peer t (k, m) q))"
    by (simp add: lift_peer_def Let_def case_prod_beta)
  then show ?case
    using Cons.IH [of "snd (lift_peer t (k, m) q)" "fst (lift_peer t (k, m) q)"] by simp
qed simp

lemma in_force_manager_call:
  assumes "accounts T np nc no n m" "\<forall>t. call_time c = Some t \<longrightarrow> t \<le> T" "in_force T m"
  shows "in_force T (perform m c)"
proof -
  note cl = call_ok [OF call_manager_call [OF assms(1,2)]]
  have ok: "policy_ok (cm_policy m)" using assms(1) by (simp add: accounts_def)
  have pub: "in_force T (perform m c)" if "perform m c = publish x" for x
    using cl unfolding that by simp
  show ?thesis
  proof (cases c)
    case (McLearn q a t)
    then show ?thesis using in_force_learn [OF assms(3) ok] assms(2) by simp
  next
    case (McFailure q a t)
    show ?thesis
    proof (cases "a = []")
      case True
      with McFailure assms(3) show ?thesis by (simp add: record_address_failure_unadmitted_def)
    next
      case False
      then show ?thesis by (intro pub) (simp add: McFailure record_address_failure_unadmitted_def Let_def)
    qed
  next
    case (McPermanent q a)
    show ?thesis
    proof (cases "a = []")
      case True
      with McPermanent assms(3) show ?thesis by (simp add: record_permanent_address_failure_unadmitted_def)
    next
      case False
      then show ?thesis by (intro pub) (simp add: McPermanent record_permanent_address_failure_unadmitted_def)
    qed
  next
    case (McRetained q t)
    let ?m = "(observe m t)\<lparr>cm_policy := snd (clear_peer_backoff (cm_policy m) q)\<rparr>"
    have "in_force T ?m"
      using assms(3) by (intro in_force_policy) (simp_all add: clear_peer_backoff_def)
    then show ?thesis
      unfolding McRetained using clear_ok [OF ok] by (simp add: record_inbound_retained_def Let_def case_prod_beta)
  next
    case (McNetworkAdded t)
    let ?m = "(observe m t)\<lparr>cm_network_lifts := bm_retain
      (\<lambda>peer at. t - at < RETRY_BASE_MS \<and> manager_classify (observe m t) peer \<noteq> Unauthorized)
      (cm_network_lifts (observe m t))\<rparr>"
    have "in_force T ?m" using assms(3) by simp
    note lifted = in_force_lift_peers [OF this]
    show ?thesis
    proof (cases "fst (network_added m t) = 0")
      case True
      then show ?thesis
        unfolding McNetworkAdded by (simp add: network_added_def Let_def case_prod_beta lifted)
    next
      case False
      then show ?thesis
        by (intro pub) (simp add: McNetworkAdded network_added_def Let_def case_prod_beta)
    qed
  qed (use assms(3) in \<open>simp_all add: relay_reached_def take_due_retries_def in_force_reclaim in_force_claim Let_def
      release_retry_claim_def clear_retry_claim_def set_max_addresses_per_peer_def drain_notes_def\<close>)
qed

section \<open>Admission\<close>

text \<open>A snapshot somebody holds: at the current revision, it is the published one.\<close>

definition held_snapshot :: "connection_manager \<Rightarrow> policy_snapshot \<Rightarrow> bool" where
  "held_snapshot m s \<longleftrightarrow> policy_ok (ps_policy s) \<and> ps_max_pending_dials s = cm_max_pending_dials m
     \<and> ps_max_connections s = cm_max_connections m \<and> ps_revision s \<le> cm_revision m
     \<and> (ps_revision s = cm_revision m \<and> cm_revision m < U64_MAX \<longrightarrow> s = cm_published m)"

lemma held_published: "in_force T m \<Longrightarrow> revision_ok m \<Longrightarrow> held_snapshot m (cm_published m)"
  by (simp add: held_snapshot_def in_force_def revision_ok_def)

lemma held_advances: "held_snapshot m s \<Longrightarrow> advances m m' \<Longrightarrow> revision_ok m \<Longrightarrow> held_snapshot m' s"
  by (auto simp: held_snapshot_def advances_def manager_frame_def)

text \<open>The request a ticket was decided on, and that decision.\<close>

definition ticket_request :: "dial_ticket \<Rightarrow> dial_request" where
  "ticket_request t = \<lparr>dq_peer = tk_peer t, dq_address = tk_address t, dq_origin = tk_origin t\<rparr>"

definition decided :: "policy_snapshot \<Rightarrow> dial_request \<Rightarrow> nat \<Rightarrow> bool" where
  "decided s r now \<longleftrightarrow> policy_admit (ps_policy s) r (request_class s r) now = Ok ()"

lemma admit_decide_ok: "admit_decide s m r now = Ok () \<Longrightarrow> decided s r now \<and> \<not> cm_shutting_down m \<and> is_current s m"
  by (simp add: admit_decide_def decided_def split: if_splits)

text \<open>The reservations either all hold, or all are back.\<close>

lemma admit_reserve_cases:
  fixes s r now m
  obtains (refused) d where "admit_reserve s r now m = (Err d, m)"
  | (reserved) t where "admit_reserve s r now m = (Ok t,
        m\<lparr>cm_pending := cm_pending m + 1, cm_connections := cm_connections m + 1, cm_outcomes := cm_outcomes m + units t\<rparr>)"
      "ticket_ok m t" "ticket_request t = r" "tk_admitted_at_ms t = now"
      "cm_pending m < ps_max_pending_dials s" "cm_connections m < ps_max_connections s"
      "tk_peer t \<noteq> None \<Longrightarrow>
         cm_outcomes m < cp_max_addresses (ps_policy s) - live_quarantines (ps_policy s) now"
proof -
  let ?t = "\<lparr>tk_issuer = cm_id m, tk_peer = dq_peer r, tk_address = dq_address r,
    tk_origin = dq_origin r, tk_outcome_reserved = dq_peer r \<noteq> None, tk_settled = False,
    tk_connection_kept = False, tk_admitted_at_ms = now\<rparr>"
  have t: "ticket_ok m ?t" "ticket_request ?t = r" "tk_admitted_at_ms ?t = now"
    by (simp_all add: ticket_ok_def ticket_request_def)
  consider "ps_max_pending_dials s \<le> cm_pending m"
    | "cm_pending m < ps_max_pending_dials s" "ps_max_connections s \<le> cm_connections m"
    | "cm_pending m < ps_max_pending_dials s" "cm_connections m < ps_max_connections s" "dq_peer r = None"
    | "cm_pending m < ps_max_pending_dials s" "cm_connections m < ps_max_connections s" "dq_peer r \<noteq> None"
        "cp_max_addresses (ps_policy s) - live_quarantines (ps_policy s) now \<le> cm_outcomes m"
    | "cm_pending m < ps_max_pending_dials s" "cm_connections m < ps_max_connections s" "dq_peer r \<noteq> None"
        "cm_outcomes m < cp_max_addresses (ps_policy s) - live_quarantines (ps_policy s) now"
    by linarith
  then show thesis
  proof cases
    case 1
    then show thesis by (intro refused) (simp add: admit_reserve_def reserve_def)
  next
    case 2
    then show thesis by (intro refused) (simp add: admit_reserve_def reserve_def drop_ticket_def)
  next
    case 3
    then show thesis using t by (intro reserved [of ?t]) (simp_all add: admit_reserve_def reserve_def)
  next
    case 4
    then show thesis by (intro refused) (simp add: admit_reserve_def reserve_def drop_ticket_def Let_def)
  next
    case 5
    then show thesis using t by (intro reserved [of ?t]) (simp_all add: admit_reserve_def reserve_def Let_def)
  qed
qed

section \<open>The funnel\<close>

text \<open>
  Who holds what: the manager, snapshots loaded from it, decisions not yet acted on, reservations
  not yet looked at again, tickets, and the connections whose slot is out.
\<close>

record funnel =
  fu_manager :: connection_manager
  fu_loaded :: "policy_snapshot list"
  fu_decided :: "(policy_snapshot \<times> dial_request \<times> nat) list"
  fu_trying :: "(policy_snapshot \<times> dial_ticket) list"
  fu_tickets :: "dial_ticket list"
  fu_slots :: nat

definition funnel_new :: "nat \<Rightarrow> connection_policy \<Rightarrow> nat \<Rightarrow> funnel" where
  "funnel_new i p max_pending =
    \<lparr>fu_manager = manager_new i p max_pending, fu_loaded = [], fu_decided = [], fu_trying = [], fu_tickets = [],
     fu_slots = 0\<rparr>"

datatype funnel_op =
    FoLoad
  | FoDecide nat dial_request nat
  | FoReserve nat
  | FoRevalidate nat
  | FoDropTicket nat
  | FoRebind nat address
  | FoSettle nat dial_outcome nat
  | FoCall manager_call
  | FoInbound
  | FoClosed
  | FoTrust trust_sources "transport_identity list"
  | FoBind transport_identity
  | FoShutdown

definition pick :: "nat \<Rightarrow> 'a list \<Rightarrow> ('a \<times> 'a list) option" where
  "pick k xs = (if k < length xs then Some (xs ! k, take k xs @ drop (Suc k) xs) else None)"

fun funnel_step :: "funnel \<Rightarrow> funnel_op \<Rightarrow> funnel" where
  "funnel_step s FoLoad = s\<lparr>fu_loaded := cm_published (fu_manager s) # fu_loaded s\<rparr>"
| "funnel_step s (FoDecide k request now_ms) =
    (case pick k (fu_loaded s) of
       None \<Rightarrow> s
     | Some (snap, _) \<Rightarrow>
         (case admit_decide snap (fu_manager s) request now_ms of
            Inl _ \<Rightarrow> s
          | Inr _ \<Rightarrow> s\<lparr>fu_decided := (snap, request, now_ms) # fu_decided s\<rparr>))"
| "funnel_step s (FoReserve k) =
    (case pick k (fu_decided s) of
       None \<Rightarrow> s
     | Some ((snap, request, now_ms), rest) \<Rightarrow>
         (case admit_reserve snap request now_ms (fu_manager s) of
            (Inl _, m) \<Rightarrow> s\<lparr>fu_decided := rest, fu_manager := m\<rparr>
          | (Inr t, m) \<Rightarrow> s\<lparr>fu_decided := rest, fu_trying := (snap, t) # fu_trying s, fu_manager := m\<rparr>))"
| "funnel_step s (FoRevalidate k) =
    (case pick k (fu_trying s) of
       None \<Rightarrow> s
     | Some ((snap, t), rest) \<Rightarrow>
         (case admit_revalidate snap t (fu_manager s) of
            (Inl _, m) \<Rightarrow> s\<lparr>fu_trying := rest, fu_manager := m\<rparr>
          | (Inr t, m) \<Rightarrow> s\<lparr>fu_trying := rest, fu_tickets := t # fu_tickets s, fu_manager := m\<rparr>))"
| "funnel_step s (FoDropTicket k) =
    (case pick k (fu_tickets s) of
       None \<Rightarrow> s
     | Some (t, rest) \<Rightarrow> s\<lparr>fu_tickets := rest, fu_manager := drop_ticket t (fu_manager s)\<rparr>)"
| "funnel_step s (FoRebind k a) =
    (case pick k (fu_tickets s) of
       None \<Rightarrow> s
     | Some (t, rest) \<Rightarrow> s\<lparr>fu_tickets := snd (rebind_address t a) # rest\<rparr>)"
| "funnel_step s (FoSettle k oc now_ms) =
    (case pick k (fu_tickets s) of
       None \<Rightarrow> s
     | Some (t, rest) \<Rightarrow>
         s\<lparr>fu_tickets := rest, fu_slots := (if oc = OcSuccess then Suc (fu_slots s) else fu_slots s),
           fu_manager := record_outcome oc (fu_manager s) t now_ms\<rparr>)"
| "funnel_step s (FoCall c) = s\<lparr>fu_manager := perform (fu_manager s) c\<rparr>"
| "funnel_step s FoInbound =
    (case admit_inbound_connection (fu_manager s) of
       (True, m) \<Rightarrow> s\<lparr>fu_slots := Suc (fu_slots s), fu_manager := m\<rparr>
     | (False, m) \<Rightarrow> s\<lparr>fu_manager := m\<rparr>)"
| "funnel_step s FoClosed =
    (if fu_slots s = 0 then s
     else s\<lparr>fu_slots := fu_slots s - 1, fu_manager := record_connection_closed (fu_manager s)\<rparr>)"
| "funnel_step s (FoTrust trust live) = s\<lparr>fu_manager := snd (set_trust (fu_manager s) trust live)\<rparr>"
| "funnel_step s (FoBind local) = s\<lparr>fu_manager := bind_local_peer (fu_manager s) local\<rparr>"
| "funnel_step s FoShutdown = s\<lparr>fu_manager := begin_shutdown (fu_manager s)\<rparr>"

fun funnel_time :: "funnel_op \<Rightarrow> nat option" where
  "funnel_time (FoDecide _ _ t) = Some t"
| "funnel_time (FoSettle _ _ t) = Some t"
| "funnel_time (FoCall c) = call_time c"
| "funnel_time _ = None"

text \<open>The states reached by time \<open>T\<close>, the callers' clock running forward.\<close>

inductive reachable :: "nat \<Rightarrow> funnel \<Rightarrow> bool" where
  start: "policy_ok p \<Longrightarrow> cp_book p = [] \<Longrightarrow> reachable T (funnel_new i p d)"
| step: "reachable T s \<Longrightarrow> T \<le> T' \<Longrightarrow> funnel_time op = None \<or> funnel_time op = Some T' \<Longrightarrow>
     reachable T' (funnel_step s op)"

text \<open>The counters against what is held.\<close>

abbreviation reserved_units :: "dial_ticket list \<Rightarrow> nat" where
  "reserved_units ts \<equiv> length (filter tk_outcome_reserved ts)"

definition pending_held :: "funnel \<Rightarrow> nat" where
  "pending_held s = length (fu_tickets s) + length (fu_trying s)"

definition outcomes_held :: "funnel \<Rightarrow> nat" where
  "outcomes_held s = reserved_units (fu_tickets s) + reserved_units (map snd (fu_trying s))"

text \<open>The units that still count: granted ones, and those reserved on the current snapshot.\<close>

definition counting_at :: "nat \<Rightarrow> funnel \<Rightarrow> nat" where
  "counting_at revision s =
    (if revision < U64_MAX
     then reserved_units (fu_tickets s)
       + length (filter (\<lambda>(snap, t). tk_outcome_reserved t \<and> ps_revision snap = revision) (fu_trying s))
     else 0)"

definition manager_ok :: "nat \<Rightarrow> connection_manager \<Rightarrow> bool" where
  "manager_ok T m \<longleftrightarrow> revision_ok m \<and> in_force T m \<and> tso_local_peer (cm_trust m) = cm_local_peer m"

definition held_ok :: "nat \<Rightarrow> connection_manager \<Rightarrow> funnel \<Rightarrow> bool" where
  "held_ok T m s \<longleftrightarrow>
     (\<forall>snap \<in> set (fu_loaded s). held_snapshot m snap)
     \<and> (\<forall>(snap, r, now) \<in> set (fu_decided s). held_snapshot m snap \<and> decided snap r now \<and> now \<le> T)
     \<and> (\<forall>(snap, t) \<in> set (fu_trying s). held_snapshot m snap \<and> decided snap (ticket_request t) (tk_admitted_at_ms t)
          \<and> ticket_ok m t \<and> tk_admitted_at_ms t \<le> T)
     \<and> (\<forall>t \<in> set (fu_tickets s). ticket_ok m t \<and> tk_admitted_at_ms t \<le> T)"

definition counters_ok :: "nat \<Rightarrow> nat \<Rightarrow> funnel \<Rightarrow> bool" where
  "counters_ok T n s \<longleftrightarrow>
     accounts T (pending_held s) (pending_held s + fu_slots s) (outcomes_held s) n (fu_manager s)
     \<and> pending_held s \<le> cm_max_pending_dials (fu_manager s)
     \<and> pending_held s + fu_slots s \<le> cm_max_connections (fu_manager s)"

definition funnel_inv :: "nat \<Rightarrow> funnel \<Rightarrow> bool" where
  "funnel_inv T s \<longleftrightarrow> counters_ok T (counting_at (cm_revision (fu_manager s)) s) s
     \<and> manager_ok T (fu_manager s) \<and> held_ok T (fu_manager s) s"

lemma accounts_fewer: "accounts T np nc no n m \<Longrightarrow> n' \<le> n \<Longrightarrow> accounts T np nc no n' m"
  by (auto simp: accounts_def)

lemma accounts_later: "accounts T np nc no n m \<Longrightarrow> T \<le> T' \<Longrightarrow> accounts T' np nc no n m"
  using card_mono [OF finite_quarantined quarantined_antimono [of T T' "cm_policy m"]]
  by (auto simp: accounts_def)

lemma funnel_inv_later: "funnel_inv T s \<Longrightarrow> T \<le> T' \<Longrightarrow> funnel_inv T' s"
proof -
  assume inv: "funnel_inv T s" and le: "T \<le> T'"
  have "manager_ok T' (fu_manager s)"
    using inv fresher_later [OF _ le] by (auto simp: funnel_inv_def manager_ok_def in_force_def)
  moreover have "held_ok T' (fu_manager s) s"
    using inv le unfolding funnel_inv_def held_ok_def by fastforce
  ultimately show "funnel_inv T' s"
    using inv accounts_later [OF _ le] by (simp add: funnel_inv_def counters_ok_def)
qed

lemma held_ok_advances:
  assumes "held_ok T m s" "advances m m'" "revision_ok m"
  shows "held_ok T m' s"
proof -
  have "ticket_ok m' t" if "ticket_ok m t" for t
    using that assms(2) by (simp add: ticket_ok_def advances_def manager_frame_def)
  with assms(1) held_advances [OF _ assms(2,3)] show ?thesis unfolding held_ok_def by fast
qed

lemma counting_later:
  assumes "held_ok T m s" "cm_revision m \<le> revision"
  shows "counting_at revision s \<le> counting_at (cm_revision m) s"
proof (cases "revision = cm_revision m")
  case False
  have "ps_revision snap \<noteq> revision" if "(snap, t) \<in> set (fu_trying s)" for snap t
    using that assms False by (fastforce simp: held_ok_def held_snapshot_def)
  then have "filter (\<lambda>(snap, t). tk_outcome_reserved t \<and> ps_revision snap = revision) (fu_trying s) = []"
    by (auto simp: filter_empty_conv)
  then show ?thesis using assms(2) by (simp add: counting_at_def)
qed simp

text \<open>A call that leaves what is held alone.\<close>

lemma funnel_inv_call:
  assumes "funnel_inv T s"
    "\<And>np nc no n. accounts T np nc no n (fu_manager s) \<Longrightarrow> accounts T np nc no n m'"
    "advances (fu_manager s) m'" "in_force T m'" "tso_local_peer (cm_trust m') = cm_local_peer m'"
  shows "funnel_inv T (s\<lparr>fu_manager := m'\<rparr>)"
proof -
  let ?m = "fu_manager s"
  have rev: "revision_ok ?m" and held: "held_ok T ?m s" using assms(1) by (simp_all add: funnel_inv_def manager_ok_def)
  then have later: "cm_revision ?m \<le> cm_revision m'" "revision_ok m'" using assms(3) by (simp_all add: advances_def)
  have "held_ok T m' s" by (rule held_ok_advances [OF held assms(3) rev])
  then have "held_ok T m' (s\<lparr>fu_manager := m'\<rparr>)" by (simp add: held_ok_def)
  moreover have "counters_ok T (counting_at (cm_revision m') s) (s\<lparr>fu_manager := m'\<rparr>)"
    using assms(1) accounts_fewer [OF assms(2) counting_later [OF held later(1)]] assms(3)
    by (simp add: funnel_inv_def counters_ok_def pending_held_def outcomes_held_def advances_def manager_frame_def)
  moreover have "counting_at r (s\<lparr>fu_manager := m'\<rparr>) = counting_at r s" for r by (simp add: counting_at_def)
  ultimately show ?thesis using later assms(4,5) by (simp add: funnel_inv_def manager_ok_def)
qed

lemma pick_Some:
  assumes "pick k xs = Some (x, rest)"
  shows "x \<in> set xs" "set rest \<subseteq> set xs" "length xs = Suc (length rest)"
    "length (filter P xs) = (if P x then 1 else 0) + length (filter P rest)"
proof -
  have k: "k < length xs" "x = xs ! k" "rest = take k xs @ drop (Suc k) xs"
    using assms by (auto simp: pick_def split: if_splits)
  then have split: "xs = take k xs @ x # drop (Suc k) xs" by (simp add: id_take_nth_drop)
  have "length (filter P xs) = length (filter P (take k xs @ x # drop (Suc k) xs))"
    by (rule arg_cong [OF split])
  then show "length (filter P xs) = (if P x then 1 else 0) + length (filter P rest)"
    by (simp add: k(3))
  show "x \<in> set xs" "length xs = Suc (length rest)" using k by simp_all
  show "set rest \<subseteq> set xs" using k(3) set_take_subset [of k xs] set_drop_subset [of "Suc k" xs] by auto
qed

lemma counting_le_held: "counting_at r s \<le> outcomes_held s"
proof -
  have "length (filter (\<lambda>(snap, t). tk_outcome_reserved t \<and> ps_revision snap = r) ts)
      \<le> length (filter tk_outcome_reserved (map snd ts))" for ts :: "(policy_snapshot \<times> dial_ticket) list"
    by (induction ts) auto
  from this [of "fu_trying s"] show ?thesis by (simp add: counting_at_def outcomes_held_def)
qed

lemma held_update [simp]:
  "pending_held (s\<lparr>fu_manager := m\<rparr>) = pending_held s" "outcomes_held (s\<lparr>fu_manager := m\<rparr>) = outcomes_held s"
  "counting_at r (s\<lparr>fu_manager := m\<rparr>) = counting_at r s" "held_ok T m' (s\<lparr>fu_manager := m\<rparr>) = held_ok T m' s"
  "pending_held (s\<lparr>fu_loaded := l\<rparr>) = pending_held s" "outcomes_held (s\<lparr>fu_loaded := l\<rparr>) = outcomes_held s"
  "counting_at r (s\<lparr>fu_loaded := l\<rparr>) = counting_at r s"
  "pending_held (s\<lparr>fu_decided := d\<rparr>) = pending_held s" "outcomes_held (s\<lparr>fu_decided := d\<rparr>) = outcomes_held s"
  "counting_at r (s\<lparr>fu_decided := d\<rparr>) = counting_at r s"
  "pending_held (s\<lparr>fu_slots := k\<rparr>) = pending_held s" "outcomes_held (s\<lparr>fu_slots := k\<rparr>) = outcomes_held s"
  "counting_at r (s\<lparr>fu_slots := k\<rparr>) = counting_at r s" "held_ok T m' (s\<lparr>fu_slots := k\<rparr>) = held_ok T m' s"
  by (simp_all add: pending_held_def outcomes_held_def counting_at_def held_ok_def)

lemma inv_parts:
  assumes "funnel_inv T s"
  shows "accounts T (pending_held s) (pending_held s + fu_slots s) (outcomes_held s)
      (counting_at (cm_revision (fu_manager s)) s) (fu_manager s)"
    "pending_held s \<le> cm_max_pending_dials (fu_manager s)"
    "pending_held s + fu_slots s \<le> cm_max_connections (fu_manager s)"
    "held_ok T (fu_manager s) s" "revision_ok (fu_manager s)" "in_force T (fu_manager s)"
    "tso_local_peer (cm_trust (fu_manager s)) = cm_local_peer (fu_manager s)" "policy_ok (cm_policy (fu_manager s))"
    "ps_revision (cm_published (fu_manager s)) = cm_revision (fu_manager s)"
    "cm_outcomes_to_return (fu_manager s) = 0" "manager_ok T (fu_manager s)"
  using assms by (simp_all add: funnel_inv_def manager_ok_def revision_ok_def counters_ok_def accounts_def in_force_def)

lemma funnel_invI:
  assumes "accounts T (pending_held s) (pending_held s + fu_slots s) (outcomes_held s)
      (counting_at (cm_revision (fu_manager s)) s) (fu_manager s)"
    "pending_held s \<le> cm_max_pending_dials (fu_manager s)"
    "pending_held s + fu_slots s \<le> cm_max_connections (fu_manager s)"
    "held_ok T (fu_manager s) s" "manager_ok T (fu_manager s)"
  shows "funnel_inv T s"
  using assms by (simp add: funnel_inv_def counters_ok_def)

lemma inv_load: "funnel_inv T s \<Longrightarrow> funnel_inv T (funnel_step s FoLoad)"
  using held_published [of T "fu_manager s"] inv_parts [of T s]
  by (intro funnel_invI) (auto simp: held_ok_def)

lemma inv_decide:
  assumes "funnel_inv T s" "t \<le> T"
  shows "funnel_inv T (funnel_step s (FoDecide k r t))"
proof -
  have "funnel_inv T (s\<lparr>fu_decided := (snap, r, t) # fu_decided s\<rparr>)"
    if "pick k (fu_loaded s) = Some (snap, rest)" "admit_decide snap (fu_manager s) r t = Ok u" for snap rest u
  proof (rule funnel_invI)
    show "held_ok T (fu_manager (s\<lparr>fu_decided := (snap, r, t) # fu_decided s\<rparr>)) (s\<lparr>fu_decided := (snap, r, t) # fu_decided s\<rparr>)"
      using inv_parts(4) [OF assms(1)] pick_Some(1) [OF that(1)] admit_decide_ok [of snap "fu_manager s" r t] that(2) assms(2)
      by (simp add: held_ok_def)
  qed (use inv_parts [OF assms(1)] in simp_all)
  then show ?thesis using assms(1) by (auto split: option.split sum.split)
qed

lemma units_tickets:
  assumes "pick k (fu_tickets s) = Some (t, rest)"
  shows "pending_held s = Suc (pending_held (s\<lparr>fu_tickets := rest\<rparr>))"
    "outcomes_held s = outcomes_held (s\<lparr>fu_tickets := rest\<rparr>) + units t"
    "counting_at r s = (if r < U64_MAX then counting_at r (s\<lparr>fu_tickets := rest\<rparr>) + units t else 0)"
  using pick_Some(3,4) [OF assms] by (simp_all add: pending_held_def outcomes_held_def counting_at_def)

lemma held_tickets:
  assumes "pick k (fu_tickets s) = Some (t, rest)" "held_ok T m s"
  shows "held_ok T m (s\<lparr>fu_tickets := rest\<rparr>)" "ticket_ok m t" "tk_admitted_at_ms t \<le> T"
  using pick_Some(1,2) [OF assms(1)] assms(2) by (auto simp: held_ok_def)

lemma inv_rebind:
  assumes "funnel_inv T s"
  shows "funnel_inv T (funnel_step s (FoRebind k a))"
proof (cases "pick k (fu_tickets s)")
  case (Some x)
  then obtain t rest where x: "pick k (fu_tickets s) = Some (t, rest)" by (cases x) simp
  let ?t = "snd (rebind_address t a)" and ?s = "s\<lparr>fu_tickets := snd (rebind_address t a) # rest\<rparr>"
  have t: "tk_outcome_reserved ?t = tk_outcome_reserved t" "ticket_ok (fu_manager s) ?t = ticket_ok (fu_manager s) t"
    "tk_admitted_at_ms ?t = tk_admitted_at_ms t"
    by (simp_all add: rebind_address_def ticket_ok_def)
  have "held_ok T (fu_manager s) ?s"
    using held_tickets [OF x inv_parts(4) [OF assms]] by (simp add: held_ok_def t)
  moreover have "pending_held ?s = pending_held s" "outcomes_held ?s = outcomes_held s" "counting_at r ?s = counting_at r s" for r
    using pick_Some(3,4) [OF x] by (simp_all add: pending_held_def outcomes_held_def counting_at_def t)
  ultimately have "funnel_inv T ?s" using inv_parts [OF assms] by (intro funnel_invI) simp_all
  then show ?thesis by (simp add: x)
qed (use assms in simp)

text \<open>Giving a ticket back.\<close>

lemma drop_ticket_fields [simp]:
  "cm_revision (drop_ticket t m) = cm_revision m"
  "cm_max_pending_dials (drop_ticket t m) = cm_max_pending_dials m"
  "cm_max_connections (drop_ticket t m) = cm_max_connections m"
  "manager_ok T (drop_ticket t m) = manager_ok T m"
  by (simp_all add: drop_ticket_def manager_ok_def revision_ok_def in_force_def)

lemma inv_drop_ticket:
  assumes "funnel_inv T s"
  shows "funnel_inv T (funnel_step s (FoDropTicket k))"
proof (cases "pick k (fu_tickets s)")
  case (Some x)
  then obtain t rest where x: "pick k (fu_tickets s) = Some (t, rest)" by (cases x) simp
  let ?m = "fu_manager s" and ?s = "s\<lparr>fu_tickets := rest\<rparr>"
  note h = held_tickets [OF x inv_parts(4) [OF assms]] and i = inv_parts [OF assms] and u = units_tickets [OF x]
  have "accounts T (pending_held ?s) (pending_held ?s + fu_slots s) (outcomes_held ?s)
      (counting_at (cm_revision ?m) ?s) (drop_ticket t ?m)"
    using i(1) h(2) counting_le_held [of _ ?s] unfolding u(1,2) u(3) [of "cm_revision ?m"]
    by (intro accounts_drop) (auto simp: ticket_ok_def counting_at_def)
  then have "funnel_inv T (?s\<lparr>fu_manager := drop_ticket t ?m\<rparr>)"
    using i h u(1) held_ok_advances [OF h(1) advances_book_keeping(4)] by (intro funnel_invI) simp_all
  then show ?thesis by (simp add: x)
qed (use assms in simp)

lemma units_trying:
  assumes "pick k (fu_trying s) = Some ((snap, t), rest)"
  shows "pending_held s = Suc (pending_held (s\<lparr>fu_trying := rest\<rparr>))"
    "outcomes_held s = outcomes_held (s\<lparr>fu_trying := rest\<rparr>) + units t"
    "counting_at r s = (if r < U64_MAX then counting_at r (s\<lparr>fu_trying := rest\<rparr>)
       + (if ps_revision snap = r then units t else 0) else 0)"
  using pick_Some(3) [OF assms] pick_Some(4) [OF assms, of "tk_outcome_reserved \<circ> snd"]
    pick_Some(4) [OF assms, of "\<lambda>(snap, t). tk_outcome_reserved t \<and> ps_revision snap = r"]
  by (simp_all add: pending_held_def outcomes_held_def counting_at_def filter_map)

lemma held_trying:
  assumes "pick k (fu_trying s) = Some ((snap, t), rest)" "held_ok T m s"
  shows "held_ok T m (s\<lparr>fu_trying := rest\<rparr>)" "ticket_ok m t" "tk_admitted_at_ms t \<le> T" "held_snapshot m snap"
    "decided snap (ticket_request t) (tk_admitted_at_ms t)"
  using pick_Some(1,2) [OF assms(1)] assms(2) by (auto simp: held_ok_def)

lemma inv_revalidate:
  assumes "funnel_inv T s"
  shows "funnel_inv T (funnel_step s (FoRevalidate k))"
proof (cases "pick k (fu_trying s)")
  case (Some x)
  then obtain snap t rest where x: "pick k (fu_trying s) = Some ((snap, t), rest)" by (cases x) auto
  let ?m = "fu_manager s" and ?s = "s\<lparr>fu_trying := rest\<rparr>"
  note h = held_trying [OF x inv_parts(4) [OF assms]] and i = inv_parts [OF assms] and u = units_trying [OF x]
  show ?thesis
  proof (cases "cm_shutting_down ?m \<or> \<not> is_current snap ?m")
    case True
    have "accounts T (pending_held ?s) (pending_held ?s + fu_slots s) (outcomes_held ?s)
        (counting_at (cm_revision ?m) ?s) (drop_ticket t ?m)"
      using i(1) h(2) counting_le_held [of _ ?s] unfolding u(1,2) u(3) [of "cm_revision ?m"]
      by (intro accounts_drop) (auto simp: ticket_ok_def counting_at_def)
    then have "funnel_inv T (?s\<lparr>fu_manager := drop_ticket t ?m\<rparr>)"
      using i h u(1) held_ok_advances [OF h(1) advances_book_keeping(4)] by (intro funnel_invI) simp_all
    with True show ?thesis by (simp add: x admit_revalidate_def)
  next
    case False
    then have "ps_revision snap = cm_revision ?m" using i(9) by (simp add: is_current_def)
    then have same: "counting_at (cm_revision ?m) s = counting_at (cm_revision ?m) (?s\<lparr>fu_tickets := t # fu_tickets s\<rparr>)"
      "pending_held s = pending_held (?s\<lparr>fu_tickets := t # fu_tickets s\<rparr>)"
      "outcomes_held s = outcomes_held (?s\<lparr>fu_tickets := t # fu_tickets s\<rparr>)"
      unfolding u(1,2) u(3) [of "cm_revision ?m"]
      by (simp_all add: counting_at_def pending_held_def outcomes_held_def)
    have "held_ok T ?m (?s\<lparr>fu_tickets := t # fu_tickets s\<rparr>)" using h by (simp add: held_ok_def)
    with i have "funnel_inv T (?s\<lparr>fu_tickets := t # fu_tickets s\<rparr>)" unfolding same by (intro funnel_invI) simp_all
    with False show ?thesis by (simp add: x admit_revalidate_def)
  qed
qed (use assms in simp)

text \<open>A reservation on the current snapshot finds its room in the table as it is now.\<close>

lemma reserved_room:
  assumes "in_force T m" "s = cm_published m" "now \<le> T" "policy_ok (cm_policy m)"
    "cm_outcomes m < cp_max_addresses (ps_policy s) - live_quarantines (ps_policy s) now" "n \<le> cm_outcomes m"
  shows "Suc n + card (quarantined_keys (cm_policy m) T) \<le> cp_max_addresses (cm_policy m)"
proof -
  have pub: "policy_ok (ps_policy s)" "fresher T (cm_policy m) (ps_policy s)"
    using assms(1,2) by (simp_all add: in_force_def)
  have "card (quarantined_keys (cm_policy m) T) \<le> card (quarantined_keys (ps_policy s) T)"
    using pub(2) by (simp add: fresher_def card_mono)
  also have "\<dots> \<le> card (quarantined_keys (ps_policy s) now)"
    using assms(3) by (simp add: card_mono quarantined_antimono)
  finally have "card (quarantined_keys (cm_policy m) T) \<le> live_quarantines (ps_policy s) now"
    using pub(1) by (simp add: live_quarantines_card policy_ok_def)
  with assms(5,6) pub(2) show ?thesis unfolding fresher_def by linarith
qed

lemma held_decided:
  assumes "pick k (fu_decided s) = Some ((snap, r, now), rest)" "held_ok T m s"
  shows "held_ok T m (s\<lparr>fu_decided := rest\<rparr>)" "held_snapshot m snap" "decided snap r now" "now \<le> T"
  using pick_Some(1,2) [OF assms(1)] assms(2) by (auto simp: held_ok_def)

lemma inv_reserve:
  assumes "funnel_inv T s"
  shows "funnel_inv T (funnel_step s (FoReserve k))"
proof (cases "pick k (fu_decided s)")
  case (Some x)
  then obtain snap r now rest where x: "pick k (fu_decided s) = Some ((snap, r, now), rest)" by (cases x) auto
  let ?m = "fu_manager s" and ?s = "s\<lparr>fu_decided := rest\<rparr>"
  note h = held_decided [OF x inv_parts(4) [OF assms]] and i = inv_parts [OF assms]
  show ?thesis
  proof (cases rule: admit_reserve_cases [of snap r now ?m])
    case (refused d)
    have "funnel_inv T (?s\<lparr>fu_manager := ?m\<rparr>)" using i h by (intro funnel_invI) simp_all
    with refused show ?thesis by (simp add: x)
  next
    case (reserved t)
    let ?m' = "?m\<lparr>cm_pending := cm_pending ?m + 1, cm_connections := cm_connections ?m + 1,
      cm_outcomes := cm_outcomes ?m + units t\<rparr>"
    let ?s' = "?s\<lparr>fu_trying := (snap, t) # fu_trying s\<rparr>" and ?n = "counting_at (cm_revision ?m)"
    have quiet: "advances ?m ?m'" "manager_ok T ?m' = manager_ok T ?m"
      by (auto intro!: advances_quiet simp: manager_frame_def manager_ok_def revision_ok_def in_force_def)
    have held: "held_ok T ?m' ?s'"
      using h reserved by (intro held_ok_advances [OF _ quiet(1) i(5)]) (simp add: held_ok_def)
    have sizes: "pending_held ?s' = Suc (pending_held s)" "outcomes_held ?s' = outcomes_held s + units t"
      "?n ?s' = (if cm_revision ?m < U64_MAX then ?n s + (if ps_revision snap = cm_revision ?m then units t else 0) else 0)"
      by (simp_all add: pending_held_def outcomes_held_def counting_at_def)
    have room: "Suc (?n s) + card (quarantined_keys (cm_policy ?m) T) \<le> cp_max_addresses (cm_policy ?m)"
      if "tk_outcome_reserved t" "cm_revision ?m < U64_MAX" "ps_revision snap = cm_revision ?m"
    proof (rule reserved_room [OF i(6) _ h(4) i(8)])
      show "snap = cm_published ?m" using h(2) that(2,3) by (simp add: held_snapshot_def)
      show "cm_outcomes ?m < cp_max_addresses (ps_policy snap) - live_quarantines (ps_policy snap) now"
        using that(1) reserved(2,7) by (simp add: ticket_ok_def)
      show "?n s \<le> cm_outcomes ?m" using i(1,10) counting_le_held [of _ s] by (simp add: accounts_def)
    qed
    have "accounts T (pending_held ?s') (pending_held ?s' + fu_slots s) (outcomes_held ?s') (?n ?s') ?m'"
      using i(1) room counting_le_held [of "cm_revision ?m" s] unfolding sizes by (auto simp: accounts_def)
    moreover have "pending_held ?s' \<le> cm_max_pending_dials ?m" "pending_held ?s' + fu_slots s \<le> cm_max_connections ?m"
      using i(1) h(2) reserved(5,6) unfolding sizes by (simp_all add: accounts_def held_snapshot_def)
    ultimately have "funnel_inv T (?s'\<lparr>fu_manager := ?m'\<rparr>)"
      using held quiet(2) i(11) by (intro funnel_invI) simp_all
    with reserved(1) show ?thesis by (simp add: x)
  qed
qed (use assms in simp)

lemma inv_settle:
  assumes "funnel_inv T s" "t \<le> T"
  shows "funnel_inv T (funnel_step s (FoSettle k oc t))"
proof (cases "pick k (fu_tickets s)")
  case (Some x)
  then obtain tk rest where x: "pick k (fu_tickets s) = Some (tk, rest)" by (cases x) simp
  let ?m = "fu_manager s" and ?s = "s\<lparr>fu_tickets := rest\<rparr>" and ?m' = "record_outcome oc (fu_manager s) tk t"
  let ?k = "if oc = OcSuccess then Suc (fu_slots s) else fu_slots s"
  note h = held_tickets [OF x inv_parts(4) [OF assms(1)]] and i = inv_parts [OF assms(1)] and u = units_tickets [OF x]
  have ticket_held: "ticket_held T t (pending_held ?s) (pending_held ?s + fu_slots s) (outcomes_held ?s) (counting_at (cm_revision ?m) ?s)
      (counting_at (cm_revision ?m) s) ?m tk"
    using i(1) h(2,3) assms(2) counting_le_held [of "cm_revision ?m" ?s] u(3) [of "cm_revision ?m"]
    unfolding u(1,2) by (auto simp: ticket_held_def settled_at_def counting_at_def)
  have units: "counting_at (cm_revision ?m) s = counting_at (cm_revision ?m) ?s + units tk
      \<or> counting_at (cm_revision ?m) ?s = 0"
    unfolding u(3) by (simp add: counting_at_def)
  note c = call_record_outcome [OF ticket_held units, of oc] and f = in_force_outcome [OF ticket_held units, of oc]
  have adv: "advances ?m ?m'" "authority ?m' = authority ?m" using c by (simp_all add: call_def)
  then have later: "cm_revision ?m \<le> cm_revision ?m'" "revision_ok ?m'" "manager_frame ?m' = manager_frame ?m"
    using i(5) by (simp_all add: advances_def)
  note held = held_ok_advances [OF h(1) adv(1) i(5)]
  have "accounts T (pending_held ?s) (pending_held ?s + ?k) (outcomes_held ?s) (counting_at (cm_revision ?m) ?s) ?m'"
    using c by (auto simp: call_def split: if_splits)
  then have acc: "accounts T (pending_held ?s) (pending_held ?s + ?k) (outcomes_held ?s) (counting_at (cm_revision ?m') ?s) ?m'"
    by (rule accounts_fewer) (rule counting_later [OF h(1) later(1)])
  have mok: "manager_ok T ?m'" using f later(2) adv(2) i(7) by (simp add: manager_ok_def authority_def)
  have "funnel_inv T (?s\<lparr>fu_slots := ?k, fu_manager := ?m'\<rparr>)"
    using acc held mok i(2,3) later(3) unfolding u(1) by (intro funnel_invI) (auto simp: manager_frame_def)
  then show ?thesis by (simp add: x)
qed (use assms in simp)

lemma inv_call:
  assumes "funnel_inv T s" "\<forall>t. call_time c = Some t \<longrightarrow> t \<le> T"
  shows "funnel_inv T (funnel_step s (FoCall c))"
proof -
  note i = inv_parts [OF assms(1)]
  note c = call_manager_call [OF i(1) assms(2)]
  have "tso_local_peer (cm_trust (perform (fu_manager s) c)) = cm_local_peer (perform (fu_manager s) c)"
    using c i(7) by (simp add: call_def authority_def)
  moreover have "accounts T np nc no n (perform (fu_manager s) c)" if "accounts T np nc no n (fu_manager s)" for np nc no n
    using call_manager_call [OF that assms(2)] by (simp add: call_def)
  ultimately show ?thesis
    using c in_force_manager_call [OF i(1) assms(2) i(6)] by (simp add: call_def funnel_inv_call [OF assms(1)])
qed

text \<open>Slots of connections, coming and going.\<close>

lemma inv_slots:
  assumes "funnel_inv T s" "pending_held s + k \<le> cm_max_connections (fu_manager s)"
  shows "funnel_inv T (s\<lparr>fu_slots := k, fu_manager := publish ((fu_manager s)\<lparr>cm_connections := pending_held s + k\<rparr>)\<rparr>)"
proof -
  let ?m = "(fu_manager s)\<lparr>cm_connections := pending_held s + k\<rparr>"
  note i = inv_parts [OF assms(1)]
  have adv: "advances (fu_manager s) (publish ?m)" by (rule advances_then_publish) simp
  then have later: "cm_revision (fu_manager s) \<le> cm_revision (publish ?m)" "revision_ok (publish ?m)"
    "manager_frame (publish ?m) = manager_frame (fu_manager s)"
    using i(5) by (simp_all add: advances_def)
  have "accounts T (pending_held s) (pending_held s + k) (outcomes_held s) (counting_at (cm_revision (fu_manager s)) s) ?m"
    using i(1) by (simp add: accounts_def)
  then have "accounts T (pending_held s) (pending_held s + k) (outcomes_held s) (counting_at (cm_revision (publish ?m)) s) (publish ?m)"
    by (intro accounts_publish) (rule accounts_fewer, assumption, rule counting_later [OF i(4) later(1)])
  moreover have "authority (publish ?m) = authority (fu_manager s)" by simp
  then have "manager_ok T (publish ?m)" using later(2) i(7,8) by (simp add: manager_ok_def authority_def)
  ultimately show ?thesis
    using held_ok_advances [OF i(4) adv i(5)] i(2) assms(2) later(3)
    by (intro funnel_invI) (auto simp: manager_frame_def)
qed

lemma inv_inbound: "funnel_inv T s \<Longrightarrow> funnel_inv T (funnel_step s FoInbound)"
  using inv_slots [of T s "Suc (fu_slots s)"] inv_parts(1) [of T s]
  by (auto simp: admit_inbound_connection_def reserve_def accounts_def split: bool.split)

lemma inv_closed:
  assumes "funnel_inv T s"
  shows "funnel_inv T (funnel_step s FoClosed)"
proof (cases "fu_slots s")
  case (Suc k)
  then have "record_connection_closed (fu_manager s) = publish ((fu_manager s)\<lparr>cm_connections := pending_held s + k\<rparr>)"
    using inv_parts(1) [OF assms] by (simp add: record_connection_closed_def drop_slot_def accounts_def)
  with Suc show ?thesis using inv_slots [OF assms, of k] inv_parts(3) [OF assms] by simp
qed (use assms in simp)

lemma retire_call:
  assumes "accounts T np nc no n m"
  shows "call T np nc no n m (retire_unclassified_book_peers m)"
  unfolding retire_unclassified_book_peers_def Let_def case_prod_beta
  by (intro call_steps(4) call_retire_loop call_refl assms)

lemma inv_trust:
  assumes "funnel_inv T s"
  shows "funnel_inv T (funnel_step s (FoTrust trust live))"
proof -
  let ?m = "(fu_manager s)\<lparr>cm_trust := trust\<lparr>tso_local_peer := cm_local_peer (fu_manager s)\<rparr>\<rparr>"
  let ?m' = "publish (retire_unclassified_book_peers ?m)"
  have retire: "accounts T np nc no n ?m \<Longrightarrow> call T np nc no n ?m (retire_unclassified_book_peers ?m)" for np nc no n
    by (rule retire_call)
  have acc: "accounts T np nc no n (fu_manager s) \<Longrightarrow> accounts T np nc no n ?m" for np nc no n by simp
  note c = retire [OF acc [OF inv_parts(1) [OF assms]]]
  have "advances (fu_manager s) ?m" by (rule advances_quiet) (simp_all add: manager_frame_def)
  then have "advances (fu_manager s) ?m'" using c by (intro advances_then_publish) (auto simp: call_def intro: advances_trans)
  moreover have "authority ?m' = authority ?m" using c by (simp add: call_def)
  then have "tso_local_peer (cm_trust ?m') = cm_local_peer ?m'" by (simp add: authority_def)
  ultimately have "funnel_inv T (s\<lparr>fu_manager := ?m'\<rparr>)"
    using call_ok [OF c] retire by (intro funnel_inv_call [OF assms]) (auto simp: call_def)
  then show ?thesis by (simp add: set_trust_def Let_def)
qed

lemma inv_bind:
  assumes "funnel_inv T s"
  shows "funnel_inv T (funnel_step s (FoBind local))"
proof -
  have "advances (fu_manager s) (bind_local_peer (fu_manager s) local)"
    unfolding bind_local_peer_def by (intro advances_then_publish advances_quiet) (simp_all add: manager_frame_def)
  then show ?thesis
    using inv_parts(8) [OF assms] unfolding funnel_step.simps bind_local_peer_def
    by (intro funnel_inv_call [OF assms]) (auto simp: publish_def [of "_\<lparr>cm_local_peer := _, cm_trust := _\<rparr>"] Let_def accounts_def in_force_def)
qed

lemma accounts_shutdown:
  "accounts T np nc no n m \<Longrightarrow>
     accounts T np nc no n (m\<lparr>cm_shutting_down := True, cm_policy := (cm_policy m)\<lparr>cp_shutting_down := True\<rparr>\<rparr>)"
  by (simp add: accounts_def policy_ok_def quarantined_keys_def outside_keys_def)

lemma inv_shutdown:
  assumes "funnel_inv T s"
  shows "funnel_inv T (funnel_step s FoShutdown)"
proof -
  let ?m = "(fu_manager s)\<lparr>cm_shutting_down := True, cm_policy := (cm_policy (fu_manager s))\<lparr>cp_shutting_down := True\<rparr>\<rparr>"
  have acc: "accounts T np nc no n (fu_manager s) \<Longrightarrow> accounts T np nc no n ?m" for np nc no n
    by (rule accounts_shutdown)
  have "policy_ok (cm_policy ?m)" using acc [OF inv_parts(1) [OF assms]] by (simp only: accounts_def)
  then have "in_force T (publish ?m)" by (rule in_force_publish)
  moreover have "advances (fu_manager s) (publish ?m)"
    by (intro advances_then_publish advances_quiet) (simp_all add: manager_frame_def)
  moreover have "tso_local_peer (cm_trust (publish ?m)) = cm_local_peer (publish ?m)"
    using inv_parts(7) [OF assms] by (simp add: publish_def Let_def)
  ultimately show ?thesis
    unfolding funnel_step.simps begin_shutdown_def by (intro funnel_inv_call [OF assms] accounts_publish acc)
qed

lemma inv_start: "policy_ok p \<Longrightarrow> funnel_inv T (funnel_new i p d)"
  using quarantined_bound [of p T]
  by (simp add: funnel_new_def manager_new_def funnel_inv_def counters_ok_def manager_ok_def held_ok_def revision_ok_def
      in_force_def accounts_def pending_held_def outcomes_held_def counting_at_def
      trust_sources_default_def trust_sources_new_def)

lemma inv_step:
  assumes "funnel_inv T s" "funnel_time op = None \<or> funnel_time op = Some T"
  shows "funnel_inv T (funnel_step s op)"
  using assms(2) inv_load [OF assms(1)] inv_decide [OF assms(1)] inv_reserve [OF assms(1)] inv_revalidate [OF assms(1)]
    inv_drop_ticket [OF assms(1)] inv_rebind [OF assms(1)] inv_settle [OF assms(1)] inv_call [OF assms(1)]
    inv_inbound [OF assms(1)] inv_closed [OF assms(1)] inv_trust [OF assms(1)] inv_bind [OF assms(1)]
    inv_shutdown [OF assms(1)]
  by (cases op) (auto simp del: funnel_step.simps)

lemma reachable_inv: "reachable T s \<Longrightarrow> funnel_inv T s"
proof (induction rule: reachable.induct)
  case (step T s T' op)
  then show ?case using inv_step [OF funnel_inv_later] by blast
qed (rule inv_start)

lemma reachable_parts:
  assumes "reachable T s"
  shows "cm_pending (fu_manager s) = length (fu_tickets s) + length (fu_trying s)"
    "cm_connections (fu_manager s) = length (fu_tickets s) + length (fu_trying s) + fu_slots s"
    "cm_outcomes (fu_manager s) = reserved_units (fu_tickets s @ map snd (fu_trying s))"
    "cm_outcomes_to_return (fu_manager s) = 0"
  using inv_parts [OF reachable_inv [OF assms]] by (simp_all add: accounts_def pending_held_def outcomes_held_def)

fun funnel_run :: "funnel \<Rightarrow> funnel_op list \<Rightarrow> funnel" where
  "funnel_run s [] = s"
| "funnel_run s (op # ops) = funnel_run (funnel_step s op) ops"

fun times_ordered :: "nat \<Rightarrow> funnel_op list \<Rightarrow> bool" where
  "times_ordered T [] = True"
| "times_ordered T (op # ops) =
    (case funnel_time op of None \<Rightarrow> times_ordered T ops | Some t \<Rightarrow> T \<le> t \<and> times_ordered t ops)"

fun last_time :: "nat \<Rightarrow> funnel_op list \<Rightarrow> nat" where
  "last_time T [] = T"
| "last_time T (op # ops) = last_time (case funnel_time op of None \<Rightarrow> T | Some t \<Rightarrow> t) ops"

lemma reachable_run:
  "reachable T s \<Longrightarrow> times_ordered T ops \<Longrightarrow> reachable (last_time T ops) (funnel_run s ops)"
proof (induction ops arbitrary: s T)
  case (Cons op ops)
  show ?case
  proof (cases "funnel_time op")
    case None
    have "reachable T (funnel_step s op)" by (rule reachable.step [OF Cons.prems(1)]) (simp_all add: None)
    from Cons.IH [OF this] show ?thesis using Cons.prems None by simp
  next
    case (Some t)
    then have "reachable t (funnel_step s op)"
      using Cons.prems by (intro reachable.step [OF Cons.prems(1), of t]) simp_all
    from Cons.IH [OF this] show ?thesis using Cons.prems Some by simp
  qed
qed simp

lemma current_snapshot:
  assumes "reachable T s" "(snap, t) \<in> set (fu_trying s)" "is_current snap (fu_manager s)"
    "cm_revision (fu_manager s) < U64_MAX"
  shows "snap = cm_published (fu_manager s)" "decided snap (ticket_request t) (tk_admitted_at_ms t)"
    "ps_trust snap = cm_trust (fu_manager s)"
proof -
  note i = inv_parts [OF reachable_inv [OF assms(1)]]
  have h: "held_snapshot (fu_manager s) snap" "decided snap (ticket_request t) (tk_admitted_at_ms t)"
    using i(4) assms(2) by (auto simp: held_ok_def)
  then show snap: "snap = cm_published (fu_manager s)" "decided snap (ticket_request t) (tk_admitted_at_ms t)"
    using assms(3,4) i(9) by (simp_all add: held_snapshot_def is_current_def)
  show "ps_trust snap = cm_trust (fu_manager s)" using i(6) unfolding snap(1) by (simp add: in_force_def)
qed

lemma decided_peer:
  assumes "decided snap r now"
  shows "\<exists>q. dq_peer r = Some q \<and> class_denial (trust_classify (ps_trust snap) q) (dq_origin r) = None
    \<and> \<not> live_at (ps_policy snap) (q, dq_address r) now"
proof (cases "dq_peer r")
  case None
  then show ?thesis using assms
    by (simp add: decided_def policy_admit_def request_class_def class_denial_def split: if_splits)
next
  case (Some q)
  have "\<not> live_at (ps_policy snap) (q, dq_address r) now"
    using assms live_refuses [of "ps_policy snap" q "dq_address r" now r] Some by (auto simp: decided_def)
  moreover have "class_denial (trust_classify (ps_trust snap) q) (dq_origin r) = None"
    using assms Some by (simp add: decided_def policy_admit_def request_class_def split: if_splits option.splits)
  ultimately show ?thesis using Some by simp
qed

lemma policy_fields [simp]:
  "cm_policy (settle m t) = cm_policy m" "cm_policy (push_note m x) = cm_policy m"
  "cm_policy (release_retry_claim m q) = cm_policy m"
  by (simp_all add: settle_def drop_ticket_def push_note_def release_retry_claim_def update_retry_def Let_def
      split: option.splits)

section \<open>Properties\<close>

text \<open>C9. Every counter is exactly what is held, however admissions, settlements, drops, inbound
  connections and changes of trust interleave: pending dials are the reservations not yet
  settled, connections are those and the slots that are out, outcome units are one for each of
  them that names a peer; and the configured maxima are never exceeded.
\<close>

theorem funnel_accounting:
  assumes "reachable T s"
  shows "cm_pending (fu_manager s) = length (fu_tickets s) + length (fu_trying s)
    \<and> cm_connections (fu_manager s) = length (fu_tickets s) + length (fu_trying s) + fu_slots s
    \<and> cm_outcomes (fu_manager s) = reserved_units (fu_tickets s @ map snd (fu_trying s))
    \<and> cm_pending (fu_manager s) \<le> cm_max_pending_dials (fu_manager s)
    \<and> cm_connections (fu_manager s) \<le> cm_max_connections (fu_manager s)"
  using reachable_parts [OF assms] inv_parts(2,3) [OF reachable_inv [OF assms]] by (simp add: pending_held_def)

text \<open>C7. A dial that is granted was decided on the policy in force at that moment, whatever happened
  between its decision and the second look: the manager is not draining, the trust in force
  authorizes the dial's origin for its peer, which is never the local one, and no quarantine
  holds its route from the time of the decision on (as long as the revision counter has not
  saturated).
\<close>

theorem granted_on_current_policy:
  assumes "reachable T s" "pick k (fu_trying s) = Some ((snap, t), rest)"
    "admit_revalidate snap t (fu_manager s) = (Ok granted, m')" "cm_revision (fu_manager s) < U64_MAX"
  shows "\<exists>q. granted = t \<and> m' = fu_manager s \<and> tk_peer t = Some q
    \<and> authorizes_for (fu_manager s) (manager_classify (fu_manager s) q) (tk_origin t)
    \<and> \<not> is_local_peer (fu_manager s) q
    \<and> (\<forall>u. tk_admitted_at_ms t \<le> u \<longrightarrow> is_address_dialable (cm_policy (fu_manager s)) q (tk_address t) u)"
proof -
  let ?m = "fu_manager s"
  have g: "granted = t" "m' = ?m" "\<not> cm_shutting_down ?m" "is_current snap ?m"
    using assms(3) by (simp_all add: admit_revalidate_def split: if_splits)
  note c = current_snapshot [OF assms(1) pick_Some(1) [OF assms(2)] g(4) assms(4)]
  note i = inv_parts [OF reachable_inv [OF assms(1)]]
  obtain q where q: "tk_peer t = Some q" "class_denial (manager_classify ?m q) (tk_origin t) = None"
      "\<not> live_at (ps_policy snap) (q, tk_address t) (tk_admitted_at_ms t)"
    using decided_peer [OF c(2)] by (auto simp: ticket_request_def manager_classify_def c(3))
  have "\<not> live_at (cm_policy ?m) (q, tk_address t) u" if "tk_admitted_at_ms t \<le> u" for u
    using q(3) i(6) live_antimono [OF _ that] unfolding c(1) by (auto simp: in_force_def fresher_def)
  moreover have "authorizes_for ?m (manager_classify ?m q) (tk_origin t)"
    using q(2) g(3) by (auto simp: authorizes_for_def class_denial_def split: connection_class.splits if_splits)
  moreover have "\<not> is_local_peer ?m q"
  proof
    assume "is_local_peer ?m q"
    then have "manager_classify ?m q = Unauthorized"
      using i(7) by (simp add: is_local_peer_def manager_classify_def trust_classify_def)
    with q(2) show False by (simp add: class_denial_def)
  qed
  ultimately show ?thesis using g q(1) not_dialable_live by blast
qed


section \<open>Witnesses\<close>

definition sample_trust :: trust_sources where
  "sample_trust = trust_sources_new \<lparr>tp_allowed_peers = [dial_peer], tp_local_peer = None\<rparr>
     \<lparr>is_allowed_peers = []\<rparr>"

definition sample_request :: dial_request where
  "sample_request = \<lparr>dq_peer = Some dial_peer, dq_address = [1], dq_origin = Manual\<rparr>"

text \<open>Two dials decided, one granted, the other still to be looked at again; one inbound connection.\<close>

definition sample_funnel_ops :: "funnel_op list" where
  "sample_funnel_ops =
    [FoBind (TransportIdentity [9]), FoTrust sample_trust [], FoInbound, FoLoad, FoDecide 0 sample_request 10, FoReserve 0,
     FoDecide 0 sample_request 20, FoReserve 0, FoRevalidate 0]"

definition sample_funnel :: funnel where
  "sample_funnel = funnel_run (funnel_new 1 (policy_new 4 4) 4) sample_funnel_ops"

lemma sample_reachable: "reachable 20 sample_funnel"
proof -
  have "reachable 0 (funnel_new 1 (policy_new 4 4) 4)"
    by (rule reachable.start [OF policy_new_ok]) (simp add: policy_new_def policy_default_def)
  moreover have "times_ordered 0 sample_funnel_ops" "last_time 0 sample_funnel_ops = 20" by code_simp+
  ultimately show ?thesis using reachable_run [of 0 _ sample_funnel_ops] by (simp add: sample_funnel_def)
qed

theorem funnel_accounting_witness:
  "cm_pending (fu_manager sample_funnel) = 2 \<and> cm_connections (fu_manager sample_funnel) = 3
   \<and> cm_outcomes (fu_manager sample_funnel) = 2"
proof -
  have "length (fu_tickets sample_funnel) = 1" "length (fu_trying sample_funnel) = 1" "fu_slots sample_funnel = 1"
    "reserved_units (fu_tickets sample_funnel @ map snd (fu_trying sample_funnel)) = 2"
    by code_simp+
  with funnel_accounting [OF sample_reachable] show ?thesis by simp
qed

theorem granted_on_current_policy_witness:
  "\<exists>snap t q. fst (admit_revalidate snap t (fu_manager sample_funnel)) = Ok t \<and> tk_peer t = Some q
    \<and> authorizes_for (fu_manager sample_funnel) (manager_classify (fu_manager sample_funnel) q) (tk_origin t)
    \<and> is_address_dialable (cm_policy (fu_manager sample_funnel)) q (tk_address t) 10"
proof -
  let ?x = "fst (hd (fu_trying sample_funnel))" and ?t = "snd (hd (fu_trying sample_funnel))"
  have p: "pick 0 (fu_trying sample_funnel) = Some ((?x, ?t), [])"
    "admit_revalidate ?x ?t (fu_manager sample_funnel) = (Ok ?t, fu_manager sample_funnel)"
    "cm_revision (fu_manager sample_funnel) < U64_MAX" "tk_admitted_at_ms ?t = 10"
    by code_simp+
  from granted_on_current_policy [OF sample_reachable p(1-3)] p(2,4) show ?thesis by (metis fst_conv le_refl)
qed


end
