(* ===== verification/Connection_Tables.thy ===== *)
theory Connection_Tables
  imports Connection_Funnel
begin

text \<open>
  What the manager keeps between dials: the address book, the retry schedule, the notes and the
  trust.  Their bounds hold in every reachable state of the funnel; a learned route displaces
  only a bad one; a due retry is handed out once; a change of trust names exactly the live peers
  that lost a permission.
\<close>

section \<open>Bounds\<close>

definition book_bounded :: "connection_policy \<Rightarrow> bool" where
  "book_bounded p \<longleftrightarrow> (\<forall>q known. bm_get (cp_book p) q = Some known \<longrightarrow> length known \<le> MAX_ADDRESSES_PER_PEER)"

definition bounded :: "connection_manager \<Rightarrow> bool" where
  "bounded m \<longleftrightarrow> policy_ok (cm_policy m) \<and> book_bounded (cm_policy m) \<and> bm_ok (cm_retries m)
     \<and> length (cm_retries m) \<le> cm_max_retry_entries m \<and> length (cm_notes m) \<le> MAX_GATE_NOTES
     \<and> 0 < cm_max_retry_entries m \<and> cm_max_addresses_per_peer m \<le> MAX_ADDRESSES_PER_PEER"

lemma bounded_quiet [simp]:
  "bounded (m\<lparr>cm_network_lifts := l\<rparr>) = bounded m"
  "bounded (m\<lparr>cm_retired := rs\<rparr>) = bounded m"
  "bounded (m\<lparr>cm_outcomes := no\<rparr>) = bounded m"
  "bounded (m\<lparr>cm_outcomes_to_return := k\<rparr>) = bounded m"
  "bounded (m\<lparr>cm_connections := nc\<rparr>) = bounded m"
  "bounded (m\<lparr>cm_pending := np\<rparr>) = bounded m"
  "bounded (m\<lparr>cm_trust := tr\<rparr>) = bounded m"
  "bounded (m\<lparr>cm_local_peer := lp\<rparr>) = bounded m"
  "bounded (m\<lparr>cm_shutting_down := sd\<rparr>) = bounded m"
  "bounded (publish m) = bounded m"
  "bounded (observe m t) = bounded m"
  "bounded (drop_ticket k' m) = bounded m"
  "bounded (settle m k') = bounded m"
  "bounded (keep_connection m k') = bounded m"
  by (simp_all add: bounded_def publish_def observe_def drop_ticket_def settle_def keep_connection_def Let_def)

lemma bounded_retries:
  "bounded m \<Longrightarrow> bm_ok r \<Longrightarrow> length r \<le> cm_max_retry_entries m \<Longrightarrow> bounded (m\<lparr>cm_retries := r\<rparr>)"
  by (simp add: bounded_def)

lemma bounded_remove_retry [simp]: "bounded m \<Longrightarrow> bounded (m\<lparr>cm_retries := bm_remove q (cm_retries m)\<rparr>)"
  using length_bm_remove_le [of q "cm_retries m"] by (intro bounded_retries) (auto simp: bounded_def)

lemma bounded_update_retry [simp]: "bounded m \<Longrightarrow> bounded (update_retry f m q)"
  by (auto simp: update_retry_def bounded_def length_bm_insert bm_has_def split: option.splits)

lemma bounded_policy:
  "bounded m \<Longrightarrow> policy_ok p \<Longrightarrow> cp_book p = cp_book (cm_policy m) \<Longrightarrow> bounded (m\<lparr>cm_policy := p\<rparr>)"
  by (simp add: bounded_def book_bounded_def)

lemma bounded_ok: "bounded m \<Longrightarrow> policy_ok (cm_policy m)" "bounded m \<Longrightarrow> bm_ok (cp_addresses (cm_policy m))"
  by (simp_all add: bounded_def policy_ok_def)

lemma bounded_outcomes [simp]:
  assumes "bounded m"
  shows "bounded (m\<lparr>cm_policy := policy_record_success (cm_policy m) q a t\<rparr>)"
    and "bounded (m\<lparr>cm_policy := score_address_failure (cm_policy m) q a t\<rparr>)"
    and "bounded (m\<lparr>cm_policy := snd (record_address_failure (cm_policy m) q a t b)\<rparr>)"
    and "bounded (m\<lparr>cm_policy := snd (policy_record_mismatch (cm_policy m) q a t)\<rparr>)"
    and "bounded (m\<lparr>cm_policy := snd (clear_peer_backoff (cm_policy m) q)\<rparr>)"
    and "bounded (m\<lparr>cm_policy := snd (lift_peer_backoff (cm_policy m) q t)\<rparr>)"
proof -
  note ok = bounded_ok [OF assms]
  show "bounded (m\<lparr>cm_policy := policy_record_success (cm_policy m) q a t\<rparr>)"
    using success_ok [OF ok(1)] success_keeps(3) [OF ok(2)] by (intro bounded_policy [OF assms])
  show "bounded (m\<lparr>cm_policy := score_address_failure (cm_policy m) q a t\<rparr>)"
    using score_ok [OF ok(1)] score_keeps(2) [OF ok(2)] by (intro bounded_policy [OF assms])
  show "bounded (m\<lparr>cm_policy := snd (record_address_failure (cm_policy m) q a t b)\<rparr>)"
    using record_address_failure_ok [OF ok(1)] score_keeps(2) [OF ok(2)] failure_keeps(2)
    by (intro bounded_policy [OF assms]) simp_all
  show "bounded (m\<lparr>cm_policy := snd (policy_record_mismatch (cm_policy m) q a t)\<rparr>)"
    using mismatch_ok [OF ok(1)] mismatch_keeps(2) [OF ok(2)] by (intro bounded_policy [OF assms])
  show "bounded (m\<lparr>cm_policy := snd (clear_peer_backoff (cm_policy m) q)\<rparr>)"
    using clear_ok [OF ok(1)] by (intro bounded_policy [OF assms]) (simp_all add: clear_peer_backoff_def)
  show "bounded (m\<lparr>cm_policy := snd (lift_peer_backoff (cm_policy m) q t)\<rparr>)"
    using lift_ok [OF ok(1)]
    by (intro bounded_policy [OF assms]) (simp_all add: lift_peer_backoff_def split: option.splits)
qed

lemma bounded_push_note [simp]: "bounded m \<Longrightarrow> bounded (push_note m x)"
  by (auto simp: push_note_def bounded_def Let_def MAX_GATE_NOTES_def)

lemma schedule_room:
  assumes "bm_ok rs" "length rs \<le> k" "0 < k" "\<not> bm_has rs q" "k \<le> length rs"
  shows "length (case max_by_key f rs of None \<Rightarrow> rs | Some (p, _) \<Rightarrow> bm_remove p rs) < k"
proof (cases "max_by_key f rs")
  case None
  then show ?thesis using assms by simp
next
  case (Some x)
  have "fst x \<in> fst ` set rs" using max_by_key_Some [OF Some] by simp
  then show ?thesis using Some assms(2) length_bm_remove_less [of "fst x" rs] by (simp add: case_prod_beta)
qed

lemma bounded_schedule [simp]:
  assumes "bounded m"
  shows "bounded (snd (schedule_retry m q t d c))"
proof -
  let ?rs = "if \<not> bm_has (cm_retries m) q \<and> length (cm_retries m) \<ge> cm_max_retry_entries m then
      (case max_by_key (\<lambda>(_, r). rt_due_at_ms r) (cm_retries m) of
         None \<Rightarrow> cm_retries m | Some (furthest, _) \<Rightarrow> bm_remove furthest (cm_retries m))
    else cm_retries m"
  have r: "bm_ok (cm_retries m)" "length (cm_retries m) \<le> cm_max_retry_entries m" "0 < cm_max_retry_entries m"
    using assms by (simp_all add: bounded_def)
  have ok: "bm_ok ?rs" using r(1) by (simp split: option.split prod.split)
  have "bm_has ?rs q \<and> length ?rs \<le> cm_max_retry_entries m \<or> length ?rs < cm_max_retry_entries m"
    using r schedule_room [OF r, of q "\<lambda>(_, r). rt_due_at_ms r"] by auto
  then have "length (bm_insert q x ?rs) \<le> cm_max_retry_entries m" for x
    using length_bm_insert [OF ok, of q x] by auto
  with ok assms show ?thesis
    unfolding schedule_retry_def Let_def snd_conv by (intro bounded_retries) simp_all
qed

lemma release_book:
  "cp_book (snd (release_from_book p q a t)) = cp_book p
   \<or> cp_book (snd (release_from_book p q a t)) = book_remove q a (cp_book p)"
  using make_room_frame(1) [of p t] by (auto simp: release_from_book_def Let_def case_prod_beta split: option.splits)

lemma book_remove_bounded:
  assumes "book_bounded p" "cp_book p' = book_remove q a (cp_book p)"
  shows "book_bounded p'"
proof -
  have "length known \<le> MAX_ADDRESSES_PER_PEER" if "bm_get (book_remove q a (cp_book p)) q' = Some known" for q' known
  proof (cases "bm_get (cp_book p) q")
    case (Some k0)
    have "length (bs_remove a k0) \<le> MAX_ADDRESSES_PER_PEER"
      using assms(1) Some length_bs_remove_le [of a k0] unfolding book_bounded_def by (meson le_trans)
    then show ?thesis
      using that Some assms(1) by (auto simp: book_remove_def book_bounded_def Let_def split: if_splits)
  qed (use that assms(1) in \<open>simp add: book_remove_def book_bounded_def\<close>)
  then show ?thesis using assms(2) by (simp add: book_bounded_def)
qed

lemma bounded_release:
  assumes "bounded m"
  shows "bounded (m\<lparr>cm_policy := snd (release_from_book (cm_policy m) q a t)\<rparr>)"
  using release_book [of "cm_policy m" q a t] assms release_from_book_ok [OF bounded_ok(1) [OF assms]]
    book_remove_bounded [of "cm_policy m" "snd (release_from_book (cm_policy m) q a t)" q a]
  by (auto simp: bounded_def book_bounded_def)

lemma bounded_hand_over [simp]: "bounded m \<Longrightarrow> bounded (snd (hand_over m q a t))"
  using bounded_release [of m q a t] by (cases rule: hand_over_cases [of m q a t]) simp_all

lemma bounded_hand_over_all [simp]: "bounded m \<Longrightarrow> bounded (hand_over_all q as t m)"
  unfolding hand_over_all_def by (induction as arbitrary: m) simp_all

lemma bounded_retire [simp]: "bounded m \<Longrightarrow> bounded (snd (snd (retire_loop xs m)))"
proof (induction xs m rule: retire_loop.induct)
  case (2 q xs m)
  then show ?case by (simp add: Let_def case_prod_beta)
qed simp

lemma enter_book_bounded:
  assumes "bounded m" "bm_get (cp_book (cm_policy m)) q = None \<or>
    (\<exists>known. bm_get (cp_book (cm_policy m)) q = Some known \<and> length known < MAX_ADDRESSES_PER_PEER)"
  shows "bounded (enter_book m q a t)"
proof -
  let ?p = "(cm_policy m)\<lparr>cp_book := book_add q a (cp_book (cm_policy m))\<rparr>"
  have ok: "policy_ok ?p" using remember_ok [OF bounded_ok(1) [OF assms(1)]] .
  have "length (bs_insert a known) \<le> MAX_ADDRESSES_PER_PEER"
    if "bm_get (cp_book (cm_policy m)) q = Some known" for known
    using that assms length_bs_insert [of a known] by (auto simp: bounded_def policy_ok_def)
  moreover have "length (bs_insert a []) \<le> MAX_ADDRESSES_PER_PEER"
    using length_bs_insert [of a "[]"] by (simp add: MAX_ADDRESSES_PER_PEER_def)
  ultimately have "book_bounded ?p"
    using assms(1) by (auto simp: bounded_def book_bounded_def book_add_def split: option.splits if_splits)
  with ok assms(1) have b: "bounded (m\<lparr>cm_policy := ?p\<rparr>)" by (simp add: bounded_def)
  have "bounded (update_retry (\<lambda>r. r\<lparr>rt_due_at_ms := min (rt_due_at_ms r) t\<rparr>) (m\<lparr>cm_policy := ?p\<rparr>) q)"
    using b by simp
  with b show ?thesis by (auto simp: enter_book_def update_retry_def Let_def split: option.split)
qed

text \<open>The victim that leaves makes the room the learned route takes.\<close>

lemma hand_over_left:
  assumes "bounded m" "fst (hand_over m q a t)" "in_book (cp_book (cm_policy m)) q a"
    "bm_get (cp_book (cm_policy m)) q = Some known"
  shows "bm_get (cp_book (cm_policy (snd (hand_over m q a t)))) q =
    (if bs_remove a known = [] then None else Some (bs_remove a known))"
proof -
  let ?r = "release_from_book (cm_policy m) q a t"
  have "fst ?r" "cm_policy (snd (hand_over m q a t)) = snd ?r"
    using assms(2) by (cases rule: hand_over_cases [of m q a t]; simp)+
  moreover have "cp_book (snd ?r) = book_remove q a (cp_book (cm_policy m))" if "fst ?r"
    using that assms(3) make_room_frame(1) [of "cm_policy m" t]
    by (auto simp: release_from_book_def Let_def case_prod_beta split: option.splits if_splits)
  ultimately show ?thesis using assms(4) by (simp add: book_remove_def Let_def)
qed

lemma book_victim_known: "book_victim p q known t = Some a \<Longrightarrow> a \<in> set known"
  using max_by_key_Some by (fastforce simp: book_victim_def)

lemma bounded_learn [simp]:
  assumes "bounded m"
  shows "bounded (snd (learn_address m q a t))"
proof (cases "bm_get (cp_book (cm_policy m)) q")
  case None
  then have "bounded (enter_book (observe m t) q a t)" using assms by (intro enter_book_bounded) simp_all
  with None assms show ?thesis by (simp add: learn_address_def Let_def)
next
  case (Some known)
  have len: "length known \<le> MAX_ADDRESSES_PER_PEER" "cm_max_addresses_per_peer m \<le> MAX_ADDRESSES_PER_PEER"
    using assms Some by (simp_all add: bounded_def book_bounded_def)
  have room: "bounded (enter_book (observe m t) q a t)" if "length known < cm_max_addresses_per_peer m"
    using that assms Some len by (intro enter_book_bounded) simp_all
  have "bounded (enter_book (snd (hand_over (observe m t) q v t)) q a t)"
    if v: "book_victim (cm_policy m) q known t = Some v" "fst (hand_over (observe m t) q v t)" for v
  proof (rule enter_book_bounded)
    have "v \<in> set known" using v(1) by (rule book_victim_known)
    then have "length (bs_remove v known) < length known" by (auto simp: bs_remove_def intro: length_filter_less)
    moreover have "in_book (cp_book (cm_policy m)) q v" using \<open>v \<in> set known\<close> Some by (simp add: in_book_def)
    ultimately show "bm_get (cp_book (cm_policy (snd (hand_over (observe m t) q v t)))) q = None \<or>
        (\<exists>known. bm_get (cp_book (cm_policy (snd (hand_over (observe m t) q v t)))) q = Some known
           \<and> length known < MAX_ADDRESSES_PER_PEER)"
      using hand_over_left [of "observe m t" q v t known] v(2) assms Some len(1) by auto
  qed (use assms in simp)
  then show ?thesis
    using Some assms room by (simp add: learn_address_def Let_def case_prod_beta observe_def [THEN arg_cong [of _ _ cm_max_addresses_per_peer]] split: option.split)
qed

lemma bounded_reclaim: "bounded m \<Longrightarrow> bounded (foldl (\<lambda>m (peer, _). reclaim_retry m peer) m due)"
proof (induction due arbitrary: m)
  case (Cons d due)
  then show ?case by (simp add: case_prod_beta reclaim_retry_def)
qed simp

lemma bounded_lift_peers: "bounded m \<Longrightarrow> bounded (snd (foldl (lift_peer t) (k, m) ps))"
proof (induction ps arbitrary: k m)
  case (Cons q ps)
  have "bounded (snd (lift_peer t (k, m) q))"
    using Cons.prems bounded_outcomes(6) [OF Cons.prems, of q t]
    by (simp add: lift_peer_def Let_def case_prod_beta)
  then show ?case using Cons.IH [of "snd (lift_peer t (k, m) q)" "fst (lift_peer t (k, m) q)"] by simp
qed simp

lemma bounded_map_retries:
  "bounded m \<Longrightarrow> bounded (m\<lparr>cm_retries := bm_map_values f (cm_retries m)\<rparr>)"
  by (rule bounded_retries) (simp_all add: bounded_def bm_map_values_def bm_ok_def comp_def case_prod_beta)

lemma bounded_perform:
  assumes "bounded m"
  shows "bounded (perform m c)"
proof (cases c)
  case (McTakeDue t l)
  then show ?thesis using bounded_reclaim [of "observe m t"] assms by (simp add: take_due_retries_def Let_def)
next
  case (McNetworkAdded t)
  then show ?thesis using assms bounded_lift_peers by (simp add: network_added_def Let_def case_prod_beta)
next
  case (McRelayReached q t)
  then show ?thesis using assms bounded_map_retries [of "observe m t"] by (simp add: relay_reached_def Let_def)
next
  case (McRetained q t)
  then show ?thesis
    using bounded_remove_retry [OF bounded_outcomes(5) [of "observe m t" q], of q] assms
    by (simp add: record_inbound_retained_def Let_def case_prod_beta)
next
  case (McMaxAddresses l)
  then show ?thesis using assms by (simp add: set_max_addresses_per_peer_def bounded_def)
next
  case McDrainNotes
  then show ?thesis using assms by (simp add: drain_notes_def bounded_def)
qed (use assms in \<open>simp_all add: record_address_failure_unadmitted_def record_permanent_address_failure_unadmitted_def
    reclaim_retry_def release_retry_claim_def clear_retry_claim_def Let_def\<close>)

lemma bounded_outcome:
  assumes "bounded m"
  shows "bounded (record_outcome oc m t now)"
proof -
  have b: "bounded (observe m u)" for u using assms by simp
  note o = bounded_outcomes [OF b]
  show ?thesis
  proof (cases oc)
    case OcSuccess
    have "bounded ((observe m u)\<lparr>cm_policy := policy_record_success (cm_policy (observe m u)) q (tk_address t) u,
        cm_retries := bm_remove q (cm_retries (observe m u))\<rparr>)" for u q
      using bounded_remove_retry [OF o(1) [of u q "tk_address t" u], of q] by simp
    then show ?thesis unfolding OcSuccess
      using b by (auto simp: record_success_def Let_def split: option.split)
  next
    case OcMismatch
    then show ?thesis
      using o(4) b by (auto simp: record_identity_mismatch_def Let_def case_prod_beta release_retry_claim_def split: option.split)
  next
    case OcFailure
    then show ?thesis
      using o(3) b by (auto simp: record_failure_def Let_def case_prod_beta split: option.split)
  next
    case (OcRelayHop relay up)
    then show ?thesis
      using o(2) b by (auto simp: record_relay_hop_unreached_def Let_def case_prod_beta split: option.split)
  qed (use b bounded_remove_retry [OF b] in \<open>auto simp: record_permanent_failure_def record_authorization_withdrawn_def record_locally_refused_def
      release_retry_claim_def clear_retry_claim_def Let_def split: option.split\<close>)
qed

lemma bounded_step:
  assumes "bounded (fu_manager s)"
  shows "bounded (fu_manager (funnel_step s op))"
proof (cases op)
  case (FoReserve k)
  have "bounded (snd (admit_reserve snap r now (fu_manager s)))" for snap r now
    using assms by (cases rule: admit_reserve_cases [of snap r now "fu_manager s"]) simp_all
  then show ?thesis
    using assms FoReserve by (auto split: option.split sum.split prod.split) (metis snd_conv)+
next
  case (FoTrust tr l)
  then show ?thesis using assms
    by (simp add: set_trust_def retire_unclassified_book_peers_def Let_def case_prod_beta)
next
  case FoShutdown
  have "policy_ok ((cm_policy (fu_manager s))\<lparr>cp_shutting_down := True\<rparr>)"
    using bounded_ok(1) [OF assms] by (simp add: policy_ok_def outside_keys_def)
  then have "bounded ((fu_manager s)\<lparr>cm_shutting_down := True, cm_policy := (cm_policy (fu_manager s))\<lparr>cp_shutting_down := True\<rparr>\<rparr>)"
    using assms by (intro bounded_policy) simp_all
  with FoShutdown show ?thesis by (simp add: begin_shutdown_def)
qed (use assms in \<open>auto simp: admit_revalidate_def admit_inbound_connection_def reserve_def record_connection_closed_def
      drop_slot_def bind_local_peer_def bounded_perform bounded_outcome bounded_outcome [where oc = OcSuccess, simplified] split: option.split sum.split prod.split bool.split\<close>)

lemma reachable_bounded: "reachable T s \<Longrightarrow> bounded (fu_manager s)"
proof (induction rule: reachable.induct)
  case (start p T i d)
  then show ?case
    by (simp add: funnel_new_def manager_new_def bounded_def book_bounded_def DEFAULT_MAX_RETRY_ENTRIES_def
        DEFAULT_MAX_ADDRESSES_PER_PEER_def MAX_ADDRESSES_PER_PEER_def)
qed (rule bounded_step)

text \<open>In every reachable state of the funnel the tables the manager keeps stay within their bounds:
  at most thirty-two routes of a peer in the book, at most a fixed number of scheduled retries,
  at most sixty-four notes, and never more records outside the book than the policy allows.
\<close>

theorem manager_tables_bounded:
  assumes "reachable T s" "bm_get (cp_book (cm_policy (fu_manager s))) q = Some known"
  shows "length known \<le> MAX_ADDRESSES_PER_PEER \<and> distinct known \<and> known \<noteq> []
    \<and> length (cm_retries (fu_manager s)) \<le> cm_max_retry_entries (fu_manager s)
    \<and> length (cm_notes (fu_manager s)) \<le> MAX_GATE_NOTES
    \<and> length (outside_entries (cm_policy (fu_manager s))) \<le> cp_max_addresses (cm_policy (fu_manager s))"
  using reachable_bounded [OF assms(1)] assms(2) length_outside_entries [of "cm_policy (fu_manager s)"]
  by (auto simp: bounded_def book_bounded_def policy_ok_def bs_ok_distinct)

section \<open>Learning a route\<close>

lemma hand_over_book:
  assumes "bm_ok (cp_addresses (cm_policy m))"
  shows "booked (cm_policy (snd (hand_over m q v t))) k
    \<longleftrightarrow> booked (cm_policy m) k \<and> (k \<noteq> (q, v) \<or> \<not> fst (hand_over m q v t))"
proof -
  have same: "booked (cm_policy (snd (hand_over m q v t))) k = booked (cm_policy m) k" if "\<not> fst (hand_over m q v t)"
    using that release_refused [of "cm_policy m" q v t] by (cases rule: hand_over_cases [of m q v t]) simp_all
  moreover have "cm_policy (snd (hand_over m q v t)) = snd (release_from_book (cm_policy m) q v t)"
    "fst (release_from_book (cm_policy m) q v t)" if "fst (hand_over m q v t)"
    using that by (cases rule: hand_over_cases [of m q v t]; simp)+
  ultimately show ?thesis using release_keeps(2) [OF assms, of q v t k] by (cases "fst (hand_over m q v t)") auto
qed

lemma enter_book_booked: "booked (cm_policy (enter_book m q a t)) k \<longleftrightarrow> booked (cm_policy m) k \<or> k = (q, a)"
  using in_book_add [of q a "cp_book (cm_policy m)" "fst k" "snd k"]
  by (auto simp: enter_book_def Let_def prod_eq_iff split: option.split)

lemma book_victim_bad:
  assumes "book_victim p q known t = Some v"
  shows "v \<in> set known" "\<not> is_address_dialable p q v t \<or> failures_of p q v > 0 \<and> newest_proven p q known \<noteq> Some v"
  using max_by_key_Some [OF assms [unfolded book_victim_def]] by auto

text \<open>The three ways a call to \<open>learn_address\<close> ends.\<close>

lemma learn_cases:
  assumes "bm_ok (cp_addresses (cm_policy m))"
  obtains (refused) "fst (learn_address m q a t) = False"
      "\<And>k. booked (cm_policy (snd (learn_address m q a t))) k = booked (cm_policy m) k"
  | (added) "fst (learn_address m q a t) = True"
      "\<And>k. booked (cm_policy (snd (learn_address m q a t))) k \<longleftrightarrow> booked (cm_policy m) k \<or> k = (q, a)"
  | (displaced) known v where "fst (learn_address m q a t) = True"
      "bm_get (cp_book (cm_policy m)) q = Some known" "book_victim (cm_policy m) q known t = Some v"
      "cm_max_addresses_per_peer m \<le> length known" "a \<notin> set known"
      "\<And>k. booked (cm_policy (snd (learn_address m q a t))) k \<longleftrightarrow> booked (cm_policy m) k \<and> k \<noteq> (q, v) \<or> k = (q, a)"
proof -
  let ?m = "observe m t" and ?p = "cm_policy m"
  have lim: "cm_max_addresses_per_peer ?m = cm_max_addresses_per_peer m" by (simp add: observe_def)
  consider "manager_classify ?m q = Unauthorized"
    | "manager_classify ?m q \<noteq> Unauthorized" "bm_get (cp_book ?p) q = None"
    | known where "manager_classify ?m q \<noteq> Unauthorized" "bm_get (cp_book ?p) q = Some known" "a \<in> set known"
    | known where "manager_classify ?m q \<noteq> Unauthorized" "bm_get (cp_book ?p) q = Some known" "a \<notin> set known"
        "length known < cm_max_addresses_per_peer m"
    | known where "manager_classify ?m q \<noteq> Unauthorized" "bm_get (cp_book ?p) q = Some known" "a \<notin> set known"
        "cm_max_addresses_per_peer m \<le> length known" "book_victim ?p q known t = None"
    | known v where "manager_classify ?m q \<noteq> Unauthorized" "bm_get (cp_book ?p) q = Some known" "a \<notin> set known"
        "cm_max_addresses_per_peer m \<le> length known" "book_victim ?p q known t = Some v" "fst (hand_over ?m q v t)"
    | known v where "manager_classify ?m q \<noteq> Unauthorized" "bm_get (cp_book ?p) q = Some known" "a \<notin> set known"
        "cm_max_addresses_per_peer m \<le> length known" "book_victim ?p q known t = Some v" "\<not> fst (hand_over ?m q v t)"
    by (metis leI not_None_eq)
  then show thesis
  proof cases
    case 1
    then show thesis by (intro refused) (simp_all add: learn_address_def Let_def)
  next
    case 2
    then show thesis by (intro added) (simp_all add: learn_address_def Let_def enter_book_booked)
  next
    case 3
    then show thesis by (intro added) (auto simp: learn_address_def Let_def in_book_def prod_eq_iff)
  next
    case 4
    then show thesis by (intro added) (simp_all add: learn_address_def Let_def lim enter_book_booked)
  next
    case 5
    then show thesis by (intro refused) (simp_all add: learn_address_def Let_def lim)
  next
    case 6
    then show thesis using assms
      by (intro displaced [of known v]) (simp_all add: learn_address_def Let_def lim enter_book_booked case_prod_beta hand_over_book)
  next
    case 7
    then show thesis using assms
      by (intro refused) (simp_all add: learn_address_def Let_def lim case_prod_beta hand_over_book)
  qed
qed

text \<open>A learned route goes into the book, and to make room for it at most one route leaves: one of the
  same peer that is quarantined, or that has failed and is not the newest proven one.  Nothing
  else about the book changes, and a refused one changes nothing.
\<close>

theorem learned_route_displaces_bad_only:
  assumes "policy_ok (cm_policy m)" "learn_address m q a t = (learned, m')"
  shows "(learned \<longrightarrow> booked (cm_policy m') (q, a))
    \<and> {k. booked (cm_policy m') k} - {k. booked (cm_policy m) k} \<subseteq> (if learned then {(q, a)} else {})
    \<and> (\<exists>lost. {k. booked (cm_policy m) k} - {k. booked (cm_policy m') k} = (\<lambda>v. (q, v)) ` set_option lost
        \<and> (\<forall>v known. lost = Some v \<and> bm_get (cp_book (cm_policy m)) q = Some known \<longrightarrow> learned
             \<and> cm_max_addresses_per_peer m \<le> length known
             \<and> (\<not> is_address_dialable (cm_policy m) q v t
                \<or> failures_of (cm_policy m) q v > 0 \<and> newest_proven (cm_policy m) q known \<noteq> Some v)))"
proof -
  have ok: "bm_ok (cp_addresses (cm_policy m))" using assms(1) by (simp add: policy_ok_def)
  have m': "m' = snd (learn_address m q a t)" "learned = fst (learn_address m q a t)" using assms(2) by simp_all
  from ok show ?thesis
  proof (cases rule: learn_cases [where q = q and a = a and t = t])
    case refused
    then have "{k. booked (cm_policy m') k} = {k. booked (cm_policy m) k}" unfolding m' by blast
    with refused(1) show ?thesis unfolding m' by (intro conjI exI [of _ None]) simp_all
  next
    case added
    then have after: "{k. booked (cm_policy m') k} = {k. booked (cm_policy m) k} \<union> {(q, a)}" unfolding m' by blast
    then have "booked (cm_policy m') (q, a)" by blast
    with added(1) show ?thesis unfolding m'(2) after by (intro conjI exI [of _ None]) auto
  next
    case (displaced known v)
    have known: "booked (cm_policy m) (q, v)" "v \<noteq> a"
      using displaced(2,5) book_victim_bad(1) [OF displaced(3)] by (auto simp: in_book_def)
    have after: "{k. booked (cm_policy m') k} = {k. booked (cm_policy m) k} - {(q, v)} \<union> {(q, a)}"
      using displaced(6) unfolding m' by blast
    then have "booked (cm_policy m') (q, a)" by blast
    moreover have "{k. booked (cm_policy m) k} - {k. booked (cm_policy m') k} = (\<lambda>v. (q, v)) ` set_option (Some v)"
      unfolding after using known by auto
    moreover have "{k. booked (cm_policy m') k} - {k. booked (cm_policy m) k} \<subseteq> {(q, a)}" unfolding after by blast
    moreover note book_victim_bad(2) [OF displaced(3)]
    ultimately show ?thesis using displaced(1,2,4) unfolding m'(2) [symmetric] by (intro conjI exI [of _ "Some v"]) simp_all
  qed
qed

section \<open>Retries\<close>

definition due_retries :: "connection_manager \<Rightarrow> nat \<Rightarrow> (transport_identity \<times> nat) list" where
  "due_retries m now_ms = map (\<lambda>(p, r). (p, rt_due_at_ms r))
     (filter (\<lambda>(_, r). \<not> rt_claimed r \<and> now_ms \<ge> rt_due_at_ms r) (cm_retries m))"

lemma take_due_eq:
  "take_due_retries m now_ms limit =
    (let due = take limit (sort_key snd (due_retries m now_ms))
     in (map fst due, foldl (\<lambda>m (peer, _). reclaim_retry m peer) (observe m now_ms) due))"
  by (simp add: take_due_retries_def due_retries_def Let_def)

lemma in_due_retries:
  assumes "bm_ok (cm_retries m)"
  shows "(p, d) \<in> set (due_retries m now) \<longleftrightarrow>
    (\<exists>r. bm_get (cm_retries m) p = Some r \<and> \<not> rt_claimed r \<and> rt_due_at_ms r \<le> now \<and> rt_due_at_ms r = d)"
  using assms by (fastforce simp: due_retries_def bm_get_in_set)

lemma due_retries_keys:
  assumes "bm_ok (cm_retries m)"
  shows "fst ` set (due_retries m now) = {p. is_retry_due m p now}"
  using in_due_retries [OF assms, of _ _ now] by (force simp: is_retry_due_def split: option.splits)

lemma due_retries_distinct: "bm_ok (cm_retries m) \<Longrightarrow> distinct (map fst (due_retries m now))"
  unfolding due_retries_def map_map
  by (simp add: comp_def case_prod_beta bm_ok_def distinct_map_filter strict_sorted_iff)

lemma reclaim_get:
  "bm_get (cm_retries (foldl (\<lambda>m (peer, _). reclaim_retry m peer) m due)) p =
    (if p \<in> fst ` set due then map_option (\<lambda>r. r\<lparr>rt_claimed := True\<rparr>) (bm_get (cm_retries m) p)
     else bm_get (cm_retries m) p)"
proof (induction due arbitrary: m)
  case (Cons d due)
  have "bm_get (cm_retries (reclaim_retry m (fst d))) p =
      (if p = fst d then map_option (\<lambda>r. r\<lparr>rt_claimed := True\<rparr>) (bm_get (cm_retries m) p) else bm_get (cm_retries m) p)"
    by (auto simp: reclaim_retry_def update_retry_def split: option.split)
  then show ?case using Cons.IH [of "reclaim_retry m (fst d)"]
    by (cases "bm_get (cm_retries m) p") (auto simp: case_prod_beta)
qed simp

text \<open>The due retries are handed out earliest first and at most \<open>limit\<close> of them, and each of them
  once: none that was handed out is due again at any time until its claim is given back, and no
  other entry of the schedule changes.
\<close>

theorem due_retry_handed_out_once:
  assumes "bm_ok (cm_retries m)" "take_due_retries m now limit = (peers, m')"
  shows "distinct peers \<and> length peers = min limit (card {p. is_retry_due m p now})
    \<and> (\<forall>p \<in> set peers. is_retry_due m p now \<and> (\<forall>u. \<not> is_retry_due m' p u)
         \<and> (\<forall>p' r r'. is_retry_due m p' now \<and> p' \<notin> set peers \<and> bm_get (cm_retries m) p = Some r
              \<and> bm_get (cm_retries m) p' = Some r' \<longrightarrow> rt_due_at_ms r \<le> rt_due_at_ms r'))
    \<and> (\<forall>p. p \<notin> set peers \<longrightarrow> bm_get (cm_retries m') p = bm_get (cm_retries m) p)"
proof -
  let ?D = "due_retries m now" and ?S = "sort_key snd (due_retries m now)"
  have r: "peers = map fst (take limit ?S)"
    "m' = foldl (\<lambda>m (peer, _). reclaim_retry m peer) (observe m now) (take limit ?S)"
    using assms(2) by (simp_all add: take_due_eq Let_def)
  have keys: "fst ` set ?D = {p. is_retry_due m p now}" by (rule due_retries_keys [OF assms(1)])
  have dist: "distinct (map fst ?S)"
    using due_retries_distinct [OF assms(1), of now] by (simp add: distinct_map)
  have "distinct peers" unfolding r(1) take_map [symmetric] by (rule distinct_take [OF dist])
  moreover have "set peers \<subseteq> fst ` set ?D" using set_take_subset [of limit ?S] by (auto simp: r(1))
  ultimately have peers: "distinct peers" "set peers \<subseteq> {p. is_retry_due m p now}" unfolding keys by simp_all
  have "card {p. is_retry_due m p now} = length ?D"
    using distinct_card [OF due_retries_distinct [OF assms(1), of now]] keys by simp
  then have len: "length peers = min limit (card {p. is_retry_due m p now})" by (simp add: r(1))
  have get: "bm_get (cm_retries m') p = (if p \<in> set peers
      then map_option (\<lambda>r. r\<lparr>rt_claimed := True\<rparr>) (bm_get (cm_retries m) p) else bm_get (cm_retries m) p)" for p
    unfolding r by (simp add: reclaim_get)
  have once: "\<not> is_retry_due m' p u" if "p \<in> set peers" for p u
    using that get [of p] by (cases "bm_get (cm_retries m) p") (simp_all add: is_retry_due_def)
  have order: "rt_due_at_ms x \<le> rt_due_at_ms y"
    if "p \<in> set peers" "is_retry_due m p' now" "p' \<notin> set peers" "bm_get (cm_retries m) p = Some x"
      "bm_get (cm_retries m) p' = Some y" for p p' x y
  proof -
    have "p \<in> fst ` set (take limit ?S)" using that(1) unfolding r(1) by (simp only: set_map)
    then obtain d where d: "(p, d) \<in> set (take limit ?S)" by force
    then have "(p, d) \<in> set ?D" using set_take_subset [of limit ?S] by auto
    then have dx: "d = rt_due_at_ms x" using that(4) in_due_retries [OF assms(1)] by simp
    have "(p', rt_due_at_ms y) \<in> set ?S"
      using that(2,5) in_due_retries [OF assms(1)] by (simp add: is_retry_due_def)
    moreover have "(p', rt_due_at_ms y) \<notin> set (take limit ?S)" using that(3) by (force simp: r(1))
    ultimately have "(p', rt_due_at_ms y) \<in> set (drop limit ?S)"
      by (metis Un_iff append_take_drop_id set_append)
    then have "rt_due_at_ms y \<in> set (map snd (drop limit ?S))" by force
    moreover have "d \<in> set (map snd (take limit ?S))" using d by force
    moreover have "sorted (map snd (take limit ?S) @ map snd (drop limit ?S))"
      by (simp only: map_append [symmetric] append_take_drop_id sorted_sort_key)
    ultimately show ?thesis unfolding sorted_append dx by blast
  qed
  show ?thesis
  proof (intro conjI ballI allI impI)
    show "distinct peers" "length peers = min limit (card {p. is_retry_due m p now})" by (fact peers(1), fact len)
    show "is_retry_due m p now" if "p \<in> set peers" for p using that peers(2) by blast
    show "\<not> is_retry_due m' p u" if "p \<in> set peers" for p u using that by (rule once)
    show "bm_get (cm_retries m') p = bm_get (cm_retries m) p" if "p \<notin> set peers" for p using that get [of p] by simp
  qed (use order in blast)
qed

text \<open>
  The delay before a retry doubles from thirty seconds with every attempt and stays between that
  and five minutes, whatever the count of attempts.
\<close>

theorem retry_backoff_schedule:
  "retry_backoff_ms n = min (30000 * 2 ^ n) 300000 \<and> 30000 \<le> retry_backoff_ms n \<and> retry_backoff_ms n \<le> 300000"
proof -
  have small: "n < 8 \<Longrightarrow> n \<in> {0,1,2,3,4,5,6,7}" by auto
  have big: "300000 \<le> 30000 * (2::nat) ^ n" if "8 \<le> n"
    using power_increasing [OF that, of "2::nat"] by simp
  show ?thesis
  proof (cases "n < 8")
    case True
    with small show ?thesis
      by (auto simp: retry_backoff_ms_def RETRY_BASE_MS_def RETRY_CEILING_MS_def sat_mul64_def U64_MAX_def Let_def)
  next
    case False
    with big show ?thesis
      by (simp add: retry_backoff_ms_def RETRY_BASE_MS_def RETRY_CEILING_MS_def sat_mul64_def U64_MAX_def Let_def)
  qed
qed

section \<open>Trust\<close>

lemma map_filter_if: "List.map_filter (\<lambda>x. if P x then Some (f x) else None) xs = map f (filter P xs)"
  by (induction xs) (simp_all add: List.map_filter_simps)

lemma permits_iff:
  "permits now was \<longleftrightarrow> (\<forall>origin. class_denial was origin = None \<longrightarrow> class_denial now origin = None)"
proof -
  have d: "class_denial DataPlaneTrusted origin = None" "class_denial Unauthorized origin \<noteq> None" for origin
    by (simp_all add: class_denial_def)
  have e: "class_denial ConnectivityInfrastructureOnly AutonatProbe = None"
    "class_denial ConnectivityInfrastructureOnly Manual \<noteq> None"
    by (simp_all add: class_denial_def names_application_destination_def)
  show ?thesis
    by (cases now; cases was; simp only: permits_def connection_class.distinct simp_thms d) (metis e)+
qed

text \<open>Changing the trust reports exactly the live peers that lost a permission: those for which some
  origin of dial was authorized before and is not any more.
\<close>

theorem set_trust_reports_revoked:
  assumes "set_trust m trust live = (revoked, m')"
  shows "rv_peer ` set revoked =
    {q \<in> set live. \<exists>origin. class_denial (manager_classify m q) origin = None
       \<and> class_denial (manager_classify m' q) origin \<noteq> None}
    \<and> cm_trust m' = trust\<lparr>tso_local_peer := cm_local_peer m\<rparr> \<and> ps_trust (cm_published m') = cm_trust m'"
proof -
  let ?m = "m\<lparr>cm_trust := trust\<lparr>tso_local_peer := cm_local_peer m\<rparr>\<rparr>"
  have m': "m' = publish (retire_unclassified_book_peers ?m)" using assms by (simp add: set_trust_def Let_def)
  have "authority (retire_unclassified_book_peers ?m) = authority ?m"
    by (simp add: retire_unclassified_book_peers_def Let_def case_prod_beta)
  then have trust: "cm_trust m' = cm_trust ?m" "ps_trust (cm_published m') = cm_trust m'"
    by (simp_all add: m' authority_def publish_def Let_def)
  have "permits c c" for c by (cases c) (simp_all add: permits_def)
  then have changed: "was \<noteq> now \<and> \<not> permits now was \<longleftrightarrow> \<not> permits now was" for was now by metis
  have "revoked = map (\<lambda>q. \<lparr>rv_peer = q, rv_was = manager_classify m q, rv_now = manager_classify m' q\<rparr>)
      (filter (\<lambda>q. \<not> permits (manager_classify m' q) (manager_classify m q)) live)"
    using assms unfolding m' by (simp add: set_trust_def Let_def changed manager_classify_def map_filter_if)
  then have "rv_peer ` set revoked =
      {q \<in> set live. \<not> permits (manager_classify m' q) (manager_classify m q)}"
    by (auto simp: image_image)
  with trust show ?thesis by (simp add: permits_iff)
qed

section \<open>Admission in one go\<close>

lemma snapshot_admit_cases:
  fixes s r t m
  obtains (denied) d where "snapshot_admit s m r t = (Err d, m)" "d = DnPolicySuperseded \<Longrightarrow> \<not> is_current s m"
  | (granted) k where "snapshot_admit s m r t = (Ok k,
      m\<lparr>cm_pending := cm_pending m + 1, cm_connections := cm_connections m + 1, cm_outcomes := cm_outcomes m + units k\<rparr>)"
      "ticket_ok m k" "ticket_request k = r"
proof (cases "admit_decide s m r t")
  case (Inl d)
  have "\<not> is_current s m" if "d = DnPolicySuperseded"
    using Inl that by (auto simp: admit_decide_def policy_admit_def class_denial_def split: if_splits option.splits connection_class.splits)
  with Inl show thesis by (intro denied [of d]) (simp_all add: snapshot_admit_def)
next
  case (Inr u)
  then have live: "\<not> cm_shutting_down m" "is_current s m"
    by (auto simp: admit_decide_def split: if_splits)
  show thesis
  proof (cases rule: admit_reserve_cases [of s r t m])
    case (refused d)
    have "d \<noteq> DnPolicySuperseded"
      using refused by (auto simp: admit_reserve_def Let_def split: sum.splits if_splits)
    with refused Inr show thesis by (intro denied [of d]) (simp_all add: snapshot_admit_def)
  next
    case (reserved k)
    with Inr live show thesis
      by (intro granted [of k]) (simp_all add: snapshot_admit_def admit_revalidate_def is_current_def)
  qed
qed

lemma admit_attempts_once:
  "admit_attempts (Suc n) m r t = snapshot_admit (cm_published m) m r t"
proof (induction n)
  case 0
  show ?case
    by (cases rule: snapshot_admit_cases [of "cm_published m" m r t]) (auto split: dial_denial.split)
next
  case (Suc n)
  show ?case
    using Suc by (cases rule: snapshot_admit_cases [of "cm_published m" m r t]) (auto split: dial_denial.split)
qed

text \<open>C38. With nobody in between, one attempt is as good as the three a handle makes: asking through the
  handle is deciding, reserving and looking again on the published snapshot, once.  A refusal
  leaves the manager exactly as it was; a grant takes one pending dial, one connection and, for a
  named peer, one outcome unit, and nothing else.
\<close>

theorem handle_admit_once:
  "handle_admit m r t = snapshot_admit (cm_published m) m r t
   \<and> (case handle_admit m r t of
        (Inl d, m') \<Rightarrow> m' = m
      | (Inr k, m') \<Rightarrow> m' = m\<lparr>cm_pending := cm_pending m + 1, cm_connections := cm_connections m + 1,
          cm_outcomes := cm_outcomes m + (if dq_peer r = None then 0 else 1)\<rparr>)"
proof -
  have "handle_admit m r t = snapshot_admit (cm_published m) m r t"
    using admit_attempts_once [of 2 m r t] by (simp add: handle_admit_def ADMIT_RELOAD_ATTEMPTS_def eval_nat_numeral)
  then show ?thesis
    by (cases rule: snapshot_admit_cases [of "cm_published m" m r t]) (auto simp: ticket_ok_def ticket_request_def)
qed

section \<open>Witnesses\<close>

definition learning_ops :: "funnel_op list" where
  "learning_ops = [FoTrust sample_trust [], FoCall (McLearn dial_peer [1] 5)]"

theorem manager_tables_bounded_witness:
  "bm_get (cp_book (cm_policy (fu_manager (funnel_run (funnel_new 1 (policy_new 4 4) 4) learning_ops)))) dial_peer
     = Some [[1]]
   \<and> length (cm_notes (fu_manager (funnel_run (funnel_new 1 (policy_new 4 4) 4) learning_ops))) \<le> MAX_GATE_NOTES"
proof -
  have "reachable 0 (funnel_new 1 (policy_new 4 4) 4)"
    by (rule reachable.start [OF policy_new_ok]) (simp add: policy_new_def policy_default_def)
  then have reach: "reachable (last_time 0 learning_ops) (funnel_run (funnel_new 1 (policy_new 4 4) 4) learning_ops)"
    by (rule reachable_run) code_simp
  have known: "bm_get (cp_book (cm_policy (fu_manager (funnel_run (funnel_new 1 (policy_new 4 4) 4) learning_ops)))) dial_peer
      = Some [[1]]"
    by code_simp
  with manager_tables_bounded [OF reach known] show ?thesis by simp
qed

text \<open>A manager that trusts one peer, whose only route has failed once and is due for a retry.\<close>

definition failed_route_manager :: connection_manager where
  "failed_route_manager =
    (manager_new 1 ((policy_new 4 4)\<lparr>cp_book := [(dial_peer, [[1]])],
       cp_addresses := [((dial_peer, [1]), address_state_default\<lparr>as_consecutive_failures := 1\<rparr>)]\<rparr>) 4)
     \<lparr>cm_trust := sample_trust, cm_max_addresses_per_peer := 1,
      cm_retries := [(dial_peer, \<lparr>rt_due_at_ms = 10, rt_attempts = 1, rt_claimed = False, rt_waits_on = None\<rparr>)]\<rparr>"

theorem learned_route_displaces_bad_only_witness:
  "\<exists>lost. {k. booked (cm_policy failed_route_manager) k}
       - {k. booked (cm_policy (snd (learn_address failed_route_manager dial_peer [2] 12))) k}
     = (\<lambda>v. (dial_peer, v)) ` set_option lost
   \<and> booked (cm_policy (snd (learn_address failed_route_manager dial_peer [2] 12))) (dial_peer, [2])"
proof -
  have "outside_keys (cm_policy failed_route_manager) = {}"
    by (auto simp: failed_route_manager_def manager_new_def outside_keys_def in_book_def bm_has_def split: if_splits)
  then have "policy_ok (cm_policy failed_route_manager)"
    by (simp add: failed_route_manager_def manager_new_def policy_ok_def policy_new_def policy_default_def bm_ok_def bs_ok_def)
  note * = learned_route_displaces_bad_only [OF this surjective_pairing, of dial_peer "[2]" 12]
  have "fst (learn_address failed_route_manager dial_peer [2] 12)" by code_simp
  with * show ?thesis by blast
qed

theorem due_retry_handed_out_once_witness:
  "fst (take_due_retries failed_route_manager 40 3) = [dial_peer]
   \<and> \<not> is_retry_due (snd (take_due_retries failed_route_manager 40 3)) dial_peer 50"
proof -
  have "bm_ok (cm_retries failed_route_manager)" by (simp add: failed_route_manager_def bm_ok_def)
  note * = due_retry_handed_out_once [OF this surjective_pairing, of 40 3]
  have "fst (take_due_retries failed_route_manager 40 3) = [dial_peer]" by code_simp
  with * show ?thesis by simp
qed

theorem set_trust_reports_revoked_witness:
  "rv_peer ` set (fst (set_trust failed_route_manager trust_sources_default [dial_peer])) = {dial_peer}"
proof -
  let ?r = "set_trust failed_route_manager trust_sources_default [dial_peer]"
  note set_trust_reports_revoked [OF surjective_pairing, of failed_route_manager trust_sources_default "[dial_peer]"]
  moreover have "class_denial (manager_classify failed_route_manager dial_peer) Manual = None" by code_simp
  moreover have "class_denial (manager_classify (snd ?r) dial_peer) Manual \<noteq> None" by code_simp
  ultimately show ?thesis by auto
qed

end
