(* ===== verification/Relay.thy ===== *)
theory Relay
  imports Ids "HOL-Library.Code_Target_Nat"
begin

text \<open>
  The relay reservation policy, \<open>crates/transport/runtime/src/relay.rs\<close>: which relays to ask, how
  many, when to ask again after a failure, and which relay-derived addresses are advertised.  The
  manager reads no clock; every call that can expire something takes the time.
\<close>

section \<open>Definitions\<close>

definition MAX_STATIC_RELAYS :: nat where "MAX_STATIC_RELAYS = 16"
definition MAX_LEARNED_RELAYS :: nat where "MAX_LEARNED_RELAYS = 16"
definition MAX_ADDRESSES_PER_RELAY :: nat where "MAX_ADDRESSES_PER_RELAY = 8"
definition RELAY_RESERVATIONS_CEILING :: nat where "RELAY_RESERVATIONS_CEILING = 8"

datatype direct_inbound_state = InboundUnknown | InboundVerifiedPublic | InboundNotVerified

record reservation_config =
  rcf_target_private_or_unknown :: nat
  rcf_target_public :: nat
  rcf_max_reservations :: nat
  rcf_retry_min_ms :: nat
  rcf_retry_max_ms :: nat

definition reservation_config_default :: reservation_config where
  "reservation_config_default =
    \<lparr>rcf_target_private_or_unknown = 2, rcf_target_public = 1, rcf_max_reservations = 4,
     rcf_retry_min_ms = 5000, rcf_retry_max_ms = 5 * 60000\<rparr>"

datatype relay_config_error = CeMaxReservations | CeTargets | CeRetry

datatype relay_source = SourceStatic | SourceLearned

instantiation relay_source :: linorder
begin
definition less_eq_relay_source :: "relay_source \<Rightarrow> relay_source \<Rightarrow> bool" where
  "less_eq_relay_source a b \<longleftrightarrow> a = SourceStatic \<or> b = SourceLearned"
definition less_relay_source :: "relay_source \<Rightarrow> relay_source \<Rightarrow> bool" where
  "less_relay_source a b \<longleftrightarrow> a = SourceStatic \<and> b = SourceLearned"
instance
proof
  fix a b c :: relay_source
  show "a < b \<longleftrightarrow> a \<le> b \<and> \<not> b \<le> a"
    by (cases a; cases b) (simp_all add: less_eq_relay_source_def less_relay_source_def)
  show "a \<le> a" "a \<le> b \<or> b \<le> a"
    by (cases a; cases b; simp add: less_eq_relay_source_def)+
  show "a \<le> b \<Longrightarrow> b \<le> c \<Longrightarrow> a \<le> c" "a \<le> b \<Longrightarrow> b \<le> a \<Longrightarrow> a = b"
    by (cases a; cases b; cases c; simp add: less_eq_relay_source_def)+
qed
end

datatype reservation_state =
    RsIdle
  | RsRequested nat nat
  | RsActive nat "bytes list"
  | RsBackoff nat nat

record relay_candidate =
  rc_addresses :: "bytes list"
  rc_source :: relay_source
  rc_state :: reservation_state
  rc_lifted_at_ms :: "nat option"

definition relay_add_address :: "relay_candidate \<Rightarrow> bytes \<Rightarrow> bool \<times> relay_candidate" where
  "relay_add_address c address =
    (if address \<in> set (rc_addresses c) then (True, c)
     else if length (rc_addresses c) \<ge> MAX_ADDRESSES_PER_RELAY then (False, c)
     else (True, c\<lparr>rc_addresses := rc_addresses c @ [address]\<rparr>))"

datatype relay_action =
    Reserve transport_identity "bytes list"
  | Release transport_identity "bytes list"

datatype refused_relay_report =
    UnknownRelay
  | UnrequestedAcceptance
  | UnrequestedFailure
  | EmptyAddress
  | AddressesFull

datatype relay_standing = Satisfied | Partial | NoneWanted

record reservation_manager =
  rm_config :: reservation_config
  rm_candidates :: "(transport_identity, relay_candidate) bmap"
  rm_direct_inbound :: direct_inbound_state

definition reservation_manager_new :: "reservation_config \<Rightarrow> relay_config_error + reservation_manager" where
  "reservation_manager_new config =
    (if rcf_max_reservations config = 0 \<or> rcf_max_reservations config > RELAY_RESERVATIONS_CEILING
     then Err CeMaxReservations
     else if rcf_target_private_or_unknown config > rcf_max_reservations config
       \<or> rcf_target_public config > rcf_max_reservations config
       \<or> rcf_target_public config > rcf_target_private_or_unknown config
     then Err CeTargets
     else if rcf_retry_min_ms config = 0 \<or> rcf_retry_min_ms config > rcf_retry_max_ms config
     then Err CeRetry
     else Ok \<lparr>rm_config = config, rm_candidates = [], rm_direct_inbound = InboundUnknown\<rparr>)"

definition relay_count :: "reservation_manager \<Rightarrow> relay_source \<Rightarrow> nat" where
  "relay_count m source = length (filter (\<lambda>e. rc_source (snd e) = source) (rm_candidates m))"

abbreviation candidate_insert :: "transport_identity \<Rightarrow> relay_candidate \<Rightarrow> reservation_manager \<Rightarrow> reservation_manager" where
  "candidate_insert relay c m \<equiv> m\<lparr>rm_candidates := bm_insert relay c (rm_candidates m)\<rparr>"

definition add_static :: "reservation_manager \<Rightarrow> transport_identity \<Rightarrow> bytes \<Rightarrow> bool \<times> reservation_manager" where
  "add_static m relay address =
    (if address = [] then (False, m)
     else
       let static_full = relay_count m SourceStatic \<ge> MAX_STATIC_RELAYS in
       case bm_get (rm_candidates m) relay of
         Some c \<Rightarrow>
           if rc_source c = SourceLearned then
             if static_full then (False, m)
             else (True, candidate_insert relay (c\<lparr>rc_addresses := [address], rc_source := SourceStatic\<rparr>) m)
           else let (added, c) = relay_add_address c address in (added, candidate_insert relay c m)
       | None \<Rightarrow>
           if static_full then (False, m)
           else (True, candidate_insert relay
                  \<lparr>rc_addresses = [address], rc_source = SourceStatic, rc_state = RsIdle, rc_lifted_at_ms = None\<rparr> m))"

definition learn_relay :: "reservation_manager \<Rightarrow> transport_identity \<Rightarrow> bytes \<Rightarrow> bool \<times> reservation_manager" where
  "learn_relay m relay address =
    (if address = [] then (False, m)
     else
       case bm_get (rm_candidates m) relay of
         Some c \<Rightarrow>
           (case rc_source c of
              SourceStatic \<Rightarrow> (True, m)
            | SourceLearned \<Rightarrow>
                let (added, c) = relay_add_address c address in (added, candidate_insert relay c m))
       | None \<Rightarrow>
           if relay_count m SourceLearned \<ge> MAX_LEARNED_RELAYS then (False, m)
           else (True, candidate_insert relay
                  \<lparr>rc_addresses = [address], rc_source = SourceLearned, rc_state = RsIdle, rc_lifted_at_ms = None\<rparr> m))"

fun active_addresses :: "reservation_state \<Rightarrow> bytes list" where
  "active_addresses (RsActive _ addresses) = addresses"
| "active_addresses _ = []"

definition forget_relay :: "reservation_manager \<Rightarrow> transport_identity \<Rightarrow> bytes list \<times> reservation_manager" where
  "forget_relay m relay =
    ((case bm_get (rm_candidates m) relay of None \<Rightarrow> [] | Some c \<Rightarrow> active_addresses (rc_state c)),
     m\<lparr>rm_candidates := bm_remove relay (rm_candidates m)\<rparr>)"

definition relay_target :: "reservation_manager \<Rightarrow> nat" where
  "relay_target m =
    (let wanted = (case rm_direct_inbound m of
           InboundVerifiedPublic \<Rightarrow> rcf_target_public (rm_config m)
         | _ \<Rightarrow> rcf_target_private_or_unknown (rm_config m));
         cap = min (rcf_max_reservations (rm_config m)) wanted
     in min cap (length (rm_candidates m)))"

fun is_active :: "reservation_state \<Rightarrow> bool" where
  "is_active (RsActive _ _) = True"
| "is_active _ = False"

fun is_requested :: "reservation_state \<Rightarrow> bool" where
  "is_requested (RsRequested _ _) = True"
| "is_requested _ = False"

definition relay_active :: "reservation_manager \<Rightarrow> nat" where
  "relay_active m = length (filter (\<lambda>e. is_active (rc_state (snd e))) (rm_candidates m))"

definition relay_requested :: "reservation_manager \<Rightarrow> nat" where
  "relay_requested m = length (filter (\<lambda>e. is_requested (rc_state (snd e))) (rm_candidates m))"

definition relay_advertised :: "reservation_manager \<Rightarrow> bytes list" where
  "relay_advertised m = concat (map (\<lambda>e. active_addresses (rc_state (snd e))) (rm_candidates m))"

definition standing :: "reservation_manager \<Rightarrow> relay_standing" where
  "standing m =
    (let target = relay_target m in
     if target = 0 then NoneWanted else if relay_active m \<ge> target then Satisfied else Partial)"

fun may_ask :: "nat \<Rightarrow> reservation_state \<Rightarrow> bool" where
  "may_ask now_ms RsIdle = True"
| "may_ask now_ms (RsBackoff until_ms _) = (until_ms \<le> now_ms)"
| "may_ask now_ms _ = False"

definition askable :: "reservation_manager \<Rightarrow> nat \<Rightarrow> transport_identity list" where
  "askable m now_ms =
    map fst (sort_key (\<lambda>e. (rc_source (snd e), fst e))
      (filter (\<lambda>e. may_ask now_ms (rc_state (snd e))) (rm_candidates m)))"

text \<open>The loop of \<open>tick\<close> over the relays to ask.\<close>

fun ask_relays :: "nat \<Rightarrow> transport_identity list \<Rightarrow> reservation_manager \<Rightarrow> relay_action list \<times> reservation_manager" where
  "ask_relays now_ms [] m = ([], m)"
| "ask_relays now_ms (relay # rest) m =
    (case bm_get (rm_candidates m) relay of
       None \<Rightarrow> ask_relays now_ms rest m
     | Some c \<Rightarrow>
         let attempts = (case rc_state c of RsBackoff _ attempts \<Rightarrow> attempts | _ \<Rightarrow> 0);
             (actions, m) = ask_relays now_ms rest
               (candidate_insert relay (c\<lparr>rc_state := RsRequested now_ms attempts\<rparr>) m)
         in (Reserve relay (rc_addresses c) # actions, m))"

text \<open>The loop of \<open>release_surplus\<close> over the reservations to give up.\<close>

fun release_relays :: "transport_identity list \<Rightarrow> reservation_manager \<Rightarrow> relay_action list \<times> reservation_manager" where
  "release_relays [] m = ([], m)"
| "release_relays (relay # rest) m =
    (case bm_get (rm_candidates m) relay of
       None \<Rightarrow> release_relays rest m
     | Some c \<Rightarrow>
         (case rc_state c of
            RsActive _ addresses \<Rightarrow>
              let (actions, m) = release_relays rest (candidate_insert relay (c\<lparr>rc_state := RsIdle\<rparr>) m)
              in (Release relay addresses # actions, m)
          | _ \<Rightarrow> release_relays rest m))"

fun active_since :: "reservation_state \<Rightarrow> nat" where
  "active_since (RsActive since_ms _) = since_ms"
| "active_since _ = 0"

text \<open>
  The held reservations in the order of their release: learned before static, then the newest
  first; a stable descending sort is the reverse of a stable ascending one.
\<close>

definition release_order :: "reservation_manager \<Rightarrow> transport_identity list" where
  "release_order m =
    map fst (rev (sort_key (\<lambda>e. (rc_source (snd e), active_since (rc_state (snd e))))
      (rev (filter (\<lambda>e. is_active (rc_state (snd e))) (rm_candidates m)))))"

definition release_surplus :: "reservation_manager \<Rightarrow> relay_action list \<times> reservation_manager" where
  "release_surplus m =
    (let target = relay_target m; active = relay_active m in
     if active \<le> target then ([], m)
     else release_relays (take (active - target) (release_order m)) m)"

definition set_direct_inbound ::
  "reservation_manager \<Rightarrow> direct_inbound_state \<Rightarrow> relay_action list \<times> reservation_manager" where
  "set_direct_inbound m state = release_surplus (m\<lparr>rm_direct_inbound := state\<rparr>)"

definition relay_tick :: "reservation_manager \<Rightarrow> nat \<Rightarrow> relay_action list \<times> reservation_manager" where
  "relay_tick m now_ms =
    (let target = relay_target m;
         holding = relay_active m + relay_requested m;
         to_ask = take (target - holding) (askable m now_ms);
         (asked, m) = ask_relays now_ms to_ask m;
         (released, m) = release_surplus m
     in (asked @ released, m))"

definition record_relay_accepted ::
  "reservation_manager \<Rightarrow> transport_identity \<Rightarrow> bytes \<Rightarrow> nat \<Rightarrow> (refused_relay_report + bool) \<times> reservation_manager" where
  "record_relay_accepted m relay address now_ms =
    (if address = [] then (Err EmptyAddress, m)
     else
       case bm_get (rm_candidates m) relay of
         None \<Rightarrow> (Err UnknownRelay, m)
       | Some c \<Rightarrow>
           (case rc_state c of
              RsRequested _ _ \<Rightarrow> (Ok True, candidate_insert relay (c\<lparr>rc_state := RsActive now_ms [address]\<rparr>) m)
            | RsActive since_ms addresses \<Rightarrow>
                if address \<in> set addresses then (Ok False, m)
                else if length addresses \<ge> MAX_ADDRESSES_PER_RELAY then (Err AddressesFull, m)
                else (Ok True, candidate_insert relay (c\<lparr>rc_state := RsActive since_ms (addresses @ [address])\<rparr>) m)
            | _ \<Rightarrow> (Err UnrequestedAcceptance, m)))"

definition relay_retry_delay_ms :: "reservation_config \<Rightarrow> nat \<Rightarrow> nat" where
  "relay_retry_delay_ms config attempts =
    (let doubled = sat_mul64 (rcf_retry_min_ms config) (2 ^ min attempts 20) in min doubled (rcf_retry_max_ms config))"

definition record_relay_failed ::
  "reservation_manager \<Rightarrow> transport_identity \<Rightarrow> nat \<Rightarrow> nat \<Rightarrow> (refused_relay_report + bytes list) \<times> reservation_manager" where
  "record_relay_failed m relay now_ms jitter_ms =
    (case bm_get (rm_candidates m) relay of
       None \<Rightarrow> (Err UnknownRelay, m)
     | Some c \<Rightarrow>
         let back_off = (\<lambda>attempts.
               let delay = relay_retry_delay_ms (rm_config m) attempts in
               candidate_insert relay (c\<lparr>rc_state := RsBackoff
                 (sat_add64 (sat_add64 now_ms delay) (min jitter_ms delay)) (sat_add32 attempts 1)\<rparr>) m)
         in (case rc_state c of
               RsActive _ addresses \<Rightarrow> (Ok addresses, back_off 0)
             | RsBackoff _ attempts \<Rightarrow> (Ok [], back_off attempts)
             | RsRequested _ attempts \<Rightarrow> (Ok [], back_off attempts)
             | RsIdle \<Rightarrow> (Err UnrequestedFailure, m)))"

definition lifts :: "nat \<Rightarrow> nat \<Rightarrow> (transport_identity \<Rightarrow> bool) \<Rightarrow> transport_identity \<Rightarrow> relay_candidate \<Rightarrow> bool" where
  "lifts floor_ms now_ms gate_holds relay c \<longleftrightarrow>
     \<not> (case rc_lifted_at_ms c of None \<Rightarrow> False | Some at \<Rightarrow> now_ms - at < floor_ms) \<and> \<not> gate_holds relay
   \<and> (case rc_state c of RsBackoff until_ms _ \<Rightarrow> until_ms > now_ms | _ \<Rightarrow> False)"

fun lift_state :: "nat \<Rightarrow> reservation_state \<Rightarrow> reservation_state" where
  "lift_state now_ms (RsBackoff _ attempts) = RsBackoff now_ms attempts"
| "lift_state now_ms s = s"

definition relay_network_added ::
  "reservation_manager \<Rightarrow> nat \<Rightarrow> (transport_identity \<Rightarrow> bool) \<Rightarrow> nat \<times> reservation_manager" where
  "relay_network_added m now_ms gate_holds =
    (let floor_ms = rcf_retry_min_ms (rm_config m);
         due = filter (\<lambda>e. lifts floor_ms now_ms gate_holds (fst e) (snd e)) (rm_candidates m)
     in (length due,
         m\<lparr>rm_candidates := map (\<lambda>e. (fst e,
             if lifts floor_ms now_ms gate_holds (fst e) (snd e)
             then (snd e)\<lparr>rc_state := lift_state now_ms (rc_state (snd e)), rc_lifted_at_ms := Some now_ms\<rparr>
             else snd e)) (rm_candidates m)\<rparr>))"

section \<open>Counting candidates\<close>

definition having :: "('c \<Rightarrow> bool) \<Rightarrow> ('k, 'c) bmap \<Rightarrow> 'k set" where
  "having P m = {k. \<exists>c. bm_get m k = Some c \<and> P c}"

lemma having_insert:
  "having P (bm_insert k c m) = (if P c then insert k (having P m) else having P m - {k})"
  by (auto simp: having_def split: if_splits)

lemma having_remove: "having P (bm_remove k m) = having P m - {k}"
  by (auto simp: having_def split: if_splits)

lemma having_keys: "bm_ok m \<Longrightarrow> having P m = fst ` set (filter (\<lambda>e. P (snd e)) m)"
  by (force simp: having_def bm_get_in_set [symmetric])

lemma finite_having: "bm_ok m \<Longrightarrow> finite (having P m)"
  by (simp add: having_keys)

lemma count_having: "bm_ok m \<Longrightarrow> length (filter (\<lambda>e. P (snd e)) m) = card (having P m)"
proof -
  assume ok: "bm_ok m"
  then have "distinct (map fst (filter (\<lambda>e. P (snd e)) m))"
    by (metis bm_ok_distinct bm_ok_filter)
  then have "card (fst ` set (filter (\<lambda>e. P (snd e)) m)) = length (filter (\<lambda>e. P (snd e)) m)"
    by (metis distinct_card length_map list.set_map)
  with ok show ?thesis by (simp add: having_keys)
qed

abbreviation sourced :: "relay_source \<Rightarrow> reservation_manager \<Rightarrow> transport_identity set" where
  "sourced source m \<equiv> having (\<lambda>c. rc_source c = source) (rm_candidates m)"

abbreviation in_state :: "(reservation_state \<Rightarrow> bool) \<Rightarrow> reservation_manager \<Rightarrow> transport_identity set" where
  "in_state P m \<equiv> having (\<lambda>c. P (rc_state c)) (rm_candidates m)"

definition is_held :: "reservation_state \<Rightarrow> bool" where
  "is_held s \<longleftrightarrow> is_active s \<or> is_requested s"

lemma state_tests [simp]:
  "is_held (RsActive t as)" "is_held (RsRequested t n)" "\<not> is_held RsIdle" "\<not> is_held (RsBackoff t n)"
  by (simp_all add: is_held_def)

lemma relay_counts:
  assumes "bm_ok (rm_candidates m)"
  shows "relay_count m src = card (sourced src m)" "relay_active m = card (in_state is_active m)"
    "relay_requested m = card (in_state is_requested m)"
    "relay_active m + relay_requested m = card (in_state is_held m)"
proof -
  show c: "relay_count m src = card (sourced src m)" "relay_active m = card (in_state is_active m)"
    "relay_requested m = card (in_state is_requested m)"
    using count_having [OF assms, of "\<lambda>c. rc_source c = src"] count_having [OF assms, of "\<lambda>c. is_active (rc_state c)"]
      count_having [OF assms, of "\<lambda>c. is_requested (rc_state c)"]
    by (simp_all add: relay_count_def relay_active_def relay_requested_def)
  have "in_state is_active m \<inter> in_state is_requested m = {}"
    by (auto simp: having_def elim!: is_active.elims is_requested.elims)
  moreover have "in_state is_held m = in_state is_active m \<union> in_state is_requested m"
    by (auto simp: having_def is_held_def)
  ultimately show "relay_active m + relay_requested m = card (in_state is_held m)"
    using c finite_having [OF assms] by (simp add: card_Un_disjoint)
qed

section \<open>Well-formed managers\<close>

definition address_list_ok :: "bytes list \<Rightarrow> bool" where
  "address_list_ok as \<longleftrightarrow> as \<noteq> [] \<and> distinct as \<and> [] \<notin> set as \<and> length as \<le> MAX_ADDRESSES_PER_RELAY"

definition candidate_ok :: "relay_candidate \<Rightarrow> bool" where
  "candidate_ok c \<longleftrightarrow> address_list_ok (rc_addresses c)
     \<and> (case rc_state c of RsActive _ as \<Rightarrow> address_list_ok as | RsBackoff _ n \<Rightarrow> 0 < n | _ \<Rightarrow> True)"

definition config_ok :: "reservation_config \<Rightarrow> bool" where
  "config_ok config \<longleftrightarrow>
     0 < rcf_max_reservations config \<and> rcf_max_reservations config \<le> RELAY_RESERVATIONS_CEILING
   \<and> rcf_target_public config \<le> rcf_target_private_or_unknown config
   \<and> rcf_target_private_or_unknown config \<le> rcf_max_reservations config
   \<and> 0 < rcf_retry_min_ms config \<and> rcf_retry_min_ms config \<le> rcf_retry_max_ms config"

definition relay_ok :: "reservation_manager \<Rightarrow> bool" where
  "relay_ok m \<longleftrightarrow>
     bm_ok (rm_candidates m) \<and> config_ok (rm_config m)
   \<and> (\<forall>r c. bm_get (rm_candidates m) r = Some c \<longrightarrow> candidate_ok c)
   \<and> card (sourced SourceStatic m) \<le> MAX_STATIC_RELAYS \<and> card (sourced SourceLearned m) \<le> MAX_LEARNED_RELAYS
   \<and> card (in_state is_held m) \<le> rcf_max_reservations (rm_config m)"

lemma relay_okD:
  assumes "relay_ok m"
  shows "bm_ok (rm_candidates m)" "config_ok (rm_config m)"
    "bm_get (rm_candidates m) r = Some c \<Longrightarrow> candidate_ok c"
    "card (sourced SourceStatic m) \<le> MAX_STATIC_RELAYS" "card (sourced SourceLearned m) \<le> MAX_LEARNED_RELAYS"
    "card (in_state is_held m) \<le> rcf_max_reservations (rm_config m)"
  using assms by (auto simp: relay_ok_def)

lemma relay_new_ok: "reservation_manager_new config = Inr m \<Longrightarrow> relay_ok m \<and> rm_candidates m = []"
  by (auto simp: reservation_manager_new_def relay_ok_def config_ok_def having_def split: if_splits)

lemma card_insert_le_bound: "finite A \<Longrightarrow> card A < n \<or> k \<in> A \<and> card A \<le> n \<Longrightarrow> card (insert k A) \<le> (n :: nat)"
  by (auto simp: card_insert_if)

text \<open>
  One candidate is written at a time.  A write keeps the manager well formed when the candidate is,
  and it does not enter a full source or take a reservation that does not fit.
\<close>

lemma candidate_write_ok:
  assumes ok: "relay_ok m" and c: "candidate_ok c"
    and src: "r \<in> sourced (rc_source c) m
      \<or> card (sourced (rc_source c) m) < (case rc_source c of SourceStatic \<Rightarrow> MAX_STATIC_RELAYS | SourceLearned \<Rightarrow> MAX_LEARNED_RELAYS)"
    and held: "\<not> is_held (rc_state c) \<or> r \<in> in_state is_held m
      \<or> card (in_state is_held m) < rcf_max_reservations (rm_config m)"
  shows "relay_ok (candidate_insert r c m)"
proof -
  note i = relay_okD [OF ok]
  note fin = finite_having [OF i(1)]
  have less: "card (A - {r}) \<le> n" if "finite A" "card A \<le> n" for A and n :: nat
    using that card_Diff1_le [of A r] by simp
  have "card (sourced SourceStatic (candidate_insert r c m)) \<le> MAX_STATIC_RELAYS"
    using src i(4) fin by (cases "rc_source c") (auto simp: having_insert less intro: card_insert_le_bound)
  moreover have "card (sourced SourceLearned (candidate_insert r c m)) \<le> MAX_LEARNED_RELAYS"
    using src i(5) fin by (cases "rc_source c") (auto simp: having_insert less intro: card_insert_le_bound)
  moreover have "card (in_state is_held (candidate_insert r c m)) \<le> rcf_max_reservations (rm_config m)"
    using held i(6) fin by (auto simp: having_insert less intro: card_insert_le_bound)
  ultimately show ?thesis
    using i(1,2,3) c by (auto simp: relay_ok_def split: if_splits)
qed

lemma having_known: "bm_get m r = Some c \<Longrightarrow> r \<in> having P m \<longleftrightarrow> P c"
  by (simp add: having_def)

text \<open>A write that keeps the source of a known relay and does not turn it into a held one.\<close>

lemma candidate_update_ok:
  assumes "relay_ok m" "bm_get (rm_candidates m) r = Some c" "candidate_ok c'" "rc_source c' = rc_source c"
    "is_held (rc_state c') \<longrightarrow> is_held (rc_state c)"
  shows "relay_ok (candidate_insert r c' m)"
  using assms by (intro candidate_write_ok) (auto simp: having_known)

lemma relay_add_address_ok:
  "candidate_ok c \<Longrightarrow> a \<noteq> [] \<Longrightarrow> candidate_ok (snd (relay_add_address c a))"
  "rc_source (snd (relay_add_address c a)) = rc_source c" "rc_state (snd (relay_add_address c a)) = rc_state c"
  by (auto simp: relay_add_address_def candidate_ok_def address_list_ok_def)

lemma fresh_candidate_ok:
  "a \<noteq> [] \<Longrightarrow> candidate_ok \<lparr>rc_addresses = [a], rc_source = src, rc_state = RsIdle, rc_lifted_at_ms = None\<rparr>"
  by (simp add: candidate_ok_def address_list_ok_def MAX_ADDRESSES_PER_RELAY_def)

lemma add_static_ok:
  assumes "relay_ok m"
  shows "relay_ok (snd (add_static m r a))"
proof -
  note i = relay_okD [OF assms]
  have full: "relay_count m SourceStatic = card (sourced SourceStatic m)" by (rule relay_counts [OF i(1)])
  show ?thesis
  proof (cases "bm_get (rm_candidates m) r")
    case None
    then show ?thesis
      using assms
      by (auto simp: add_static_def Let_def full intro!: candidate_write_ok fresh_candidate_ok)
  next
    case (Some c)
    have promoted: "relay_ok (candidate_insert r (c\<lparr>rc_addresses := [a], rc_source := SourceStatic\<rparr>) m)"
      if "a \<noteq> []" "card (sourced SourceStatic m) < MAX_STATIC_RELAYS"
      using assms that i(3) [OF Some]
      by (intro candidate_write_ok)
        (auto simp: having_known [OF Some] candidate_ok_def address_list_ok_def MAX_ADDRESSES_PER_RELAY_def)
    have "relay_ok (candidate_insert r (snd (relay_add_address c a)) m)" if "a \<noteq> []"
      using assms that i(3) [OF Some] by (intro candidate_update_ok [OF assms Some]) (simp_all add: relay_add_address_ok)
    then show ?thesis
      using assms promoted Some by (auto simp: add_static_def Let_def full case_prod_beta)
  qed
qed

lemma learn_relay_ok:
  assumes "relay_ok m"
  shows "relay_ok (snd (learn_relay m r a))"
proof -
  note i = relay_okD [OF assms]
  have full: "relay_count m SourceLearned = card (sourced SourceLearned m)" by (rule relay_counts [OF i(1)])
  show ?thesis
  proof (cases "bm_get (rm_candidates m) r")
    case None
    then show ?thesis
      using assms by (auto simp: learn_relay_def full intro!: candidate_write_ok fresh_candidate_ok)
  next
    case (Some c)
    have "relay_ok (candidate_insert r (snd (relay_add_address c a)) m)" if "a \<noteq> []"
      using assms that i(3) [OF Some] by (intro candidate_update_ok [OF assms Some]) (simp_all add: relay_add_address_ok)
    then show ?thesis
      using assms Some by (auto simp: learn_relay_def Let_def case_prod_beta split: relay_source.split)
  qed
qed

lemma forget_relay_ok:
  assumes "relay_ok m"
  shows "relay_ok (snd (forget_relay m r))"
proof -
  note i = relay_okD [OF assms]
  have "card (having P (rm_candidates m) - {r}) \<le> card (having P (rm_candidates m))" for P
    using finite_having [OF i(1)] by (simp add: card_Diff1_le)
  then show ?thesis
    using i(1-3) i(4-6) by (auto simp: relay_ok_def forget_relay_def having_remove intro: order_trans split: if_splits)
qed

lemma record_relay_accepted_ok:
  assumes "relay_ok m"
  shows "relay_ok (snd (record_relay_accepted m r a now))"
proof (cases "bm_get (rm_candidates m) r")
  case (Some c)
  have c: "candidate_ok c" by (rule relay_okD(3) [OF assms Some])
  show ?thesis
  proof (cases "rc_state c")
    case (RsRequested t n)
    have "relay_ok (candidate_insert r (c\<lparr>rc_state := RsActive now [a]\<rparr>) m)" if "a \<noteq> []"
      using c that RsRequested
      by (intro candidate_update_ok [OF assms Some])
        (auto simp: candidate_ok_def address_list_ok_def MAX_ADDRESSES_PER_RELAY_def)
    then show ?thesis using assms Some RsRequested by (simp add: record_relay_accepted_def)
  next
    case (RsActive t as)
    have "relay_ok (candidate_insert r (c\<lparr>rc_state := RsActive t (as @ [a])\<rparr>) m)"
      if "a \<noteq> []" "a \<notin> set as" "length as < MAX_ADDRESSES_PER_RELAY"
      using c that RsActive
      by (intro candidate_update_ok [OF assms Some]) (auto simp: candidate_ok_def address_list_ok_def)
    then show ?thesis using assms Some RsActive by (auto simp: record_relay_accepted_def)
  qed (use assms Some in \<open>simp_all add: record_relay_accepted_def\<close>)
qed (use assms in \<open>simp add: record_relay_accepted_def\<close>)

fun failures_before :: "reservation_state \<Rightarrow> nat" where
  "failures_before (RsBackoff _ n) = n"
| "failures_before (RsRequested _ n) = n"
| "failures_before _ = 0"

text \<open>A failure, in one equation: what it withdraws and where it leaves the relay.\<close>

lemma record_relay_failed_eq:
  assumes "bm_get (rm_candidates m) r = Some c" "rc_state c \<noteq> RsIdle"
  defines "d \<equiv> relay_retry_delay_ms (rm_config m) (failures_before (rc_state c))"
  shows "record_relay_failed m r now j =
    (Ok (active_addresses (rc_state c)),
     candidate_insert r (c\<lparr>rc_state := RsBackoff (sat_add64 (sat_add64 now d) (min j d))
       (sat_add32 (failures_before (rc_state c)) 1)\<rparr>) m)"
  using assms by (cases "rc_state c") (simp_all add: record_relay_failed_def Let_def)

lemma record_relay_failed_err:
  assumes "\<nexists>c. bm_get (rm_candidates m) r = Some c \<and> rc_state c \<noteq> RsIdle"
  shows "\<exists>e. record_relay_failed m r now j = (Err e, m)"
  using assms by (auto simp: record_relay_failed_def Let_def split: option.split)

lemma record_relay_failed_ok:
  assumes "relay_ok m"
  shows "relay_ok (snd (record_relay_failed m r now j))"
proof (cases "\<exists>c. bm_get (rm_candidates m) r = Some c \<and> rc_state c \<noteq> RsIdle")
  case True
  then obtain c where c: "bm_get (rm_candidates m) r = Some c" "rc_state c \<noteq> RsIdle" by blast
  have "candidate_ok c" by (rule relay_okD(3) [OF assms c(1)])
  then show ?thesis
    unfolding record_relay_failed_eq [OF c] snd_conv
    by (intro candidate_update_ok [OF assms c(1)]) (simp_all add: candidate_ok_def sat_add32_def U32_MAX_def)
next
  case False
  then show ?thesis using record_relay_failed_err [OF False, of now j] assms by auto
qed

section \<open>Asking and releasing\<close>

lemma askable_facts:
  assumes "bm_ok (rm_candidates m)"
  shows "set (askable m now) = in_state (may_ask now) m" "distinct (askable m now)"
proof -
  let ?f = "filter (\<lambda>e. may_ask now (rc_state (snd e))) (rm_candidates m)"
  show "set (askable m now) = in_state (may_ask now) m"
    using having_keys [OF assms, of "\<lambda>c. may_ask now (rc_state c)"] by (simp add: askable_def)
  have "distinct (map fst ?f)" by (rule bm_ok_distinct [OF bm_ok_filter [OF assms]])
  then show "distinct (askable m now)" by (simp add: askable_def distinct_map)
qed

lemma sort_key_prefix:
  assumes "x \<in> set (take n (sort_key k xs))" "y \<in> set (drop n (sort_key k xs))"
  shows "k x \<le> k y"
proof -
  have "sorted (take n (map k (sort_key k xs)) @ drop n (map k (sort_key k xs)))"
    unfolding append_take_drop_id by (rule sorted_sort_key)
  then have "\<forall>a \<in> set (take n (map k (sort_key k xs))). \<forall>b \<in> set (drop n (map k (sort_key k xs))). a \<le> b"
    unfolding sorted_append by blast
  then show ?thesis using assms by (simp add: take_map drop_map)
qed

text \<open>Static relays stand before learned ones in the order of asking.\<close>

lemma askable_static_first:
  assumes ok: "bm_ok (rm_candidates m)" and "r \<in> set (take n (askable m now))" "r \<in> sourced SourceLearned m"
    and "r' \<in> in_state (may_ask now) m" "r' \<in> sourced SourceStatic m"
  shows "r' \<in> set (take n (askable m now))"
proof (rule ccontr)
  assume "r' \<notin> set (take n (askable m now))"
  let ?k = "\<lambda>e. (rc_source (snd e), fst e)"
  let ?s = "sort_key ?k (filter (\<lambda>e. may_ask now (rc_state (snd e))) (rm_candidates m))"
  have in_m: "e \<in> set (rm_candidates m)" if "e \<in> set (take n ?s) \<or> e \<in> set (drop n ?s)" for e
    using that by (auto dest: in_set_takeD in_set_dropD)
  have ask: "askable m now = map fst ?s" by (simp add: askable_def)
  have "r' \<in> set (askable m now)" using assms(4) askable_facts(1) [OF ok] by simp
  then have "r' \<in> set (drop n (askable m now))"
    using \<open>r' \<notin> set (take n (askable m now))\<close> by (metis Un_iff append_take_drop_id set_append)
  then obtain c' where c': "(r', c') \<in> set (drop n ?s)" by (auto simp: ask drop_map)
  obtain c where c: "(r, c) \<in> set (take n ?s)" using assms(2) by (auto simp: ask take_map)
  have "?k (r, c) \<le> ?k (r', c')" by (rule sort_key_prefix [OF c c'])
  moreover have "bm_get (rm_candidates m) r = Some c" "bm_get (rm_candidates m) r' = Some c'"
    using in_m [of "(r, c)"] in_m [of "(r', c')"] c c' bm_get_in_set [OF ok] by blast+
  then have "rc_source c = SourceLearned" "rc_source c' = SourceStatic"
    using assms(3,5) by (simp_all add: having_def)
  ultimately show False by (simp add: less_eq_prod_def less_relay_source_def less_eq_relay_source_def)
qed

definition asked :: "nat \<Rightarrow> relay_candidate \<Rightarrow> relay_candidate" where
  "asked now c = c\<lparr>rc_state := RsRequested now (case rc_state c of RsBackoff _ n \<Rightarrow> n | _ \<Rightarrow> 0)\<rparr>"

lemma ask_relays_eq:
  assumes "bm_ok (rm_candidates m)" "distinct rs" "set rs \<subseteq> fst ` set (rm_candidates m)"
    and "ask_relays now rs m = (actions, m')"
  shows "actions = map (\<lambda>r. Reserve r (rc_addresses (the (bm_get (rm_candidates m) r)))) rs
    \<and> (\<forall>r. bm_get (rm_candidates m') r =
        (if r \<in> set rs then map_option (asked now) (bm_get (rm_candidates m) r) else bm_get (rm_candidates m) r))
    \<and> bm_ok (rm_candidates m') \<and> rm_config m' = rm_config m \<and> rm_direct_inbound m' = rm_direct_inbound m
    \<and> length (rm_candidates m') = length (rm_candidates m)"
  using assms
proof (induction rs arbitrary: m actions)
  case (Cons r rs)
  then obtain c where c: "bm_get (rm_candidates m) r = Some c"
    by (metis bm_has_def bm_has_keys list.set_intros(1) not_None_eq subsetD)
  let ?m = "candidate_insert r (asked now c) m"
  obtain as where e: "actions = Reserve r (rc_addresses c) # as" and r: "ask_relays now rs ?m = (as, m')"
    using Cons.prems(4) c by (auto simp: Let_def asked_def split: prod.splits)
  have keys: "fst ` set (rm_candidates ?m) = fst ` set (rm_candidates m)"
    using c by (auto simp: set_bm_insert_keys dest: bm_get_key)
  have "length (rm_candidates ?m) = length (rm_candidates m)"
    using c Cons.prems(1) by (simp add: length_bm_insert bm_has_def)
  then show ?case
    using Cons.IH [OF _ _ _ r] Cons.prems(1-3) keys c by (auto simp: e)
qed simp

definition released :: "relay_candidate \<Rightarrow> relay_candidate" where
  "released c = (if is_active (rc_state c) then c\<lparr>rc_state := RsIdle\<rparr> else c)"

lemma release_relays_eq:
  assumes "bm_ok (rm_candidates m)" "distinct rs" "set rs \<subseteq> in_state is_active m"
    and "release_relays rs m = (actions, m')"
  shows "actions = map (\<lambda>r. Release r (active_addresses (rc_state (the (bm_get (rm_candidates m) r))))) rs
    \<and> (\<forall>r. bm_get (rm_candidates m') r =
        (if r \<in> set rs then map_option released (bm_get (rm_candidates m) r) else bm_get (rm_candidates m) r))
    \<and> bm_ok (rm_candidates m') \<and> rm_config m' = rm_config m \<and> rm_direct_inbound m' = rm_direct_inbound m
    \<and> length (rm_candidates m') = length (rm_candidates m)"
  using assms
proof (induction rs arbitrary: m actions)
  case (Cons r rs)
  then obtain c t addrs where c: "bm_get (rm_candidates m) r = Some c" "rc_state c = RsActive t addrs"
    by (auto simp: having_def elim!: is_active.elims)
  let ?m = "candidate_insert r (released c) m"
  obtain as where e: "actions = Release r addrs # as" and r: "release_relays rs ?m = (as, m')"
    using Cons.prems(4) c by (auto simp: Let_def released_def split: prod.splits)
  have act: "in_state is_active ?m = in_state is_active m - {r}"
    using c by (simp add: having_insert released_def)
  have "length (rm_candidates ?m) = length (rm_candidates m)"
    using c Cons.prems(1) by (simp add: length_bm_insert bm_has_def)
  moreover have "r \<notin> set rs" "set rs \<subseteq> in_state is_active ?m" using Cons.prems(2,3) act by auto
  moreover have "map (\<lambda>r'. Release r' (active_addresses (rc_state (the (bm_get (rm_candidates ?m) r'))))) rs =
      map (\<lambda>r'. Release r' (active_addresses (rc_state (the (bm_get (rm_candidates m) r'))))) rs"
    using \<open>r \<notin> set rs\<close> by (intro map_cong) auto
  ultimately show ?case
    using Cons.IH [OF _ _ _ r] Cons.prems(1,2) c by (simp add: e)
qed simp

lemma release_order_facts:
  assumes "bm_ok (rm_candidates m)"
  shows "set (release_order m) = in_state is_active m" "distinct (release_order m)"
    "length (release_order m) = relay_active m"
proof -
  let ?f = "filter (\<lambda>e. is_active (rc_state (snd e))) (rm_candidates m)"
  have "distinct (map fst ?f)" by (rule bm_ok_distinct [OF bm_ok_filter [OF assms]])
  then show "distinct (release_order m)" by (simp add: release_order_def distinct_map rev_map [symmetric])
  show "set (release_order m) = in_state is_active m"
    using having_keys [OF assms, of "\<lambda>c. is_active (rc_state c)"] by (simp add: release_order_def)
  show "length (release_order m) = relay_active m" by (simp add: release_order_def relay_active_def)
qed

text \<open>Learned reservations are released before static ones, and newer before older of one source.\<close>

lemma release_order_prefix:
  assumes ok: "bm_ok (rm_candidates m)" and r: "r \<in> set (take n (release_order m))"
    and r': "r' \<in> in_state is_active m" "r' \<notin> set (take n (release_order m))"
    and c: "bm_get (rm_candidates m) r = Some c" and c': "bm_get (rm_candidates m) r' = Some c'"
  shows "rc_source c' < rc_source c \<or> rc_source c' = rc_source c \<and> active_since (rc_state c') \<le> active_since (rc_state c)"
proof -
  let ?k = "\<lambda>e. (rc_source (snd e), active_since (rc_state (snd e)))"
  let ?s = "sort_key ?k (rev (filter (\<lambda>e. is_active (rc_state (snd e))) (rm_candidates m)))"
  have ord: "release_order m = map fst (rev ?s)" by (simp add: release_order_def)
  have in_m: "(x, d) \<in> set ?s \<Longrightarrow> bm_get (rm_candidates m) x = Some d" for x d
    using bm_get_in_set [OF ok, of x d] by simp
  have "r' \<in> set (drop n (release_order m))"
    using r' release_order_facts(1) [OF ok] by (metis Un_iff append_take_drop_id set_append)
  then obtain d' where d': "(r', d') \<in> set (drop n (rev ?s))" by (auto simp: ord drop_map)
  obtain d where d: "(r, d) \<in> set (take n (rev ?s))" using r by (auto simp: ord take_map)
  have "d' = c'" "d = c"
    using in_m c c' d d' by (auto dest!: in_set_takeD in_set_dropD)
  moreover have "(r', d') \<in> set (take (length ?s - n) ?s)" "(r, d) \<in> set (drop (length ?s - n) ?s)"
    using d d' by (simp_all add: drop_rev take_rev)
  ultimately have "?k (r', c') \<le> ?k (r, c)" by (intro sort_key_prefix) simp_all
  then show ?thesis by (auto simp: less_eq_prod_def le_less)
qed

section \<open>Every call\<close>

lemma having_pointwise:
  assumes "\<And>r. bm_get m' r = map_option (f r) (bm_get m r)"
  shows "having P m' = {r. \<exists>c. bm_get m r = Some c \<and> P (f r c)}"
  using assms by (auto simp: having_def)

lemma relay_pointwise_ok:
  assumes ok: "relay_ok m" and "bm_ok (rm_candidates m')" and "rm_config m' = rm_config m"
    and get: "\<And>r. bm_get (rm_candidates m') r = map_option (f r) (bm_get (rm_candidates m) r)"
    and f: "\<And>r c. bm_get (rm_candidates m) r = Some c \<Longrightarrow> candidate_ok (f r c) \<and> rc_source (f r c) = rc_source c"
    and held: "card (in_state is_held m') \<le> rcf_max_reservations (rm_config m)"
  shows "relay_ok m'"
proof -
  have "sourced src m' = sourced src m" for src
    using f by (auto simp: having_def get)
  moreover have "candidate_ok c" if "bm_get (rm_candidates m') r = Some c" for r c
    using that f by (auto simp: get)
  ultimately show ?thesis using assms(2,3) held relay_okD [OF ok] by (simp add: relay_ok_def)
qed

lemma asked_ok: "candidate_ok c \<Longrightarrow> candidate_ok (asked now c) \<and> rc_source (asked now c) = rc_source c"
  by (simp add: asked_def candidate_ok_def)

lemma released_state:
  "is_active (rc_state (released c)) = False" "is_held (rc_state (released c)) = (is_held (rc_state c) \<and> \<not> is_active (rc_state c))"
  by (simp_all add: released_def is_held_def)

lemma released_ok: "candidate_ok c \<Longrightarrow> candidate_ok (released c) \<and> rc_source (released c) = rc_source c"
  by (simp add: released_def candidate_ok_def)

lemma relay_target_cong:
  "rm_config m' = rm_config m \<Longrightarrow> rm_direct_inbound m' = rm_direct_inbound m \<Longrightarrow>
    length (rm_candidates m') = length (rm_candidates m) \<Longrightarrow> relay_target m' = relay_target m"
  by (simp add: relay_target_def Let_def split: direct_inbound_state.split)

lemma relay_target_max: "relay_target m \<le> rcf_max_reservations (rm_config m)"
  by (auto simp: relay_target_def Let_def)

lemma release_surplus_facts:
  assumes ok: "relay_ok m" and r: "release_surplus m = (actions, m')"
  defines "rs \<equiv> take (relay_active m - relay_target m) (release_order m)"
  shows "relay_ok m'" "relay_target m' = relay_target m" "rm_config m' = rm_config m"
    "rm_direct_inbound m' = rm_direct_inbound m"
    "actions = map (\<lambda>r. Release r (active_addresses (rc_state (the (bm_get (rm_candidates m) r))))) rs"
    "bm_get (rm_candidates m') x = (if x \<in> set rs then map_option released (bm_get (rm_candidates m) x) else bm_get (rm_candidates m) x)"
    "in_state is_active m' = in_state is_active m - set rs" "in_state is_held m' = in_state is_held m - set rs"
    "relay_active m' = min (relay_active m) (relay_target m)"
    "distinct rs" "set rs \<subseteq> in_state is_active m"
proof -
  note i = relay_okD [OF ok]
  note o = release_order_facts [OF i(1)]
  show d: "distinct rs" and sub: "set rs \<subseteq> in_state is_active m"
    using o by (auto simp: rs_def dest: in_set_takeD)
  have rel: "release_relays rs m = (actions, m')"
    using r by (auto simp: release_surplus_def Let_def rs_def split: if_splits)
  note e = release_relays_eq [OF i(1) d sub rel]
  show cfg: "rm_config m' = rm_config m" "rm_direct_inbound m' = rm_direct_inbound m"
    and "actions = map (\<lambda>r. Release r (active_addresses (rc_state (the (bm_get (rm_candidates m) r))))) rs"
    and "bm_get (rm_candidates m') x = (if x \<in> set rs then map_option released (bm_get (rm_candidates m) x) else bm_get (rm_candidates m) x)"
    using e by simp_all
  show "relay_target m' = relay_target m" using e by (intro relay_target_cong) simp_all
  have get: "bm_get (rm_candidates m') y =
      map_option (\<lambda>c. if y \<in> set rs then released c else c) (bm_get (rm_candidates m) y)" for y
    using e by (simp add: option.map_ident)
  have ok': "bm_ok (rm_candidates m')" using e by simp
  show act: "in_state is_active m' = in_state is_active m - set rs"
    unfolding having_pointwise [OF get] by (auto simp: having_def released_state split: if_splits)
  show held: "in_state is_held m' = in_state is_held m - set rs"
    unfolding having_pointwise [OF get] using sub by (auto simp: having_def released_state split: if_splits)
  have "card (in_state is_held m') \<le> card (in_state is_held m)"
    unfolding held using finite_having [OF i(1)] by (intro card_mono) auto
  then show "relay_ok m'"
    using i(3,6) released_ok
    by (intro relay_pointwise_ok [OF ok ok' cfg(1) get]) (auto split: if_splits)
  have "relay_active m' = relay_active m - length rs"
    unfolding relay_counts(2) [OF ok'] relay_counts(2) [OF i(1)] act
    using sub d by (subst card_Diff_subset) (simp_all add: distinct_card)
  moreover have "length rs = relay_active m - relay_target m" using o(3) by (simp add: rs_def)
  ultimately show "relay_active m' = min (relay_active m) (relay_target m)" by simp
qed

text \<open>A tick asks, and then releases what is above the target.\<close>

lemma relay_tick_facts:
  assumes ok: "relay_ok m" and r: "relay_tick m now = (actions, m')"
  defines "rs \<equiv> take (relay_target m - (relay_active m + relay_requested m)) (askable m now)"
  obtains m1 reserved freed where "ask_relays now rs m = (reserved, m1)" "release_surplus m1 = (freed, m')"
    "actions = reserved @ freed" "relay_ok m1" "relay_target m1 = relay_target m"
    "rm_config m1 = rm_config m" "rm_direct_inbound m1 = rm_direct_inbound m"
    "\<And>x. bm_get (rm_candidates m1) x = map_option (\<lambda>c. if x \<in> set rs then asked now c else c) (bm_get (rm_candidates m) x)"
    "reserved = map (\<lambda>r. Reserve r (rc_addresses (the (bm_get (rm_candidates m) r)))) rs"
    "in_state is_held m1 = in_state is_held m \<union> set rs" "in_state is_active m1 = in_state is_active m"
    "distinct rs" "set rs \<subseteq> in_state (may_ask now) m"
proof -
  note i = relay_okD [OF ok]
  note a = askable_facts [OF i(1), of now]
  have d: "distinct rs" and sub: "set rs \<subseteq> in_state (may_ask now) m"
    using a by (auto simp: rs_def dest: in_set_takeD)
  then have keys: "set rs \<subseteq> fst ` set (rm_candidates m)" by (auto simp: having_def dest: bm_get_key)
  obtain reserved m1 where ask: "ask_relays now rs m = (reserved, m1)" by fastforce
  note e = ask_relays_eq [OF i(1) d keys ask]
  have get: "bm_get (rm_candidates m1) x = map_option (\<lambda>c. if x \<in> set rs then asked now c else c) (bm_get (rm_candidates m) x)" for x
    using e by (simp add: option.map_ident)
  have t: "relay_target m1 = relay_target m" using e by (intro relay_target_cong) simp_all
  have known: "\<exists>c. bm_get (rm_candidates m) x = Some c \<and> \<not> is_held (rc_state c)" if "x \<in> set rs" for x
    using that sub by (auto simp: having_def elim!: may_ask.elims)
  have held: "in_state is_held m1 = in_state is_held m \<union> set rs"
    unfolding having_pointwise [OF get] using known by (fastforce simp: having_def asked_def)
  have act: "in_state is_active m1 = in_state is_active m"
  proof (rule set_eqI)
    fix x
    show "x \<in> in_state is_active m1 \<longleftrightarrow> x \<in> in_state is_active m"
      unfolding having_pointwise [OF get] using known [of x]
      by (cases "x \<in> set rs") (auto simp: having_def asked_def is_held_def)
  qed
  have "card (in_state is_held m1) \<le> rcf_max_reservations (rm_config m)"
  proof (cases "rs = []")
    case False
    have "card (in_state is_held m1) \<le> card (in_state is_held m) + length rs"
      unfolding held using card_Un_le [of "in_state is_held m" "set rs"] card_length [of rs] by simp
    also have "length rs \<le> relay_target m - card (in_state is_held m)"
      using relay_counts(4) [OF i(1)] by (simp add: rs_def)
    then have "card (in_state is_held m) + length rs \<le> relay_target m" using False by (cases rs) auto
    finally show ?thesis using relay_target_max [of m] by simp
  qed (use held i(6) in simp)
  then have ok1: "relay_ok m1"
    using i(3) asked_ok e by (intro relay_pointwise_ok [OF ok _ _ get]) auto
  obtain freed where rel: "release_surplus m1 = (freed, m')" and acts: "actions = reserved @ freed"
    using r ask by (auto simp: relay_tick_def Let_def rs_def split: prod.splits)
  show ?thesis
    using that [OF ask rel acts ok1 t _ _ get _ held act d sub] e by simp
qed

lemma bm_get_map_entries: "bm_get (map (\<lambda>e. (fst e, f (fst e) (snd e))) m) k = map_option (f k) (bm_get m k)"
  by (induction m) auto

definition lifted :: "nat \<Rightarrow> nat \<Rightarrow> (transport_identity \<Rightarrow> bool) \<Rightarrow> transport_identity \<Rightarrow> relay_candidate \<Rightarrow> relay_candidate" where
  "lifted floor_ms now gate r c =
    (if lifts floor_ms now gate r c
     then c\<lparr>rc_state := lift_state now (rc_state c), rc_lifted_at_ms := Some now\<rparr> else c)"

lemma lifted_ok:
  "candidate_ok c \<Longrightarrow> candidate_ok (lifted fl now gate r c) \<and> rc_source (lifted fl now gate r c) = rc_source c"
  "is_held (rc_state (lifted fl now gate r c)) = is_held (rc_state c)"
  "active_addresses (rc_state (lifted fl now gate r c)) = active_addresses (rc_state c)"
  by (cases "rc_state c"; simp add: lifted_def candidate_ok_def lifts_def)+

lemma network_added_eq:
  "rm_candidates (snd (relay_network_added m now gate)) =
    map (\<lambda>e. (fst e, lifted (rcf_retry_min_ms (rm_config m)) now gate (fst e) (snd e))) (rm_candidates m)"
  "rm_config (snd (relay_network_added m now gate)) = rm_config m"
  by (simp_all add: relay_network_added_def Let_def lifted_def)

lemma network_added_ok:
  assumes ok: "relay_ok m"
  shows "relay_ok (snd (relay_network_added m now gate))"
proof -
  let ?f = "lifted (rcf_retry_min_ms (rm_config m)) now gate"
  have get: "bm_get (rm_candidates (snd (relay_network_added m now gate))) r = map_option (?f r) (bm_get (rm_candidates m) r)" for r
    unfolding network_added_eq by (rule bm_get_map_entries)
  have "bm_ok (rm_candidates (snd (relay_network_added m now gate)))"
    using relay_okD(1) [OF ok] by (simp add: network_added_eq bm_ok_def comp_def)
  moreover have "in_state is_held (snd (relay_network_added m now gate)) = in_state is_held m"
    unfolding having_pointwise [OF get] by (auto simp: having_def lifted_ok)
  ultimately show ?thesis
    using relay_okD(3,6) [OF ok] lifted_ok(1)
    by (intro relay_pointwise_ok [OF ok _ network_added_eq(2) get]) auto
qed

lemma relay_tick_ok:
  assumes "relay_ok m"
  shows "relay_ok (snd (relay_tick m now))"
  by (rule relay_tick_facts [OF assms surjective_pairing, of now]) (metis release_surplus_facts(1))

lemma set_direct_inbound_ok:
  assumes "relay_ok m"
  shows "relay_ok (snd (set_direct_inbound m st))"
proof -
  have "relay_ok (m\<lparr>rm_direct_inbound := st\<rparr>)" using assms by (simp add: relay_ok_def)
  then show ?thesis unfolding set_direct_inbound_def by (metis release_surplus_facts(1) surjective_pairing)
qed

datatype relay_op =
    RoAddStatic transport_identity bytes
  | RoLearn transport_identity bytes
  | RoForget transport_identity
  | RoInbound direct_inbound_state
  | RoTick nat
  | RoAccepted transport_identity bytes nat
  | RoFailed transport_identity nat nat
  | RoNetwork nat "transport_identity \<Rightarrow> bool"

datatype relay_answer =
    RaDone bool
  | RaWithdrawn "bytes list"
  | RaActions "relay_action list"
  | RaAccepted "refused_relay_report + bool"
  | RaFailed "refused_relay_report + bytes list"
  | RaLifted nat

fun relay_call :: "reservation_manager \<Rightarrow> relay_op \<Rightarrow> relay_answer \<times> reservation_manager" where
  "relay_call m (RoAddStatic r a) = map_prod RaDone id (add_static m r a)"
| "relay_call m (RoLearn r a) = map_prod RaDone id (learn_relay m r a)"
| "relay_call m (RoForget r) = map_prod RaWithdrawn id (forget_relay m r)"
| "relay_call m (RoInbound st) = map_prod RaActions id (set_direct_inbound m st)"
| "relay_call m (RoTick now) = map_prod RaActions id (relay_tick m now)"
| "relay_call m (RoAccepted r a now) = map_prod RaAccepted id (record_relay_accepted m r a now)"
| "relay_call m (RoFailed r now j) = map_prod RaFailed id (record_relay_failed m r now j)"
| "relay_call m (RoNetwork now gate) = map_prod RaLifted id (relay_network_added m now gate)"

definition relay_step :: "reservation_manager \<Rightarrow> relay_op \<Rightarrow> reservation_manager" where
  "relay_step m op = snd (relay_call m op)"

interpretation relay_calls: stepwise relay_step relay_ok
proof
  show "relay_ok (relay_step m op)" if "relay_ok m" for m op
    using that by (cases op) (simp_all add: relay_step_def add_static_ok learn_relay_ok forget_relay_ok
        set_direct_inbound_ok relay_tick_ok record_relay_accepted_ok record_relay_failed_ok network_added_ok)
qed

section \<open>Properties\<close>

definition sample_relay :: transport_identity where
  "sample_relay = TransportIdentity [5]"

definition sample_relay_manager :: reservation_manager where
  "sample_relay_manager = \<lparr>rm_config = reservation_config_default, rm_candidates = [], rm_direct_inbound = InboundUnknown\<rparr>"

lemma sample_relay_new: "reservation_manager_new reservation_config_default = Ok sample_relay_manager"
  by (simp add: reservation_manager_new_def reservation_config_default_def sample_relay_manager_def RELAY_RESERVATIONS_CEILING_def)

definition sample_relay_ops :: "relay_op list" where
  "sample_relay_ops = [RoAddStatic sample_relay [1], RoLearn (TransportIdentity [4]) [2], RoTick 10, RoAccepted sample_relay [7] 20]"

lemma advertised_length:
  assumes "relay_ok m"
  shows "length (relay_advertised m) \<le> MAX_ADDRESSES_PER_RELAY * relay_active m"
proof -
  note i = relay_okD [OF assms]
  have "length (concat (map (\<lambda>e. active_addresses (rc_state (snd e))) es))
      \<le> MAX_ADDRESSES_PER_RELAY * length (filter (\<lambda>e. is_active (rc_state (snd e))) es)"
    if "\<forall>e \<in> set es. candidate_ok (snd e)" for es
    using that
  proof (induction es)
    case (Cons e es)
    then show ?case
      by (cases "rc_state (snd e)") (auto simp: candidate_ok_def address_list_ok_def)
  qed simp
  moreover have "\<forall>e \<in> set (rm_candidates m). candidate_ok (snd e)"
    using i(3) bm_get_in_set [OF i(1)] by (metis prod.collapse)
  ultimately show ?thesis by (simp add: relay_advertised_def relay_active_def)
qed

lemma relay_step_config:
  assumes "relay_ok m"
  shows "rm_config (relay_step m op) = rm_config m"
proof (cases op)
  case (RoInbound st)
  have "relay_ok (m\<lparr>rm_direct_inbound := st\<rparr>)" using assms by (simp add: relay_ok_def)
  from release_surplus_facts(3) [OF this surjective_pairing] show ?thesis
    by (simp add: RoInbound relay_step_def set_direct_inbound_def)
next
  case (RoTick now)
  show ?thesis
    unfolding RoTick relay_step_def
    by (rule relay_tick_facts [OF assms surjective_pairing, of now]) (simp, metis release_surplus_facts(3))
qed (auto simp: relay_step_def add_static_def learn_relay_def forget_relay_def record_relay_accepted_def record_relay_failed_def
    network_added_eq Let_def case_prod_beta split: option.split relay_source.split reservation_state.split)

lemma relay_run:
  assumes "reservation_manager_new config = Ok m0" "m = foldl relay_step m0 ops"
  shows "relay_ok m" "rm_config m = config"
proof -
  have m0: "relay_ok m0 \<and> rm_config m0 = config"
    using assms(1) relay_new_ok [OF assms(1)] by (auto simp: reservation_manager_new_def split: if_splits)
  have "relay_ok (foldl relay_step m ops) \<and> rm_config (foldl relay_step m ops) = config"
    if "relay_ok m \<and> rm_config m = config" for m
    using that by (induction ops arbitrary: m) (simp_all add: relay_step_config relay_calls.inv_step)
  from this [OF m0] show "relay_ok m" "rm_config m = config" by (simp_all add: assms(2))
qed

text \<open>C21. 
  The reservation manager is well formed and fits its configuration.  Whatever the operator, the peers, the
  relays and the network report and in whatever order, a manager that was built keeps the configuration it was
  given, which is within its limits; what it aims for and what it holds or has asked for are within the configured maximum; every
  relay keeps between one and eight distinct non-empty addresses to reach it, an active reservation
  advertises between one and eight distinct non-empty ones, a relay in backoff has failed at least once, and
  neither the configured nor the learned relays pass their bound of sixteen.
\<close>

theorem relay_manager_well_formed:
  assumes "reservation_manager_new config = Ok m0" and "m = foldl relay_step m0 ops"
  shows "bm_ok (rm_candidates m)
    \<and> length (filter (\<lambda>e. rc_source (snd e) = SourceStatic) (rm_candidates m)) \<le> 16
    \<and> length (filter (\<lambda>e. rc_source (snd e) = SourceLearned) (rm_candidates m)) \<le> 16
    \<and> (\<forall>r c. bm_get (rm_candidates m) r = Some c \<longrightarrow>
        (\<forall>as \<in> {rc_addresses c} \<union> (if is_active (rc_state c) then {active_addresses (rc_state c)} else {}).
           distinct as \<and> [] \<notin> set as \<and> 1 \<le> length as \<and> length as \<le> 8)
        \<and> (\<forall>until n. rc_state c = RsBackoff until n \<longrightarrow> 1 \<le> n))
    \<and> rm_config m = config
    \<and> 1 \<le> rcf_max_reservations config \<and> rcf_max_reservations config \<le> 8
    \<and> rcf_target_public config \<le> rcf_target_private_or_unknown config
    \<and> rcf_target_private_or_unknown config \<le> rcf_max_reservations config
    \<and> 1 \<le> rcf_retry_min_ms config \<and> rcf_retry_min_ms config \<le> rcf_retry_max_ms config
    \<and> relay_target m \<le> rcf_max_reservations config
    \<and> length (filter (\<lambda>e. is_active (rc_state (snd e)) \<or> is_requested (rc_state (snd e))) (rm_candidates m))
        \<le> rcf_max_reservations config"
proof -
  note run = relay_run [OF assms]
  note i = relay_okD [OF run(1)]
  have shape: "(\<forall>as \<in> {rc_addresses c} \<union> (if is_active (rc_state c) then {active_addresses (rc_state c)} else {}).
           distinct as \<and> [] \<notin> set as \<and> 1 \<le> length as \<and> length as \<le> 8)
        \<and> (\<forall>until n. rc_state c = RsBackoff until n \<longrightarrow> 1 \<le> n)" if "candidate_ok c" for c
    using that by (cases "rc_state c")
      (simp_all add: candidate_ok_def address_list_ok_def MAX_ADDRESSES_PER_RELAY_def Suc_le_eq)
  have sources: "length (filter (\<lambda>e. rc_source (snd e) = SourceStatic) (rm_candidates m)) \<le> 16"
      "length (filter (\<lambda>e. rc_source (snd e) = SourceLearned) (rm_candidates m)) \<le> 16"
    using i(4,5) relay_counts(1) [OF i(1)] by (simp_all add: relay_count_def MAX_STATIC_RELAYS_def MAX_LEARNED_RELAYS_def)
  have shapes: "\<forall>r c. bm_get (rm_candidates m) r = Some c \<longrightarrow>
        (\<forall>as \<in> {rc_addresses c} \<union> (if is_active (rc_state c) then {active_addresses (rc_state c)} else {}).
           distinct as \<and> [] \<notin> set as \<and> 1 \<le> length as \<and> length as \<le> 8)
        \<and> (\<forall>until n. rc_state c = RsBackoff until n \<longrightarrow> 1 \<le> n)"
    using shape i(3) by blast
  have held: "length (filter (\<lambda>e. is_active (rc_state (snd e)) \<or> is_requested (rc_state (snd e))) (rm_candidates m))
      \<le> rcf_max_reservations config"
    using i(6) count_having [OF i(1), of "\<lambda>c. is_held (rc_state c)"] by (simp add: is_held_def run(2))
  have "relay_target m \<le> rcf_max_reservations config" by (simp add: relay_target_def Let_def run(2))
  with i(1,2) sources shapes held run(2) show ?thesis
    by (simp only: config_ok_def RELAY_RESERVATIONS_CEILING_def One_nat_def Suc_le_eq simp_thms)
qed

theorem relay_manager_well_formed_witness:
  "(let m = foldl relay_step sample_relay_manager sample_relay_ops
    in bm_ok (rm_candidates m) \<and> relay_target m \<le> 4 \<and> rm_config m = reservation_config_default
     \<and> relay_advertised m = [[7]])"
proof -
  have "relay_advertised (foldl relay_step sample_relay_manager sample_relay_ops) = [[7]]" by code_simp
  moreover have "rcf_max_reservations reservation_config_default = 4" by (simp add: reservation_config_default_def)
  ultimately show ?thesis
    unfolding Let_def using relay_manager_well_formed [OF sample_relay_new refl, of sample_relay_ops] by metis
qed

lemma relay_tick_active:
  assumes "relay_ok m"
  shows "relay_active (snd (relay_tick m now)) \<le> relay_target (snd (relay_tick m now))"
proof (rule relay_tick_facts [OF assms surjective_pairing, of now])
  fix m1 freed
  assume "release_surplus m1 = (freed, snd (relay_tick m now))" "relay_ok m1"
  from release_surplus_facts(2,9) [OF this(2,1)] show ?thesis by simp
qed

text \<open>C22. 
  Reservations stay bounded: those active and those asked for never exceed the configured maximum
  together, so at most eight, and at most sixty-four addresses are advertised; and after every
  tick the active ones do not exceed the target of the moment.
\<close>

theorem relay_reservations_bounded:
  assumes "reservation_manager_new config = Ok m0" and "m = foldl relay_step m0 ops"
  shows "relay_active m + relay_requested m \<le> rcf_max_reservations config \<and> rcf_max_reservations config \<le> 8
    \<and> length (relay_advertised m) \<le> 64
    \<and> relay_active (snd (relay_tick m now)) \<le> relay_target (snd (relay_tick m now))"
proof -
  note ok = relay_run [OF assms]
  note i = relay_okD [OF ok(1)]
  have "relay_active m + relay_requested m \<le> rcf_max_reservations config" "rcf_max_reservations config \<le> 8"
    using i(2,6) relay_counts(4) [OF i(1)] by (simp_all add: ok(2) config_ok_def RELAY_RESERVATIONS_CEILING_def)
  moreover from this have "length (relay_advertised m) \<le> 64"
    using advertised_length [OF ok(1)] by (simp add: MAX_ADDRESSES_PER_RELAY_def)
  ultimately show ?thesis using relay_tick_active [OF ok(1)] by simp
qed

theorem relay_reservations_bounded_witness:
  "relay_active (foldl relay_step sample_relay_manager sample_relay_ops) + relay_requested (foldl relay_step sample_relay_manager sample_relay_ops) \<le> 4"
  using relay_reservations_bounded [OF sample_relay_new refl, THEN conjunct1, of sample_relay_ops]
  by (simp add: reservation_config_default_def)

end
