(* ===== verification/Relay_Policy.thy ===== *)
theory Relay_Policy
  imports Relay
begin

text \<open>
  What the relay reservation policy promises: which addresses are advertised, when a relay is asked
  again after a failure, and that a tick fills the target from the relays there are.
\<close>

section \<open>What is advertised\<close>

definition adverts :: "reservation_manager \<Rightarrow> (transport_identity \<times> bytes) set" where
  "adverts m = {(r, a). \<exists>c. bm_get (rm_candidates m) r = Some c \<and> a \<in> set (active_addresses (rc_state c))}"

fun withdrawn :: "relay_op \<Rightarrow> relay_answer \<Rightarrow> (transport_identity \<times> bytes) set" where
  "withdrawn (RoForget r) (RaWithdrawn as) = {r} \<times> set as"
| "withdrawn (RoFailed r _ _) (RaFailed (Inr as)) = {r} \<times> set as"
| "withdrawn _ (RaActions actions) = {(r, a). \<exists>as. Release r as \<in> set actions \<and> a \<in> set as}"
| "withdrawn _ _ = {}"

fun granted :: "relay_op \<Rightarrow> relay_answer \<Rightarrow> (transport_identity \<times> bytes) set" where
  "granted (RoAccepted r a _) (RaAccepted (Inr _)) = {(r, a)}"
| "granted _ _ = {}"

lemma adverts_insert:
  "adverts (candidate_insert r c m) = (adverts m - {r} \<times> UNIV) \<union> {r} \<times> set (active_addresses (rc_state c))"
  by (auto simp: adverts_def split: if_splits)

lemma adverts_known:
  "bm_get (rm_candidates m) r = Some c \<Longrightarrow> adverts m \<inter> {r} \<times> UNIV = {r} \<times> set (active_addresses (rc_state c))"
  by (auto simp: adverts_def)

lemma adverts_unknown: "bm_get (rm_candidates m) r = None \<Longrightarrow> adverts m \<inter> {r} \<times> UNIV = {}"
  by (auto simp: adverts_def)

text \<open>A write that keeps the addresses of an active reservation keeps the adverts.\<close>

lemma adverts_kept:
  assumes "case bm_get (rm_candidates m) r of
      Some c \<Rightarrow> active_addresses (rc_state c') = active_addresses (rc_state c) | None \<Rightarrow> active_addresses (rc_state c') = []"
  shows "adverts (candidate_insert r c' m) = adverts m"
  using assms adverts_known [of m r] adverts_unknown [of m r]
  by (cases "bm_get (rm_candidates m) r") (auto simp: adverts_insert)

lemma adverts_list: "bm_ok (rm_candidates m) \<Longrightarrow> set (relay_advertised m) = snd ` adverts m"
  by (force simp: relay_advertised_def adverts_def bm_get_in_set [symmetric])

lemma adverts_release:
  assumes ok: "relay_ok m" and r: "release_surplus m = (actions, m')"
  shows "adverts m' = adverts m - {(r, a). \<exists>as. Release r as \<in> set actions \<and> a \<in> set as}"
    and "{(r, a). \<exists>as. Release r as \<in> set actions \<and> a \<in> set as} \<subseteq> adverts m"
proof -
  note f = release_surplus_facts [OF ok r]
  let ?rs = "take (relay_active m - relay_target m) (release_order m)"
  have rel: "Release x as \<in> set actions \<longleftrightarrow>
      x \<in> set ?rs \<and> (\<exists>c. bm_get (rm_candidates m) x = Some c \<and> as = active_addresses (rc_state c))" for x as
    using f(11) unfolding f(5) by (auto simp: having_def)
  have idle: "active_addresses (rc_state (released c)) = (if is_active (rc_state c) then [] else active_addresses (rc_state c))" for c
    by (simp add: released_def)
  have none: "\<not> is_active s \<Longrightarrow> active_addresses s = []" for s by (cases s) simp_all
  have get: "(x, a) \<in> adverts m' \<longleftrightarrow> x \<notin> set ?rs \<and> (x, a) \<in> adverts m" for x a
    using none by (auto simp: adverts_def f(6) idle split: if_splits)
  then show "adverts m' = adverts m - {(r, a). \<exists>as. Release r as \<in> set actions \<and> a \<in> set as}"
    by (auto simp: rel) (auto simp: adverts_def)
  show "{(r, a). \<exists>as. Release r as \<in> set actions \<and> a \<in> set as} \<subseteq> adverts m"
    by (auto simp: rel adverts_def)
qed

lemma adverts_tick:
  assumes ok: "relay_ok m" and r: "relay_tick m now = (actions, m')"
  shows "adverts m' = adverts m - {(r, a). \<exists>as. Release r as \<in> set actions \<and> a \<in> set as}
    \<and> {(r, a). \<exists>as. Release r as \<in> set actions \<and> a \<in> set as} \<subseteq> adverts m"
proof (rule relay_tick_facts [OF ok r])
  fix m1 reserved freed
  let ?rs = "take (relay_target m - (relay_active m + relay_requested m)) (askable m now)"
  assume rel: "release_surplus m1 = (freed, m')" and acts: "actions = reserved @ freed" and ok1: "relay_ok m1"
    and get: "\<And>x. bm_get (rm_candidates m1) x = map_option (\<lambda>c. if x \<in> set ?rs then asked now c else c) (bm_get (rm_candidates m) x)"
    and res: "reserved = map (\<lambda>r. Reserve r (rc_addresses (the (bm_get (rm_candidates m) r)))) ?rs"
    and sub: "set ?rs \<subseteq> in_state (may_ask now) m"
  have none: "active_addresses (rc_state c) = []" if "may_ask now (rc_state c)" for c
    using that by (cases "rc_state c") simp_all
  have "(x, a) \<in> adverts m1 \<longleftrightarrow> (x, a) \<in> adverts m" for x a
  proof (cases "x \<in> set ?rs")
    case True
    then obtain c where "bm_get (rm_candidates m) x = Some c" "active_addresses (rc_state c) = []"
      using sub none by (auto simp: having_def)
    then show ?thesis using True by (simp add: adverts_def get asked_def)
  qed (simp add: adverts_def get option.map_ident)
  then have "adverts m1 = adverts m" by auto
  moreover have "Release x as \<in> set actions \<longleftrightarrow> Release x as \<in> set freed" for x as
    by (auto simp: acts res)
  ultimately show ?thesis using adverts_release [OF ok1 rel] by simp
qed

lemma adverts_call:
  assumes ok: "relay_ok m" and call: "relay_call m op = (answer, m')"
  shows "adverts m' = (adverts m - withdrawn op answer) \<union> granted op answer
    \<and> withdrawn op answer \<subseteq> adverts m
    \<and> granted op answer \<subseteq> {(r, a). a \<noteq> [] \<and> (\<exists>c. bm_get (rm_candidates m) r = Some c \<and> is_held (rc_state c))}"
proof (cases op)
  case (RoAddStatic r a)
  have "adverts (snd (add_static m r a)) = adverts m"
    by (auto simp: add_static_def Let_def case_prod_beta adverts_kept relay_add_address_ok(3) split: option.split)
  moreover have "m' = snd (add_static m r a)" "answer = RaDone (fst (add_static m r a))"
    using call by (simp_all add: RoAddStatic prod_eq_iff)
  ultimately show ?thesis by (simp add: RoAddStatic)
next
  case (RoLearn r a)
  have "adverts (snd (learn_relay m r a)) = adverts m"
    by (auto simp: learn_relay_def Let_def case_prod_beta adverts_kept relay_add_address_ok(3)
        split: option.split relay_source.split)
  moreover have "m' = snd (learn_relay m r a)" "answer = RaDone (fst (learn_relay m r a))"
    using call by (simp_all add: RoLearn prod_eq_iff)
  ultimately show ?thesis by (simp add: RoLearn)
next
  case (RoForget r)
  then show ?thesis using call by (auto simp: forget_relay_def adverts_def split: option.splits if_splits)
next
  case (RoInbound st)
  let ?m = "m\<lparr>rm_direct_inbound := st\<rparr>"
  have ok': "relay_ok ?m" using ok by (simp add: relay_ok_def)
  have same: "adverts ?m = adverts m" by (simp add: adverts_def)
  have "answer = RaActions (fst (release_surplus ?m))" "m' = snd (release_surplus ?m)"
    using call by (auto simp: RoInbound set_direct_inbound_def map_prod_def case_prod_beta)
  with adverts_release [OF ok' surjective_pairing] show ?thesis by (simp add: RoInbound same)
next
  case (RoTick now)
  have "answer = RaActions (fst (relay_tick m now))" "m' = snd (relay_tick m now)"
    using call by (auto simp: RoTick map_prod_def case_prod_beta)
  with adverts_tick [OF ok surjective_pairing, of now] show ?thesis by (simp add: RoTick)
next
  case (RoAccepted r a now)
  show ?thesis
  proof (cases "\<exists>c. bm_get (rm_candidates m) r = Some c \<and> is_held (rc_state c) \<and> a \<noteq> []")
    case True
    then obtain c where c: "bm_get (rm_candidates m) r = Some c" "is_held (rc_state c)" "a \<noteq> []" by blast
    show ?thesis
    proof (cases "rc_state c")
      case (RsRequested t n)
      then have "answer = RaAccepted (Ok True)" "m' = candidate_insert r (c\<lparr>rc_state := RsActive now [a]\<rparr>) m"
        using call c by (simp_all add: RoAccepted record_relay_accepted_def)
      then show ?thesis using adverts_known [OF c(1)] c RsRequested by (auto simp: RoAccepted adverts_insert)
    next
      case (RsActive t as)
      consider "a \<in> set as" "answer = RaAccepted (Ok False)" "m' = m"
        | e where "answer = RaAccepted (Err e)" "m' = m"
        | "answer = RaAccepted (Ok True)" "m' = candidate_insert r (c\<lparr>rc_state := RsActive t (as @ [a])\<rparr>) m"
        using call c RsActive by (auto simp: RoAccepted record_relay_accepted_def split: if_splits)
      then show ?thesis
      proof cases
        case 1
        then have "(r, a) \<in> adverts m" using c RsActive by (auto simp: adverts_def)
        with 1 c show ?thesis by (auto simp: RoAccepted)
      next
        case 3
        then show ?thesis using adverts_known [OF c(1)] c RsActive by (auto simp: RoAccepted adverts_insert)
      qed (simp add: RoAccepted)
    qed (use c(2) in simp_all)
  next
    case False
    then have "\<exists>e. answer = RaAccepted (Err e) \<and> m' = m"
      using call
      by (auto simp: RoAccepted record_relay_accepted_def split: option.splits reservation_state.splits if_splits)
    then show ?thesis by (auto simp: RoAccepted)
  qed
next
  case (RoFailed r now j)
  show ?thesis
  proof (cases "\<exists>c. bm_get (rm_candidates m) r = Some c \<and> rc_state c \<noteq> RsIdle")
    case True
    then obtain c where c: "bm_get (rm_candidates m) r = Some c" "rc_state c \<noteq> RsIdle" by blast
    have "answer = RaFailed (Ok (active_addresses (rc_state c)))"
      "adverts m' = adverts m - {r} \<times> UNIV"
      using call by (auto simp: RoFailed record_relay_failed_eq [OF c] adverts_insert)
    then show ?thesis using adverts_known [OF c(1)] by (auto simp: RoFailed)
  next
    case False
    then show ?thesis using call record_relay_failed_err [OF False, of now j] by (auto simp: RoFailed)
  qed
next
  case (RoNetwork now gate)
  have "adverts (snd (relay_network_added m now gate)) = adverts m"
  proof -
    have "(r, a) \<in> adverts (snd (relay_network_added m now gate)) \<longleftrightarrow> (r, a) \<in> adverts m" for r a
      unfolding adverts_def network_added_eq bm_get_map_entries
      by (cases "bm_get (rm_candidates m) r") (simp_all add: lifted_ok)
    then show ?thesis by auto
  qed
  moreover have "m' = snd (relay_network_added m now gate)" "answer = RaLifted (fst (relay_network_added m now gate))"
    using call by (simp_all add: RoNetwork prod_eq_iff)
  ultimately show ?thesis by (simp add: RoNetwork)
qed

text \<open>C20. 
  The advertised addresses refine their abstract account: every call takes from the set of
  advertised addresses exactly what it hands back to be withdrawn, all of which was advertised, and
  adds exactly an address a relay reported for a reservation that was asked for or active.  So
  nothing is advertised that the profile did not ask for, and nothing leaves the set unreported.
\<close>

theorem relay_adverts_accounted:
  assumes "reservation_manager_new config = Ok m0" and "m = foldl relay_step m0 ops"
    and "relay_call m op = (answer, m')"
  shows "adverts m' = (adverts m - withdrawn op answer) \<union> granted op answer
    \<and> withdrawn op answer \<subseteq> adverts m
    \<and> granted op answer \<subseteq> {(r, a). a \<noteq> [] \<and> (\<exists>c. bm_get (rm_candidates m) r = Some c \<and> is_held (rc_state c))}
    \<and> set (relay_advertised m') = snd ` adverts m'"
proof -
  have ok: "relay_ok m" by (rule relay_run [OF assms(1,2)])
  have m': "m' = relay_step m op" using assms(3) by (simp add: relay_step_def)
  have "relay_ok m'" unfolding m' by (rule relay_calls.inv_step [OF ok])
  then have list: "set (relay_advertised m') = snd ` adverts m'" by (intro adverts_list) (simp add: relay_ok_def)
  have "adverts m' = (adverts m - withdrawn op answer) \<union> granted op answer
    \<and> withdrawn op answer \<subseteq> adverts m
    \<and> granted op answer \<subseteq> {(r, a). a \<noteq> [] \<and> (\<exists>c. bm_get (rm_candidates m) r = Some c \<and> is_held (rc_state c))}"
    using assms(3) adverts_call [OF ok] by simp
  with list show ?thesis by blast
qed

theorem relay_adverts_accounted_witness:
  "(let m = foldl relay_step sample_relay_manager sample_relay_ops; r = relay_call m (RoFailed sample_relay 30 0)
    in fst r = RaFailed (Ok [[7]]) \<and> (sample_relay, [7]) \<notin> adverts (snd r))"
proof -
  let ?m = "foldl relay_step sample_relay_manager sample_relay_ops" and ?op = "RoFailed sample_relay 30 0"
  have "fst (relay_call ?m ?op) = RaFailed (Ok [[7]])" by code_simp
  moreover have "adverts (snd (relay_call ?m ?op)) = (adverts ?m - withdrawn ?op (fst (relay_call ?m ?op))) \<union> granted ?op (fst (relay_call ?m ?op))"
    using relay_adverts_accounted [OF sample_relay_new refl surjective_pairing] by blast
  ultimately show ?thesis unfolding Let_def by (simp only: withdrawn.simps granted.simps) simp
qed

section \<open>Backing off\<close>

definition relay_state :: "reservation_manager \<Rightarrow> transport_identity \<Rightarrow> reservation_state option" where
  "relay_state m relay = map_option rc_state (bm_get (rm_candidates m) relay)"

fun asked_in :: "relay_answer \<Rightarrow> transport_identity set" where
  "asked_in (RaActions actions) = {r. \<exists>as. Reserve r as \<in> set actions}"
| "asked_in _ = {}"

fun relay_answers :: "reservation_manager \<Rightarrow> relay_op list \<Rightarrow> relay_answer list" where
  "relay_answers m [] = []"
| "relay_answers m (op # ops) = fst (relay_call m op) # relay_answers (relay_step m op) ops"

lemma retry_delay_grows: "relay_retry_delay_ms cfg n \<le> relay_retry_delay_ms cfg (sat_add32 n 1)"
proof -
  have "min n 20 \<le> min (sat_add32 n 1) 20" by (auto simp: sat_add32_def U32_MAX_def)
  then show ?thesis
    unfolding relay_retry_delay_ms_def Let_def sat_mul64_def
    by (rule min.mono [OF min.mono [OF mult_le_mono2 [OF power_increasing]]]) simp_all
qed

lemma retry_delay_bounds:
  "relay_retry_delay_ms cfg n \<le> rcf_retry_max_ms cfg"
  "rcf_retry_min_ms cfg \<le> U64_MAX \<Longrightarrow> rcf_retry_min_ms cfg \<le> rcf_retry_max_ms cfg \<Longrightarrow> rcf_retry_min_ms cfg \<le> relay_retry_delay_ms cfg n"
  "rcf_retry_min_ms cfg * 2 ^ min n 20 \<le> U64_MAX \<Longrightarrow>
    relay_retry_delay_ms cfg n = min (rcf_retry_min_ms cfg * 2 ^ min n 20) (rcf_retry_max_ms cfg)"
  by (simp_all add: relay_retry_delay_ms_def Let_def sat_mul64_def del: min.bounded_iff) (simp add: min.bounded_iff)

lemma relay_state_insert: "relay_state (candidate_insert r c m) r' = (if r' = r then Some (rc_state c) else relay_state m r')"
  by (simp add: relay_state_def)

lemma relay_state_add_static:
  assumes "relay_state m r = Some s"
  shows "relay_state (snd (add_static m r' a)) r = Some s"
  using assms
  by (auto simp: add_static_def Let_def case_prod_beta relay_state_insert relay_add_address_ok split: option.split)
    (auto simp: relay_state_def)

lemma relay_state_learn:
  assumes "relay_state m r = Some s"
  shows "relay_state (snd (learn_relay m r' a)) r = Some s"
  using assms
  by (auto simp: learn_relay_def Let_def case_prod_beta relay_state_insert relay_add_address_ok
      split: option.split relay_source.split)
    (auto simp: relay_state_def)

lemma relay_state_release:
  assumes ok: "relay_ok m" and "relay_state m r = Some s" "\<not> is_active s" and r: "release_surplus m = (actions, m')"
  shows "relay_state m' r = Some s"
proof -
  note f = release_surplus_facts [OF ok r]
  have "r \<notin> in_state is_active m" using assms(2,3) by (auto simp: relay_state_def having_def)
  then have "r \<notin> set (take (relay_active m - relay_target m) (release_order m))" using f(11) by blast
  then show ?thesis using assms(2) by (simp add: relay_state_def f(6))
qed

lemma relay_state_tick:
  assumes ok: "relay_ok m" and s: "relay_state m r = Some s" "\<not> is_active s" "\<not> may_ask now s"
    and t: "relay_tick m now = (actions, m')"
  shows "relay_state m' r = Some s \<and> r \<notin> asked_in (RaActions actions)"
proof (rule relay_tick_facts [OF ok t])
  fix m1 reserved freed
  let ?rs = "take (relay_target m - (relay_active m + relay_requested m)) (askable m now)"
  assume rel: "release_surplus m1 = (freed, m')" and acts: "actions = reserved @ freed" and ok1: "relay_ok m1"
    and get: "\<And>x. bm_get (rm_candidates m1) x = map_option (\<lambda>c. if x \<in> set ?rs then asked now c else c) (bm_get (rm_candidates m) x)"
    and res: "reserved = map (\<lambda>r. Reserve r (rc_addresses (the (bm_get (rm_candidates m) r)))) ?rs"
    and sub: "set ?rs \<subseteq> in_state (may_ask now) m"
  have n: "r \<notin> set ?rs" using sub s(1,3) by (auto simp: relay_state_def having_def)
  then have "relay_state m1 r = Some s" using s(1) by (simp add: relay_state_def get option.map_ident)
  from relay_state_release [OF ok1 this s(2) rel] have "relay_state m' r = Some s" .
  moreover have "r \<notin> asked_in (RaActions actions)"
    using n release_surplus_facts(5) [OF ok1 rel] by (auto simp: acts res)
  ultimately show ?thesis by blast
qed

definition backing_off :: "nat \<Rightarrow> nat \<Rightarrow> transport_identity \<Rightarrow> reservation_manager \<Rightarrow> bool" where
  "backing_off until delay r m \<longleftrightarrow>
    (\<exists>u n. relay_state m r = Some (RsBackoff u n) \<and> until \<le> u \<and> delay \<le> relay_retry_delay_ms (rm_config m) n)"

text \<open>Calls before the end of a backoff that does not start over: no forgetting, no lift, no clock running backwards.\<close>

fun during_backoff :: "transport_identity \<Rightarrow> nat \<Rightarrow> nat \<Rightarrow> relay_op \<Rightarrow> bool" where
  "during_backoff r t until (RoTick now) = (now < until)"
| "during_backoff r t until (RoFailed r' now _) = (r' = r \<longrightarrow> t \<le> now)"
| "during_backoff r t until (RoForget r') = (r' \<noteq> r)"
| "during_backoff r t until (RoNetwork _ gate_holds) = gate_holds r"
| "during_backoff r t until _ = True"

lemma backing_off_failed:
  assumes b: "backing_off (sat_add64 t d) d r m" and "t \<le> now"
  shows "backing_off (sat_add64 t d) d r (snd (record_relay_failed m r now j))"
proof -
  obtain u n where s: "relay_state m r = Some (RsBackoff u n)" and d: "d \<le> relay_retry_delay_ms (rm_config m) n"
    using b by (auto simp: backing_off_def)
  then obtain c where c: "bm_get (rm_candidates m) r = Some c" "rc_state c = RsBackoff u n"
    by (auto simp: relay_state_def)
  have "sat_add64 t d \<le> sat_add64 (sat_add64 now (relay_retry_delay_ms (rm_config m) n)) (min j (relay_retry_delay_ms (rm_config m) n))"
    using assms(2) d by (auto simp: sat_add64_def min_def)
  moreover have "d \<le> relay_retry_delay_ms (rm_config m) (sat_add32 n 1)"
    using d retry_delay_grows [of "rm_config m" n] by simp
  ultimately show ?thesis
    using c record_relay_failed_eq [OF c(1), of now j] by (simp add: backing_off_def relay_state_insert)
qed

lemma backing_off_call:
  assumes ok: "relay_ok m" and b: "backing_off (sat_add64 t d) d r m" and op: "during_backoff r t (sat_add64 t d) op"
  shows "backing_off (sat_add64 t d) d r (relay_step m op) \<and> r \<notin> asked_in (fst (relay_call m op))"
proof -
  obtain u n where s: "relay_state m r = Some (RsBackoff u n)" and u: "sat_add64 t d \<le> u"
    and d: "d \<le> relay_retry_delay_ms (rm_config m) n"
    using b by (auto simp: backing_off_def)
  have keep: "backing_off (sat_add64 t d) d r (relay_step m op)" if "relay_state (relay_step m op) r = Some (RsBackoff u n)"
    using that u d relay_step_config [OF ok, of op] by (simp add: backing_off_def)
  show ?thesis
  proof (cases op)
    case (RoAddStatic r' a)
    then show ?thesis using keep relay_state_add_static [OF s] by (simp add: relay_step_def)
  next
    case (RoLearn r' a)
    then show ?thesis using keep relay_state_learn [OF s] by (simp add: relay_step_def)
  next
    case (RoForget r')
    then show ?thesis using keep s op by (simp add: relay_step_def forget_relay_def relay_state_def)
  next
    case (RoInbound st)
    let ?m = "m\<lparr>rm_direct_inbound := st\<rparr>"
    have ok': "relay_ok ?m" using ok by (simp add: relay_ok_def)
    have "relay_state ?m r = Some (RsBackoff u n)" using s by (simp add: relay_state_def)
    from relay_state_release [OF ok' this _ surjective_pairing] have "relay_state (relay_step m op) r = Some (RsBackoff u n)"
      by (simp add: RoInbound relay_step_def set_direct_inbound_def)
    moreover have "r \<notin> asked_in (RaActions (fst (release_surplus ?m)))"
      using release_surplus_facts(5) [OF ok' surjective_pairing] by auto
    ultimately show ?thesis using keep by (simp add: RoInbound set_direct_inbound_def)
  next
    case (RoTick now)
    have "\<not> may_ask now (RsBackoff u n)" using op u by (simp add: RoTick)
    from relay_state_tick [OF ok s _ this surjective_pairing] show ?thesis
      using keep by (simp add: RoTick relay_step_def)
  next
    case (RoAccepted r' a now)
    obtain c where "bm_get (rm_candidates m) r = Some c" "rc_state c = RsBackoff u n" using s by (auto simp: relay_state_def)
    then have "relay_state (snd (record_relay_accepted m r' a now)) r = Some (RsBackoff u n)"
      using s by (cases "r' = r")
        (auto simp: record_relay_accepted_def relay_state_def split: option.split reservation_state.split)
    then show ?thesis using keep by (simp add: RoAccepted relay_step_def)
  next
    case (RoFailed r' now j)
    show ?thesis
    proof (cases "r' = r")
      case True
      then show ?thesis using backing_off_failed [OF b, of now j] op by (simp add: RoFailed relay_step_def)
    next
      case False
      then have "relay_state (snd (record_relay_failed m r' now j)) r = Some (RsBackoff u n)"
        using s by (auto simp: record_relay_failed_def relay_state_def Let_def split: option.split reservation_state.split)
      then show ?thesis using keep by (simp add: RoFailed relay_step_def)
    qed
  next
    case (RoNetwork now gate)
    let ?f = "lifted (rcf_retry_min_ms (rm_config m)) now gate"
    have get: "bm_get (rm_candidates (snd (relay_network_added m now gate))) r = map_option (?f r) (bm_get (rm_candidates m) r)"
      unfolding network_added_eq by (rule bm_get_map_entries)
    have "gate r" using op by (simp add: RoNetwork)
    then have "relay_state (snd (relay_network_added m now gate)) r = Some (RsBackoff u n)"
      using s by (auto simp: relay_state_def get lifted_def lifts_def)
    then show ?thesis using keep by (simp add: RoNetwork relay_step_def)
  qed
qed

section \<open>Failures in a row\<close>

text \<open>
  How often a relay has failed since it last accepted, read off the reports and their answers: a recorded
  failure counts, a recorded acceptance and forgetting the relay start over, everything else leaves the count.
\<close>

fun row_after :: "transport_identity \<Rightarrow> nat \<Rightarrow> relay_op \<Rightarrow> relay_answer \<Rightarrow> nat" where
  "row_after r n (RoFailed r' _ _) (RaFailed (Inr _)) = (if r' = r then Suc n else n)"
| "row_after r n (RoAccepted r' _ _) (RaAccepted (Inr _)) = (if r' = r then 0 else n)"
| "row_after r n (RoForget r') _ = (if r' = r then 0 else n)"
| "row_after r n _ _ = n"

fun failures_in_row :: "transport_identity \<Rightarrow> nat \<Rightarrow> reservation_manager \<Rightarrow> relay_op list \<Rightarrow> nat" where
  "failures_in_row r n m [] = n"
| "failures_in_row r n m (op # ops) =
    failures_in_row r (row_after r n op (fst (relay_call m op))) (relay_step m op) ops"

definition counts_row :: "transport_identity \<Rightarrow> nat \<Rightarrow> reservation_manager \<Rightarrow> bool" where
  "counts_row r n m \<longleftrightarrow> (case relay_state m r of None \<Rightarrow> n = 0 | Some s \<Rightarrow> failures_before s = min n U32_MAX)"

text \<open>A call that keeps every known relay's count and brings in new relays idle.\<close>

lemma counts_rowI:
  assumes "counts_row r n m"
    and "\<And>s. relay_state m r = Some s \<Longrightarrow> \<exists>s'. relay_state m' r = Some s' \<and> failures_before s' = failures_before s"
    and "relay_state m r = None \<Longrightarrow> relay_state m' r = None \<or> relay_state m' r = Some RsIdle"
  shows "counts_row r n m'"
  using assms by (cases "relay_state m r") (auto simp: counts_row_def)

lemma counts_row_map:
  assumes "counts_row r n m" "bm_get (rm_candidates m') r = map_option f (bm_get (rm_candidates m) r)"
    and "\<And>c. bm_get (rm_candidates m) r = Some c \<Longrightarrow> failures_before (rc_state (f c)) = failures_before (rc_state c)"
  shows "counts_row r n m'"
  using assms by (cases "bm_get (rm_candidates m) r") (auto simp: counts_row_def relay_state_def)

lemma row_release:
  assumes ok: "relay_ok m" and c: "counts_row r n m" and rel: "release_surplus m = (actions, m')"
  shows "counts_row r n m'"
proof (rule counts_row_map [OF c])
  let ?rs = "take (relay_active m - relay_target m) (release_order m)"
  show "bm_get (rm_candidates m') r = map_option (if r \<in> set ?rs then released else id) (bm_get (rm_candidates m) r)"
    using release_surplus_facts(6) [OF ok rel, of r] by (simp add: option.map_id0)
  show "failures_before (rc_state ((if r \<in> set ?rs then released else id) c)) = failures_before (rc_state c)" for c
    by (cases "rc_state c") (simp_all add: released_def)
qed

lemma row_tick:
  assumes ok: "relay_ok m" and c: "counts_row r n m" and t: "relay_tick m now = (actions, m')"
  shows "counts_row r n m'"
proof (rule relay_tick_facts [OF ok t])
  fix m1 reserved freed
  let ?rs = "take (relay_target m - (relay_active m + relay_requested m)) (askable m now)"
  assume rel: "release_surplus m1 = (freed, m')" and ok1: "relay_ok m1"
    and get: "\<And>x. bm_get (rm_candidates m1) x = map_option (\<lambda>c. if x \<in> set ?rs then asked now c else c) (bm_get (rm_candidates m) x)"
    and sub: "set ?rs \<subseteq> in_state (may_ask now) m"
  have "failures_before (rc_state (if r \<in> set ?rs then asked now c else c)) = failures_before (rc_state c)"
    if "bm_get (rm_candidates m) r = Some c" for c
    using that sub by (cases "rc_state c") (auto simp: asked_def having_def)
  from row_release [OF ok1 counts_row_map [OF c get this] rel] show ?thesis .
qed

lemma row_failed:
  assumes "counts_row r n m"
  shows "counts_row r (row_after r n (RoFailed r' now j) (RaFailed (fst (record_relay_failed m r' now j)))) (snd (record_relay_failed m r' now j))"
proof (cases "\<exists>c. bm_get (rm_candidates m) r' = Some c \<and> rc_state c \<noteq> RsIdle")
  case True
  then obtain c where c: "bm_get (rm_candidates m) r' = Some c" "rc_state c \<noteq> RsIdle" by blast
  have "failures_before (rc_state c) = min n U32_MAX" if "r' = r"
    using that assms c by (simp add: counts_row_def relay_state_def)
  then show ?thesis
    using assms by (auto simp: record_relay_failed_eq [OF c] counts_row_def relay_state_insert sat_add32_def)
next
  case False
  then show ?thesis using record_relay_failed_err [OF False, of now j] assms by auto
qed

lemma accepted_state:
  "case record_relay_accepted m r' a now of
     (Inl _, m') \<Rightarrow> m' = m
   | (Inr _, m') \<Rightarrow> (\<exists>t as. relay_state m' r' = Some (RsActive t as)) \<and> (\<forall>r. r \<noteq> r' \<longrightarrow> relay_state m' r = relay_state m r)"
  by (auto simp: record_relay_accepted_def relay_state_insert split: option.split reservation_state.split)
    (simp add: relay_state_def)

lemma row_accepted:
  assumes "counts_row r n m"
  shows "counts_row r (row_after r n (RoAccepted r' a now) (RaAccepted (fst (record_relay_accepted m r' a now)))) (snd (record_relay_accepted m r' a now))"
proof -
  obtain x m' where x: "record_relay_accepted m r' a now = (x, m')" by (rule prod.exhaust)
  show ?thesis
    using accepted_state [of m r' a now] assms by (cases x) (auto simp: x counts_row_def)
qed

lemma row_call:
  assumes ok: "relay_ok m" and c: "counts_row r n m"
  shows "counts_row r (row_after r n op (fst (relay_call m op))) (relay_step m op)"
proof (cases op)
  case (RoAddStatic r' a)
  have "counts_row r n (snd (add_static m r' a))"
    using relay_state_add_static [of m r _ r' a]
    by (intro counts_rowI [OF c]) (auto simp: add_static_def Let_def relay_state_def case_prod_beta split: option.split)
  then show ?thesis by (simp add: RoAddStatic relay_step_def)
next
  case (RoLearn r' a)
  have "counts_row r n (snd (learn_relay m r' a))"
    using relay_state_learn [of m r _ r' a]
    by (intro counts_rowI [OF c]) (auto simp: learn_relay_def Let_def relay_state_def case_prod_beta split: option.split relay_source.split)
  then show ?thesis by (simp add: RoLearn relay_step_def)
next
  case (RoForget r')
  then show ?thesis using c by (simp add: relay_step_def forget_relay_def counts_row_def relay_state_def)
next
  case (RoInbound st)
  let ?m = "m\<lparr>rm_direct_inbound := st\<rparr>"
  have "relay_ok ?m" "counts_row r n ?m" using ok c by (simp_all add: relay_ok_def counts_row_def relay_state_def)
  from row_release [OF this surjective_pairing] show ?thesis
    by (simp add: RoInbound relay_step_def set_direct_inbound_def)
next
  case (RoTick now)
  from row_tick [OF ok c surjective_pairing, of now] show ?thesis by (simp add: RoTick relay_step_def)
next
  case (RoAccepted r' a now)
  then show ?thesis using row_accepted [OF c, of r' a now] by (simp add: relay_step_def)
next
  case (RoFailed r' now j)
  then show ?thesis using row_failed [OF c, of r' now j] by (simp add: relay_step_def)
next
  case (RoNetwork now gate)
  let ?f = "lifted (rcf_retry_min_ms (rm_config m)) now gate"
  have get: "bm_get (rm_candidates (snd (relay_network_added m now gate))) r = map_option (?f r) (bm_get (rm_candidates m) r)"
    unfolding network_added_eq by (rule bm_get_map_entries)
  have "failures_before (rc_state (?f r c)) = failures_before (rc_state c)" for c
    by (cases "rc_state c") (simp_all add: lifted_def)
  from counts_row_map [OF c get this] have "counts_row r n (snd (relay_network_added m now gate))" .
  then show ?thesis by (simp add: RoNetwork relay_step_def)
qed

lemma row_run:
  "relay_ok m \<Longrightarrow> counts_row r n m \<Longrightarrow> counts_row r (failures_in_row r n m ops) (foldl relay_step m ops)"
proof (induction ops arbitrary: m n)
  case (Cons op ops)
  from Cons.IH [OF relay_calls.inv_step [OF Cons.prems(1)] row_call [OF Cons.prems]] show ?case by simp
qed simp



section \<open>What a tick settles\<close>

lemma release_surplus_idle: "relay_active m \<le> relay_target m \<Longrightarrow> release_surplus m = ([], m)"
  by (simp add: release_surplus_def)

lemma tick_settled:
  assumes ok: "relay_ok m" and t: "relay_tick m now = (actions, m')"
  shows "relay_target m' \<le> relay_active m' + relay_requested m' \<or> askable m' now = []"
proof (rule relay_tick_facts [OF ok t])
  fix m1 reserved freed
  let ?rs = "take (relay_target m - (relay_active m + relay_requested m)) (askable m now)"
  assume rel: "release_surplus m1 = (freed, m')" and ok1: "relay_ok m1" and tgt: "relay_target m1 = relay_target m"
    and get: "\<And>x. bm_get (rm_candidates m1) x = map_option (\<lambda>c. if x \<in> set ?rs then asked now c else c) (bm_get (rm_candidates m) x)"
    and held: "in_state is_held m1 = in_state is_held m \<union> set ?rs" and act: "in_state is_active m1 = in_state is_active m"
    and d: "distinct ?rs" and sub: "set ?rs \<subseteq> in_state (may_ask now) m"
  note i = relay_okD(1) [OF ok] and i1 = relay_okD(1) [OF ok1]
  have active: "relay_active m1 = relay_active m" by (simp only: relay_counts(2) [OF i] relay_counts(2) [OF i1] act)
  show ?thesis
  proof (cases "relay_target m \<le> relay_active m")
    case True
    then show ?thesis using release_surplus_facts(2,9) [OF ok1 rel] active tgt by simp
  next
    case False
    then have m': "m' = m1" using rel release_surplus_idle [of m1] active tgt by simp
    have "in_state is_held m \<inter> set ?rs = {}" using sub by (auto simp: having_def elim!: may_ask.elims)
    then have "card (in_state is_held m1) = card (in_state is_held m) + length ?rs"
      unfolding held using d finite_having [OF i] by (simp add: card_Un_disjoint distinct_card)
    then have n: "relay_active m1 + relay_requested m1 = relay_active m + relay_requested m + length ?rs"
      by (simp only: relay_counts(4) [OF i] relay_counts(4) [OF i1])
    show ?thesis
    proof (cases "relay_target m \<le> relay_active m1 + relay_requested m1")
      case True
      then show ?thesis by (simp add: m' tgt)
    next
      case False
      then have "?rs = askable m now" using n by simp
      then have all: "set ?rs = in_state (may_ask now) m" using askable_facts(1) [OF i] by simp
      have "in_state (may_ask now) m1 = {}"
        unfolding having_pointwise [OF get] all by (auto simp: having_def asked_def)
      then show ?thesis using askable_facts(1) [OF i1, of now] by (simp add: m')
    qed
  qed
qed

lemma tick_idle:
  assumes "relay_active m \<le> relay_target m"
    and "relay_target m \<le> relay_active m + relay_requested m \<or> askable m now = []"
  shows "relay_tick m now = ([], m)"
proof -
  have "take (relay_target m - (relay_active m + relay_requested m)) (askable m now) = []" using assms(2) by auto
  from this show ?thesis unfolding relay_tick_def Let_def by (simp only: ask_relays.simps prod.case release_surplus_idle [OF assms(1)] append.simps)
qed

lemma tick_choices:
  assumes ok: "relay_ok m" and t: "relay_tick m now = (actions, m')"
  shows "\<lbrakk>Reserve r as \<in> set actions; r \<in> sourced SourceLearned m; r' \<in> sourced SourceStatic m; r' \<in> in_state (may_ask now) m\<rbrakk>
      \<Longrightarrow> \<exists>as'. Reserve r' as' \<in> set actions"
    and "\<lbrakk>Release r as \<in> set actions; r' \<in> in_state is_active m'; bm_get (rm_candidates m) r = Some c; bm_get (rm_candidates m) r' = Some c'\<rbrakk>
      \<Longrightarrow> rc_source c' < rc_source c \<or> rc_source c' = rc_source c \<and> active_since (rc_state c') \<le> active_since (rc_state c)"
proof (rule_tac [!] relay_tick_facts [OF ok t])
  fix m1 reserved freed
  let ?rs = "take (relay_target m - (relay_active m + relay_requested m)) (askable m now)"
  assume rel: "release_surplus m1 = (freed, m')" and acts: "actions = reserved @ freed" and ok1: "relay_ok m1"
    and get: "\<And>x. bm_get (rm_candidates m1) x = map_option (\<lambda>c. if x \<in> set ?rs then asked now c else c) (bm_get (rm_candidates m) x)"
    and res: "reserved = map (\<lambda>r. Reserve r (rc_addresses (the (bm_get (rm_candidates m) r)))) ?rs"
    and act: "in_state is_active m1 = in_state is_active m" and sub: "set ?rs \<subseteq> in_state (may_ask now) m"
  note f = release_surplus_facts [OF ok1 rel]
  {
    assume a: "Reserve r as \<in> set actions" "r \<in> sourced SourceLearned m" "r' \<in> sourced SourceStatic m" "r' \<in> in_state (may_ask now) m"
    have "r \<in> set ?rs" using a(1) by (auto simp: acts res f(5))
    from askable_static_first [OF relay_okD(1) [OF ok] this a(2,4,3)] show "\<exists>as'. Reserve r' as' \<in> set actions"
      by (auto simp: acts res)
  next
    assume a: "Release r as \<in> set actions" "r' \<in> in_state is_active m'"
      and c: "bm_get (rm_candidates m) r = Some c" "bm_get (rm_candidates m) r' = Some c'"
    have r: "r \<in> set (take (relay_active m1 - relay_target m1) (release_order m1))"
      using a(1) by (auto simp: acts res f(5))
    have r': "r' \<in> in_state is_active m1" "r' \<notin> set (take (relay_active m1 - relay_target m1) (release_order m1))"
      using a(2) f(7) by auto
    have "x \<notin> set ?rs" if "x \<in> in_state is_active m1" for x
    proof -
      have "x \<in> in_state is_active m" using that by (simp only: act)
      then show ?thesis using sub by (auto simp: having_def elim!: is_active.elims)
    qed
    then have "bm_get (rm_candidates m1) r = Some c" "bm_get (rm_candidates m1) r' = Some c'"
      using c r r'(1) f(11) by (auto simp: get)
    from release_order_prefix [OF relay_okD(1) [OF ok1] r r' this]
    show "rc_source c' < rc_source c \<or> rc_source c' = rc_source c \<and> active_since (rc_state c') \<le> active_since (rc_state c)" .
  }
qed

text \<open>C19. 
  A tick settles the policy in one step.  Afterwards the reservations held or asked for reach the target,
  or no candidate is left that may be asked; a learned relay is asked only when every static one that may be asked
  is asked too; a reservation is given up only when those kept are of a preferred source or no younger of the
  same source; and a second tick at the same moment does nothing.
\<close>

theorem relay_tick_settles:
  assumes "reservation_manager_new config = Ok m0" and "m = foldl relay_step m0 ops"
    and "relay_tick m now = (actions, m')"
  shows "(relay_target m' \<le> relay_active m' + relay_requested m' \<or> askable m' now = [])
    \<and> relay_tick m' now = ([], m')
    \<and> (\<forall>r as r'. Reserve r as \<in> set actions \<and> r \<in> sourced SourceLearned m \<and> r' \<in> sourced SourceStatic m
        \<and> r' \<in> in_state (may_ask now) m \<longrightarrow> (\<exists>as'. Reserve r' as' \<in> set actions))
    \<and> (\<forall>r as r' c c'. Release r as \<in> set actions \<and> r' \<in> in_state is_active m'
        \<and> bm_get (rm_candidates m) r = Some c \<and> bm_get (rm_candidates m) r' = Some c'
        \<longrightarrow> rc_source c' < rc_source c \<or> rc_source c' = rc_source c \<and> active_since (rc_state c') \<le> active_since (rc_state c))"
proof -
  note ok = relay_run(1) [OF assms(1,2)]
  note settled = tick_settled [OF ok assms(3)]
  have "relay_active m' \<le> relay_target m'" using relay_tick_active [OF ok, of now] assms(3) by simp
  from tick_idle [OF this settled] settled tick_choices [OF ok assms(3)] show ?thesis by blast
qed

theorem relay_tick_settles_witness:
  "relay_tick (snd (relay_tick (foldl relay_step sample_relay_manager sample_relay_ops) 99)) 99 =
    ([], snd (relay_tick (foldl relay_step sample_relay_manager sample_relay_ops) 99))"
  using relay_tick_settles [OF sample_relay_new refl surjective_pairing] by blast

end
