(* ===== verification/Preauth.thy ===== *)
theory Preauth
  imports Prelude "HOL-Library.Code_Target_Nat"
begin

text \<open>
  Bounds on work for a peer that has not authenticated: the gate of
  \<open>crates/transport/runtime/src/preauth.rs\<close>.  The gate accounts handshakes by the bucket of their
  source and reads no clock.  The text forms of addresses are the standard library's; what the gate
  uses of them is the argument \<open>net\<close>: the address of a text taken as a socket address or as a bare
  address, and the text of an address.
\<close>

section \<open>Buckets\<close>

text \<open>An address is its octets: four of them, or sixteen.\<close>

datatype ip_addr = IpV4 bytes | IpV6 bytes

record ip_text =
  socket_ip :: "bytes \<Rightarrow> ip_addr option"
  bare_ip :: "bytes \<Rightarrow> ip_addr option"
  show_v4 :: "bytes \<Rightarrow> bytes"
  show_v6 :: "bytes \<Rightarrow> bytes"

text \<open>\<open>Ipv6Addr::to_ipv4_mapped\<close>: the address embedded behind the prefix \<open>::ffff:0:0/96\<close>.\<close>

definition to_ipv4_mapped :: "bytes \<Rightarrow> bytes option" where
  "to_ipv4_mapped octets =
    (if take 12 octets = replicate 10 0 @ [0xFF, 0xFF] then Some (drop 12 octets) else None)"

definition source_bucket :: "ip_text \<Rightarrow> bytes \<Rightarrow> bytes" where
  "source_bucket net source =
    (case (case socket_ip net source of Some ip \<Rightarrow> Some ip | None \<Rightarrow> bare_ip net source) of
       None \<Rightarrow> source
     | Some ip \<Rightarrow>
         let ip = (case ip of
               IpV6 v6 \<Rightarrow> (case to_ipv4_mapped v6 of Some v4 \<Rightarrow> IpV4 v4 | None \<Rightarrow> IpV6 v6)
             | IpV4 v4 \<Rightarrow> IpV4 v4)
         in (case ip of
               IpV4 v4 \<Rightarrow> show_v4 net v4
             | IpV6 v6 \<Rightarrow> show_v6 net (take 8 v6 @ replicate 8 0) @ [47, 54, 52]))"

section \<open>Limits\<close>

definition MAX_SOURCE_BYTES :: nat where "MAX_SOURCE_BYTES = 128"
definition MAX_CONFIGURED_LIMIT :: nat where "MAX_CONFIGURED_LIMIT = 65536"
definition MAX_CONFIGURED_ATTEMPTS :: nat where "MAX_CONFIGURED_ATTEMPTS = 60000"
definition MAX_CONFIGURED_DURATION_MS :: nat where "MAX_CONFIGURED_DURATION_MS = 3600000"

text \<open>The limits of the gate; the builder has the same fields, unchecked.\<close>

record preauth_limits =
  pl_max_pending_total :: nat
  pl_max_pending_per_source :: nat
  pl_handshake_timeout_ms :: nat
  pl_max_sources :: nat
  pl_rate_window_ms :: nat
  pl_max_attempts_per_window :: nat
  pl_max_global_attempts_per_window :: nat

definition preauth_limits_default :: preauth_limits where
  "preauth_limits_default =
    \<lparr>pl_max_pending_total = 64, pl_max_pending_per_source = 8, pl_handshake_timeout_ms = 10000,
     pl_max_sources = 256, pl_rate_window_ms = 60000, pl_max_attempts_per_window = 30,
     pl_max_global_attempts_per_window = 600\<rparr>"

datatype invalid_preauth_limits =
    PendingTotalOutOfRange
  | PendingPerSourceOutOfRange
  | SourcesOutOfRange
  | HandshakeTimeoutOutOfRange
  | RateWindowOutOfRange
  | AttemptsPerWindowOutOfRange
  | GlobalAttemptsPerWindowOutOfRange
  | PerSourcePendingExceedsTotal
  | PerSourceAttemptsExceedGlobal

definition build_limits :: "preauth_limits \<Rightarrow> invalid_preauth_limits + preauth_limits" where
  "build_limits b =
    (if pl_max_pending_total b = 0 \<or> pl_max_pending_total b > MAX_CONFIGURED_LIMIT then Err PendingTotalOutOfRange
     else if pl_max_pending_per_source b = 0 \<or> pl_max_pending_per_source b > MAX_CONFIGURED_LIMIT
     then Err PendingPerSourceOutOfRange
     else if pl_max_sources b = 0 \<or> pl_max_sources b > MAX_CONFIGURED_LIMIT then Err SourcesOutOfRange
     else if pl_handshake_timeout_ms b = 0 \<or> pl_handshake_timeout_ms b > MAX_CONFIGURED_DURATION_MS
     then Err HandshakeTimeoutOutOfRange
     else if pl_rate_window_ms b = 0 \<or> pl_rate_window_ms b > MAX_CONFIGURED_DURATION_MS then Err RateWindowOutOfRange
     else if pl_max_attempts_per_window b = 0 \<or> pl_max_attempts_per_window b > MAX_CONFIGURED_ATTEMPTS
     then Err AttemptsPerWindowOutOfRange
     else if pl_max_global_attempts_per_window b = 0 \<or> pl_max_global_attempts_per_window b > MAX_CONFIGURED_ATTEMPTS
     then Err GlobalAttemptsPerWindowOutOfRange
     else if pl_max_pending_per_source b > pl_max_pending_total b then Err PerSourcePendingExceedsTotal
     else if pl_max_attempts_per_window b > pl_max_global_attempts_per_window b then Err PerSourceAttemptsExceedGlobal
     else Ok b)"

section \<open>The gate\<close>

datatype preauth_denial =
    PdTooManyPending
  | PdTooManyFromSource
  | PdRateLimited
  | PdGloballyRateLimited
  | PdSourceNotAccountable
  | PdNoAccountingCapacity
  | PdShuttingDown

record handshake_slot =
  hs_source :: bytes
  hs_id :: nat
  hs_started_at_ms :: nat

record source_state =
  ss_pending :: "(nat, nat) bmap"
  ss_window_start_ms :: nat
  ss_attempts_in_window :: nat
  ss_last_touched_ms :: nat

definition source_state_default :: source_state where
  "source_state_default =
    \<lparr>ss_pending = [], ss_window_start_ms = 0, ss_attempts_in_window = 0, ss_last_touched_ms = 0\<rparr>"

definition is_live_at :: "source_state \<Rightarrow> nat \<Rightarrow> nat \<Rightarrow> bool" where
  "is_live_at s now_ms window_ms \<longleftrightarrow> ss_pending s \<noteq> [] \<or> now_ms < sat_add64 (ss_window_start_ms s) window_ms"

record preauth_gate =
  pg_limits :: preauth_limits
  pg_sources :: "(bytes, source_state) bmap"
  pg_pending_total :: nat
  pg_next_id :: nat
  pg_global_window_start_ms :: nat
  pg_global_attempts_in_window :: nat
  pg_shutting_down :: bool

definition preauth_gate_new :: "preauth_limits \<Rightarrow> preauth_gate" where
  "preauth_gate_new limits =
    \<lparr>pg_limits = limits, pg_sources = [], pg_pending_total = 0, pg_next_id = 0,
     pg_global_window_start_ms = 0, pg_global_attempts_in_window = 0, pg_shutting_down = False\<rparr>"

definition make_room_for_source :: "preauth_gate \<Rightarrow> nat \<Rightarrow> bool \<times> preauth_gate" where
  "make_room_for_source g now_ms =
    (if length (pg_sources g) < pl_max_sources (pg_limits g) then (True, g)
     else
       let window_ms = pl_rate_window_ms (pg_limits g);
           victim = min_by_key (\<lambda>e. ss_last_touched_ms (snd e))
             (filter (\<lambda>e. \<not> is_live_at (snd e) now_ms window_ms) (pg_sources g))
       in (case victim of
             Some e \<Rightarrow> (True, g\<lparr>pg_sources := bm_remove (fst e) (pg_sources g)\<rparr>)
           | None \<Rightarrow> (False, g)))"

text \<open>A window that has elapsed starts again; one that has not is counted into.\<close>

definition roll_window :: "nat \<Rightarrow> nat \<Rightarrow> nat \<times> nat \<Rightarrow> nat \<times> nat" where
  "roll_window window_ms now_ms w =
    (if now_ms \<ge> sat_add64 (fst w) window_ms then (now_ms, 0) else w)"

definition roll_global :: "nat \<Rightarrow> preauth_gate \<Rightarrow> preauth_gate" where
  "roll_global now_ms g =
    (let (start, attempts) = roll_window (pl_rate_window_ms (pg_limits g)) now_ms
           (pg_global_window_start_ms g, pg_global_attempts_in_window g)
     in g\<lparr>pg_global_window_start_ms := start, pg_global_attempts_in_window := attempts\<rparr>)"

definition roll_source :: "nat \<Rightarrow> nat \<Rightarrow> source_state \<Rightarrow> source_state" where
  "roll_source window_ms now_ms s =
    (let (start, attempts) = roll_window window_ms now_ms (ss_window_start_ms s, ss_attempts_in_window s)
     in s\<lparr>ss_window_start_ms := start, ss_attempts_in_window := attempts\<rparr>)"

text \<open>The handshake is charged to its bucket and to the whole.\<close>

definition start_handshake :: "preauth_gate \<Rightarrow> bytes \<Rightarrow> source_state \<Rightarrow> nat \<Rightarrow> handshake_slot \<times> preauth_gate" where
  "start_handshake g source state now_ms =
    (let id = pg_next_id g;
         state = state\<lparr>ss_attempts_in_window := sat_add32 (ss_attempts_in_window state) 1, ss_last_touched_ms := now_ms,
                  ss_pending := bm_insert id now_ms (ss_pending state)\<rparr>
     in (\<lparr>hs_source = source, hs_id = id, hs_started_at_ms = now_ms\<rparr>,
         g\<lparr>pg_sources := bm_insert source state (pg_sources g),
           pg_global_attempts_in_window := sat_add32 (pg_global_attempts_in_window g) 1,
           pg_next_id := sat_add64 id 1,
           pg_pending_total := sat_add64 (pg_pending_total g) 1\<rparr>))"

definition preauth_admit ::
  "ip_text \<Rightarrow> preauth_gate \<Rightarrow> bytes \<Rightarrow> nat \<Rightarrow> (preauth_denial + handshake_slot) \<times> preauth_gate" where
  "preauth_admit net g source now_ms =
    (if pg_shutting_down g then (Err PdShuttingDown, g)
     else
       let source = source_bucket net source in
       if source = [] \<or> length source > MAX_SOURCE_BYTES then (Err PdSourceNotAccountable, g)
       else if pg_pending_total g \<ge> pl_max_pending_total (pg_limits g) then (Err PdTooManyPending, g)
       else
         let g = roll_global now_ms g in
         if pg_global_attempts_in_window g \<ge> pl_max_global_attempts_per_window (pg_limits g)
         then (Err PdGloballyRateLimited, g)
         else
           let (room, g) = (if bm_has (pg_sources g) source then (True, g) else make_room_for_source g now_ms) in
           if \<not> room then (Err PdNoAccountingCapacity, g)
           else
             let state = (case bm_get (pg_sources g) source of Some s \<Rightarrow> s | None \<Rightarrow> source_state_default);
                 g = g\<lparr>pg_sources := bm_insert source state (pg_sources g)\<rparr> in
             if length (ss_pending state) \<ge> pl_max_pending_per_source (pg_limits g) then (Err PdTooManyFromSource, g)
             else
               let state = roll_source (pl_rate_window_ms (pg_limits g)) now_ms state;
                   g = g\<lparr>pg_sources := bm_insert source state (pg_sources g)\<rparr> in
               if ss_attempts_in_window state \<ge> pl_max_attempts_per_window (pg_limits g) then (Err PdRateLimited, g)
               else
                 let (slot, g) = start_handshake g source state now_ms in (Ok slot, g))"

definition handshake_completed :: "preauth_gate \<Rightarrow> handshake_slot \<Rightarrow> preauth_gate" where
  "handshake_completed g slot =
    (case bm_get (pg_sources g) (hs_source slot) of
       None \<Rightarrow> g
     | Some state \<Rightarrow>
         if bm_has (ss_pending state) (hs_id slot)
         then g\<lparr>pg_sources := bm_insert (hs_source slot)
                  (state\<lparr>ss_pending := bm_remove (hs_id slot) (ss_pending state)\<rparr>) (pg_sources g),
                pg_pending_total := pg_pending_total g - 1\<rparr>
         else g)"

section \<open>What an admission charges\<close>

text \<open>
  What the gate holds against a bucket at a moment, apart from how it stores it: the starts counted in
  the window that is live then, and the handshakes in flight.
\<close>

definition bucket_view :: "preauth_gate \<Rightarrow> nat \<Rightarrow> bytes \<Rightarrow> nat \<times> (nat, nat) bmap" where
  "bucket_view g now b =
    (case bm_get (pg_sources g) b of
       None \<Rightarrow> (0, [])
     | Some s \<Rightarrow> (snd (roll_window (pl_rate_window_ms (pg_limits g)) now (ss_window_start_ms s, ss_attempts_in_window s)),
         ss_pending s))"

definition global_spent :: "preauth_gate \<Rightarrow> nat \<Rightarrow> nat" where
  "global_spent g now =
    snd (roll_window (pl_rate_window_ms (pg_limits g)) now (pg_global_window_start_ms g, pg_global_attempts_in_window g))"

abbreviation live_bucket :: "preauth_gate \<Rightarrow> nat \<Rightarrow> bytes \<Rightarrow> bool" where
  "live_bucket g now b \<equiv> \<exists>s. bm_get (pg_sources g) b = Some s \<and> is_live_at s now (pl_rate_window_ms (pg_limits g))"

definition has_room :: "preauth_gate \<Rightarrow> nat \<Rightarrow> bytes \<Rightarrow> bool" where
  "has_room g now b \<longleftrightarrow> bm_has (pg_sources g) b \<or> length (pg_sources g) < pl_max_sources (pg_limits g)
    \<or> (\<exists>e \<in> set (pg_sources g). \<not> is_live_at (snd e) now (pl_rate_window_ms (pg_limits g)))"

text \<open>Two gates that hold the same at a moment, where no live bucket of the first is changed but \<open>b\<close>.\<close>

definition same_account :: "nat \<Rightarrow> bytes \<Rightarrow> preauth_gate \<Rightarrow> preauth_gate \<Rightarrow> bool" where
  "same_account now b g g' \<longleftrightarrow>
     bucket_view g' now = bucket_view g now \<and> global_spent g' now = global_spent g now
   \<and> pg_pending_total g' = pg_pending_total g \<and> pg_next_id g' = pg_next_id g \<and> pg_limits g' = pg_limits g
   \<and> (\<forall>b'. b' \<noteq> b \<and> live_bucket g now b' \<longrightarrow> bm_get (pg_sources g') b' = bm_get (pg_sources g) b')"

lemma same_account_refl: "same_account now b g g"
  by (simp add: same_account_def)

lemma same_account_trans:
  assumes "same_account now b g g1" "same_account now b g1 g2"
  shows "same_account now b g g2"
  using assms unfolding same_account_def by auto

lemma roll_again:
  assumes "now < U64_MAX" "0 < w"
  shows "roll_window w now (roll_window w now x) = roll_window w now x"
  using assms by (auto simp: roll_window_def sat_add64_def)

lemma roll_source_simps [simp]:
  "ss_pending (roll_source w now s) = ss_pending s"
  "(ss_window_start_ms (roll_source w now s), ss_attempts_in_window (roll_source w now s)) =
    roll_window w now (ss_window_start_ms s, ss_attempts_in_window s)"
  "ss_attempts_in_window (roll_source w now s) = snd (roll_window w now (ss_window_start_ms s, ss_attempts_in_window s))"
  "ss_window_start_ms (roll_source w now s) = fst (roll_window w now (ss_window_start_ms s, ss_attempts_in_window s))"
  by (simp_all add: roll_source_def case_prod_beta)

lemma roll_global_simps [simp]:
  "pg_limits (roll_global now g) = pg_limits g" "pg_sources (roll_global now g) = pg_sources g"
  "pg_pending_total (roll_global now g) = pg_pending_total g" "pg_next_id (roll_global now g) = pg_next_id g"
  "pg_shutting_down (roll_global now g) = pg_shutting_down g"
  "(pg_global_window_start_ms (roll_global now g), pg_global_attempts_in_window (roll_global now g)) =
    roll_window (pl_rate_window_ms (pg_limits g)) now (pg_global_window_start_ms g, pg_global_attempts_in_window g)"
  "pg_global_attempts_in_window (roll_global now g) = global_spent g now"
  by (simp_all add: roll_global_def global_spent_def case_prod_beta)

lemma same_account_roll_global:
  assumes "now < U64_MAX" "0 < pl_rate_window_ms (pg_limits g)"
  shows "same_account now b g (roll_global now g)"
proof -
  have "global_spent (roll_global now g) now = global_spent g now"
    unfolding global_spent_def roll_global_simps(1,6) by (simp add: roll_again [OF assms])
  then show ?thesis by (simp add: same_account_def bucket_view_def fun_eq_iff split: option.split)
qed

lemma dead_view:
  assumes "bm_get (pg_sources g) b = Some s" "\<not> is_live_at s now (pl_rate_window_ms (pg_limits g))"
  shows "bucket_view g now b = (0, [])"
  using assms by (auto simp: bucket_view_def is_live_at_def roll_window_def)

lemma source_room_cases:
  assumes ok: "bm_ok (pg_sources g)" and m: "make_room_for_source g now = (room, g')"
  obtains (full) "\<not> room" "g' = g" "\<And>b. \<not> bm_has (pg_sources g) b \<Longrightarrow> \<not> has_room g now b"
  | (free) "room" "g' = g" "length (pg_sources g) < pl_max_sources (pg_limits g)"
  | (evicted) k s where "room" "bm_get (pg_sources g) k = Some s" "\<not> is_live_at s now (pl_rate_window_ms (pg_limits g))"
      "g' = g\<lparr>pg_sources := bm_remove k (pg_sources g)\<rparr>"
proof (cases "length (pg_sources g) < pl_max_sources (pg_limits g)")
  case True
  then show ?thesis using that(2) m by (simp add: make_room_for_source_def)
next
  case False
  let ?d = "filter (\<lambda>e. \<not> is_live_at (snd e) now (pl_rate_window_ms (pg_limits g))) (pg_sources g)"
  show ?thesis
  proof (cases "min_by_key (\<lambda>e. ss_last_touched_ms (snd e)) ?d")
    case None
    then have "?d = []" by simp
    then have "\<forall>e \<in> set (pg_sources g). is_live_at (snd e) now (pl_rate_window_ms (pg_limits g))" by (auto simp: filter_empty_conv)
    then show ?thesis using that(1) m False None by (auto simp: make_room_for_source_def has_room_def)
  next
    case (Some e)
    then have "e \<in> set ?d" by (blast dest: min_by_key_Some)
    then have "bm_get (pg_sources g) (fst e) = Some (snd e)" "\<not> is_live_at (snd e) now (pl_rate_window_ms (pg_limits g))"
      using bm_get_in_set [OF ok, of "fst e" "snd e"] by auto
    then show ?thesis using that(3) m False Some by (simp add: make_room_for_source_def)
  qed
qed

lemma same_account_evict:
  assumes "bm_get (pg_sources g) k = Some s" "\<not> is_live_at s now (pl_rate_window_ms (pg_limits g))"
  shows "same_account now b g (g\<lparr>pg_sources := bm_remove k (pg_sources g)\<rparr>)"
proof -
  have "bucket_view (g\<lparr>pg_sources := bm_remove k (pg_sources g)\<rparr>) now x = bucket_view g now x" for x
    using dead_view [OF assms] by (cases "x = k") (simp_all add: bucket_view_def split: option.split)
  then show ?thesis using assms by (auto simp: same_account_def global_spent_def)
qed

lemma same_account_write:
  assumes "now < U64_MAX" "0 < pl_rate_window_ms (pg_limits g)"
    and "s \<in> {t, roll_source (pl_rate_window_ms (pg_limits g)) now t}"
    and "t = (case bm_get (pg_sources g) b of Some s \<Rightarrow> s | None \<Rightarrow> source_state_default)"
  shows "same_account now b g (g\<lparr>pg_sources := bm_insert b s (pg_sources g)\<rparr>)"
proof -
  have "bucket_view (g\<lparr>pg_sources := bm_insert b s (pg_sources g)\<rparr>) now x = bucket_view g now x" for x
    using assms(3,4) roll_again [OF assms(1,2)]
    by (auto simp: bucket_view_def source_state_default_def roll_window_def split: option.split)
  then show ?thesis by (auto simp: same_account_def global_spent_def)
qed

lemma roll_live:
  assumes "now < U64_MAX" "0 < w"
  shows "now < sat_add64 (fst (roll_window w now x)) w"
  using assms by (auto simp: roll_window_def sat_add64_def)

text \<open>The handshake taken on, where the windows have just been rolled: one more start, one more in flight.\<close>

lemma started:
  assumes "now < U64_MAX" "0 < w" "w = pl_rate_window_ms (pg_limits g)"
    and "s = roll_source w now t" "ss_attempts_in_window s < U32_MAX" "global_spent g now < U32_MAX"
    and "pg_global_window_start_ms g = fst (roll_window w now x)"
    and "start_handshake g b s now = (slot, g')"
  shows "bucket_view g' now b = (ss_attempts_in_window s + 1, bm_insert (pg_next_id g) now (ss_pending s))"
    "b' \<noteq> b \<Longrightarrow> bucket_view g' now b' = bucket_view g now b'"
    "global_spent g' now = global_spent g now + 1"
    "slot = \<lparr>hs_source = b, hs_id = pg_next_id g, hs_started_at_ms = now\<rparr>"
    "pg_limits g' = pg_limits g" "pg_pending_total g' = sat_add64 (pg_pending_total g) 1" "pg_next_id g' = sat_add64 (pg_next_id g) 1"
    "b' \<noteq> b \<Longrightarrow> bm_get (pg_sources g') b' = bm_get (pg_sources g) b'" "pg_shutting_down g' = pg_shutting_down g"
proof -
  note l = roll_live [OF assms(1,2)]
  have g: "pg_global_attempts_in_window g = global_spent g now"
    using l [of x] assms(3,7) by (simp add: global_spent_def roll_window_def)
  have live: "now < sat_add64 (ss_window_start_ms s) w" using l [of "(ss_window_start_ms t, ss_attempts_in_window t)"] assms(4) by simp
  have e: "slot = \<lparr>hs_source = b, hs_id = pg_next_id g, hs_started_at_ms = now\<rparr>"
    "g' = g\<lparr>pg_sources := bm_insert b (s\<lparr>ss_attempts_in_window := ss_attempts_in_window s + 1, ss_last_touched_ms := now,
        ss_pending := bm_insert (pg_next_id g) now (ss_pending s)\<rparr>) (pg_sources g),
      pg_global_attempts_in_window := global_spent g now + 1, pg_next_id := sat_add64 (pg_next_id g) 1,
      pg_pending_total := sat_add64 (pg_pending_total g) 1\<rparr>"
    using assms(5,6,8) g by (auto simp: start_handshake_def Let_def sat_add32_def)
  show "bucket_view g' now b = (ss_attempts_in_window s + 1, bm_insert (pg_next_id g) now (ss_pending s))"
    using live assms(3) by (simp add: e bucket_view_def roll_window_def)
  show "global_spent g' now = global_spent g now + 1"
    using l [of x] assms(3,7) by (simp add: e global_spent_def roll_window_def)
  show "b' \<noteq> b \<Longrightarrow> bucket_view g' now b' = bucket_view g now b'" by (simp add: e bucket_view_def split: option.split)
  show "slot = \<lparr>hs_source = b, hs_id = pg_next_id g, hs_started_at_ms = now\<rparr>"
    "pg_limits g' = pg_limits g" "pg_pending_total g' = sat_add64 (pg_pending_total g) 1" "pg_next_id g' = sat_add64 (pg_next_id g) 1"
    "b' \<noteq> b \<Longrightarrow> bm_get (pg_sources g') b' = bm_get (pg_sources g) b'" "pg_shutting_down g' = pg_shutting_down g"
    by (simp_all add: e)
qed

text \<open>Limits that passed the builder, and the gate's own invariant.\<close>

definition limits_ok :: "preauth_limits \<Rightarrow> bool" where
  "limits_ok l \<longleftrightarrow>
     0 < pl_max_pending_total l \<and> pl_max_pending_total l \<le> MAX_CONFIGURED_LIMIT
   \<and> 0 < pl_max_pending_per_source l \<and> 0 < pl_max_sources l \<and> pl_max_sources l \<le> MAX_CONFIGURED_LIMIT
   \<and> 0 < pl_rate_window_ms l
   \<and> 0 < pl_max_attempts_per_window l \<and> pl_max_attempts_per_window l \<le> MAX_CONFIGURED_ATTEMPTS
   \<and> 0 < pl_max_global_attempts_per_window l \<and> pl_max_global_attempts_per_window l \<le> MAX_CONFIGURED_ATTEMPTS"

lemma build_limits_ok: "build_limits b = Ok l \<Longrightarrow> limits_ok l \<and> l = b"
  by (auto simp: build_limits_def limits_ok_def split: if_splits)

definition source_ok :: "preauth_limits \<Rightarrow> nat \<Rightarrow> source_state \<Rightarrow> bool" where
  "source_ok l next s \<longleftrightarrow>
     bm_ok (ss_pending s) \<and> length (ss_pending s) \<le> pl_max_pending_per_source l
   \<and> (\<forall>i \<in> fst ` set (ss_pending s). i < next) \<and> ss_attempts_in_window s \<le> pl_max_attempts_per_window l"

definition gate_ok :: "preauth_gate \<Rightarrow> bool" where
  "gate_ok g \<longleftrightarrow>
     limits_ok (pg_limits g) \<and> bm_ok (pg_sources g) \<and> length (pg_sources g) \<le> pl_max_sources (pg_limits g)
   \<and> (\<forall>b s. bm_get (pg_sources g) b = Some s \<longrightarrow> source_ok (pg_limits g) (pg_next_id g) s)
   \<and> pg_pending_total g = bm_sum (\<lambda>_ s. length (ss_pending s)) (pg_sources g)
   \<and> pg_pending_total g \<le> pl_max_pending_total (pg_limits g)
   \<and> pg_global_attempts_in_window g \<le> pl_max_global_attempts_per_window (pg_limits g)"

lemma gate_okD:
  assumes "gate_ok g"
  shows "limits_ok (pg_limits g)" "bm_ok (pg_sources g)" "length (pg_sources g) \<le> pl_max_sources (pg_limits g)"
    "bm_get (pg_sources g) b = Some s \<Longrightarrow> source_ok (pg_limits g) (pg_next_id g) s"
    "pg_pending_total g = bm_sum (\<lambda>_ s. length (ss_pending s)) (pg_sources g)"
    "pg_pending_total g \<le> pl_max_pending_total (pg_limits g)"
    "pg_global_attempts_in_window g \<le> pl_max_global_attempts_per_window (pg_limits g)"
  using assms by (simp_all add: gate_ok_def)

lemma gate_new_ok: "build_limits b = Ok l \<Longrightarrow> gate_ok (preauth_gate_new l)"
  using build_limits_ok [of b l] by (auto simp: gate_ok_def preauth_gate_new_def)

lemma gate_evict_ok:
  assumes ok: "gate_ok g" and s: "bm_get (pg_sources g) k = Some s" "\<not> is_live_at s now (pl_rate_window_ms (pg_limits g))"
  shows "gate_ok (g\<lparr>pg_sources := bm_remove k (pg_sources g)\<rparr>)"
proof -
  note i = gate_okD [OF ok]
  have "length (ss_pending s) = 0" using s(2) by (simp add: is_live_at_def)
  then have "bm_sum (\<lambda>_ s. length (ss_pending s)) (bm_remove k (pg_sources g)) = pg_pending_total g"
    using bm_sum_remove [OF i(2) s(1), of "\<lambda>_ s. length (ss_pending s)"] i(5) by simp
  then show ?thesis using i length_bm_remove_le [of k "pg_sources g"] by (auto simp: gate_ok_def)
qed

text \<open>Writing one bucket, which accounts for what it holds more or less than before.\<close>

lemma gate_write_ok:
  assumes ok: "gate_ok g" and s: "source_ok (pg_limits g) (pg_next_id g') s"
    and room: "bm_has (pg_sources g) b \<or> length (pg_sources g) < pl_max_sources (pg_limits g)"
    and g': "pg_limits g' = pg_limits g" "pg_sources g' = bm_insert b s (pg_sources g)" "pg_next_id g \<le> pg_next_id g'"
      "pg_pending_total g' + length (snd (bucket_view g now b)) = pg_pending_total g + length (ss_pending s)"
      "pg_pending_total g' \<le> pl_max_pending_total (pg_limits g)"
      "pg_global_attempts_in_window g' \<le> pl_max_global_attempts_per_window (pg_limits g)"
  shows "gate_ok g'"
proof -
  note i = gate_okD [OF ok]
  let ?n = "\<lambda>_ s. length (ss_pending s)"
  have "bm_sum ?n (pg_sources g) = length (snd (bucket_view g now b)) + bm_sum ?n (bm_remove b (pg_sources g))"
  proof (cases "bm_get (pg_sources g) b")
    case None
    then have "bm_remove b (pg_sources g) = pg_sources g" by (simp add: bm_remove_absent bm_has_def)
    then show ?thesis using None by (simp add: bucket_view_def)
  next
    case (Some t)
    then show ?thesis using bm_sum_remove [OF i(2) Some, of ?n] by (simp add: bucket_view_def)
  qed
  then have "pg_pending_total g' = bm_sum ?n (pg_sources g')"
    using i(5) g'(4) bm_sum_insert [OF i(2), of ?n b s] by (simp add: g'(2))
  moreover have "source_ok (pg_limits g) (pg_next_id g') t" if "bm_get (pg_sources g) x = Some t" for x t
    using i(4) [OF that] g'(3) by (fastforce simp: source_ok_def)
  ultimately show ?thesis
    using i(1-3) s g' room by (auto simp: gate_ok_def length_bm_insert split: if_splits)
qed

lemma gate_roll_ok: "gate_ok g \<Longrightarrow> gate_ok (roll_global now g)"
  by (auto simp: gate_ok_def global_spent_def roll_window_def)

lemma admit_prepared:
  assumes ok: "gate_ok g" and now: "now < U64_MAX"
    and m: "(if bm_has (pg_sources g) b then (True, roll_global now g) else make_room_for_source (roll_global now g) now) = (room, g2)"
  shows "room \<longleftrightarrow> has_room g now b" "same_account now b g g2" "gate_ok g2"
    "room \<Longrightarrow> bm_has (pg_sources g2) b \<or> length (pg_sources g2) < pl_max_sources (pg_limits g2)"
    "pg_global_window_start_ms g2 = fst (roll_window (pl_rate_window_ms (pg_limits g2)) now (pg_global_window_start_ms g, pg_global_attempts_in_window g))"
    "pg_shutting_down g2 = pg_shutting_down g"
proof -
  let ?g = "roll_global now g"
  have w: "0 < pl_rate_window_ms (pg_limits g)" using gate_okD(1) [OF ok] by (simp add: limits_ok_def)
  note acc = same_account_roll_global [where b = b, OF now w]
  note ok1 = gate_roll_ok [OF ok, of now]
  have start: "pg_global_window_start_ms ?g = fst (roll_window (pl_rate_window_ms (pg_limits g)) now (pg_global_window_start_ms g, pg_global_attempts_in_window g))"
    using roll_global_simps(6) [of now g] by (metis fst_conv)
  have all: "(room \<longleftrightarrow> has_room g now b) \<and> same_account now b g g2 \<and> gate_ok g2
      \<and> (room \<longrightarrow> bm_has (pg_sources g2) b \<or> length (pg_sources g2) < pl_max_sources (pg_limits g2))
      \<and> pg_global_window_start_ms g2 = pg_global_window_start_ms ?g \<and> pg_shutting_down g2 = pg_shutting_down g"
  proof (cases "bm_has (pg_sources g) b")
    case True
    then show ?thesis using m acc ok1 by (auto simp: has_room_def)
  next
    case False
    then have mr: "make_room_for_source ?g now = (room, g2)" using m by simp
    from gate_okD(2) [OF ok1] mr show ?thesis
    proof (cases rule: source_room_cases)
      case full
      then show ?thesis using acc ok1 False by (auto simp: has_room_def)
    next
      case free
      then show ?thesis using acc ok1 by (auto simp: has_room_def)
    next
      case (evicted k s)
      have "same_account now b g g2"
        unfolding evicted(4) by (rule same_account_trans [OF acc same_account_evict [OF evicted(2,3)]])
      moreover have "(k, s) \<in> set (pg_sources g)" using evicted(2) by (simp add: map_of_SomeD)
      then have "length (pg_sources g2) < length (pg_sources g)" "has_room g now b"
        using evicted(3) length_bm_remove_less [of k "pg_sources g"] unfolding evicted(4)
        by (force simp: has_room_def)+
      ultimately show ?thesis
        using evicted(1,4) gate_evict_ok [OF ok1 evicted(2,3)] gate_okD(3) [OF ok] by auto
    qed
  qed
  show "room \<longleftrightarrow> has_room g now b" "same_account now b g g2" "gate_ok g2"
    "room \<Longrightarrow> bm_has (pg_sources g2) b \<or> length (pg_sources g2) < pl_max_sources (pg_limits g2)"
    "pg_global_window_start_ms g2 = fst (roll_window (pl_rate_window_ms (pg_limits g2)) now (pg_global_window_start_ms g, pg_global_attempts_in_window g))"
    "pg_shutting_down g2 = pg_shutting_down g"
    using all start by (auto simp: same_account_def)
qed

definition grantable :: "ip_text \<Rightarrow> preauth_gate \<Rightarrow> bytes \<Rightarrow> nat \<Rightarrow> bool" where
  "grantable net g source now \<longleftrightarrow>
    (let b = source_bucket net source; (spent, pending) = bucket_view g now b in
     \<not> pg_shutting_down g \<and> b \<noteq> [] \<and> length b \<le> MAX_SOURCE_BYTES
     \<and> pg_pending_total g < pl_max_pending_total (pg_limits g)
     \<and> global_spent g now < pl_max_global_attempts_per_window (pg_limits g)
     \<and> has_room g now b
     \<and> length pending < pl_max_pending_per_source (pg_limits g)
     \<and> spent < pl_max_attempts_per_window (pg_limits g))"

definition charged :: "nat \<Rightarrow> bytes \<Rightarrow> handshake_slot \<Rightarrow> preauth_gate \<Rightarrow> preauth_gate \<Rightarrow> bool" where
  "charged now b slot g g' \<longleftrightarrow>
     bucket_view g' now = (bucket_view g now)(b :=
       (fst (bucket_view g now b) + 1, bm_insert (pg_next_id g) now (snd (bucket_view g now b))))
   \<and> global_spent g' now = global_spent g now + 1
   \<and> pg_pending_total g' = pg_pending_total g + 1 \<and> pg_next_id g' = pg_next_id g + 1 \<and> pg_limits g' = pg_limits g
   \<and> slot = \<lparr>hs_source = b, hs_id = pg_next_id g, hs_started_at_ms = now\<rparr>
   \<and> (\<forall>b'. b' \<noteq> b \<and> live_bucket g now b' \<longrightarrow> bm_get (pg_sources g') b' = bm_get (pg_sources g) b')"

definition bucket_state :: "preauth_gate \<Rightarrow> bytes \<Rightarrow> source_state" where
  "bucket_state g b = (case bm_get (pg_sources g) b of Some s \<Rightarrow> s | None \<Rightarrow> source_state_default)"

lemma bucket_state_view:
  "bucket_view g now b = (ss_attempts_in_window (roll_source (pl_rate_window_ms (pg_limits g)) now (bucket_state g b)), ss_pending (bucket_state g b))"
  by (auto simp: bucket_view_def bucket_state_def source_state_default_def roll_window_def split: option.split)

lemma bucket_state_ok:
  assumes "gate_ok g"
  shows "source_ok (pg_limits g) (pg_next_id g) (bucket_state g b)"
    "source_ok (pg_limits g) (pg_next_id g) (roll_source w now (bucket_state g b))"
proof -
  show ok: "source_ok (pg_limits g) (pg_next_id g) (bucket_state g b)"
    using gate_okD(1,4) [OF assms] by (auto simp: bucket_state_def source_ok_def source_state_default_def limits_ok_def split: option.split)
  then show "source_ok (pg_limits g) (pg_next_id g) (roll_source w now (bucket_state g b))"
    by (auto simp: source_ok_def roll_window_def)
qed

text \<open>
  The last stage of an admission, on a gate whose windows are rolled and where the bucket has its
  place: refused, or the handshake started.
\<close>

lemma admit_last:
  assumes ok: "gate_ok g" and now: "now < U64_MAX" "pg_next_id g < U64_MAX"
    and room: "bm_has (pg_sources g) b \<or> length (pg_sources g) < pl_max_sources (pg_limits g)"
    and total: "pg_pending_total g < pl_max_pending_total (pg_limits g)"
    and globally: "global_spent g now < pl_max_global_attempts_per_window (pg_limits g)"
    and rolled: "pg_global_window_start_ms g = fst (roll_window (pl_rate_window_ms (pg_limits g)) now x)"
  defines "s \<equiv> roll_source (pl_rate_window_ms (pg_limits g)) now (bucket_state g b)"
  shows "t \<in> {bucket_state g b, s} \<Longrightarrow> gate_ok (g\<lparr>pg_sources := bm_insert b t (pg_sources g)\<rparr>)
      \<and> same_account now b g (g\<lparr>pg_sources := bm_insert b t (pg_sources g)\<rparr>)"
    "\<lbrakk>length (ss_pending s) < pl_max_pending_per_source (pg_limits g); ss_attempts_in_window s < pl_max_attempts_per_window (pg_limits g);
       start_handshake (g\<lparr>pg_sources := bm_insert b s (pg_sources g)\<rparr>) b s now = (slot, g')\<rbrakk>
      \<Longrightarrow> gate_ok g' \<and> charged now b slot g g'"
proof -
  note i = gate_okD [OF ok]
  let ?w = "pl_rate_window_ms (pg_limits g)"
  have w: "0 < ?w" using i(1) by (simp add: limits_ok_def)
  have ss: "source_ok (pg_limits g) (pg_next_id g) s" "ss_pending s = ss_pending (bucket_state g b)"
    using bucket_state_ok(2) [OF ok] by (simp_all add: s_def)
  have v: "bucket_view g now b = (ss_attempts_in_window s, ss_pending s)"
    using bucket_state_view [of g now b] by (simp add: s_def)
  have acc: "same_account now b g (g\<lparr>pg_sources := bm_insert b t (pg_sources g)\<rparr>)" if "t \<in> {bucket_state g b, s}" for t
    using that by (intro same_account_write [OF now(1) w, of t "bucket_state g b"]) (simp_all add: s_def bucket_state_def)
  then show "gate_ok (g\<lparr>pg_sources := bm_insert b t (pg_sources g)\<rparr>)
      \<and> same_account now b g (g\<lparr>pg_sources := bm_insert b t (pg_sources g)\<rparr>)" if "t \<in> {bucket_state g b, s}"
    using that ss bucket_state_ok(1) [OF ok, of b] i(6,7) v room
    by (intro conjI gate_write_ok [where g = g and s = t and b = b and now = now, OF ok]) auto
  assume a: "length (ss_pending s) < pl_max_pending_per_source (pg_limits g)"
    "ss_attempts_in_window s < pl_max_attempts_per_window (pg_limits g)"
    "start_handshake (g\<lparr>pg_sources := bm_insert b s (pg_sources g)\<rparr>) b s now = (slot, g')"
  let ?g = "g\<lparr>pg_sources := bm_insert b s (pg_sources g)\<rparr>"
  have acc: "same_account now b g ?g" using acc by simp
  have small: "ss_attempts_in_window s < U32_MAX" "global_spent ?g now < U32_MAX" "pg_pending_total g < U64_MAX"
    using a(2) globally total i(1) acc
    by (auto simp: limits_ok_def MAX_CONFIGURED_ATTEMPTS_def MAX_CONFIGURED_LIMIT_def U32_MAX_def U64_MAX_def same_account_def)
  note st = started [where g = ?g, OF now(1) w _ s_def [THEN meta_eq_to_obj_eq] small(1,2) _ a(3), simplified, OF rolled]
  have "charged now b slot g g'"
    using st acc now(2) small(3) v by (auto simp: charged_def same_account_def sat_add64_def fun_eq_iff)
  moreover have "gate_ok g'"
  proof -
    let ?s = "s\<lparr>ss_attempts_in_window := ss_attempts_in_window s + 1, ss_last_touched_ms := now,
      ss_pending := bm_insert (pg_next_id g) now (ss_pending s)\<rparr>"
    have e: "pg_sources g' = bm_insert b ?s (pg_sources g)"
      "pg_global_attempts_in_window g' = sat_add32 (pg_global_attempts_in_window g) 1"
      using a(3) small(1) i(2) by (auto simp: start_handshake_def Let_def sat_add32_def)
    have "pg_global_attempts_in_window g = global_spent g now"
      using roll_live [OF now(1) w, of x] rolled by (simp add: global_spent_def roll_window_def)
    then have att: "pg_global_attempts_in_window g' \<le> pl_max_global_attempts_per_window (pg_limits g)"
      using globally by (simp add: e(2) sat_add32_def)
    have "\<not> bm_has (ss_pending s) (pg_next_id g)" using ss(1) by (auto simp: source_ok_def bm_has_keys)
    then have len: "length (bm_insert (pg_next_id g) now (ss_pending s)) = Suc (length (ss_pending s))"
      using ss(1) by (simp add: source_ok_def length_bm_insert)
    moreover have "\<forall>i \<in> fst ` set (bm_insert (pg_next_id g) now (ss_pending s)). i < pg_next_id g + 1"
      using ss(1) by (auto simp: set_bm_insert_keys source_ok_def)
    ultimately have so: "source_ok (pg_limits g) (pg_next_id g + 1) ?s" using ss(1) a(1,2) by (simp add: source_ok_def)
    have "pg_next_id g' = pg_next_id g + 1" "pg_pending_total g' = pg_pending_total g + 1" "pg_limits g' = pg_limits g"
      using \<open>charged now b slot g g'\<close> by (simp_all add: charged_def)
    then show ?thesis
      using so room e(1) att total len v by (intro gate_write_ok [where g = g and s = ?s and b = b and now = now, OF ok]) simp_all
  qed
  ultimately show "gate_ok g' \<and> charged now b slot g g'" by blast
qed

lemma charged_trans:
  assumes "same_account now b g g1" "charged now b slot g1 g2"
  shows "charged now b slot g g2"
proof -
  have "bm_get (pg_sources g2) b' = bm_get (pg_sources g) b'" if "b' \<noteq> b" "live_bucket g now b'" for b'
  proof -
    have "bm_get (pg_sources g1) b' = bm_get (pg_sources g) b'" "pg_limits g1 = pg_limits g"
      using assms(1) that by (auto simp: same_account_def)
    then show ?thesis using assms(2) that by (auto simp: charged_def)
  qed
  then show ?thesis using assms by (simp add: same_account_def charged_def)
qed

abbreviation make_place :: "preauth_gate \<Rightarrow> bytes \<Rightarrow> nat \<Rightarrow> bool \<times> preauth_gate" where
  "make_place g b now \<equiv>
    (if bm_has (pg_sources g) b then (True, roll_global now g) else make_room_for_source (roll_global now g) now)"

abbreviation write_bucket :: "preauth_gate \<Rightarrow> bytes \<Rightarrow> source_state \<Rightarrow> preauth_gate" where
  "write_bucket g b s \<equiv> g\<lparr>pg_sources := bm_insert b s (pg_sources g)\<rparr>"

text \<open>The ways an admission can go, by the stage that decides it.\<close>

lemma admit_shape:
  assumes ok: "gate_ok g" and now: "now < U64_MAX"
    and a: "preauth_admit net g source now = (answer, g')"
  defines "b \<equiv> source_bucket net source" and "w \<equiv> pl_rate_window_ms (pg_limits g)"
  obtains (early) e where "answer = Err e" "g' = g" "\<not> grantable net g source now"
  | (globally) e where "answer = Err e" "g' = roll_global now g" "\<not> grantable net g source now"
  | (full) e where "answer = Err e" "make_place g b now = (False, g')" "\<not> grantable net g source now"
  | (refused) e g2 t where "answer = Err e" "make_place g b now = (True, g2)" "t = roll_source w now (bucket_state g2 b) \<or> t = bucket_state g2 b \<and> bm_has (pg_sources g2) b"
      "g' = write_bucket g2 b t" "\<not> grantable net g source now"
      "pg_pending_total g < pl_max_pending_total (pg_limits g)" "global_spent g now < pl_max_global_attempts_per_window (pg_limits g)"
  | (started) slot g2 where "answer = Ok slot" "make_place g b now = (True, g2)" "grantable net g source now"
      "start_handshake (write_bucket g2 b (roll_source w now (bucket_state g2 b))) b (roll_source w now (bucket_state g2 b)) now = (slot, g')"
proof -
  consider "pg_shutting_down g \<or> b = [] \<or> length b > MAX_SOURCE_BYTES \<or> pg_pending_total g \<ge> pl_max_pending_total (pg_limits g)"
    | (glob) "\<not> (pg_shutting_down g \<or> b = [] \<or> length b > MAX_SOURCE_BYTES \<or> pg_pending_total g \<ge> pl_max_pending_total (pg_limits g))"
        "global_spent g now \<ge> pl_max_global_attempts_per_window (pg_limits g)"
    | (later) "\<not> (pg_shutting_down g \<or> b = [] \<or> length b > MAX_SOURCE_BYTES \<or> pg_pending_total g \<ge> pl_max_pending_total (pg_limits g))"
        "global_spent g now < pl_max_global_attempts_per_window (pg_limits g)" by linarith
  then show ?thesis
  proof cases
    case 1
    then obtain e where "answer = Err e" "g' = g" using a by (auto simp: preauth_admit_def Let_def b_def split: if_splits)
    then show ?thesis using 1 by (intro that(1)) (auto simp: grantable_def Let_def case_prod_beta b_def)
  next
    case glob
    then obtain e where "answer = Err e" "g' = roll_global now g" using a by (auto simp: preauth_admit_def Let_def b_def)
    then show ?thesis using glob by (intro that(2)) (auto simp: grantable_def Let_def case_prod_beta b_def)
  next
    case later
    obtain room g2 where m: "make_place g b now = (room, g2)" by (rule prod.exhaust)
    note p = admit_prepared [OF ok now m]
    show ?thesis
    proof (cases room)
      case False
      then obtain e where "answer = Err e" "g' = g2" using a later m by (auto simp: preauth_admit_def Let_def b_def)
      then show ?thesis using False m p(1) by (intro that(3)) (auto simp: grantable_def Let_def case_prod_beta b_def)
    next
      case True
      let ?s = "roll_source w now (bucket_state g2 b)"
      have same: "pg_limits g2 = pg_limits g" "bucket_view g2 now = bucket_view g now" using p(2) by (simp_all add: same_account_def)
      have "bm_insert b ?s (bm_insert b (bucket_state g2 b) (pg_sources g2)) = bm_insert b ?s (pg_sources g2)"
        using gate_okD(2) [OF p(3)] by simp
      then have e: "(answer, g') =
          (if length (ss_pending ?s) \<ge> pl_max_pending_per_source (pg_limits g) then (Err PdTooManyFromSource, write_bucket g2 b (bucket_state g2 b))
           else if ss_attempts_in_window ?s \<ge> pl_max_attempts_per_window (pg_limits g) then (Err PdRateLimited, write_bucket g2 b ?s)
           else let (slot, g) = start_handshake (write_bucket g2 b ?s) b ?s now in (Ok slot, g))"
        using a later m True same b_def w_def
        unfolding preauth_admit_def Let_def bucket_state_def [symmetric] by (simp split: if_splits)
      have g: "grantable net g source now \<longleftrightarrow> length (ss_pending ?s) < pl_max_pending_per_source (pg_limits g)
          \<and> ss_attempts_in_window ?s < pl_max_attempts_per_window (pg_limits g)"
        using later True p(1) bucket_state_view [of g2 now b] same by (auto simp: grantable_def Let_def b_def w_def)
      show ?thesis
      proof (cases "grantable net g source now")
        case False
        moreover have "bm_has (pg_sources g2) b" if "length (ss_pending ?s) \<ge> pl_max_pending_per_source (pg_limits g)"
          using that gate_okD(1) [OF ok] by (auto simp: limits_ok_def bucket_state_def source_state_default_def bm_has_def split: option.splits)
        ultimately obtain e t where "answer = Err e" "t = ?s \<or> t = bucket_state g2 b \<and> bm_has (pg_sources g2) b" "g' = write_bucket g2 b t"
          using e g by (auto split: if_splits)
        then show ?thesis using that(4) m True False later by simp
      next
        case granted: True
        then show ?thesis using that(5) m True e g by (cases "start_handshake (write_bucket g2 b ?s) b ?s now") auto
      qed
    qed
  qed
qed

lemma admit_facts:
  assumes ok: "gate_ok g" and now: "now < U64_MAX" "pg_next_id g < U64_MAX"
    and a: "preauth_admit net g source now = (answer, g')"
  shows "gate_ok g' \<and> (case answer of
      Inl _ \<Rightarrow> \<not> grantable net g source now \<and> same_account now (source_bucket net source) g g'
    | Inr slot \<Rightarrow> grantable net g source now \<and> charged now (source_bucket net source) slot g g')"
  using ok now(1) a
proof (cases rule: admit_shape)
  case (early e)
  then show ?thesis using ok by (simp add: same_account_refl)
next
  case (globally e)
  then show ?thesis using gate_roll_ok [OF ok] same_account_roll_global [OF now(1)] gate_okD(1) [OF ok] by (simp add: limits_ok_def)
next
  case (full e)
  then show ?thesis using admit_prepared(2,3) [OF ok now(1) full(2)] by simp
next
  case (refused e g2 t)
  note p = admit_prepared [OF ok now(1) refused(2)]
  have same: "pg_limits g2 = pg_limits g" "global_spent g2 now = global_spent g now"
      "pg_pending_total g2 = pg_pending_total g" "pg_next_id g2 = pg_next_id g"
    using p(2) by (simp_all add: same_account_def)
  have "gate_ok g' \<and> same_account now (source_bucket net source) g2 g'"
    unfolding refused(4) by (rule admit_last(1) [OF p(3) now(1) _ p(4) [OF TrueI] _ _ p(5)]) (use refused now(2) same in auto)
  then show ?thesis using refused(1,5) same_account_trans [OF p(2)] by simp
next
  case (started slot g2)
  note p = admit_prepared [OF ok now(1) started(2)]
  have same: "pg_limits g2 = pg_limits g" "global_spent g2 now = global_spent g now" "bucket_view g2 now = bucket_view g now"
      "pg_pending_total g2 = pg_pending_total g" "pg_next_id g2 = pg_next_id g"
    using p(2) by (simp_all add: same_account_def)
  have "gate_ok g' \<and> charged now (source_bucket net source) slot g2 g'"
    by (rule admit_last(2) [OF p(3) now(1) _ p(4) [OF TrueI] _ _ p(5)])
      (use started now(2) same bucket_state_view [of g2 now "source_bucket net source"] in \<open>simp_all add: grantable_def Let_def\<close>)
  then show ?thesis using started(1,3) charged_trans [OF p(2)] by simp
qed

end
