(* ===== verification/Preauth_Admission.thy ===== *)
theory Preauth_Admission
  imports Preauth
begin

text \<open>
  What the pre-authentication gate promises over any sequence of calls, and its use at the swarm,
  \<open>PreAuthAdmission\<close> of \<open>crates/transport/libp2p/src/preauth_gate.rs\<close>: the gate is asked when a
  connection is pending and its slot is kept against the connection's identifier until the connection is
  established or fails.
\<close>

section \<open>Sequences of calls\<close>

datatype gate_op = GoAdmit bytes nat | GoCompleted handshake_slot

fun gate_step :: "ip_text \<Rightarrow> preauth_gate \<Rightarrow> gate_op \<Rightarrow> preauth_gate" where
  "gate_step net g (GoAdmit source now) = snd (preauth_admit net g source now)"
| "gate_step net g (GoCompleted slot) = handshake_completed g slot"

text \<open>The clock has not reached the end of its range.\<close>

fun clocked :: "gate_op \<Rightarrow> bool" where
  "clocked (GoAdmit _ now) = (now < U64_MAX)"
| "clocked (GoCompleted _) = True"

lemma completed_view:
  assumes "bm_get (pg_sources g) (hs_source slot) = Some s" "bm_has (ss_pending s) (hs_id slot)"
  shows "handshake_completed g slot = write_bucket g (hs_source slot) (s\<lparr>ss_pending := bm_remove (hs_id slot) (ss_pending s)\<rparr>)
    \<lparr>pg_pending_total := pg_pending_total g - 1\<rparr>"
  using assms by (simp add: handshake_completed_def)

lemma completed_ok:
  assumes ok: "gate_ok g"
  shows "gate_ok (handshake_completed g slot)" "pg_next_id (handshake_completed g slot) = pg_next_id g"
    "pg_limits (handshake_completed g slot) = pg_limits g"
proof -
  note i = gate_okD [OF ok]
  have "gate_ok (handshake_completed g slot) \<and> pg_next_id (handshake_completed g slot) = pg_next_id g
    \<and> pg_limits (handshake_completed g slot) = pg_limits g"
  proof (cases "\<exists>s. bm_get (pg_sources g) (hs_source slot) = Some s \<and> bm_has (ss_pending s) (hs_id slot)")
    case True
    then obtain s where s: "bm_get (pg_sources g) (hs_source slot) = Some s" "bm_has (ss_pending s) (hs_id slot)" by blast
    let ?s = "s\<lparr>ss_pending := bm_remove (hs_id slot) (ss_pending s)\<rparr>"
    have so: "source_ok (pg_limits g) (pg_next_id g) s" by (rule i(4) [OF s(1)])
    obtain n where len: "length (ss_pending s) = Suc n" using s(2) by (cases "ss_pending s") (auto simp: bm_has_def)
    then have len': "length (ss_pending ?s) = n" using so s(2) by (simp add: source_ok_def length_bm_remove)
    have "length (ss_pending s) \<le> pg_pending_total g"
      using bm_sum_le [OF s(1), of "\<lambda>_ s. length (ss_pending s)"] i(5) by simp
    moreover have "source_ok (pg_limits g) (pg_next_id g) ?s" using so len len' by (auto simp: source_ok_def set_bm_remove)
    ultimately have "gate_ok (handshake_completed g slot)"
      unfolding completed_view [OF s] using len len' i(6,7) s(1)
      by (intro gate_write_ok [where g = g and s = ?s and b = "hs_source slot" and now = 0, OF ok])
        (auto simp: bucket_view_def bm_has_def)
    then show ?thesis by (simp add: completed_view [OF s])
  next
    case False
    then have "handshake_completed g slot = g" by (auto simp: handshake_completed_def split: option.split)
    then show ?thesis using ok by simp
  qed
  then show "gate_ok (handshake_completed g slot)" "pg_next_id (handshake_completed g slot) = pg_next_id g"
    "pg_limits (handshake_completed g slot) = pg_limits g" by simp_all
qed

lemma admit_next:
  assumes "gate_ok g" "now < U64_MAX" "pg_next_id g < U64_MAX"
  shows "gate_ok (snd (preauth_admit net g source now))" "pg_limits (snd (preauth_admit net g source now)) = pg_limits g"
    "pg_next_id (snd (preauth_admit net g source now)) \<le> Suc (pg_next_id g)"
  using admit_facts [OF assms surjective_pairing, of net source]
  by (auto simp: same_account_def charged_def split: sum.splits)

lemma gate_run:
  assumes "build_limits builder = Ok limits" "list_all clocked ops" "length ops \<le> U64_MAX"
    and "g = foldl (gate_step net) (preauth_gate_new limits) ops"
  shows "gate_ok g" "pg_next_id g \<le> length ops" "pg_limits g = limits"
proof -
  have "gate_ok g \<and> pg_next_id g \<le> length ops \<and> pg_limits g = limits"
    using assms(2-4)
  proof (induction ops arbitrary: g rule: rev_induct)
    case Nil
    then show ?case using gate_new_ok [OF assms(1)] by (simp add: preauth_gate_new_def)
  next
    case (snoc op ops)
    let ?g = "foldl (gate_step net) (preauth_gate_new limits) ops"
    have g: "gate_ok ?g" "pg_next_id ?g \<le> length ops" "pg_limits ?g = limits" using snoc by simp_all
    show ?case
    proof (cases op)
      case (GoAdmit source now)
      have "now < U64_MAX" "pg_next_id ?g < U64_MAX" using snoc.prems g(2) GoAdmit by simp_all
      then show ?thesis using admit_next [OF g(1), of now net source] g snoc.prems(3) GoAdmit by auto
    next
      case (GoCompleted slot)
      then show ?thesis using completed_ok [OF g(1)] g snoc.prems(3) by simp
    qed
  qed
  then show "gate_ok g" "pg_next_id g \<le> length ops" "pg_limits g = limits" by simp_all
qed

text \<open>C17. 
  Admission is exact.  After any sequence of calls, a handshake is admitted precisely when the
  gate is not draining, its bucket can be named and has a place, and it is within the four budgets: in
  flight in all and from its bucket, started in the current window in all and from its bucket.  An admission
  charges each of the four by one and no other bucket; a refusal charges nothing to anybody; and
  the record of a bucket that has a handshake in flight or a live window is not touched by attempts from others,
  so noise from other addresses clears nobody's account.
\<close>

theorem preauth_admission_exact:
  assumes "build_limits builder = Ok limits" and "list_all clocked ops" and "length ops < U64_MAX"
    and "g = foldl (gate_step net) (preauth_gate_new limits) ops"
    and "now < U64_MAX" and "preauth_admit net g source now = (answer, g')"
  shows "case answer of
      Inl _ \<Rightarrow> \<not> grantable net g source now \<and> same_account now (source_bucket net source) g g'
    | Inr slot \<Rightarrow> grantable net g source now \<and> charged now (source_bucket net source) slot g g'"
proof -
  note run = gate_run [OF assms(1,2) less_imp_le [OF assms(3)] assms(4)]
  have "pg_next_id g < U64_MAX" using run(2) assms(3) by simp
  from admit_facts [OF run(1) assms(5) this assms(6)] show ?thesis by blast
qed

definition plain_text :: ip_text where
  "plain_text = \<lparr>socket_ip = \<lambda>_. None, bare_ip = \<lambda>_. None, show_v4 = id, show_v6 = id\<rparr>"

lemma default_limits: "build_limits preauth_limits_default = Ok preauth_limits_default"
  by code_simp

theorem preauth_admission_exact_witness:
  "(let g = gate_step plain_text (preauth_gate_new preauth_limits_default) (GoAdmit [1] 5) in
    charged 7 [1] \<lparr>hs_source = [1], hs_id = 1, hs_started_at_ms = 7\<rparr> g (snd (preauth_admit plain_text g [1] 7)))"
proof -
  let ?g = "gate_step plain_text (preauth_gate_new preauth_limits_default) (GoAdmit [1] 5)"
  let ?slot = "\<lparr>hs_source = [1], hs_id = 1, hs_started_at_ms = 7\<rparr>"
  have "fst (preauth_admit plain_text ?g [1] 7) = Ok ?slot" by code_simp
  then have a: "preauth_admit plain_text ?g [1] 7 = (Ok ?slot, snd (preauth_admit plain_text ?g [1] 7))"
    by (metis surjective_pairing)
  have b: "source_bucket plain_text [1] = [1]" by code_simp
  have run: "list_all clocked [GoAdmit [1] 5]" "length [GoAdmit [1] 5] < U64_MAX" "(7 :: nat) < U64_MAX"
    "?g = foldl (gate_step plain_text) (preauth_gate_new preauth_limits_default) [GoAdmit [1] 5]"
    by (simp_all add: U64_MAX_def)
  from preauth_admission_exact [OF default_limits run(1,2,4,3) a] show ?thesis by (simp only: sum.case b Let_def)
qed

section \<open>The rate of starts\<close>

text \<open>
  A fixed window: \<open>ws\<close> is when the current one began, \<open>n\<close> how many starts it counts, \<open>h\<close> the times of all
  starts so far.  Any stretch as long as a window meets at most two windows.
\<close>

abbreviation starts_in :: "(nat \<Rightarrow> bool) \<Rightarrow> nat list \<Rightarrow> nat" where
  "starts_in P h \<equiv> length (filter P h)"

definition window_inv :: "nat \<Rightarrow> nat \<Rightarrow> nat \<times> nat \<Rightarrow> nat list \<Rightarrow> bool" where
  "window_inv w m x h \<longleftrightarrow>
     (\<forall>t \<in> set h. t < fst x + w) \<and> starts_in (\<lambda>t. fst x \<le> t) h = snd x \<and> snd x \<le> m
   \<and> starts_in (\<lambda>t. fst x \<le> t + w \<and> t < fst x) h \<le> m
   \<and> (\<forall>a. starts_in (\<lambda>t. a \<le> t \<and> t < a + w) h \<le> 2 * m)"

lemma window_inv_Nil: "window_inv w m (ws, 0) []"
  by (simp add: window_inv_def)

lemma starts_mono: "(\<And>t. t \<in> set h \<Longrightarrow> P t \<Longrightarrow> Q t) \<Longrightarrow> starts_in P h \<le> starts_in Q h"
  by (induction h) auto

lemma starts_split: "starts_in P h \<le> starts_in (\<lambda>t. P t \<and> Q t) h + starts_in (\<lambda>t. P t \<and> \<not> Q t) h"
  by (induction h) auto

lemma window_elapsed:
  assumes i: "window_inv w m x h" and "fst x + w \<le> now"
  shows "window_inv w m (now, 0) h"
proof -
  have lt: "\<And>t. t \<in> set h \<Longrightarrow> t < now" using assms by (fastforce simp: window_inv_def)
  have "starts_in (\<lambda>t. now \<le> t + w \<and> t < now) h \<le> starts_in (\<lambda>t. fst x \<le> t) h"
    using assms(2) by (intro starts_mono) auto
  moreover have "filter (\<lambda>t. now \<le> t) h = []" using lt by (auto simp: filter_empty_conv not_le)
  ultimately show ?thesis using i lt by (auto simp: window_inv_def intro: trans_less_add1)
qed

lemma window_counts:
  assumes i: "window_inv w m x h" and now: "fst x \<le> now" "now < fst x + w" and "snd x < m"
  shows "window_inv w m (fst x, snd x + 1) (h @ [now])"
proof -
  have "starts_in (\<lambda>t. a \<le> t \<and> t < a + w) h < 2 * m" if "a \<le> now" "now < a + w" for a
  proof -
    have "starts_in (\<lambda>t. (a \<le> t \<and> t < a + w) \<and> fst x \<le> t) h \<le> starts_in (\<lambda>t. fst x \<le> t) h"
      by (rule starts_mono) simp
    moreover have "starts_in (\<lambda>t. (a \<le> t \<and> t < a + w) \<and> \<not> fst x \<le> t) h \<le> starts_in (\<lambda>t. fst x \<le> t + w \<and> t < fst x) h"
      using now that by (intro starts_mono) auto
    ultimately show ?thesis
      using starts_split [of "\<lambda>t. a \<le> t \<and> t < a + w" h "\<lambda>t. fst x \<le> t"] i assms(4) by (simp add: window_inv_def)
  qed
  then have "starts_in (\<lambda>t. a \<le> t \<and> t < a + w) (h @ [now]) \<le> 2 * m" for a
    using i by (cases "a \<le> now \<and> now < a + w") (auto simp: window_inv_def Suc_le_eq)
  then show ?thesis using assms by (auto simp: window_inv_def)
qed

lemma window_rolls:
  assumes i: "window_inv w m x h" and "fst x \<le> now" "now < U64_MAX" "0 < w" "y = roll_window w now x"
  shows "window_inv w m y h" "fst y \<le> now" "now < fst y + w"
proof -
  have "sat_add64 (fst x) w \<le> now \<longleftrightarrow> fst x + w \<le> now" using assms(3) by (auto simp: sat_add64_def)
  then show "window_inv w m y h" "fst y \<le> now" "now < fst y + w"
    using assms window_elapsed [OF i] by (auto simp: roll_window_def)
qed

abbreviation starts_of :: "bytes \<Rightarrow> (bytes \<times> nat) list \<Rightarrow> nat list" where
  "starts_of b h \<equiv> map snd (filter (\<lambda>e. fst e = b) h)"

abbreviation source_window :: "source_state \<Rightarrow> nat \<times> nat" where
  "source_window s \<equiv> (ss_window_start_ms s, ss_attempts_in_window s)"

text \<open>Of a bucket the gate has forgotten, every start lies in windows that have elapsed.\<close>

definition starts_ok :: "preauth_limits \<Rightarrow> preauth_gate \<Rightarrow> nat \<Rightarrow> (bytes \<times> nat) list \<Rightarrow> bool" where
  "starts_ok l g c h \<longleftrightarrow>
    (let w = pl_rate_window_ms l; m = pl_max_attempts_per_window l in
     window_inv w (pl_max_global_attempts_per_window l)
       (pg_global_window_start_ms g, pg_global_attempts_in_window g) (map snd h)
     \<and> pg_global_window_start_ms g \<le> c
     \<and> (\<forall>b s. bm_get (pg_sources g) b = Some s \<longrightarrow> window_inv w m (source_window s) (starts_of b h) \<and> ss_window_start_ms s \<le> c)
     \<and> (\<forall>b. bm_get (pg_sources g) b = None \<longrightarrow> starts_of b h = [] \<or> (\<exists>x. window_inv w m x (starts_of b h) \<and> fst x + w \<le> c)))"

lemma starts_okD:
  assumes "starts_ok l g c h"
  defines "w \<equiv> pl_rate_window_ms l" and "m \<equiv> pl_max_attempts_per_window l"
  shows "window_inv w (pl_max_global_attempts_per_window l) (pg_global_window_start_ms g, pg_global_attempts_in_window g) (map snd h)"
    "pg_global_window_start_ms g \<le> c"
    "bm_get (pg_sources g) b = Some s \<Longrightarrow> window_inv w m (source_window s) (starts_of b h) \<and> ss_window_start_ms s \<le> c"
    "bm_get (pg_sources g) b = None \<Longrightarrow> starts_of b h = [] \<or> (\<exists>x. window_inv w m x (starts_of b h) \<and> fst x + w \<le> c)"
  using assms by (simp_all add: starts_ok_def Let_def)

lemma rate_later: "starts_ok l g c h \<Longrightarrow> c \<le> now \<Longrightarrow> starts_ok l g now h"
  by (fastforce simp: starts_ok_def Let_def)

lemma rate_roll:
  assumes r: "starts_ok l g now h" and now: "now < U64_MAX" "0 < pl_rate_window_ms l" "pg_limits g = l"
  shows "starts_ok l (roll_global now g) now h"
proof -
  note i = starts_okD [OF r]
  let ?y = "roll_window (pl_rate_window_ms l) now (pg_global_window_start_ms g, pg_global_attempts_in_window g)"
  have "window_inv (pl_rate_window_ms l) (pl_max_global_attempts_per_window l) ?y (map snd h)" "fst ?y \<le> now"
    using window_rolls [OF i(1) _ now(1,2) refl] i(2) by simp_all
  then show ?thesis using i(3,4) now(3) roll_global_simps(6) [of now g]
    by (auto simp: starts_ok_def Let_def) (metis fst_conv)+
qed

lemma rate_evict:
  assumes r: "starts_ok l g now h" and now: "now < U64_MAX"
    and s: "bm_get (pg_sources g) k = Some s" "\<not> is_live_at s now (pl_rate_window_ms l)"
  shows "starts_ok l (g\<lparr>pg_sources := bm_remove k (pg_sources g)\<rparr>) now h"
proof -
  note i = starts_okD [OF r]
  have "ss_window_start_ms s + pl_rate_window_ms l \<le> now" using s(2) now by (auto simp: is_live_at_def sat_add64_def)
  then show ?thesis using i i(3) [OF s(1)] by (auto simp: starts_ok_def Let_def)
qed

lemma rate_source:
  assumes r: "starts_ok l g now h" and now: "now < U64_MAX" "0 < pl_rate_window_ms l"
    and s: "s = roll_source (pl_rate_window_ms l) now (bucket_state g b)"
  shows "window_inv (pl_rate_window_ms l) (pl_max_attempts_per_window l) (source_window s) (starts_of b h)"
    "ss_window_start_ms s \<le> now" "now < ss_window_start_ms s + pl_rate_window_ms l"
proof -
  note i = starts_okD [OF r]
  let ?w = "pl_rate_window_ms l"
  have e: "source_window s = roll_window ?w now (source_window (bucket_state g b))" by (simp add: s)
  have "window_inv ?w (pl_max_attempts_per_window l) (source_window s) (starts_of b h) \<and> fst (source_window s) \<le> now
      \<and> now < fst (source_window s) + ?w"
  proof (cases "bm_get (pg_sources g) b")
    case (Some t)
    then have "window_inv ?w (pl_max_attempts_per_window l) (source_window (bucket_state g b)) (starts_of b h)"
        "fst (source_window (bucket_state g b)) \<le> now"
      using i(3) [OF Some] by (simp_all add: bucket_state_def)
    from window_rolls [OF this now e] show ?thesis by simp
  next
    case None
    then have d: "source_window (bucket_state g b) = (0, 0)" by (simp add: bucket_state_def source_state_default_def)
    show ?thesis
    proof (cases "starts_of b h = []")
      case True
      then show ?thesis using window_rolls [OF window_inv_Nil _ now e [unfolded d]] by simp
    next
      case False
      then obtain x where x: "window_inv ?w (pl_max_attempts_per_window l) x (starts_of b h)" "fst x + ?w \<le> now" using i(4) [OF None] by blast
      then have "roll_window ?w now (0, 0) = (now, 0)" using now(1) by (simp add: roll_window_def sat_add64_def)
      then show ?thesis using window_elapsed [OF x] now(2) by (simp add: e d)
    qed
  qed
  then show "window_inv ?w (pl_max_attempts_per_window l) (source_window s) (starts_of b h)"
    "ss_window_start_ms s \<le> now" "now < ss_window_start_ms s + ?w" by simp_all
qed

lemma rate_write:
  assumes r: "starts_ok l g now h" and now: "now < U64_MAX" "0 < pl_rate_window_ms l"
    and t: "t = roll_source (pl_rate_window_ms l) now (bucket_state g b) \<or> t = bucket_state g b \<and> bm_has (pg_sources g) b"
  shows "starts_ok l (write_bucket g b t) now h"
proof -
  note i = starts_okD [OF r]
  have "window_inv (pl_rate_window_ms l) (pl_max_attempts_per_window l) (source_window t) (starts_of b h) \<and> ss_window_start_ms t \<le> now"
    using t
  proof
    assume "t = roll_source (pl_rate_window_ms l) now (bucket_state g b)"
    from rate_source [OF r now this] show ?thesis by blast
  next
    assume "t = bucket_state g b \<and> bm_has (pg_sources g) b"
    then show ?thesis using i(3) [of b t] by (auto simp: bucket_state_def bm_has_def)
  qed
  then show ?thesis using i by (auto simp: starts_ok_def Let_def)
qed

lemma rate_start:
  assumes r: "starts_ok l g now h" and now: "now < U64_MAX" "0 < pl_rate_window_ms l"
    and s: "s = roll_source (pl_rate_window_ms l) now (bucket_state g b)"
    and small: "pl_max_attempts_per_window l \<le> U32_MAX" "pl_max_global_attempts_per_window l \<le> U32_MAX"
    and rolled: "now < pg_global_window_start_ms g + pl_rate_window_ms l"
    and room: "ss_attempts_in_window s < pl_max_attempts_per_window l" "pg_global_attempts_in_window g < pl_max_global_attempts_per_window l"
    and st: "start_handshake (write_bucket g b s) b s now = (slot, g')"
  shows "starts_ok l g' now (h @ [(b, now)])"
proof -
  note i = starts_okD [OF r] and q = rate_source [OF r now s]
  let ?s = "s\<lparr>ss_attempts_in_window := ss_attempts_in_window s + 1, ss_last_touched_ms := now,
    ss_pending := bm_insert (pg_next_id g) now (ss_pending s)\<rparr>"
  have e: "bm_get (pg_sources g') x = (if x = b then Some ?s else bm_get (pg_sources g) x)"
    "pg_global_attempts_in_window g' = pg_global_attempts_in_window g + 1" "pg_global_window_start_ms g' = pg_global_window_start_ms g" for x
    using st room small by (auto simp: start_handshake_def Let_def sat_add32_def)
  have "window_inv (pl_rate_window_ms l) (pl_max_attempts_per_window l) (source_window ?s) (starts_of b (h @ [(b, now)]))"
    using window_counts [OF q(1)] q(2,3) room(1) by simp
  moreover have "window_inv (pl_rate_window_ms l) (pl_max_global_attempts_per_window l)
      (pg_global_window_start_ms g', pg_global_attempts_in_window g') (map snd (h @ [(b, now)]))"
    using window_counts [OF i(1)] i(2) rolled room(2) by (simp add: e)
  ultimately show ?thesis using i(2-4) q(2) by (auto simp: starts_ok_def Let_def e split: if_splits)
qed

fun started_in :: "preauth_denial + handshake_slot \<Rightarrow> (bytes \<times> nat) list" where
  "started_in (Inr slot) = [(hs_source slot, hs_started_at_ms slot)]"
| "started_in (Inl _) = []"

lemma rate_place:
  assumes ok: "gate_ok g" and r: "starts_ok l g now h" and now: "now < U64_MAX" and l: "pg_limits g = l"
    and m: "make_place g b now = (room, g2)"
  shows "starts_ok l g2 now h"
proof -
  have w: "0 < pl_rate_window_ms l" using gate_okD(1) [OF ok] l by (simp add: limits_ok_def)
  note r1 = rate_roll [OF r now w l]
  show ?thesis
  proof (cases "bm_has (pg_sources g) b")
    case True
    then show ?thesis using m r1 by simp
  next
    case False
    then have "make_room_for_source (roll_global now g) now = (room, g2)" using m by simp
    with gate_okD(2) [OF gate_roll_ok [OF ok, of now]] show ?thesis
    proof (cases rule: source_room_cases)
      case (evicted k s)
      then show ?thesis using rate_evict [OF r1 now] l by simp
    qed (use r1 in simp_all)
  qed
qed

lemma rate_admit:
  assumes ok: "gate_ok g" and r: "starts_ok l g now h" and now: "now < U64_MAX" "pg_next_id g < U64_MAX" and l: "pg_limits g = l"
    and a: "preauth_admit net g source now = (answer, g')"
  shows "starts_ok l g' now (h @ started_in answer)"
proof -
  have w: "0 < pl_rate_window_ms l" and small: "pl_max_attempts_per_window l \<le> U32_MAX" "pl_max_global_attempts_per_window l \<le> U32_MAX"
    using gate_okD(1) [OF ok] l by (auto simp: limits_ok_def MAX_CONFIGURED_ATTEMPTS_def U32_MAX_def)
  from ok now(1) a show ?thesis
  proof (cases rule: admit_shape)
    case (refused e g2 t)
    then show ?thesis using rate_write [OF rate_place [OF ok r now(1) l refused(2)] now(1) w, of t] l by simp
  next
    case (started slot g2)
    note p = admit_prepared [OF ok now(1) started(2)]
    let ?s = "roll_source (pl_rate_window_ms l) now (bucket_state g2 (source_bucket net source))"
    have same: "pg_limits g2 = l" "bucket_view g2 now = bucket_view g now" "global_spent g2 now = global_spent g now"
      using p(2) l by (simp_all add: same_account_def)
    have live: "now < sat_add64 (pg_global_window_start_ms g2) (pl_rate_window_ms l)"
      using roll_live [OF now(1) w] p(5) same(1) by simp
    then have "pg_global_attempts_in_window g2 = global_spent g2 now" by (simp add: global_spent_def roll_window_def same(1))
    then have "pg_global_attempts_in_window g2 < pl_max_global_attempts_per_window l"
        "ss_attempts_in_window ?s < pl_max_attempts_per_window l"
      using started(3) same l bucket_state_view [of g2 now "source_bucket net source"] by (simp_all add: grantable_def Let_def)
    moreover have "now < pg_global_window_start_ms g2 + pl_rate_window_ms l" using live by (auto simp: sat_add64_def)
    ultimately have "starts_ok l g' now (h @ [(source_bucket net source, now)])"
      using started(4) l
      by (intro rate_start [OF rate_place [OF ok r now(1) l started(2)] now(1) w refl small]) simp_all
    moreover have "slot = \<lparr>hs_source = source_bucket net source, hs_id = pg_next_id g, hs_started_at_ms = now\<rparr>"
      using admit_facts [OF ok now a] started(1) by (simp add: charged_def)
    ultimately show ?thesis by (simp add: started(1))
  qed (use r rate_roll [OF r now(1) w l] rate_place [OF ok r now(1) l] in auto)
qed

lemma rate_completed: "starts_ok l g c h \<Longrightarrow> starts_ok l (handshake_completed g slot) c h"
  by (auto simp: starts_ok_def handshake_completed_def Let_def split: option.splits if_splits)

text \<open>Every start the gate granted over a sequence of calls, with its bucket and its time.\<close>

fun granted_starts :: "ip_text \<Rightarrow> preauth_gate \<Rightarrow> gate_op list \<Rightarrow> (bytes \<times> nat) list" where
  "granted_starts net g [] = []"
| "granted_starts net g (op # ops) =
    (case op of GoAdmit source now \<Rightarrow> started_in (fst (preauth_admit net g source now)) | GoCompleted _ \<Rightarrow> [])
    @ granted_starts net (gate_step net g op) ops"

fun op_times :: "gate_op list \<Rightarrow> nat list" where
  "op_times [] = []"
| "op_times (GoAdmit _ now # ops) = now # op_times ops"
| "op_times (GoCompleted _ # ops) = op_times ops"

lemma rate_run:
  assumes "gate_ok g" "starts_ok l g c h" "pg_limits g = l" "pg_next_id g + length ops \<le> U64_MAX"
    and "list_all clocked ops" "sorted (op_times ops)" "\<forall>t \<in> set (op_times ops). c \<le> t"
  shows "\<exists>g' c'. starts_ok l g' c' (h @ granted_starts net g ops)"
  using assms
proof (induction ops arbitrary: g c h)
  case Nil
  then show ?case by auto
next
  case (Cons op ops)
  show ?case
  proof (cases op)
    case (GoAdmit source now)
    have now: "now < U64_MAX" "pg_next_id g < U64_MAX" "c \<le> now" using Cons.prems by (simp_all add: GoAdmit)
    obtain answer g' where a: "preauth_admit net g source now = (answer, g')" by (rule prod.exhaust)
    note r = rate_admit [OF Cons.prems(1) rate_later [OF Cons.prems(2) now(3)] now(1,2) Cons.prems(3) a]
    note f = admit_next [OF Cons.prems(1) now(1,2), of net source]
    have "\<exists>x y. starts_ok l x y ((h @ started_in answer) @ granted_starts net g' ops)"
      using Cons.IH [OF _ r] f Cons.prems by (simp add: a GoAdmit)
    then show ?thesis by (simp add: GoAdmit a)
  next
    case (GoCompleted slot)
    then show ?thesis
      using Cons.IH [OF completed_ok(1) [OF Cons.prems(1)] rate_completed [OF Cons.prems(2)]] completed_ok(2,3) [OF Cons.prems(1)] Cons.prems
      by simp
  qed
qed

text \<open>C16. 
  The rate of unauthenticated work is bounded whatever is tried: while the clock does not run
  backwards, no stretch of time as long as a window sees more than twice the configured starts in all, nor more than
  twice the configured starts from one bucket, forgotten and remembered again or not.
\<close>

theorem preauth_start_rate:
  assumes "build_limits builder = Ok limits" and "list_all clocked ops" and "length ops \<le> U64_MAX"
    and "sorted (op_times ops)"
    and "h = granted_starts net (preauth_gate_new limits) ops"
  shows "length (filter (\<lambda>(_, t). a \<le> t \<and> t < a + pl_rate_window_ms limits) h) \<le> 2 * pl_max_global_attempts_per_window limits
    \<and> length (filter (\<lambda>(x, t). x = b \<and> a \<le> t \<and> t < a + pl_rate_window_ms limits) h) \<le> 2 * pl_max_attempts_per_window limits"
proof -
  have "starts_ok limits (preauth_gate_new limits) 0 []"
    by (simp add: starts_ok_def preauth_gate_new_def window_inv_Nil)
  from rate_run [OF gate_new_ok [OF assms(1)] this, of ops net] assms obtain g c where
    r: "starts_ok limits g c h" by (auto simp: preauth_gate_new_def)
  have all: "starts_in (\<lambda>t. a \<le> t \<and> t < a + pl_rate_window_ms limits) (map snd h) \<le> 2 * pl_max_global_attempts_per_window limits"
    using starts_okD(1) [OF r] by (simp add: window_inv_def)
  have one: "starts_in (\<lambda>t. a \<le> t \<and> t < a + pl_rate_window_ms limits) (starts_of b h) \<le> 2 * pl_max_attempts_per_window limits"
  proof (cases "bm_get (pg_sources g) b")
    case None
    from starts_okD(4) [OF r None] show ?thesis
    proof
      assume e: "starts_of b h = []"
      show ?thesis unfolding e by simp
    qed (auto simp: window_inv_def)
  next
    case (Some s)
    show ?thesis using starts_okD(3) [OF r Some] by (simp add: window_inv_def)
  qed
  show ?thesis using all one by (simp add: filter_map comp_def case_prod_unfold conj_commute conj_left_commute)
qed

theorem preauth_start_rate_witness:
  "length (filter (\<lambda>(x, t). x = [1] \<and> 3 \<le> t \<and> t < 3 + pl_rate_window_ms preauth_limits_default)
    (granted_starts plain_text (preauth_gate_new preauth_limits_default) [GoAdmit [1] 5, GoAdmit [1] 7])) \<le> 60"
proof -
  have "list_all clocked [GoAdmit [1] 5, GoAdmit [1] 7]" "length [GoAdmit [1] 5, GoAdmit [1] 7] \<le> U64_MAX"
    "sorted (op_times [GoAdmit [1] 5, GoAdmit [1] 7])"
    by (simp_all add: U64_MAX_def)
  from preauth_start_rate [of preauth_limits_default preauth_limits_default "[GoAdmit [1] 5, GoAdmit [1] 7]" _ plain_text 3 "[1]",
      OF default_limits this refl]
  show ?thesis by (simp add: preauth_limits_default_def)
qed

section \<open>Slots and connections\<close>

datatype protocol = PrIp4 bytes | PrIp6 bytes | PrP2p bytes | PrP2pCircuit | PrOther bytes

type_synonym multiaddr = "protocol list"

record multiaddr_text =
  show_peer :: "bytes \<Rightarrow> bytes"
  show_multiaddr :: "multiaddr \<Rightarrow> bytes"

text \<open>The bytes of \<open>relay:\<close>.\<close>

definition RELAY_LABEL :: bytes where
  "RELAY_LABEL = [114, 101, 108, 97, 121, 58]"

fun relay_label :: "ip_text \<Rightarrow> multiaddr_text \<Rightarrow> multiaddr \<Rightarrow> bytes option \<Rightarrow> protocol list \<Rightarrow> bytes" where
  "relay_label net ma relay_part relay_ip [] =
    (case relay_ip of
       Some ip \<Rightarrow> RELAY_LABEL @ source_bucket net ip
     | None \<Rightarrow> RELAY_LABEL @ show_multiaddr ma relay_part)"
| "relay_label net ma relay_part relay_ip (c # cs) =
    (case c of
       PrP2p peer \<Rightarrow> RELAY_LABEL @ show_peer ma peer
     | PrIp4 ip \<Rightarrow> relay_label net ma relay_part (Some (case relay_ip of Some x \<Rightarrow> x | None \<Rightarrow> show_v4 net ip)) cs
     | PrIp6 ip \<Rightarrow> relay_label net ma relay_part (Some (case relay_ip of Some x \<Rightarrow> x | None \<Rightarrow> show_v6 net ip)) cs
     | _ \<Rightarrow> relay_label net ma relay_part relay_ip cs)"

fun remote_label :: "ip_text \<Rightarrow> multiaddr_text \<Rightarrow> multiaddr \<Rightarrow> protocol list \<Rightarrow> bytes" where
  "remote_label net ma remote [] = show_multiaddr ma remote"
| "remote_label net ma remote (c # cs) =
    (case c of PrIp4 ip \<Rightarrow> show_v4 net ip | PrIp6 ip \<Rightarrow> show_v6 net ip | _ \<Rightarrow> remote_label net ma remote cs)"

definition source_label :: "ip_text \<Rightarrow> multiaddr_text \<Rightarrow> multiaddr \<Rightarrow> multiaddr \<Rightarrow> bytes" where
  "source_label net ma local_addr remote_addr =
    (if PrP2pCircuit \<in> set local_addr then
       let relay_part = takeWhile (\<lambda>c. c \<noteq> PrP2pCircuit) local_addr in
       relay_label net ma relay_part None relay_part
     else remote_label net ma remote_addr remote_addr)"

record preauth_admission =
  pa_gate :: preauth_gate
  pa_in_flight :: "(nat, handshake_slot) bmap"

definition preauth_admission_new :: "preauth_limits \<Rightarrow> preauth_admission" where
  "preauth_admission_new limits = \<lparr>pa_gate = preauth_gate_new limits, pa_in_flight = []\<rparr>"

text \<open>Every refusal reads the same to the peer.\<close>

datatype connection_denied = ConnectionRefused

definition handle_pending_inbound ::
  "ip_text \<Rightarrow> multiaddr_text \<Rightarrow> preauth_admission \<Rightarrow> nat \<Rightarrow> multiaddr \<Rightarrow> multiaddr \<Rightarrow> nat
    \<Rightarrow> (connection_denied + unit) \<times> preauth_admission" where
  "handle_pending_inbound net ma a connection local_addr remote_addr now =
    (case preauth_admit net (pa_gate a) (source_label net ma local_addr remote_addr) now of
       (Inr slot, gate) \<Rightarrow> (Ok (), \<lparr>pa_gate = gate, pa_in_flight = bm_insert connection slot (pa_in_flight a)\<rparr>)
     | (Inl _, gate) \<Rightarrow> (Err ConnectionRefused, a\<lparr>pa_gate := gate\<rparr>))"

definition preauth_release :: "preauth_admission \<Rightarrow> nat \<Rightarrow> preauth_admission" where
  "preauth_release a connection =
    (case bm_get (pa_in_flight a) connection of
       Some slot \<Rightarrow>
         \<lparr>pa_gate = handshake_completed (pa_gate a) slot, pa_in_flight = bm_remove connection (pa_in_flight a)\<rparr>
     | None \<Rightarrow> a)"

text \<open>An established connection gives its slot back, and so does one whose listening failed.\<close>

definition handle_established_inbound :: "preauth_admission \<Rightarrow> nat \<Rightarrow> preauth_admission" where
  "handle_established_inbound a connection = preauth_release a connection"

datatype from_swarm = ListenFailure nat | OtherEvent

definition on_swarm_event :: "preauth_admission \<Rightarrow> from_swarm \<Rightarrow> preauth_admission" where
  "on_swarm_event a event =
    (case event of
       ListenFailure connection \<Rightarrow>
         (case bm_get (pa_in_flight a) connection of
            Some slot \<Rightarrow>
              \<lparr>pa_gate = handshake_completed (pa_gate a) slot, pa_in_flight = bm_remove connection (pa_in_flight a)\<rparr>
          | None \<Rightarrow> a)
     | OtherEvent \<Rightarrow> a)"

text \<open>
  What the swarm does: an inbound connection is pending under an identifier no other connection in
  flight has; a connection is established, or its listening fails, in any order.  The count is of pending connections.
\<close>

inductive preauth_run :: "ip_text \<Rightarrow> multiaddr_text \<Rightarrow> preauth_limits \<Rightarrow> nat \<Rightarrow> preauth_admission \<Rightarrow> bool"
  for net ma limits where
  run_start: "preauth_run net ma limits 0 (preauth_admission_new limits)"
| run_pending: "preauth_run net ma limits n a \<Longrightarrow> \<not> bm_has (pa_in_flight a) connection \<Longrightarrow> now < U64_MAX
    \<Longrightarrow> handle_pending_inbound net ma a connection local_addr remote_addr now = (answer, a')
    \<Longrightarrow> preauth_run net ma limits (Suc n) a'"
| run_established: "preauth_run net ma limits n a \<Longrightarrow> preauth_run net ma limits n (handle_established_inbound a connection)"
| run_event: "preauth_run net ma limits n a \<Longrightarrow> preauth_run net ma limits n (on_swarm_event a event)"

lemma failure_releases: "on_swarm_event a event = (case event of ListenFailure connection \<Rightarrow> preauth_release a connection | OtherEvent \<Rightarrow> a)"
  by (simp add: on_swarm_event_def preauth_release_def split: from_swarm.split)

abbreviation pending_of :: "preauth_gate \<Rightarrow> bytes \<Rightarrow> (nat, nat) bmap" where
  "pending_of g b \<equiv> snd (bucket_view g 0 b)"

lemma pending_view: "snd (bucket_view g now b) = pending_of g b"
  by (simp add: bucket_view_def split: option.split)

definition in_flight_ok :: "preauth_admission \<Rightarrow> bool" where
  "in_flight_ok a \<longleftrightarrow>
     gate_ok (pa_gate a) \<and> bm_ok (pa_in_flight a) \<and> pg_pending_total (pa_gate a) = length (pa_in_flight a)
   \<and> (\<forall>c slot. bm_get (pa_in_flight a) c = Some slot \<longrightarrow> bm_has (pending_of (pa_gate a) (hs_source slot)) (hs_id slot))
   \<and> (\<forall>c c' slot slot'. bm_get (pa_in_flight a) c = Some slot \<and> bm_get (pa_in_flight a) c' = Some slot' \<and> hs_id slot = hs_id slot' \<longrightarrow> c = c')"

lemma in_flight_okD:
  assumes "in_flight_ok a"
  shows "gate_ok (pa_gate a)" "bm_ok (pa_in_flight a)" "pg_pending_total (pa_gate a) = length (pa_in_flight a)"
    "bm_get (pa_in_flight a) c = Some slot \<Longrightarrow> bm_has (pending_of (pa_gate a) (hs_source slot)) (hs_id slot)"
    "bm_get (pa_in_flight a) c = Some slot \<Longrightarrow> bm_get (pa_in_flight a) c' = Some slot' \<Longrightarrow> hs_id slot = hs_id slot' \<Longrightarrow> c = c'"
  using assms unfolding in_flight_ok_def by blast+

lemma pending_below:
  assumes "gate_ok g" "bm_has (pending_of g b) i"
  shows "i < pg_next_id g"
  using assms gate_okD(4) [OF assms(1), of b] by (auto simp: bucket_view_def source_ok_def bm_has_keys split: option.splits)

lemma slots_pending:
  assumes ok: "in_flight_ok a" and now: "now < U64_MAX" "pg_next_id (pa_gate a) < U64_MAX" and "\<not> bm_has (pa_in_flight a) c"
    and h: "handle_pending_inbound net ma a c local_addr remote_addr now = (answer, a')"
  shows "in_flight_ok a'"
proof -
  note i = in_flight_okD [OF ok]
  let ?l = "source_label net ma local_addr remote_addr"
  obtain r g where p: "preauth_admit net (pa_gate a) ?l now = (r, g)" by (rule prod.exhaust)
  note f = admit_facts [OF i(1) now p]
  show ?thesis
  proof (cases r)
    case (Inl e)
    have "pending_of g = pending_of (pa_gate a)" "pg_pending_total g = pg_pending_total (pa_gate a)"
      using f Inl pending_view [of g now] pending_view [of "pa_gate a" now] by (auto simp: same_account_def fun_eq_iff)
    then show ?thesis using i f h p Inl by (auto simp: in_flight_ok_def handle_pending_inbound_def fun_eq_iff)
  next
    case (Inr slot)
    let ?b = "source_bucket net ?l"
    have pend: "pending_of g x = (if x = ?b then bm_insert (pg_next_id (pa_gate a)) now (pending_of (pa_gate a) ?b) else pending_of (pa_gate a) x)" for x
      using f Inr pending_view [of g now x] pending_view [of "pa_gate a" now] by (auto simp: charged_def)
    have slot: "hs_source slot = ?b" "hs_id slot = pg_next_id (pa_gate a)" "pg_pending_total g = pg_pending_total (pa_gate a) + 1"
      using f Inr by (simp_all add: charged_def)
    have ne: "hs_id s \<noteq> pg_next_id (pa_gate a)" if "bm_get (pa_in_flight a) c' = Some s" for c' s
      using pending_below [OF i(1) i(4) [OF that]] by simp
    have a': "a' = \<lparr>pa_gate = g, pa_in_flight = bm_insert c slot (pa_in_flight a)\<rparr>"
      using h p Inr by (simp add: handle_pending_inbound_def)
    have "bm_has (pending_of g (hs_source s)) (hs_id s)" if "bm_get (bm_insert c slot (pa_in_flight a)) x = Some s" for x s
      using that i(4) [of x s] slot(1,2) by (auto simp: pend split: if_splits)
    moreover have "x = y" if "bm_get (bm_insert c slot (pa_in_flight a)) x = Some s" "bm_get (bm_insert c slot (pa_in_flight a)) y = Some t"
      "hs_id s = hs_id t" for x y s t
      using that ne [of x s] ne [of y t] i(5) [of x s y t] slot(2) by (auto split: if_splits)
    moreover have "pg_pending_total g = length (bm_insert c slot (pa_in_flight a))" "gate_ok g"
      using assms(4) i(2,3) slot(3) f by (simp_all add: length_bm_insert)
    ultimately show ?thesis
      unfolding in_flight_ok_def a' preauth_admission.select_convs using bm_ok_insert [OF i(2)] by blast
  qed
qed

lemma slots_release:
  assumes ok: "in_flight_ok a"
  shows "in_flight_ok (preauth_release a c)" "pg_next_id (pa_gate (preauth_release a c)) = pg_next_id (pa_gate a)"
    "pg_limits (pa_gate (preauth_release a c)) = pg_limits (pa_gate a)"
    "bm_has (pa_in_flight a) c \<Longrightarrow> pg_pending_total (pa_gate (preauth_release a c)) + 1 = pg_pending_total (pa_gate a)"
proof -
  note i = in_flight_okD [OF ok]
  have "in_flight_ok (preauth_release a c) \<and> pg_next_id (pa_gate (preauth_release a c)) = pg_next_id (pa_gate a)
    \<and> pg_limits (pa_gate (preauth_release a c)) = pg_limits (pa_gate a)
    \<and> (bm_has (pa_in_flight a) c \<longrightarrow> pg_pending_total (pa_gate (preauth_release a c)) + 1 = pg_pending_total (pa_gate a))"
  proof (cases "bm_get (pa_in_flight a) c")
    case None
    then show ?thesis using ok by (simp add: preauth_release_def bm_has_def)
  next
    case (Some slot)
    let ?g = "handshake_completed (pa_gate a) slot"
    have a': "preauth_release a c = \<lparr>pa_gate = ?g, pa_in_flight = bm_remove c (pa_in_flight a)\<rparr>"
      using Some by (simp add: preauth_release_def)
    obtain s where s: "bm_get (pg_sources (pa_gate a)) (hs_source slot) = Some s" "bm_has (ss_pending s) (hs_id slot)"
      using i(4) [OF Some] by (auto simp: bucket_view_def bm_has_def split: option.splits)
    have pend: "pending_of ?g b = (if b = hs_source slot then bm_remove (hs_id slot) (pending_of (pa_gate a) b) else pending_of (pa_gate a) b)" for b
      using s by (auto simp: completed_view [OF s] bucket_view_def split: option.split)
    have len: "length (bm_remove c (pa_in_flight a)) + 1 = length (pa_in_flight a)"
      using Some i(2) by (cases "pa_in_flight a") (auto simp: length_bm_remove bm_has_def)
    then have total: "pg_pending_total ?g = length (bm_remove c (pa_in_flight a))"
      using i(3) by (simp add: completed_view [OF s])
    have "bm_has (pending_of ?g (hs_source t)) (hs_id t)" if "bm_get (pa_in_flight a) x = Some t" "x \<noteq> c" for x t
      using that i(4) [OF that(1)] i(5) [OF that(1) Some] by (auto simp: pend)
    then have "in_flight_ok (preauth_release a c)"
      using completed_ok(1) [OF i(1)] i(2,5) total unfolding in_flight_ok_def a' by (auto split: if_splits)
    then show ?thesis using completed_ok(2,3) [OF i(1)] total len i(3) by (simp add: a')
  qed
  then show "in_flight_ok (preauth_release a c)" "pg_next_id (pa_gate (preauth_release a c)) = pg_next_id (pa_gate a)"
    "pg_limits (pa_gate (preauth_release a c)) = pg_limits (pa_gate a)"
    "bm_has (pa_in_flight a) c \<Longrightarrow> pg_pending_total (pa_gate (preauth_release a c)) + 1 = pg_pending_total (pa_gate a)"
    by simp_all
qed

lemma release_frees:
  assumes ok: "in_flight_ok a" and c: "bm_get (pa_in_flight a) c = Some slot"
  shows "pg_pending_total (pa_gate (preauth_release a c)) + 1 = pg_pending_total (pa_gate a)"
    "pa_in_flight (preauth_release a c) = bm_remove c (pa_in_flight a)"
    "pending_of (pa_gate (preauth_release a c)) b =
      (if b = hs_source slot then bm_remove (hs_id slot) (pending_of (pa_gate a) b) else pending_of (pa_gate a) b)"
proof -
  obtain s where s: "bm_get (pg_sources (pa_gate a)) (hs_source slot) = Some s" "bm_has (ss_pending s) (hs_id slot)"
    using in_flight_okD(4) [OF ok c] by (auto simp: bucket_view_def bm_has_def split: option.splits)
  show "pending_of (pa_gate (preauth_release a c)) b =
      (if b = hs_source slot then bm_remove (hs_id slot) (pending_of (pa_gate a) b) else pending_of (pa_gate a) b)"
    using s by (auto simp: preauth_release_def c completed_view [OF s] bucket_view_def split: option.split)
  show "pa_in_flight (preauth_release a c) = bm_remove c (pa_in_flight a)" by (simp add: preauth_release_def c)
  show "pg_pending_total (pa_gate (preauth_release a c)) + 1 = pg_pending_total (pa_gate a)"
    using slots_release(4) [OF ok, of c] c by (simp add: bm_has_def)
qed

lemma preauth_run_ok:
  assumes "preauth_run net ma limits n a" "build_limits builder = Ok limits" "n \<le> U64_MAX"
  shows "in_flight_ok a \<and> pg_next_id (pa_gate a) \<le> n \<and> pg_limits (pa_gate a) = limits"
  using assms(1,3)
proof (induction rule: preauth_run.induct)
  case run_start
  then show ?case using gate_new_ok [OF assms(2)] by (simp add: in_flight_ok_def preauth_admission_new_def preauth_gate_new_def)
next
  case (run_pending n a connection now local_addr remote_addr answer a')
  have ih: "in_flight_ok a" "pg_next_id (pa_gate a) \<le> n" "pg_limits (pa_gate a) = limits" using run_pending by simp_all
  have id: "pg_next_id (pa_gate a) < U64_MAX" using ih(2) run_pending.prems by simp
  have "pa_gate a' = snd (preauth_admit net (pa_gate a) (source_label net ma local_addr remote_addr) now)"
    using run_pending.hyps(4) by (auto simp: handle_pending_inbound_def split: prod.splits sum.splits)
  then show ?case
    using slots_pending [OF ih(1) run_pending.hyps(3) id run_pending.hyps(2,4)] ih
      admit_next [OF in_flight_okD(1) [OF ih(1)] run_pending.hyps(3) id, of net "source_label net ma local_addr remote_addr"] by simp
next
  case (run_established n a connection)
  then show ?case using slots_release by (simp add: handle_established_inbound_def)
next
  case (run_event n a event)
  then show ?case using slots_release by (simp add: failure_releases split: from_swarm.split)
qed

text \<open>C15. 
  Slots are neither leaked nor given back twice.  Whatever connections come, are established and fail, in
  any order, the handshakes the gate counts are exactly the connections in flight; they stay within the
  configured total, those of one bucket within its share, the buckets remembered within their bound.  Both
  handlers that end a connection in flight, establishment and the failure of its listening, take it out, lower the total by one and its
  bucket by its own handshake, and leave every other bucket's handshakes alone; for a connection not in flight they
  change nothing, and no other event of the swarm does.
\<close>

theorem preauth_slots_balance:
  assumes "build_limits builder = Ok limits" and "preauth_run net ma limits n a" and "n \<le> U64_MAX"
  shows "pg_pending_total (pa_gate a) = length (pa_in_flight a)
    \<and> length (pa_in_flight a) \<le> pl_max_pending_total limits
    \<and> length (filter (\<lambda>(_, slot). hs_source slot = b) (pa_in_flight a)) \<le> pl_max_pending_per_source limits
    \<and> length (pg_sources (pa_gate a)) \<le> pl_max_sources limits \<and> pl_max_sources limits \<le> 65536
    \<and> (\<forall>a' \<in> {handle_established_inbound a c, on_swarm_event a (ListenFailure c)}.
        case bm_get (pa_in_flight a) c of
          None \<Rightarrow> a' = a
        | Some slot \<Rightarrow>
            pg_pending_total (pa_gate a') + 1 = pg_pending_total (pa_gate a)
            \<and> pa_in_flight a' = bm_remove c (pa_in_flight a)
            \<and> (\<forall>x. pending_of (pa_gate a') x =
                 (if x = hs_source slot then bm_remove (hs_id slot) (pending_of (pa_gate a) x) else pending_of (pa_gate a) x)))
    \<and> on_swarm_event a OtherEvent = a"
proof -
  have run: "in_flight_ok a" "pg_limits (pa_gate a) = limits" using preauth_run_ok [OF assms(2,1,3)] by simp_all
  note i = in_flight_okD [OF run(1)] and g = gate_okD [OF in_flight_okD(1) [OF run(1)], unfolded run(2)]
  let ?f = "filter (\<lambda>(_, slot). hs_source slot = b) (pa_in_flight a)"
  have "distinct (map fst (pa_in_flight a))" by (rule bm_ok_distinct [OF i(2)])
  then have "distinct ?f" by (simp add: distinct_map)
  moreover have "inj_on (\<lambda>e. hs_id (snd e)) (set ?f)"
  proof (rule inj_onI)
    fix x y
    assume "x \<in> set ?f" "y \<in> set ?f" and e: "hs_id (snd x) = hs_id (snd y)"
    then have "bm_get (pa_in_flight a) (fst x) = Some (snd x)" "bm_get (pa_in_flight a) (fst y) = Some (snd y)"
      using bm_get_in_set [OF i(2), of "fst x" "snd x"] bm_get_in_set [OF i(2), of "fst y" "snd y"] by simp_all
    then show "x = y" using i(5) [OF _ _ e] by (metis option.inject prod.expand)
  qed
  ultimately have "length ?f = card ((\<lambda>e. hs_id (snd e)) ` set ?f)" by (simp only: card_image distinct_card)
  also have "\<dots> \<le> card (fst ` set (pending_of (pa_gate a) b))"
    using bm_get_in_set [OF i(2)] i(4) by (intro card_mono) (auto simp: bm_has_keys)
  also have "\<dots> \<le> length (pending_of (pa_gate a) b)" by (metis card_length length_map list.set_map)
  also have "\<dots> \<le> pl_max_pending_per_source limits"
    using g(4) [of b] by (auto simp: bucket_view_def source_ok_def split: option.split)
  finally have per: "length ?f \<le> pl_max_pending_per_source limits" .
  have ends: "case bm_get (pa_in_flight a) c of
          None \<Rightarrow> preauth_release a c = a
        | Some slot \<Rightarrow>
            pg_pending_total (pa_gate (preauth_release a c)) + 1 = pg_pending_total (pa_gate a)
            \<and> pa_in_flight (preauth_release a c) = bm_remove c (pa_in_flight a)
            \<and> (\<forall>x. pending_of (pa_gate (preauth_release a c)) x =
                 (if x = hs_source slot then bm_remove (hs_id slot) (pending_of (pa_gate a) x) else pending_of (pa_gate a) x))"
    using release_frees [OF run(1)] by (auto simp: preauth_release_def split: option.split)
  have same: "{handle_established_inbound a c, on_swarm_event a (ListenFailure c)} = {preauth_release a c}"
    by (simp add: handle_established_inbound_def failure_releases)
  have "on_swarm_event a OtherEvent = a" by (simp add: failure_releases)
  with ends per i(3) g(1,3,6) show ?thesis
    unfolding same by (simp add: limits_ok_def MAX_CONFIGURED_LIMIT_def)
qed

theorem preauth_slots_balance_witness:
  "(let a = snd (handle_pending_inbound plain_text \<lparr>show_peer = id, show_multiaddr = \<lambda>_. [9]\<rparr>
        (preauth_admission_new preauth_limits_default) 4 [] [PrIp4 [1]] 5)
    in pg_pending_total (pa_gate a) = length (pa_in_flight a) \<and> bm_has (pa_in_flight a) 4
      \<and> pa_in_flight (on_swarm_event a (ListenFailure 4)) = bm_remove 4 (pa_in_flight a)
      \<and> handle_established_inbound a 5 = a)"
proof -
  let ?ma = "\<lparr>show_peer = id, show_multiaddr = \<lambda>_. [9]\<rparr>"
  let ?a = "snd (handle_pending_inbound plain_text ?ma (preauth_admission_new preauth_limits_default) 4 [] [PrIp4 [1]] 5)"
  have "preauth_run plain_text ?ma preauth_limits_default (Suc 0) ?a"
    by (rule run_pending [OF run_start _ _ surjective_pairing]) (simp_all add: preauth_admission_new_def U64_MAX_def bm_has_def)
  note t = preauth_slots_balance [OF default_limits this, of "[1]"]
  have "bm_get (pa_in_flight ?a) 4 \<noteq> None" "bm_get (pa_in_flight ?a) 5 = None" by code_simp+
  then obtain slot where "bm_get (pa_in_flight ?a) 4 = Some slot" "bm_get (pa_in_flight ?a) 5 = None" by blast
  with t [of 4] t [of 5] show ?thesis unfolding Let_def bm_has_def by (simp add: U64_MAX_def)
qed

text \<open>
  Buckets are not to be had for free: a relayed connection is charged to its relay whatever remote
  address the circuit claims, the addresses of one \<open>/64\<close> share a bucket, and an IPv4 client seen through a
  dual-stack listener has the bucket it has otherwise.
\<close>

abbreviation read_ip :: "ip_text \<Rightarrow> bytes \<Rightarrow> ip_addr option" where
  "read_ip net s \<equiv> (case socket_ip net s of Some ip \<Rightarrow> Some ip | None \<Rightarrow> bare_ip net s)"

lemma relayed_charged_to_relay:
  "PrP2pCircuit \<in> set local_addr \<Longrightarrow> source_label net ma local_addr r = source_label net ma local_addr r'"
  by (simp add: source_label_def)

lemma bucket_of_prefix:
  assumes "read_ip net s = Some (IpV6 a)" "read_ip net s' = Some (IpV6 a')"
    and "to_ipv4_mapped a = None" "to_ipv4_mapped a' = None" "take 8 a = take 8 a'"
  shows "source_bucket net s = source_bucket net s'"
  using assms by (simp add: source_bucket_def)

lemma bucket_of_mapped:
  assumes "read_ip net s = Some (IpV6 (replicate 10 0 @ [0xFF, 0xFF] @ v4))" "read_ip net s' = Some (IpV4 v4)"
  shows "source_bucket net s = source_bucket net s'"
proof -
  have "to_ipv4_mapped (replicate 10 0 @ [0xFF, 0xFF] @ v4) = Some v4" by (simp add: to_ipv4_mapped_def)
  with assms show ?thesis by (simp add: source_bucket_def)
qed

end
