(* ===== verification/Ipc_Framing.thy ===== *)
theory Ipc_Framing
  imports Status "HOL-Library.Code_Target_Nat"
begin

text \<open>
  The framing of the local IPC socket: the length-prefixed codec of
  \<open>crates/api/ipc-protocol/src/framing.rs\<close>, the frame reader of the server
  (\<open>FrameReader::next\<close> in \<open>crates/local/ipc-server/src/frames.rs\<close>) and the two of the client
  (\<open>Reader::next\<close> and \<open>drain_next\<close> in \<open>crates/local/ipc-client/src/connection.rs\<close>).

  A Rust string is the list of its UTF-8 bytes.  What is not the program's own is an argument:
  \<open>json\<close> is the JSON parser, giving its message or whether the value is an object; \<open>read\<close> is one
  read of the socket into a buffer of 8192 bytes, giving a failure or the bytes read, none at the end of the
  stream; \<open>parse\<close> is the interpretation of a body as a frame of the protocol.  The readers are loops
  that end because an incomplete frame is shorter than the ceiling, which is what their termination
  proofs rest on.
\<close>

section \<open>The codec\<close>

definition LENGTH_PREFIX_BYTES :: nat where
  "LENGTH_PREFIX_BYTES = 4"

definition MAX_BODY_BYTES :: nat where
  "MAX_BODY_BYTES = 131072"

datatype ipc_frame_error =
    FeBodyTooLarge nat nat
  | FeZeroLength
  | FeIncomplete nat
  | FeNotUtf8
  | FeNotJson bytes
  | FeNotAnObject

type_synonym json_parser = "bytes \<Rightarrow> bytes + bool"

definition encode_frame :: "json_parser \<Rightarrow> bytes \<Rightarrow> ipc_frame_error + bytes" where
  "encode_frame json body =
    (if body = [] then Err FeZeroLength
     else if length body > MAX_BODY_BYTES then Err (FeBodyTooLarge (length body) MAX_BODY_BYTES)
     else
       case json body of
         Inl detail \<Rightarrow> Err (FeNotJson detail)
       | Inr is_object \<Rightarrow>
           if \<not> is_object then Err FeNotAnObject
           else if length body > U32_MAX then Err (FeBodyTooLarge (length body) MAX_BODY_BYTES)
           else Ok (be_bytes LENGTH_PREFIX_BYTES (length body) @ body))"

record decoded_frame =
  df_body :: bytes
  df_consumed :: nat

definition decode_frame :: "json_parser \<Rightarrow> bytes \<Rightarrow> ipc_frame_error + decoded_frame" where
  "decode_frame json buffer =
    (if length buffer < LENGTH_PREFIX_BYTES then Err (FeIncomplete (LENGTH_PREFIX_BYTES - length buffer))
     else
       let declared = be_val (take LENGTH_PREFIX_BYTES buffer) in
       if declared = 0 then Err FeZeroLength
       else if declared > MAX_BODY_BYTES then Err (FeBodyTooLarge declared MAX_BODY_BYTES)
       else
         let total = LENGTH_PREFIX_BYTES + declared in
         if length buffer < total then Err (FeIncomplete (total - length buffer))
         else
           let body = take declared (drop LENGTH_PREFIX_BYTES buffer) in
           if \<not> utf8_ok body then Err FeNotUtf8
           else
             case json body of
               Inl detail \<Rightarrow> Err (FeNotJson detail)
             | Inr is_object \<Rightarrow>
                 if \<not> is_object then Err FeNotAnObject
                 else Ok \<lparr>df_body = body, df_consumed = total\<rparr>)"

lemma decode_incomplete:
  assumes "decode_frame json buffer = Err (FeIncomplete n)"
  shows "length buffer < LENGTH_PREFIX_BYTES + MAX_BODY_BYTES" "0 < n"
  using assms by (auto simp: decode_frame_def Let_def split: if_splits sum.splits)

lemma decode_consumed:
  assumes "decode_frame json buffer = Ok d"
  shows "LENGTH_PREFIX_BYTES < df_consumed d" "df_consumed d \<le> length buffer"
  using assms by (auto simp: decode_frame_def Let_def split: if_splits sum.splits)

section \<open>The readers\<close>

type_synonym 's socket_read = "'s \<Rightarrow> (unit + bytes) \<times> 's"

datatype read_error =
    ReFrame ipc_frame_error
  | ReTruncated
  | ReIo

record 's frame_reader =
  fr_inner :: 's
  fr_buf :: bytes

definition frame_reader_new :: "'s \<Rightarrow> 's frame_reader" where
  "frame_reader_new inner = \<lparr>fr_inner = inner, fr_buf = []\<rparr>"

abbreviation room :: "bytes \<Rightarrow> nat" where
  "room buf \<equiv> LENGTH_PREFIX_BYTES + MAX_BODY_BYTES - length buf"

function frame_reader_next ::
  "json_parser \<Rightarrow> 's socket_read \<Rightarrow> 's frame_reader \<Rightarrow> (read_error + bytes option) \<times> 's frame_reader" where
  "frame_reader_next json read r =
    (case decode_frame json (fr_buf r) of
       Inr d \<Rightarrow> (Ok (Some (df_body d)), r\<lparr>fr_buf := drop (df_consumed d) (fr_buf r)\<rparr>)
     | Inl (FeIncomplete _) \<Rightarrow>
         (case read (fr_inner r) of
            (Inl _, inner) \<Rightarrow> (Err ReIo, r\<lparr>fr_inner := inner\<rparr>)
          | (Inr [], inner) \<Rightarrow>
              (if fr_buf r = [] then Ok None else Err ReTruncated, r\<lparr>fr_inner := inner\<rparr>)
          | (Inr (b # chunk), inner) \<Rightarrow>
              frame_reader_next json read (r\<lparr>fr_inner := inner, fr_buf := fr_buf r @ b # chunk\<rparr>))
     | Inl e \<Rightarrow> (Err (ReFrame e), r))"
  by pat_completeness auto

termination
  by (relation "measure (\<lambda>(json, read, r). room (fr_buf r))") (auto dest: decode_incomplete(1))

text \<open>The client's reader: the same loop over its own error type, with every body parsed.\<close>

function client_reader_next ::
  "json_parser \<Rightarrow> (bytes \<Rightarrow> transport_error + 'f) \<Rightarrow> 's socket_read \<Rightarrow> 's frame_reader
    \<Rightarrow> (transport_error + 'f option) \<times> 's frame_reader" where
  "client_reader_next json parse read r =
    (case decode_frame json (fr_buf r) of
       Inr d \<Rightarrow>
         (case parse (df_body d) of Inl e \<Rightarrow> Err e | Inr f \<Rightarrow> Ok (Some f),
          r\<lparr>fr_buf := drop (df_consumed d) (fr_buf r)\<rparr>)
     | Inl (FeIncomplete _) \<Rightarrow>
         (case read (fr_inner r) of
            (Inl _, inner) \<Rightarrow> (Err TeBackendUnavailable, r\<lparr>fr_inner := inner\<rparr>)
          | (Inr [], inner) \<Rightarrow>
              (if fr_buf r = [] then Ok None else Err TeBackendUnavailable, r\<lparr>fr_inner := inner\<rparr>)
          | (Inr (b # chunk), inner) \<Rightarrow>
              client_reader_next json parse read (r\<lparr>fr_inner := inner, fr_buf := fr_buf r @ b # chunk\<rparr>))
     | Inl e \<Rightarrow> (Err TeProtocolViolation, r))"
  by pat_completeness auto

termination
  by (relation "measure (\<lambda>(json, parse, read, r). room (fr_buf r))") (auto dest: decode_incomplete(1))

definition DRAIN_BUDGET :: nat where
  "DRAIN_BUDGET = 1024 * 1024"

text \<open>One non-blocking read: a failure, \<open>None\<close> when nothing has arrived, or the bytes read.\<close>

type_synonym 's poll_read = "'s \<Rightarrow> (unit + bytes option) \<times> 's"

record 's drain =
  dr_source :: 's
  dr_buf :: bytes
  dr_drained :: nat

function drain_next ::
  "json_parser \<Rightarrow> (bytes \<Rightarrow> transport_error + 'f) \<Rightarrow> 's poll_read \<Rightarrow> 's drain
    \<Rightarrow> (transport_error + 'f option) \<times> 's drain" where
  "drain_next json parse read r =
    (case decode_frame json (dr_buf r) of
       Inr d \<Rightarrow>
         (case parse (df_body d) of Inl e \<Rightarrow> Err e | Inr f \<Rightarrow> Ok (Some f),
          r\<lparr>dr_buf := drop (df_consumed d) (dr_buf r)\<rparr>)
     | Inl (FeIncomplete _) \<Rightarrow>
         if dr_drained r \<ge> DRAIN_BUDGET then (Ok None, r)
         else
           (case read (dr_source r) of
              (Inl _, source) \<Rightarrow> (Err TeBackendUnavailable, r\<lparr>dr_source := source\<rparr>)
            | (Inr None, source) \<Rightarrow> (Ok None, r\<lparr>dr_source := source\<rparr>)
            | (Inr (Some []), source) \<Rightarrow> (Ok None, r\<lparr>dr_source := source\<rparr>)
            | (Inr (Some (b # chunk)), source) \<Rightarrow>
                drain_next json parse read
                  (r\<lparr>dr_source := source, dr_drained := dr_drained r + length (b # chunk),
                     dr_buf := dr_buf r @ b # chunk\<rparr>))
     | Inl e \<Rightarrow> (Err TeProtocolViolation, r))"
  by pat_completeness auto

termination
  by (relation "measure (\<lambda>(json, parse, read, r). room (dr_buf r))") (auto dest: decode_incomplete(1))

declare frame_reader_next.simps [simp del] client_reader_next.simps [simp del] drain_next.simps [simp del]

section \<open>Frames on the wire\<close>

lemma encode_frame_iff:
  "encode_frame json b = Ok f \<longleftrightarrow>
    b \<noteq> [] \<and> length b \<le> MAX_BODY_BYTES \<and> json b = Inr True \<and> f = be_bytes LENGTH_PREFIX_BYTES (length b) @ b"
  by (auto simp: encode_frame_def MAX_BODY_BYTES_def U32_MAX_def split: sum.split)

lemma prefix_value:
  assumes "length b \<le> MAX_BODY_BYTES"
  shows "be_val (be_bytes LENGTH_PREFIX_BYTES (length b)) = length b"
  using assms by (simp add: be_val_be_bytes MAX_BODY_BYTES_def LENGTH_PREFIX_BYTES_def)

lemma decode_whole:
  assumes "encode_frame json b = Ok f" "utf8_ok b"
  shows "decode_frame json (f @ rest) = Ok \<lparr>df_body = b, df_consumed = length f\<rparr>"
  using assms prefix_value [of b] by (auto simp: encode_frame_iff decode_frame_def Let_def)

lemma decode_part:
  assumes "encode_frame json b = Ok (p @ q)" "q \<noteq> []"
  shows "\<exists>n. decode_frame json p = Err (FeIncomplete n)"
proof (cases "length p < LENGTH_PREFIX_BYTES")
  case False
  let ?l = "be_bytes LENGTH_PREFIX_BYTES (length b)"
  have e: "p @ q = ?l @ b" "b \<noteq> []" "length b \<le> MAX_BODY_BYTES" using assms(1) by (simp_all add: encode_frame_iff)
  have "take LENGTH_PREFIX_BYTES (p @ q) = ?l" unfolding e(1) by simp
  then have "take LENGTH_PREFIX_BYTES p = ?l" using False by simp
  moreover have "length p + length q = LENGTH_PREFIX_BYTES + length b" using arg_cong [OF e(1), of length] by simp
  then have "length p < LENGTH_PREFIX_BYTES + length b" using assms(2) by (cases q) auto
  ultimately show ?thesis using False e(2,3) prefix_value [OF e(3)] by (simp add: decode_frame_def Let_def)
qed (simp add: decode_frame_def)

text \<open>
  The codec is exact: a buffer decodes to a body precisely when it starts with the frame the encoder
  makes of that body, so neither end produces what the other refuses, and no body has two framings.
\<close>

theorem ipc_codec_exact:
  "decode_frame json buffer = Ok d \<longleftrightarrow>
    utf8_ok (df_body d) \<and> encode_frame json (df_body d) = Ok (take (df_consumed d) buffer)
    \<and> df_consumed d = LENGTH_PREFIX_BYTES + length (df_body d)"
proof
  assume d: "decode_frame json buffer = Ok d"
  let ?n = "be_val (take LENGTH_PREFIX_BYTES buffer)"
  have b: "LENGTH_PREFIX_BYTES + ?n \<le> length buffer" "0 < ?n" "?n \<le> MAX_BODY_BYTES"
      "df_body d = take ?n (drop LENGTH_PREFIX_BYTES buffer)" "df_consumed d = LENGTH_PREFIX_BYTES + ?n"
      "utf8_ok (df_body d)" "json (df_body d) = Inr True"
    using d by (auto simp: decode_frame_def Let_def split: if_splits sum.splits)
  then have len: "length (df_body d) = ?n" by simp
  have "be_bytes (length (take LENGTH_PREFIX_BYTES buffer)) ?n = take LENGTH_PREFIX_BYTES buffer"
    by (rule be_bytes_be_val)
  then have "be_bytes LENGTH_PREFIX_BYTES ?n = take LENGTH_PREFIX_BYTES buffer" using b(1) by simp
  then have "be_bytes LENGTH_PREFIX_BYTES ?n @ df_body d = take (LENGTH_PREFIX_BYTES + ?n) buffer"
    by (simp add: b(4) take_add)
  then show "utf8_ok (df_body d) \<and> encode_frame json (df_body d) = Ok (take (df_consumed d) buffer)
      \<and> df_consumed d = LENGTH_PREFIX_BYTES + length (df_body d)"
    using b len by (auto simp: encode_frame_iff)
next
  assume a: "utf8_ok (df_body d) \<and> encode_frame json (df_body d) = Ok (take (df_consumed d) buffer)
    \<and> df_consumed d = LENGTH_PREFIX_BYTES + length (df_body d)"
  then have "take (df_consumed d) buffer = be_bytes LENGTH_PREFIX_BYTES (length (df_body d)) @ df_body d"
    unfolding encode_frame_iff by blast
  from arg_cong [OF this, of length] have "length (take (df_consumed d) buffer) = df_consumed d" using a by simp
  with a decode_whole [of json "df_body d" "take (df_consumed d) buffer" "drop (df_consumed d) buffer"]
  show "decode_frame json buffer = Ok d" by simp
qed

section \<open>Reading a stream\<close>

text \<open>The socket, from the state \<open>s\<close>, delivers the bytes \<open>w\<close> in reads of any sizes and then ends.\<close>

inductive streams :: "'s socket_read \<Rightarrow> 's \<Rightarrow> bytes \<Rightarrow> bool" for read :: "'s socket_read" where
  streams_end: "read s = (Inr [], s') \<Longrightarrow> streams read s []"
| streams_more: "read s = (Inr chunk, s') \<Longrightarrow> chunk \<noteq> [] \<Longrightarrow> streams read s' w \<Longrightarrow> streams read s (chunk @ w)"

text \<open>The answers of \<open>k\<close> calls of a reader, and the state they leave.\<close>

fun calls :: "('r \<Rightarrow> 'a \<times> 'r) \<Rightarrow> nat \<Rightarrow> 'r \<Rightarrow> 'a list \<times> 'r" where
  "calls next_frame 0 r = ([], r)"
| "calls next_frame (Suc k) r =
    (let (answer, r) = next_frame r; (answers, r) = calls next_frame k r in (answer # answers, r))"

lemma length_calls: "length (fst (calls f k r)) = k"
  by (induction k arbitrary: r) (simp_all add: Let_def case_prod_beta)

lemma calls_invariant:
  assumes "\<And>r. P r \<Longrightarrow> P (snd (f r))" "P r"
  shows "P (snd (calls f k r))"
  using assms(2) by (induction k arbitrary: r) (simp_all add: Let_def case_prod_beta assms(1))

lemma next_decodes:
  assumes "decode_frame json (fr_buf r) = Ok d"
  shows "frame_reader_next json read r = (Ok (Some (df_body d)), r\<lparr>fr_buf := drop (df_consumed d) (fr_buf r)\<rparr>)"
  by (subst frame_reader_next.simps) (simp add: assms)

lemma next_reads:
  assumes "decode_frame json (fr_buf r) = Err (FeIncomplete n)" "read (fr_inner r) = (Inr chunk, s)" "chunk \<noteq> []"
  shows "frame_reader_next json read r = frame_reader_next json read \<lparr>fr_inner = s, fr_buf = fr_buf r @ chunk\<rparr>"
  using assms by (cases r, subst frame_reader_next.simps) (auto split: list.split)

lemma next_ends:
  assumes "decode_frame json (fr_buf r) = Err (FeIncomplete n)" "read (fr_inner r) = (Inr [], s)"
  shows "fst (frame_reader_next json read r) = (if fr_buf r = [] then Ok None else Err ReTruncated)"
  using assms by (subst frame_reader_next.simps) simp

lemma next_whole:
  assumes "streams read s w" "encode_frame json b = Ok f" "utf8_ok b" "buf = f @ x" "x @ w = rest"
  shows "\<exists>s' buf' w'. frame_reader_next json read \<lparr>fr_inner = s, fr_buf = buf\<rparr> = (Ok (Some b), \<lparr>fr_inner = s', fr_buf = buf'\<rparr>)
    \<and> streams read s' w' \<and> buf' @ w' = rest"
proof -
  have "frame_reader_next json read \<lparr>fr_inner = s, fr_buf = buf\<rparr> = (Ok (Some b), \<lparr>fr_inner = s, fr_buf = x\<rparr>)"
    using next_decodes [of json "\<lparr>fr_inner = s, fr_buf = buf\<rparr>"] decode_whole [OF assms(2,3), of x] assms(4) by simp
  then show ?thesis using assms(1,5) by blast
qed

lemma next_frame:
  assumes "streams read s w" "encode_frame json b = Ok f" "utf8_ok b" "buf @ w = f @ rest"
  shows "\<exists>s' buf' w'. frame_reader_next json read \<lparr>fr_inner = s, fr_buf = buf\<rparr> = (Ok (Some b), \<lparr>fr_inner = s', fr_buf = buf'\<rparr>)
    \<and> streams read s' w' \<and> buf' @ w' = rest"
  using assms(1,4)
proof (induction arbitrary: buf rule: streams.induct)
  case (streams_end s s')
  then show ?case by (intro next_whole [OF streams.streams_end [of read s s', OF streams_end.hyps] assms(2,3), where x = rest]) simp_all
next
  case (streams_more s chunk s' w)
  show ?case
  proof (cases "length f \<le> length buf")
    case True
    then obtain x where "buf = f @ x" "x @ chunk @ w = rest"
      using streams_more.prems by (auto simp: append_eq_append_conv2)
    then show ?thesis by (rule next_whole [OF streams.streams_more [of read s chunk s' w, OF streams_more.hyps] assms(2,3)])
  next
    case False
    then obtain q where q: "f = buf @ q" "q \<noteq> []"
      using streams_more.prems by (auto simp: append_eq_append_conv2)
    then obtain n where d: "decode_frame json buf = Err (FeIncomplete n)" using decode_part assms(2) by blast
    have e: "frame_reader_next json read \<lparr>fr_inner = s, fr_buf = buf\<rparr> = frame_reader_next json read \<lparr>fr_inner = s', fr_buf = buf @ chunk\<rparr>"
      using next_reads [of json "\<lparr>fr_inner = s, fr_buf = buf\<rparr>" n read chunk s'] d streams_more.hyps by simp
    have "(buf @ chunk) @ w = f @ rest" using streams_more.prems by simp
    from streams_more.IH [OF this] show ?thesis unfolding e .
  qed
qed

lemma next_cut:
  assumes "streams read s w" "encode_frame json b = Ok (p @ q)" "q \<noteq> []" "buf @ w = p"
  shows "fst (frame_reader_next json read \<lparr>fr_inner = s, fr_buf = buf\<rparr>) = (if p = [] then Ok None else Err ReTruncated)"
  using assms(1,4)
proof (induction arbitrary: buf rule: streams.induct)
  case (streams_end s s')
  obtain n where "decode_frame json p = Err (FeIncomplete n)" using decode_part [OF assms(2,3)] ..
  with streams_end show ?case using next_ends [of json "\<lparr>fr_inner = s, fr_buf = buf\<rparr>" n read s'] by simp
next
  case (streams_more s chunk s' w)
  have "encode_frame json b = Ok (buf @ ((chunk @ w) @ q))" using assms(2) streams_more.prems by auto
  then obtain n where d: "decode_frame json buf = Err (FeIncomplete n)" using decode_part assms(3) by blast
  have e: "frame_reader_next json read \<lparr>fr_inner = s, fr_buf = buf\<rparr> = frame_reader_next json read \<lparr>fr_inner = s', fr_buf = buf @ chunk\<rparr>"
    using next_reads [of json "\<lparr>fr_inner = s, fr_buf = buf\<rparr>" n read chunk s'] d streams_more.hyps by simp
  have "(buf @ chunk) @ w = p" using streams_more.prems by simp
  from streams_more.IH [OF this] show ?case unfolding e .
qed

text \<open>C23. 
  Frames arrive exactly as sent.  However the socket cuts or joins them into reads, a reader handed the
  encodings of some bodies returns those bodies, each once and in order; then a clean end when the stream ends
  between frames, and a truncation when it ends inside one.
\<close>

theorem ipc_frames_delivered:
  assumes "list_all2 (\<lambda>b f. utf8_ok b \<and> encode_frame json b = Ok f) bodies frames"
    and "encode_frame json b = Ok (p @ q)" and "q \<noteq> []"
    and "streams read s (concat frames @ p)"
  shows "fst (calls (frame_reader_next json read) (Suc (length bodies)) (frame_reader_new s)) =
    map (\<lambda>body. Ok (Some body)) bodies @ [if p = [] then Ok None else Err ReTruncated]"
proof -
  have "fst (calls (frame_reader_next json read) (Suc (length bodies)) \<lparr>fr_inner = s, fr_buf = buf\<rparr>) =
      map (\<lambda>body. Ok (Some body)) bodies @ [if p = [] then Ok None else Err ReTruncated]"
    if "streams read s w" "buf @ w = concat frames @ p" for s w buf
    using assms(1) that
  proof (induction arbitrary: s w buf rule: list_all2_induct)
    case Nil
    then show ?case using next_cut [OF Nil(1) assms(2,3), of buf] by (simp add: Let_def case_prod_beta)
  next
    case (Cons body bodies f frames)
    from Cons.prems(2) have "buf @ w = f @ (concat frames @ p)" by simp
    from next_frame [OF Cons.prems(1) _ _ this] Cons.hyps(1) obtain s' buf' w' where
      n: "frame_reader_next json read \<lparr>fr_inner = s, fr_buf = buf\<rparr> = (Ok (Some body), \<lparr>fr_inner = s', fr_buf = buf'\<rparr>)"
        "streams read s' w'" "buf' @ w' = concat frames @ p"
      by blast
    from Cons.IH [OF n(2,3)] show ?case by (simp add: n(1) Let_def case_prod_beta)
  qed
  from this [OF assms(4), of "[]"] show ?thesis by (simp add: frame_reader_new_def)
qed

text \<open>A socket given as the list of its reads, ended by the end of the stream.\<close>

fun listed_read :: "bytes list socket_read" where
  "listed_read [] = (Inr [], [])"
| "listed_read (chunk # chunks) = (Inr chunk, chunks)"

lemma streams_listed: "list_all (\<lambda>chunk. chunk \<noteq> []) chunks \<Longrightarrow> streams listed_read chunks (concat chunks)"
  by (induction chunks) (auto intro: streams.intros)

text \<open>A stand-in for the parser: an object is what stands between braces.\<close>

definition braces :: json_parser where
  "braces body = (if body \<noteq> [] \<and> hd body = 123 \<and> last body = 125 then Inr True else Inl [])"

theorem ipc_frames_delivered_witness:
  "fst (calls (frame_reader_next braces listed_read) 3
      (frame_reader_new [[0, 0], [0, 2, 123, 125, 0, 0, 0], [3, 123, 7], [125, 0, 0]]))
    = [Ok (Some [123, 125]), Ok (Some [123, 7, 125]), Err ReTruncated]"
proof -
  let ?chunks = "[[0, 0], [0, 2, 123, 125, 0, 0, 0], [3, 123, 7], [125, 0, 0]] :: bytes list"
  have "list_all2 (\<lambda>b f. utf8_ok b \<and> encode_frame braces b = Ok f)
      [[123, 125], [123, 7, 125]] [[0, 0, 0, 2, 123, 125], [0, 0, 0, 3, 123, 7, 125]]"
    by code_simp
  moreover have "encode_frame braces [123, 125] = Ok ([0, 0] @ [0, 2, 123, 125])" by code_simp
  moreover have "streams listed_read ?chunks (concat [[0, 0, 0, 2, 123, 125], [0, 0, 0, 3, 123, 7, 125]] @ [0, 0])"
    using streams_listed [of ?chunks] by simp
  ultimately show ?thesis
    using ipc_frames_delivered [of braces "[[123, 125], [123, 7, 125]]" "[[0, 0, 0, 2, 123, 125], [0, 0, 0, 3, 123, 7, 125]]"
        "[123, 125]" "[0, 0]" "[0, 2, 123, 125]" listed_read ?chunks]
    by (simp add: numeral_3_eq_3)
qed

section \<open>What a reader costs\<close>

definition READ_CHUNK :: nat where
  "READ_CHUNK = 8192"

text \<open>A socket that counts its reads.\<close>

definition counted :: "'s socket_read \<Rightarrow> ('s \<times> nat) socket_read" where
  "counted read s = (let (answer, inner) = read (fst s) in (answer, (inner, Suc (snd s))))"

lemma counted_read: "counted read s = (a, s') \<longleftrightarrow> read (fst s) = (a, fst s') \<and> snd s' = Suc (snd s)"
  by (cases s') (auto simp: counted_def Let_def split: prod.splits)

definition BUFFER_LIMIT :: nat where
  "BUFFER_LIMIT = LENGTH_PREFIX_BYTES + MAX_BODY_BYTES + READ_CHUNK"

lemma next_stops:
  assumes "\<nexists>n chunk s. decode_frame json (fr_buf r) = Err (FeIncomplete n) \<and> read (fr_inner r) = (Inr chunk, s) \<and> chunk \<noteq> []"
  shows "length (fr_buf (snd (frame_reader_next json read r))) \<le> length (fr_buf r)
    \<and> fr_inner (snd (frame_reader_next json read r)) =
      (if \<exists>n. decode_frame json (fr_buf r) = Err (FeIncomplete n) then snd (read (fr_inner r)) else fr_inner r)"
  using assms
  by (subst (1 2) frame_reader_next.simps) (auto split: sum.split ipc_frame_error.split prod.split list.split)

lemma next_cost:
  assumes bounded: "\<forall>s chunk s'. read s = (Inr chunk, s') \<longrightarrow> length chunk \<le> READ_CHUNK"
  shows "snd (fr_inner (snd (frame_reader_next json (counted read) r))) \<le> snd (fr_inner r) + room (fr_buf r)
    \<and> (length (fr_buf r) < BUFFER_LIMIT \<longrightarrow> length (fr_buf (snd (frame_reader_next json (counted read) r))) < BUFFER_LIMIT)"
proof (induction "room (fr_buf r)" arbitrary: r rule: less_induct)
  case less
  show ?case
  proof (cases "\<exists>n chunk s. decode_frame json (fr_buf r) = Err (FeIncomplete n) \<and> counted read (fr_inner r) = (Inr chunk, s) \<and> chunk \<noteq> []")
    case True
    then obtain n chunk s where d: "decode_frame json (fr_buf r) = Err (FeIncomplete n)"
      and c: "counted read (fr_inner r) = (Inr chunk, s)" "chunk \<noteq> []" by blast
    let ?r = "\<lparr>fr_inner = s, fr_buf = fr_buf r @ chunk\<rparr>"
    note short = decode_incomplete(1) [OF d]
    have c': "read (fst (fr_inner r)) = (Inr chunk, fst s)" "snd s = Suc (snd (fr_inner r))"
      using c(1) by (simp_all add: counted_read)
    have "room (fr_buf ?r) < room (fr_buf r)" using c(2) short by (cases chunk) auto
    moreover have "length (fr_buf ?r) < BUFFER_LIMIT" using bounded c'(1) short by (fastforce simp: BUFFER_LIMIT_def)
    ultimately show ?thesis
      unfolding next_reads [of json r n "counted read" chunk s, OF d c] using less [of ?r] c'(2) short by force
  next
    case False
    show ?thesis using next_stops [of json r "counted read", OF False] decode_incomplete(1) [of json "fr_buf r"]
      by (auto simp: counted_def Let_def case_prod_beta)
  qed
qed

text \<open>C25. 
  A reader is never made to hold or wait for more than a frame.  Whatever the peer sends, each call
  returns after at most as many reads as bytes are missing from the largest frame; between calls the buffer
  holds less than the largest frame and one read; and a declared length that is zero or over the ceiling
  is refused as soon as its four bytes are there, with no further read.
\<close>

theorem ipc_reader_bounded:
  assumes "\<forall>s chunk s'. read s = (Inr chunk, s') \<longrightarrow> length chunk \<le> READ_CHUNK"
    and "r = snd (calls (frame_reader_next json (counted read)) k (frame_reader_new (s, 0)))"
    and "frame_reader_next json (counted read) r = (answer, r')"
  shows "snd (fr_inner r') \<le> snd (fr_inner r) + (131076 - length (fr_buf r))
    \<and> length (fr_buf r) < 139268
    \<and> (4 \<le> length (fr_buf r) \<and> be_val (take 4 (fr_buf r)) \<notin> {1..131072} \<longrightarrow> (\<exists>e. answer = Err (ReFrame e)) \<and> r' = r)"
proof -
  note cost = next_cost [OF assms(1), where json = json]
  have "length (fr_buf r) < BUFFER_LIMIT"
    unfolding assms(2) by (rule calls_invariant) (use cost in \<open>auto simp: frame_reader_new_def BUFFER_LIMIT_def LENGTH_PREFIX_BYTES_def\<close>)
  moreover have "(\<exists>e. answer = Err (ReFrame e)) \<and> r' = r"
    if "4 \<le> length (fr_buf r)" "be_val (take 4 (fr_buf r)) \<notin> {1..131072}"
  proof -
    have "decode_frame json (fr_buf r) \<in> {Err FeZeroLength, Err (FeBodyTooLarge (be_val (take 4 (fr_buf r))) 131072)}"
      using that by (auto simp: decode_frame_def LENGTH_PREFIX_BYTES_def MAX_BODY_BYTES_def Let_def)
    then show ?thesis using assms(3) by (subst (asm) frame_reader_next.simps) auto
  qed
  ultimately show ?thesis
    using cost [of r] assms(3) by (auto simp: BUFFER_LIMIT_def LENGTH_PREFIX_BYTES_def MAX_BODY_BYTES_def READ_CHUNK_def)
qed

fun small_read :: "nat socket_read" where
  "small_read s = (Inr (replicate (min s 2) 123), s - 2)"

theorem ipc_reader_bounded_witness:
  "length (fr_buf (snd (calls (frame_reader_next braces (counted small_read)) 3 (frame_reader_new (9, 0))))) < 139268"
proof -
  have "\<forall>s chunk s'. small_read s = (Inr chunk, s') \<longrightarrow> length chunk \<le> READ_CHUNK"
    by (auto simp: READ_CHUNK_def min_def)
  from ipc_reader_bounded [OF this refl surjective_pairing, of braces 3 9] show ?thesis by blast
qed

section \<open>The client\<close>

fun client_answer :: "(bytes \<Rightarrow> transport_error + 'f) \<Rightarrow> read_error + bytes option \<Rightarrow> transport_error + 'f option" where
  "client_answer parse (Inr (Some body)) = (case parse body of Inl e \<Rightarrow> Err e | Inr f \<Rightarrow> Ok (Some f))"
| "client_answer parse (Inr None) = Ok None"
| "client_answer parse (Inl (ReFrame _)) = Err TeProtocolViolation"
| "client_answer parse (Inl _) = Err TeBackendUnavailable"

text \<open>C26. 
  Both ends read a stream alike: the client's reader takes from the socket and leaves in its buffer
  exactly what the server's does, and its answer is the server's, parsed, with the errors of the transport.
\<close>

theorem client_reads_as_server:
  "client_reader_next json parse read r = map_prod (client_answer parse) id (frame_reader_next json read r)"
proof (induction json read r rule: frame_reader_next.induct)
  case (1 json read r)
  show ?case
    by (subst client_reader_next.simps, subst frame_reader_next.simps)
      (use 1 in \<open>auto simp: id_def split: sum.split ipc_frame_error.split prod.split list.split\<close>)
qed

lemma drain_reads:
  assumes "decode_frame json (dr_buf r) = Err (FeIncomplete n)" "dr_drained r < DRAIN_BUDGET"
    and "read (dr_source r) = (Inr (Some chunk), s)" "chunk \<noteq> []"
  shows "drain_next json parse read r =
    drain_next json parse read \<lparr>dr_source = s, dr_buf = dr_buf r @ chunk, dr_drained = dr_drained r + length chunk\<rparr>"
  using assms by (cases r, subst drain_next.simps) (auto split: list.split)

lemma drain_stops:
  assumes "\<nexists>n chunk s. decode_frame json (dr_buf r) = Err (FeIncomplete n) \<and> dr_drained r < DRAIN_BUDGET
    \<and> read (dr_source r) = (Inr (Some chunk), s) \<and> chunk \<noteq> []"
    and "drain_next json parse read r = (answer, r')"
  shows "dr_drained r' = dr_drained r \<and> (\<exists>n. dr_buf r' = drop n (dr_buf r) \<and> n \<le> length (dr_buf r)
    \<and> (\<forall>f. answer = Ok (Some f) \<longrightarrow> LENGTH_PREFIX_BYTES < n))"
proof (cases "decode_frame json (dr_buf r)")
  case (Inr d)
  with assms(2) have "dr_drained r' = dr_drained r" "dr_buf r' = drop (df_consumed d) (dr_buf r)"
    by (subst (asm) drain_next.simps, auto)+
  then show ?thesis using decode_consumed [OF Inr] by auto
next
  case (Inl e)
  then have "dr_drained r' = dr_drained r \<and> dr_buf r' = dr_buf r \<and> (\<nexists>f. answer = Ok (Some f))"
    using assms by (subst (asm) drain_next.simps)
      (auto split: ipc_frame_error.splits if_splits prod.splits sum.splits option.splits list.splits)
  then show ?thesis by (intro conjI exI [of _ 0]) auto
qed

lemma drain_cost:
  assumes bounded: "\<forall>s chunk s'. read s = (Inr (Some chunk), s') \<longrightarrow> length chunk \<le> READ_CHUNK"
    and "drain_next json parse read r = (answer, r')"
  shows "(dr_drained r < DRAIN_BUDGET + READ_CHUNK \<longrightarrow> dr_drained r' < DRAIN_BUDGET + READ_CHUNK)
    \<and> length (dr_buf r') + (if \<exists>f. answer = Ok (Some f) then 5 else 0) + dr_drained r \<le> length (dr_buf r) + dr_drained r'"
  using assms(2)
proof (induction "room (dr_buf r)" arbitrary: r rule: less_induct)
  case less
  show ?case
  proof (cases "\<exists>n chunk s. decode_frame json (dr_buf r) = Err (FeIncomplete n) \<and> dr_drained r < DRAIN_BUDGET
    \<and> read (dr_source r) = (Inr (Some chunk), s) \<and> chunk \<noteq> []")
    case True
    then obtain n chunk s where d: "decode_frame json (dr_buf r) = Err (FeIncomplete n)" "dr_drained r < DRAIN_BUDGET"
      and c: "read (dr_source r) = (Inr (Some chunk), s)" "chunk \<noteq> []" by blast
    let ?r = "\<lparr>dr_source = s, dr_buf = dr_buf r @ chunk, dr_drained = dr_drained r + length chunk\<rparr>"
    have "room (dr_buf ?r) < room (dr_buf r)" using c(2) decode_incomplete(1) [OF d(1)] by (cases chunk) auto
    moreover have "drain_next json parse read ?r = (answer, r')"
      using less.prems by (simp only: drain_reads [of json r n read chunk s, OF d c])
    moreover have "dr_drained ?r < DRAIN_BUDGET + READ_CHUNK" using d(2) bounded c(1) by fastforce
    ultimately show ?thesis using less.hyps [of ?r] by simp
  next
    case False
    obtain n where "dr_drained r' = dr_drained r" "dr_buf r' = drop n (dr_buf r)" "n \<le> length (dr_buf r)"
      "\<forall>f. answer = Ok (Some f) \<longrightarrow> LENGTH_PREFIX_BYTES < n"
      using drain_stops [OF False less.prems] by blast
    then show ?thesis by (auto simp: LENGTH_PREFIX_BYTES_def)
  qed
qed

text \<open>C24. 
  The drain after a failed write ends, however much keeps arriving: no more than the budget and one
  read is ever taken in, so among at most as many calls as that and the buffer hold of the smallest frames,
  and one more, there is one that does not answer with a frame.
\<close>

theorem drain_ends:
  assumes "\<forall>s chunk s'. read s = (Inr (Some chunk), s') \<longrightarrow> length chunk \<le> READ_CHUNK"
    and "dr_drained r = 0"
  shows "dr_drained (snd (calls (drain_next json parse read) k r)) \<le> 1056767
    \<and> (\<exists>answer \<in> set (fst (calls (drain_next json parse read) (Suc ((length (dr_buf r) + 1056767) div 5)) r)).
        \<nexists>f. answer = Ok (Some f))"
proof
  let ?next = "drain_next json parse read"
  note cost = drain_cost [OF assms(1), where json = json and parse = parse]
  have drained: "dr_drained (snd (calls ?next k r)) < DRAIN_BUDGET + READ_CHUNK" for k
    by (rule calls_invariant) (use cost [OF surjective_pairing] assms(2) in \<open>auto simp: DRAIN_BUDGET_def\<close>)
  show "dr_drained (snd (calls ?next k r)) \<le> 1056767"
    using drained [of k] by (simp add: DRAIN_BUDGET_def READ_CHUNK_def)
  have frames: "5 * k + dr_drained r \<le> length (dr_buf r) + dr_drained (snd (calls ?next k r))"
    if "\<forall>answer \<in> set (fst (calls ?next k r)). \<exists>f. answer = Ok (Some f)" for k r
    using that
  proof (induction k arbitrary: r)
    case (Suc k)
    obtain answer r1 where n: "?next r = (answer, r1)" by (rule prod.exhaust)
    have "5 * k + dr_drained r1 \<le> length (dr_buf r1) + dr_drained (snd (calls ?next k r1))"
      using Suc by (simp add: n Let_def case_prod_beta)
    moreover have "\<exists>f. answer = Ok (Some f)" using Suc.prems by (simp add: n Let_def case_prod_beta)
    ultimately show ?case using cost [OF n] by (simp add: n Let_def case_prod_beta)
  qed simp
  let ?k = "Suc ((length (dr_buf r) + 1056767) div 5)"
  show "\<exists>answer \<in> set (fst (calls ?next ?k r)). \<nexists>f. answer = Ok (Some f)"
  proof (rule ccontr)
    assume "\<not> ?thesis"
    then have "5 * ?k \<le> length (dr_buf r) + dr_drained (snd (calls ?next ?k r))"
      using frames [of ?k r] by auto
    then show False using drained [of ?k] by (simp add: DRAIN_BUDGET_def READ_CHUNK_def)
  qed
qed

fun endless_poll :: "unit poll_read" where
  "endless_poll s = (Inr (Some [0, 0, 0, 2, 123, 125]), s)"

theorem drain_ends_witness:
  "\<exists>answer \<in> set (fst (calls (drain_next braces Inr endless_poll) (Suc (1056767 div 5)) \<lparr>dr_source = (), dr_buf = [], dr_drained = 0\<rparr>)).
    \<nexists>f. answer = Ok (Some f)"
  using drain_ends [of endless_poll "\<lparr>dr_source = (), dr_buf = [], dr_drained = 0\<rparr>" braces Inr 0] by (auto simp: READ_CHUNK_def)

end
