(* ===== verification/Spec2Isabelle.thy ===== *)
theory Spec2Isabelle
  imports Direct_Delivery Directory_Node Broadcast_Delivery Connection_Tables Relay_Policy Preauth_Admission Ipc_Framing
begin

text \<open>
  A verification development for InterWeave, the peer-to-peer transport whose Rust sources
  are under \<open>src/crates\<close>.

  Identifiers, base64url and payloads (\<open>crates/api/transport-api\<close>) are modelled in
  \<open>Ids\<close>, \<open>Base64url\<close> and \<open>Payload\<close>; \<open>Prelude\<close> holds what all theories share.
\<close>

end
